(* ===== verification/Kanrin_Prelude.thy ===== *)
theory Kanrin_Prelude
  imports Main "HOL-Library.Word"
begin

text \<open>
  Shared vocabulary of the development: the machine integers of the Rust sources, Rust's
  \<open>Result\<close> as a sum, big-endian byte layouts, half-open slices, the clock, and the generic
  lemmas on them that every component uses.
\<close>

unbundle bit_operations_syntax

named_theorems codec_simps \<open>how the encoders and decoders compute\<close>
named_theorems inv_simps \<open>definitions of the component invariants\<close>

section \<open>Types\<close>

type_synonym u8 = "8 word"
type_synonym u16 = "16 word"
type_synonym u32 = "32 word"
type_synonym u64 = "64 word"
type_synonym bytes = "8 word list"

text \<open>
  \<open>usize\<close> counts bytes or elements held in memory and never reaches its bound there, so it
  is a \<open>nat\<close>; an \<open>as u16\<close> cast of such a count is written \<open>word_of_nat\<close> and wraps.
  \<open>Instant\<close> and \<open>Duration\<close> are nanosecond counts. Every operation that reads the clock
  takes the reading as an argument \<open>now\<close>.
\<close>

type_synonym instant = nat
type_synonym duration = nat

definition from_millis :: "nat \<Rightarrow> duration" where
  "from_millis n = n * 1000000"

definition from_secs :: "nat \<Rightarrow> duration" where
  "from_secs n = n * 1000000000"

text \<open>\<open>Instant::elapsed\<close> saturates at zero, as subtraction on \<open>nat\<close> does.\<close>

definition elapsed :: "instant \<Rightarrow> instant \<Rightarrow> duration" where
  "elapsed now t = now - t"

section \<open>Results\<close>

abbreviation Err :: "'e \<Rightarrow> 'e + 'a" where
  "Err \<equiv> Inl"

abbreviation Ok :: "'a \<Rightarrow> 'e + 'a" where
  "Ok \<equiv> Inr"

definition and_then :: "'e + 'a \<Rightarrow> ('a \<Rightarrow> 'e + 'b) \<Rightarrow> 'e + 'b" where
  "and_then r f = (case r of Inl e \<Rightarrow> Inl e | Inr a \<Rightarrow> f a)"

definition map_err :: "('e \<Rightarrow> 'f) \<Rightarrow> 'e + 'a \<Rightarrow> 'f + 'a" where
  "map_err g r = (case r of Inl e \<Rightarrow> Inl (g e) | Inr a \<Rightarrow> Inr a)"

definition is_ok :: "'e + 'a \<Rightarrow> bool" where
  "is_ok r = (case r of Inl _ \<Rightarrow> False | Inr _ \<Rightarrow> True)"

lemma and_then_simps [simp]:
  "and_then (Inl e) f = Inl e"
  "and_then (Inr a) f = f a"
  by (simp_all add: and_then_def)

lemma map_err_simps [simp]:
  "map_err g (Inl e) = Inl (g e)"
  "map_err g (Inr a) = Inr a"
  by (simp_all add: map_err_def)

lemma is_ok_simps [simp]:
  "is_ok (Inl e) = False"
  "is_ok (Inr a) = True"
  by (simp_all add: is_ok_def)

lemma and_then_Inr_iff: "and_then r f = Inr b \<longleftrightarrow> (\<exists>a. r = Inr a \<and> f a = Inr b)"
  by (cases r) auto

lemma and_then_Inl_iff: "and_then r f = Inl e \<longleftrightarrow> r = Inl e \<or> (\<exists>a. r = Inr a \<and> f a = Inl e)"
  by (cases r) auto

lemma map_err_Inr_iff [simp]: "map_err g r = Inr b \<longleftrightarrow> r = Inr b"
  by (cases r) auto

section \<open>Checked and saturating arithmetic\<close>

abbreviation word_MAX :: "'a::len word" where
  "word_MAX \<equiv> - 1"

definition checked_add :: "'a::len word \<Rightarrow> 'a word \<Rightarrow> 'a word option" where
  "checked_add a b = (if unat a + unat b < 2 ^ LENGTH('a) then Some (a + b) else None)"

definition checked_sub :: "'a::len word \<Rightarrow> 'a word \<Rightarrow> 'a word option" where
  "checked_sub a b = (if b \<le> a then Some (a - b) else None)"

definition abs_diff :: "'a::len word \<Rightarrow> 'a word \<Rightarrow> 'a word" where
  "abs_diff a b = (if a < b then b - a else a - b)"

lemma unat_lt: "unat (w :: 'a::len word) < 2 ^ LENGTH('a)"
  by (rule unsigned_less)

lemma unat_max: "unat (word_MAX :: 'a::len word) = 2 ^ LENGTH('a) - 1"
  by (simp add: unsigned_minus_1_eq_mask mask_eq_exp_minus_1)

lemma unat_add_small:
  fixes a b :: "'a::len word"
  assumes "unat a + unat b < 2 ^ LENGTH('a)"
  shows "unat (a + b) = unat a + unat b"
  using assms by (simp add: unat_word_ariths)

lemma unat_Suc:
  fixes a :: "'a::len word"
  assumes "a \<noteq> word_MAX"
  shows "unat (a + 1) = Suc (unat a)"
proof -
  have "1 + a \<noteq> 0"
    using assms max_word_wrap [of a] by (auto simp: add.commute)
  then show ?thesis by (simp add: unatSuc add.commute)
qed

lemma checked_add_1:
  fixes a :: "'a::len word"
  shows "checked_add a 1 = (if a = word_MAX then None else Some (a + 1))"
proof (cases "a = word_MAX")
  case True
  then show ?thesis by (simp add: checked_add_def unat_max)
next
  case False
  with unat_Suc [OF False] unat_lt [of "a + 1"] show ?thesis
    by (simp add: checked_add_def)
qed

lemma unat_abs_diff:
  "unat (abs_diff a b) = (if unat a < unat b then unat b - unat a else unat a - unat b)"
  by (auto simp: abs_diff_def word_less_nat_alt unat_sub word_le_nat_alt)

section \<open>Slices\<close>

text \<open>\<open>slice a b xs\<close> is \<open>&xs[a..b]\<close>; every use stands behind the length check that keeps
  the Rust index in range.\<close>

definition slice :: "nat \<Rightarrow> nat \<Rightarrow> 'a list \<Rightarrow> 'a list" where
  "slice a b xs = take (b - a) (drop a xs)"

lemma length_slice [simp]: "length (slice a b xs) = min (b - a) (length xs - a)"
  by (simp add: slice_def)

lemma slice_append_mid:
  assumes "length xs = a" and "length ys = b - a"
  shows "slice a b (xs @ ys @ zs) = ys"
  using assms by (simp add: slice_def)

lemma slice_0: "slice 0 b xs = take b xs"
  by (simp add: slice_def)

lemma slice_Cons_Suc [simp]: "slice (Suc a) (Suc b) (x # xs) = slice a b xs"
  by (simp add: slice_def)

section \<open>Big-endian layout\<close>

text \<open>\<open>to_be n w\<close> is \<open>w.to_be_bytes()\<close> for an \<open>n\<close>-byte integer, \<open>from_be\<close> is
  \<open>from_be_bytes\<close>.\<close>

primrec to_be :: "nat \<Rightarrow> 'a::len word \<Rightarrow> bytes" where
  "to_be 0 w = []"
| "to_be (Suc n) w = ucast (drop_bit (8 * n) w) # to_be n w"

definition be_nat :: "bytes \<Rightarrow> nat" where
  "be_nat bs = foldl (\<lambda>acc b. acc * 256 + unat b) 0 bs"

definition from_be :: "bytes \<Rightarrow> 'a::len word" where
  "from_be bs = word_of_nat (be_nat bs)"

abbreviation be16 :: "u16 \<Rightarrow> bytes" where
  "be16 \<equiv> to_be 2"

abbreviation be32 :: "u32 \<Rightarrow> bytes" where
  "be32 \<equiv> to_be 4"

abbreviation be64 :: "u64 \<Rightarrow> bytes" where
  "be64 \<equiv> to_be 8"

lemma length_to_be [simp]: "length (to_be n w) = n"
  by (induction n) simp_all

lemma be_nat_Nil [simp]: "be_nat [] = 0"
  by (simp add: be_nat_def)

lemma foldl_be:
  "foldl (\<lambda>acc b. acc * 256 + unat b) a bs = a * 256 ^ length bs + be_nat bs" for a :: nat and bs :: bytes
proof (induction bs arbitrary: a)
  case Nil
  then show ?case by simp
next
  case (Cons b bs)
  have "be_nat (b # bs) = unat b * 256 ^ length bs + be_nat bs"
    using Cons [of "unat b"] by (simp add: be_nat_def)
  then show ?case using Cons [of "a * 256 + unat b"] by (simp add: algebra_simps)
qed

lemma be_nat_Cons [simp]: "be_nat (b # bs) = unat b * 256 ^ length bs + be_nat bs"
  using foldl_be [of "unat b" bs] by (simp add: be_nat_def)

lemma be_nat_bound: "be_nat bs < 256 ^ length bs"
proof (induction bs)
  case Nil
  then show ?case by simp
next
  case (Cons b bs)
  have "Suc (unat b) \<le> 256" using unat_lt [of b] by simp
  then have "Suc (unat b) * 256 ^ length bs \<le> 256 * 256 ^ length bs"
    by (rule mult_le_mono1)
  then have "unat b * 256 ^ length bs + 256 ^ length bs \<le> 256 * 256 ^ length bs"
    by simp
  with Cons have "unat b * 256 ^ length bs + be_nat bs < 256 * 256 ^ length bs"
    by linarith
  then show ?case by simp
qed

lemma unat_byte_of:
  fixes w :: "'a::len word"
  shows "unat (ucast (drop_bit n w) :: u8) = unat w div 2 ^ n mod 256"
  by (simp add: unsigned_ucast_eq unsigned_drop_bit_eq take_bit_eq_mod flip: drop_bit_eq_div)

lemma be_nat_to_be: "be_nat (to_be n w) = unat w mod 256 ^ n"
proof (induction n)
  case 0
  then show ?case by simp
next
  case (Suc n)
  have "(2::nat) ^ (8 * n) = 256 ^ n" by (simp add: power_mult)
  then have "be_nat (to_be (Suc n) w) = unat w div 256 ^ n mod 256 * 256 ^ n + unat w mod 256 ^ n"
    by (simp add: unat_byte_of Suc.IH)
  also have "\<dots> = unat w mod (256 ^ n * 256)"
    by (simp add: mod_mult2_eq [of "unat w" "256 ^ n" 256] del: power_Suc)
  finally show ?case by (simp only: power_Suc2)
qed

lemma from_be_to_be [codec_simps]:
  fixes w :: "'a::len word"
  assumes "8 * n = LENGTH('a)"
  shows "from_be (to_be n w) = w"
proof -
  have "(256::nat) ^ n = 2 ^ LENGTH('a)"
    unfolding assms [symmetric] by (simp add: power_mult)
  then have "unat w mod 256 ^ n = unat w" by simp
  then show ?thesis by (simp add: from_be_def be_nat_to_be)
qed

lemma from_be16 [simp]: "from_be (be16 w) = w"
  and from_be32 [simp]: "from_be (be32 x) = x"
  and from_be64 [simp]: "from_be (be64 y) = y"
  by (simp_all add: from_be_to_be)

lemma to_be_eq_iff:
  fixes v w :: "'a::len word"
  assumes "8 * n = LENGTH('a)"
  shows "to_be n v = to_be n w \<longleftrightarrow> v = w"
  by (metis assms from_be_to_be)

lemma be_inject [simp]:
  "be16 a = be16 b \<longleftrightarrow> a = b"
  "be32 c = be32 d \<longleftrightarrow> c = d"
  "be64 e = be64 f \<longleftrightarrow> e = f"
  by (simp_all add: to_be_eq_iff)

lemma unat_from_be:
  assumes "8 * length bs \<le> LENGTH('a)"
  shows "unat (from_be bs :: 'a::len word) = be_nat bs"
proof -
  have "be_nat bs < 256 ^ length bs" by (rule be_nat_bound)
  also have "(256::nat) ^ length bs = 2 ^ (8 * length bs)" by (simp add: power_mult)
  also have "\<dots> \<le> 2 ^ LENGTH('a)" using assms by (intro power_increasing) auto
  finally show ?thesis by (simp add: from_be_def unat_of_nat)
qed

lemma digit_unique:
  fixes x y d e m :: nat
  assumes "d < m" and "e < m" and "x * m + d = y * m + e"
  shows "x = y \<and> d = e"
proof -
  have "(x * m + d) div m = x" and "(y * m + e) div m = y"
    using assms(1,2) by simp_all
  with assms(3) have "x = y" by metis
  with assms(3) show ?thesis by simp
qed

lemma be_nat_inject: "length as = length bs \<Longrightarrow> be_nat as = be_nat bs \<Longrightarrow> as = bs"
proof (induction as bs rule: list_induct2)
  case Nil
  then show ?case by simp
next
  case (Cons a as b bs)
  have "be_nat as < 256 ^ length as" "be_nat bs < 256 ^ length as"
    using be_nat_bound [of as] be_nat_bound [of bs] Cons.hyps by simp_all
  moreover have "unat a * 256 ^ length as + be_nat as = unat b * 256 ^ length as + be_nat bs"
    using Cons.prems Cons.hyps by simp
  ultimately have "unat a = unat b \<and> be_nat as = be_nat bs"
    by (rule digit_unique)
  then show ?case using Cons.IH by (simp add: word_unat_eq_iff)
qed

lemma to_be_from_be [codec_simps]:
  assumes "8 * length bs = LENGTH('a)"
  shows "to_be (length bs) (from_be bs :: 'a::len word) = bs"
proof (rule be_nat_inject)
  show "length (to_be (length bs) (from_be bs :: 'a word)) = length bs" by simp
  have "be_nat bs < 256 ^ length bs" by (rule be_nat_bound)
  with assms show "be_nat (to_be (length bs) (from_be bs :: 'a word)) = be_nat bs"
    by (simp add: be_nat_to_be unat_from_be)
qed

section \<open>Lists\<close>

lemma sorted_wrt_less_distinct: "sorted_wrt (<) xs \<Longrightarrow> distinct xs" for xs :: "'a::linorder list"
  by (simp add: strict_sorted_iff)

lemma sum_list_filter_partition:
  "sum_list (map f (filter P xs)) + sum_list (map f (filter (\<lambda>x. \<not> P x) xs)) = sum_list (map f xs)"
  for f :: "'a \<Rightarrow> nat"
  by (induction xs) simp_all

lemma length_filter_partition:
  "length (filter P xs) + length (filter (\<lambda>x. \<not> P x) xs) = length xs"
  by (induction xs) simp_all

end
