(* ===== verification/Std_Text.thy ===== *)
theory Std_Text
  imports Kanrin_Prelude
begin

text \<open>
  Rust's \<open>String\<close> and \<open>&str\<close>. A Rust string is a UTF-8 byte sequence, so it is a HOL
  \<open>string\<close> whose characters are those bytes: \<open>as_bytes\<close> and \<open>of_bytes\<close> convert,
  \<open>utf8_valid\<close> says that a byte sequence is one, and \<open>utf8_lossy\<close> is
  \<open>String::from_utf8_lossy\<close> (every maximal ill-formed part becomes U+FFFD). The formatting
  directives of the error messages are here as well.
\<close>

section \<open>Bytes and characters\<close>

definition byte_of :: "char \<Rightarrow> u8" where
  "byte_of c = word_of_nat (of_char c)"

definition char_at :: "u8 \<Rightarrow> char" where
  "char_at b = char_of (unat b)"

definition as_bytes :: "string \<Rightarrow> bytes" where
  "as_bytes s = map byte_of s"

definition of_bytes :: "bytes \<Rightarrow> string" where
  "of_bytes bs = map char_at bs"

lemma char_at_byte_of [simp]: "char_at (byte_of c) = c"
proof -
  have "(of_char c :: nat) < 256" by simp
  then have "unat (word_of_nat (of_char c) :: u8) = of_char c"
    by (simp add: unat_of_nat)
  then show ?thesis by (simp add: char_at_def byte_of_def)
qed

lemma byte_of_char_at [simp]: "byte_of (char_at b) = b"
  using unat_lt [of b] by (simp add: char_at_def byte_of_def)

lemma of_bytes_as_bytes [simp]: "of_bytes (as_bytes s) = s"
  by (induction s) (simp_all add: as_bytes_def of_bytes_def)

lemma as_bytes_of_bytes [simp]: "as_bytes (of_bytes bs) = bs"
  by (induction bs) (simp_all add: as_bytes_def of_bytes_def)

lemma as_bytes_inject [simp]: "as_bytes s = as_bytes t \<longleftrightarrow> s = t"
  by (metis of_bytes_as_bytes)

lemma of_bytes_inject [simp]: "of_bytes a = of_bytes b \<longleftrightarrow> a = b"
  by (metis as_bytes_of_bytes)

lemma length_as_bytes [simp]: "length (as_bytes s) = length s"
  by (simp add: as_bytes_def)

lemma length_of_bytes [simp]: "length (of_bytes bs) = length bs"
  by (simp add: of_bytes_def)

lemma as_bytes_simps [simp]:
  "as_bytes [] = []"
  "as_bytes (c # s) = byte_of c # as_bytes s"
  "as_bytes (s @ t) = as_bytes s @ as_bytes t"
  by (simp_all add: as_bytes_def)

section \<open>UTF-8\<close>

definition utf8_cont :: "u8 \<Rightarrow> bool" where
  "utf8_cont b = (0x80 \<le> b \<and> b \<le> 0xBF)"

text \<open>Which second bytes may follow the lead byte of a three- or four-byte sequence.\<close>

definition utf8_second :: "u8 \<Rightarrow> u8 \<Rightarrow> bool" where
  "utf8_second b c =
     (if b = 0xE0 then 0xA0 \<le> c \<and> c \<le> 0xBF
      else if b = 0xED then 0x80 \<le> c \<and> c \<le> 0x9F
      else if b = 0xF0 then 0x90 \<le> c \<and> c \<le> 0xBF
      else if b = 0xF4 then 0x80 \<le> c \<and> c \<le> 0x8F
      else utf8_cont c)"

definition byte_or_0 :: "bytes \<Rightarrow> nat \<Rightarrow> u8" where
  "byte_or_0 bs i = (if i < length bs then bs ! i else 0)"

text \<open>The width class of a lead byte (\<open>utf8_char_width\<close>).\<close>

definition utf8_lead2 :: "u8 \<Rightarrow> bool" where
  "utf8_lead2 b = (0xC2 \<le> b \<and> b \<le> 0xDF)"

definition utf8_lead3 :: "u8 \<Rightarrow> bool" where
  "utf8_lead3 b = (0xE0 \<le> b \<and> b \<le> 0xEF)"

definition utf8_lead4 :: "u8 \<Rightarrow> bool" where
  "utf8_lead4 b = (0xF0 \<le> b \<and> b \<le> 0xF4)"

definition utf8_shape :: "u8 \<Rightarrow> u8 \<Rightarrow> u8 \<Rightarrow> u8 \<Rightarrow> bool \<times> nat" where
  "utf8_shape b b1 b2 b3 =
     (if b < 0x80 then (True, 1)
      else if utf8_lead2 b then
        (if utf8_cont b1 then (True, 2) else (False, 1))
      else if utf8_lead3 b then
        (if \<not> utf8_second b b1 then (False, 1)
         else if \<not> utf8_cont b2 then (False, 2)
         else (True, 3))
      else if utf8_lead4 b then
        (if \<not> utf8_second b b1 then (False, 1)
         else if \<not> utf8_cont b2 then (False, 2)
         else if \<not> utf8_cont b3 then (False, 3)
         else (True, 4))
      else (False, 1))"

text \<open>One step over a non-empty byte sequence: whether it starts with a well-formed scalar
  value, and how many bytes the scalar value, or the ill-formed part, takes. Reading past the
  end gives 0, which continues nothing.\<close>

definition utf8_step :: "bytes \<Rightarrow> bool \<times> nat" where
  "utf8_step bs = utf8_shape (byte_or_0 bs 0) (byte_or_0 bs 1) (byte_or_0 bs 2) (byte_or_0 bs 3)"

lemma utf8_shape_agree:
  assumes "utf8_shape b b1 b2 b3 = (True, n)"
    and "1 < n \<Longrightarrow> c1 = b1" and "2 < n \<Longrightarrow> c2 = b2" and "3 < n \<Longrightarrow> c3 = b3"
  shows "utf8_shape b c1 c2 c3 = (True, n)"
  using assms by (auto simp: utf8_shape_def split: if_splits)

definition utf8_replacement :: bytes where
  "utf8_replacement = [0xEF, 0xBF, 0xBD]"

fun utf8_lossy :: "bytes \<Rightarrow> bytes" where
  "utf8_lossy [] = []"
| "utf8_lossy (b # bs) =
     (let (good, n) = utf8_step (b # bs) in
      (if good then take n (b # bs) else utf8_replacement) @ utf8_lossy (drop (n - 1) bs))"

fun utf8_valid :: "bytes \<Rightarrow> bool" where
  "utf8_valid [] = True"
| "utf8_valid (b # bs) =
     (let (good, n) = utf8_step (b # bs) in good \<and> utf8_valid (drop (n - 1) bs))"

lemma utf8_step_range: "snd (utf8_step bs) \<in> {1, 2, 3, 4}"
  by (simp add: utf8_step_def utf8_shape_def)

lemma utf8_step_pos: "0 < snd (utf8_step bs)"
  using utf8_step_range [of bs] by auto

lemma utf8_lossy_valid: "utf8_valid bs \<Longrightarrow> utf8_lossy bs = bs"
proof (induction bs rule: utf8_valid.induct)
  case 1
  then show ?case by simp
next
  case (2 b bs)
  obtain g n where s: "utf8_step (b # bs) = (g, n)" by fastforce
  then have "0 < n" using utf8_step_pos [of "b # bs"] by simp
  moreover have g: "g" "utf8_valid (drop (n - 1) bs)" using 2(2) s by auto
  moreover have "utf8_lossy (drop (n - 1) bs) = drop (n - 1) bs"
    using 2(1) [OF s [symmetric]] s g by simp
  ultimately show ?case
    using s by (cases n) simp_all
qed

lemma byte_or_0_Cons_0 [simp]: "byte_or_0 (b # bs) 0 = b"
  by (simp add: byte_or_0_def)

lemma utf8_cont_0 [simp]: "\<not> utf8_cont 0" and utf8_second_0 [simp]: "\<not> utf8_second b 0"
  by (simp_all add: utf8_cont_def utf8_second_def)

lemma byte_or_0_ge: "length bs \<le> i \<Longrightarrow> byte_or_0 bs i = 0"
  by (simp add: byte_or_0_def)

lemma utf8_step_length:
  assumes "utf8_step bs = (True, n)" and "bs \<noteq> []"
  shows "n \<le> length bs"
proof (rule ccontr)
  assume "\<not> n \<le> length bs"
  then have "length bs \<le> n - 1" "1 < n" using assms(2) by (cases bs; simp)+
  then have "byte_or_0 bs (n - 1) = 0" by (simp add: byte_or_0_ge)
  moreover from assms(1) have "n = 1 \<or> n = 2 \<and> utf8_cont (byte_or_0 bs 1) \<or>
      n = 3 \<and> utf8_cont (byte_or_0 bs 2) \<or> n = 4 \<and> utf8_cont (byte_or_0 bs 3)"
    by (auto simp: utf8_step_def utf8_shape_def split: if_splits)
  ultimately show False using \<open>1 < n\<close> by auto
qed

lemma byte_or_0_take_append:
  "n \<le> length bs \<Longrightarrow> i < n \<Longrightarrow> byte_or_0 (take n bs @ ys) i = byte_or_0 bs i"
  by (simp add: byte_or_0_def nth_append)

lemma utf8_step_take_append:
  assumes "utf8_step bs = (True, n)" and "bs \<noteq> []"
  shows "utf8_step (take n bs @ ys) = (True, n)"
proof -
  note len = utf8_step_length [OF assms]
  have "0 < n" using utf8_step_pos [of bs] assms(1) by simp
  with len have b0: "byte_or_0 (take n bs @ ys) 0 = byte_or_0 bs 0"
    by (simp add: byte_or_0_take_append)
  from assms(1) show ?thesis
    unfolding utf8_step_def b0
    by (rule utf8_shape_agree) (simp_all add: byte_or_0_take_append [OF len])
qed

lemma utf8_valid_step:
  assumes "utf8_step bs = (True, n)" and "bs \<noteq> []"
  shows "utf8_valid (take n bs @ ys) = utf8_valid ys"
proof -
  have "n \<le> length bs" and "0 < n"
    using utf8_step_length [OF assms] utf8_step_pos [of bs] assms(1) by simp_all
  then have len: "length (take n bs) = Suc (n - 1)" by simp
  then obtain b cs where cs: "take n bs = b # cs" "length cs = n - 1"
    unfolding length_Suc_conv by blast
  then show ?thesis
    using utf8_step_take_append [OF assms, of ys] by simp
qed

lemma utf8_step_replacement: "utf8_step (utf8_replacement @ ys) = (True, 3)"
  by (simp add: utf8_replacement_def utf8_step_def utf8_shape_def utf8_lead2_def utf8_lead3_def
      byte_or_0_def utf8_cont_def utf8_second_def)

text \<open>\<open>from_utf8_lossy\<close> always returns a Rust string, and is the identity on one.\<close>

lemma utf8_valid_lossy: "utf8_valid (utf8_lossy bs)"
proof (induction bs rule: utf8_lossy.induct)
  case 1
  then show ?case by simp
next
  case (2 b bs)
  obtain g n where s: "utf8_step (b # bs) = (g, n)" by fastforce
  have IH: "utf8_valid (utf8_lossy (drop (n - 1) bs))"
    using 2 [OF s [symmetric]] by simp
  show ?case
  proof (cases g)
    case True
    then show ?thesis
      using IH s utf8_valid_step [of "b # bs" n "utf8_lossy (drop (n - 1) bs)"] by simp
  next
    case False
    then show ?thesis
      using IH s utf8_valid_step [of utf8_replacement 3 "utf8_lossy (drop (n - 1) bs)"]
        utf8_step_replacement [of "[]"]
      by (simp add: utf8_replacement_def)
  qed
qed

lemma utf8_lossy_idem: "utf8_lossy (utf8_lossy bs) = utf8_lossy bs"
  by (rule utf8_lossy_valid) (rule utf8_valid_lossy)

lemma utf8_valid_ascii: "\<forall>b\<in>set bs. b < 0x80 \<Longrightarrow> utf8_valid bs"
  by (induction bs) (simp_all add: utf8_step_def utf8_shape_def)

text \<open>A Rust \<open>String\<close> value, and \<open>String::from_utf8_lossy(..).to_string()\<close>.\<close>

definition is_str :: "string \<Rightarrow> bool" where
  "is_str s = utf8_valid (as_bytes s)"

definition from_utf8_lossy :: "bytes \<Rightarrow> string" where
  "from_utf8_lossy bs = of_bytes (utf8_lossy bs)"

definition from_utf8 :: "bytes \<Rightarrow> string option" where
  "from_utf8 bs = (if utf8_valid bs then Some (of_bytes bs) else None)"

lemma from_utf8_lossy_as_bytes [simp]: "is_str s \<Longrightarrow> from_utf8_lossy (as_bytes s) = s"
  by (simp add: is_str_def from_utf8_lossy_def utf8_lossy_valid)

lemma is_str_from_utf8_lossy [simp]: "is_str (from_utf8_lossy bs)"
  by (simp add: is_str_def from_utf8_lossy_def utf8_valid_lossy)

lemma from_utf8_as_bytes: "is_str s \<Longrightarrow> from_utf8 (as_bytes s) = Some s"
  by (simp add: is_str_def from_utf8_def)

section \<open>Formatting\<close>

fun decimal :: "nat \<Rightarrow> string" where
  "decimal n = (if n < 10 then [char_of (48 + n)] else decimal (n div 10) @ [char_of (48 + n mod 10)])"

declare decimal.simps [simp del]

definition hex_digit :: "nat \<Rightarrow> char" where
  "hex_digit n = ''0123456789abcdef'' ! n"

text \<open>The directive \<open>{:02x}\<close> on a byte.\<close>

definition hex02 :: "u8 \<Rightarrow> string" where
  "hex02 b = [hex_digit (unat b div 16), hex_digit (unat b mod 16)]"

lemma decimal_not_Nil [simp]: "decimal n \<noteq> []"
  by (subst decimal.simps) simp

lemma hex_digit_inject: "m < 16 \<Longrightarrow> n < 16 \<Longrightarrow> hex_digit m = hex_digit n \<longleftrightarrow> m = n"
  unfolding hex_digit_def by (rule nth_eq_iff_index_eq) simp_all

lemma hex02_inject: "hex02 a = hex02 b \<longleftrightarrow> a = b"
proof
  have a: "unat a div 16 < 16" "unat b div 16 < 16"
    using unat_lt [of a] unat_lt [of b] by (simp_all add: less_mult_imp_div_less)
  assume "hex02 a = hex02 b"
  then have "unat a div 16 = unat b div 16" "unat a mod 16 = unat b mod 16"
    using a by (simp_all add: hex02_def hex_digit_inject)
  then have "unat a = unat b" by (metis div_mod_decomp)
  then show "a = b" by (simp add: word_unat_eq_iff)
qed simp

lemma utf8_valid_append: "utf8_valid a \<Longrightarrow> utf8_valid (a @ b) = utf8_valid b"
proof (induction a rule: utf8_valid.induct)
  case (2 x xs)
  obtain g n where s: "utf8_step (x # xs) = (g, n)" by fastforce
  with 2 have g: "utf8_step (x # xs) = (True, n)" "utf8_valid (drop (n - 1) xs)" by auto
  have n: "0 < n" using utf8_step_pos [of "x # xs"] s by simp
  then have "(x # xs) @ b = take n (x # xs) @ (drop (n - 1) xs @ b)" by (cases n) simp_all
  have "utf8_valid ((x # xs) @ b) = utf8_valid (drop (n - 1) xs @ b)"
    unfolding \<open>(x # xs) @ b = take n (x # xs) @ (drop (n - 1) xs @ b)\<close> using g(1) by (rule utf8_valid_step) simp
  then show ?case using 2(1) [OF s [symmetric]] g by simp
qed simp

lemma is_str_append: "is_str s \<Longrightarrow> is_str t \<Longrightarrow> is_str (s @ t)"
  by (simp add: is_str_def utf8_valid_append)

lemma is_str_ascii: "\<forall>c\<in>set s. byte_of c < 0x80 \<Longrightarrow> is_str s"
  unfolding is_str_def by (rule utf8_valid_ascii) (auto simp: as_bytes_def)

end
