(* ===== verification/Protocol_Error.thy ===== *)
theory Protocol_Error
  imports Kanrin_Prelude Std_Text
begin

text \<open>The error type of the protocol crate (\<open>kanrin-protocol/src/error.rs\<close>) and the
  messages it displays. \<open>io::Error\<close> is represented by its message.\<close>

datatype protocol_error =
    Crypto string
  | InvalidChunk string
  | HandshakeFailed string
  | Session string
  | AuthFailed string
  | ReplayDetected
  | NonceExhausted
  | SendBufferFull nat nat
  | ReceiveBufferFull nat nat
  | BufferTooShort nat nat
  | UnsupportedVersion u8
  | RateLimited
  | Io string

definition em_dash :: string where
  "em_dash = of_bytes [0xE2, 0x80, 0x94]"

fun display_protocol_error :: "protocol_error \<Rightarrow> string" where
  "display_protocol_error (Crypto s) = ''crypto error: '' @ s"
| "display_protocol_error (InvalidChunk s) = ''invalid chunk: '' @ s"
| "display_protocol_error (HandshakeFailed s) = ''handshake failed: '' @ s"
| "display_protocol_error (Session s) = ''session error: '' @ s"
| "display_protocol_error (AuthFailed s) = ''authentication failed: '' @ s"
| "display_protocol_error ReplayDetected = ''replay attack detected''"
| "display_protocol_error NonceExhausted = ''nonce exhausted '' @ em_dash @ '' must rotate keys''"
| "display_protocol_error (SendBufferFull buffered mx) =
     ''send buffer full: '' @ decimal buffered @ '' of '' @ decimal mx @ '' bytes held unacknowledged''"
| "display_protocol_error (ReceiveBufferFull buffered mx) =
     ''receive buffer full: '' @ decimal buffered @ '' of '' @ decimal mx @ '' bytes held out of order''"
| "display_protocol_error (BufferTooShort need got) =
     ''buffer too short: need '' @ decimal need @ '' bytes, got '' @ decimal got"
| "display_protocol_error (UnsupportedVersion v) =
     ''unsupported protocol version: '' @ decimal (unat v)"
| "display_protocol_error RateLimited = ''rate limited''"
| "display_protocol_error (Io s) = ''io error: '' @ s"

end
