(* ===== verification/Codec.thy ===== *)
theory Codec
  imports Kanrin_Prelude Std_Text
begin

text \<open>
  The contract every message format of the program shares: an encoder to bytes and a decoder
  that reads one value from the front of a buffer. \<open>prefix_codec\<close> asks that decoding what
  was encoded gives the value back whatever follows it; \<open>exact_codec\<close> adds that the decoder
  accepts nothing but encodings, so that it is the inverse of the encoder.
\<close>

locale prefix_codec =
  fixes enc :: "'a \<Rightarrow> bytes"
    and dec :: "bytes \<Rightarrow> 'e + 'a"
    and wf :: "'a \<Rightarrow> bool"
  assumes dec_enc: "wf a \<Longrightarrow> dec (enc a @ rest) = Inr a"
begin

lemma roundtrip: "wf a \<Longrightarrow> dec (enc a) = Inr a"
  using dec_enc [of a "[]"] by simp

lemma enc_inject: "wf a \<Longrightarrow> wf b \<Longrightarrow> enc a = enc b \<longleftrightarrow> a = b"
  by (metis roundtrip sum.inject(2))

lemma prefix_free:
  assumes "wf a" and "wf b" and "enc a @ r = enc b @ s"
  shows "a = b" and "r = s"
proof -
  have "Inr a = dec (enc a @ r)" "Inr b = dec (enc b @ s)"
    using assms(1,2) by (simp_all add: dec_enc)
  with assms(3) have "(Inr a :: 'e + 'a) = Inr b" by metis
  then show "a = b" by simp
  with assms(3) show "r = s" by simp
qed

text \<open>A receiver that knows how many bytes a value took can read a stream of values back.\<close>

lemma concat_inject:
  assumes "\<forall>a\<in>set as. wf a" and "\<forall>b\<in>set bs. wf b" and "length as = length bs"
    and "concat (map enc as) = concat (map enc bs)"
  shows "as = bs"
  using assms(3,1,2,4)
proof (induction as bs rule: list_induct2)
  case Nil
  then show ?case by simp
next
  case (Cons a as b bs)
  have "a = b" "concat (map enc as) = concat (map enc bs)"
    using prefix_free [of a b "concat (map enc as)" "concat (map enc bs)"] Cons.prems by simp_all
  with Cons show ?case by simp
qed

end

locale exact_codec = prefix_codec enc dec wf
  for enc :: "'a \<Rightarrow> bytes" and dec :: "bytes \<Rightarrow> 'e + 'a" and wf :: "'a \<Rightarrow> bool" +
  assumes dec_sound: "dec bs = Inr a \<Longrightarrow> wf a \<and> (\<exists>rest. bs = enc a @ rest)"
begin

lemma dec_iff: "dec bs = Inr a \<longleftrightarrow> wf a \<and> (\<exists>rest. bs = enc a @ rest)"
  using dec_sound dec_enc by blast

text \<open>Nothing shorter than an encoding of a value decodes to it.\<close>

lemma dec_length: "dec bs = Inr a \<Longrightarrow> length (enc a) \<le> length bs"
  using dec_sound by fastforce

lemma dec_extend: "dec bs = Inr a \<Longrightarrow> dec (bs @ more) = Inr a"
  using dec_sound dec_enc by (metis append_assoc)

end

section \<open>Length-prefixed byte fields\<close>

lemma from_be16_nat [codec_simps]:
  "n < 65536 \<Longrightarrow> unat (from_be (be16 (word_of_nat n)) :: u16) = n"
  by (simp add: unat_of_nat)

lemma unat_of_nat_u16 [codec_simps]: "n < 65536 \<Longrightarrow> unat (word_of_nat n :: u16) = n"
  by (simp add: unat_of_nat)

lemma unat_of_nat_u8 [codec_simps]: "n < 256 \<Longrightarrow> unat (word_of_nat n :: u8) = n"
  by (simp add: unat_of_nat)

lemma unat_of_nat_u32 [codec_simps]: "n < 4294967296 \<Longrightarrow> unat (word_of_nat n :: u32) = n"
  by (simp add: unat_of_nat)

lemma slice_drop [codec_simps]: "slice a b bs = take (b - a) (drop a bs)"
  by (simp add: slice_def)

lemma be16_from_be [simp]: "length bs = 2 \<Longrightarrow> be16 (from_be bs) = bs"
  using to_be_from_be [of bs, where 'a = 16] by simp

lemma be32_from_be [simp]: "length bs = 4 \<Longrightarrow> be32 (from_be bs) = bs"
  using to_be_from_be [of bs, where 'a = 32] by simp

lemma be64_from_be [simp]: "length bs = 8 \<Longrightarrow> be64 (from_be bs) = bs"
  using to_be_from_be [of bs, where 'a = 64] by simp

lemma be16_pair: "be16 (from_be [a, b]) = [a, b]"
  by (rule be16_from_be) simp

text \<open>Taking a buffer apart at a field boundary.\<close>

lemma split_at: "n \<le> length bs \<Longrightarrow> \<exists>xs ys. bs = xs @ ys \<and> length xs = n"
  by (metis append_take_drop_id length_take min.absorb2)

lemma slice_cat:
  assumes "a \<le> b" and "b \<le> c"
  shows "slice a b bs @ slice b c bs = slice a c bs"
proof -
  have "take ((b - a) + (c - b)) (drop a bs) = take (b - a) (drop a bs) @ take (c - b) (drop (b - a) (drop a bs))"
    by (rule take_add)
  moreover have "(b - a) + (c - b) = c - a" "drop (b - a) (drop a bs) = drop b bs"
    using assms by simp_all
  ultimately show ?thesis by (simp add: slice_def)
qed

lemma slice_rest: "a \<le> length bs \<Longrightarrow> bs = take a bs @ drop a bs"
  by simp

lemma nth_slice: "a < length bs \<Longrightarrow> b = a + 1 \<Longrightarrow> slice a b bs = [bs ! a]"
  by (simp add: slice_def take_Suc_conv_app_nth hd_drop_conv_nth)

end
