(* ===== verification/Crypto_Prims.thy ===== *)
theory Crypto_Prims
  imports Protocol_Error Codec
begin

text \<open>
  \<open>kanrin-protocol/src/crypto.rs\<close>. The primitives come from third-party crates
  (ChaCha20-Poly1305, HKDF, HMAC, X25519): they are the fields of \<open>crypto_ops\<close>, an argument of
  every definition that calls them, and \<open>aead_lawful\<close>, \<open>aead_tight\<close>, \<open>hkdf_lawful\<close>,
  \<open>hmac_lawful\<close> and \<open>dh_lawful\<close> are their documented behaviour. \<open>demo_crypto\<close> is a
  concrete instance on which the witnesses evaluate. Randomness is passed as an argument.
\<close>

record crypto_ops =
  cipher_init :: "bytes \<Rightarrow> string + unit"
  aead_seal :: "bytes \<Rightarrow> bytes \<Rightarrow> bytes \<Rightarrow> bytes \<Rightarrow> string + bytes"
  aead_open :: "bytes \<Rightarrow> bytes \<Rightarrow> bytes \<Rightarrow> bytes \<Rightarrow> string + bytes"
  hkdf :: "bytes option \<Rightarrow> bytes \<Rightarrow> bytes \<Rightarrow> nat \<Rightarrow> string + bytes"
  hmac :: "bytes \<Rightarrow> bytes \<Rightarrow> bytes"
  x25519_public :: "bytes \<Rightarrow> bytes"
  x25519 :: "bytes \<Rightarrow> bytes \<Rightarrow> bytes"

section \<open>Constants and keys\<close>

definition TAG_SIZE :: nat where "TAG_SIZE = 16"

definition KEY_SIZE :: nat where "KEY_SIZE = 32"

definition NONCE_SIZE :: nat where "NONCE_SIZE = 12"

definition MAX_NONCE :: u64 where "MAX_NONCE = word_MAX - 1"

record session_keys =
  client_write_key :: bytes
  server_write_key :: bytes

definition session_keys_wf :: "session_keys \<Rightarrow> bool" where
  "session_keys_wf k \<longleftrightarrow> length (client_write_key k) = KEY_SIZE \<and> length (server_write_key k) = KEY_SIZE"

section \<open>The positional nonce counter\<close>

record nonce_counter =
  counter_value :: u64

definition nonce_counter_new :: nonce_counter where
  "nonce_counter_new = \<lparr>counter_value = 0\<rparr>"

definition nonce_counter_to_bytes :: "nonce_counter \<Rightarrow> bytes" where
  "nonce_counter_to_bytes c = rev (be64 (counter_value c)) @ replicate 4 0"

definition nonce_counter_next :: "nonce_counter \<Rightarrow> (protocol_error + bytes) \<times> nonce_counter" where
  "nonce_counter_next c =
     (if MAX_NONCE \<le> counter_value c then (Err NonceExhausted, c)
      else (Ok (nonce_counter_to_bytes c), c\<lparr>counter_value := counter_value c + 1\<rparr>))"

text \<open>\<open>n\<close> calls in a row.\<close>

primrec nonce_counter_take :: "nat \<Rightarrow> nonce_counter \<Rightarrow> (protocol_error + bytes) list \<times> nonce_counter" where
  "nonce_counter_take 0 c = ([], c)"
| "nonce_counter_take (Suc n) c =
     (let (r, c1) = nonce_counter_next c; (rs, c2) = nonce_counter_take n c1 in (r # rs, c2))"

definition nonce_from_sequence :: "u64 \<Rightarrow> bytes" where
  "nonce_from_sequence s = replicate (NONCE_SIZE - 8) 0 @ be64 s"

section \<open>Key derivation and message authentication\<close>

definition derive_session_keys :: "crypto_ops \<Rightarrow> bytes \<Rightarrow> bytes \<Rightarrow> protocol_error + session_keys" where
  "derive_session_keys C shared_secret salt =
     and_then (map_err (\<lambda>e. Crypto (''HKDF expand failed: '' @ e))
        (hkdf C (Some salt) shared_secret (as_bytes ''kanrin-client-write'') KEY_SIZE)) (\<lambda>client_key.
     and_then (map_err (\<lambda>e. Crypto (''HKDF expand failed: '' @ e))
        (hkdf C (Some salt) shared_secret (as_bytes ''kanrin-server-write'') KEY_SIZE)) (\<lambda>server_key.
     Ok \<lparr>client_write_key = client_key, server_write_key = server_key\<rparr>))"

definition derive_resumption_key :: "crypto_ops \<Rightarrow> session_keys \<Rightarrow> protocol_error + bytes" where
  "derive_resumption_key C keys =
     map_err (\<lambda>e. Crypto (''HKDF expand failed: '' @ e))
       (hkdf C None (client_write_key keys @ server_write_key keys) (as_bytes ''kanrin-resumption'') KEY_SIZE)"

definition mac_sha256 :: "crypto_ops \<Rightarrow> bytes \<Rightarrow> bytes list \<Rightarrow> bytes" where
  "mac_sha256 C key parts = hmac C key (concat parts)"

section \<open>Authenticated encryption\<close>

definition encrypt :: "crypto_ops \<Rightarrow> bytes \<Rightarrow> bytes \<Rightarrow> bytes \<Rightarrow> bytes \<Rightarrow> protocol_error + bytes" where
  "encrypt C key nonce plaintext aad =
     and_then (map_err (\<lambda>e. Crypto (''cipher init: '' @ e)) (cipher_init C key)) (\<lambda>_.
     map_err (\<lambda>e. Crypto (''encrypt: '' @ e)) (aead_seal C key nonce plaintext aad))"

definition decrypt :: "crypto_ops \<Rightarrow> bytes \<Rightarrow> bytes \<Rightarrow> bytes \<Rightarrow> bytes \<Rightarrow> protocol_error + bytes" where
  "decrypt C key nonce ciphertext aad =
     and_then (map_err (\<lambda>e. Crypto (''cipher init: '' @ e)) (cipher_init C key)) (\<lambda>_.
     map_err (\<lambda>_. Crypto ''decryption failed (authentication)'') (aead_open C key nonce ciphertext aad))"

text \<open>\<open>ct_eq\<close> of the \<open>subtle\<close> crate on slices of one length is equality; the loop folds the
  differences of all bytes, so that the time does not depend on where they differ.\<close>

definition constant_time_eq :: "bytes \<Rightarrow> bytes \<Rightarrow> bool" where
  "constant_time_eq a b =
     (if length a \<noteq> length b then False
      else foldl (\<lambda>acc (x, y). acc OR (x XOR y)) 0 (zip a b) = 0)"

section \<open>Randomness\<close>

text \<open>The operating system's generator: each draw is given the byte stream it reads.\<close>

type_synonym entropy = "nat \<Rightarrow> u8"

definition random_bytes_vec :: "entropy \<Rightarrow> nat \<Rightarrow> bytes" where
  "random_bytes_vec rnd n = map rnd [0..<n]"

lemma length_random_bytes_vec [simp]: "length (random_bytes_vec rnd n) = n"
  by (simp add: random_bytes_vec_def)

lemma random_bytes_vec_any: "\<exists>rnd. random_bytes_vec rnd (length bs) = bs"
  by (rule exI [of _ "\<lambda>i. bs ! i"]) (simp add: random_bytes_vec_def map_nth)

section \<open>Key exchange\<close>

record key_pair =
  kp_secret :: bytes
  kp_public :: bytes

definition key_pair_generate :: "crypto_ops \<Rightarrow> entropy \<Rightarrow> key_pair" where
  "key_pair_generate C rnd =
     (let secret = random_bytes_vec rnd 32 in \<lparr>kp_secret = secret, kp_public = x25519_public C secret\<rparr>)"

definition diffie_hellman :: "crypto_ops \<Rightarrow> key_pair \<Rightarrow> bytes \<Rightarrow> bytes" where
  "diffie_hellman C kp peer_public = x25519 C (kp_secret kp) peer_public"

section \<open>Documented behaviour of the primitives\<close>

definition aead_lawful :: "crypto_ops \<Rightarrow> bool" where
  "aead_lawful C \<longleftrightarrow>
     (\<forall>key nonce msg aad. length key = KEY_SIZE \<longrightarrow> length nonce = NONCE_SIZE \<longrightarrow> length msg < 2 ^ 32 \<longrightarrow>
        cipher_init C key = Inr () \<and>
        (\<exists>c. aead_seal C key nonce msg aad = Inr c \<and> length c = length msg + TAG_SIZE \<and>
             aead_open C key nonce c aad = Inr msg))"

text \<open>The cipher is deterministic and the tag is recomputed on opening, so what opens is what
  sealing the result gives.\<close>

definition aead_tight :: "crypto_ops \<Rightarrow> bool" where
  "aead_tight C \<longleftrightarrow>
     (\<forall>key nonce c aad msg. aead_open C key nonce c aad = Inr msg \<longrightarrow>
        length c = length msg + TAG_SIZE \<and> aead_seal C key nonce msg aad = Inr c)"

definition hkdf_lawful :: "crypto_ops \<Rightarrow> bool" where
  "hkdf_lawful C \<longleftrightarrow>
     (\<forall>salt ikm info n. n \<le> 255 * 32 \<longrightarrow> (\<exists>k. hkdf C salt ikm info n = Inr k \<and> length k = n))"

definition hmac_lawful :: "crypto_ops \<Rightarrow> bool" where
  "hmac_lawful C \<longleftrightarrow> (\<forall>key msg. length (hmac C key msg) = 32)"

definition dh_lawful :: "crypto_ops \<Rightarrow> bool" where
  "dh_lawful C \<longleftrightarrow>
     (\<forall>a. length a = 32 \<longrightarrow> length (x25519_public C a) = 32) \<and>
     (\<forall>a b. length a = 32 \<longrightarrow> length b = 32 \<longrightarrow>
        x25519 C a (x25519_public C b) = x25519 C b (x25519_public C a))"

section \<open>Lemmas\<close>

lemma foldl_xor_0:
  "foldl (\<lambda>acc (x, y). acc OR (x XOR y)) acc xs = (0 :: u8) \<longleftrightarrow> acc = 0 \<and> (\<forall>(x, y)\<in>set xs. x = y)"
proof -
  have "x XOR y = 0 \<longleftrightarrow> x = y" for x y :: u8
    by (metis xor.assoc xor.left_neutral xor_self_eq)
  then show ?thesis by (induction xs arbitrary: acc) (auto simp: or_eq_0_iff)
qed

lemma constant_time_eq_iff [simp]: "constant_time_eq a b \<longleftrightarrow> a = b"
proof (cases "length a = length b")
  case True
  then have "(\<forall>(x, y)\<in>set (zip a b). x = y) \<longleftrightarrow> a = b"
    by (induction a b rule: list_induct2) auto
  with True show ?thesis by (simp add: constant_time_eq_def foldl_xor_0)
next
  case False
  then show ?thesis by (auto simp: constant_time_eq_def)
qed

lemma length_nonce_from_sequence [simp]: "length (nonce_from_sequence s) = NONCE_SIZE"
  by (simp add: nonce_from_sequence_def NONCE_SIZE_def)

lemma nonce_from_sequence_inject [simp]: "nonce_from_sequence s = nonce_from_sequence t \<longleftrightarrow> s = t"
  by (simp add: nonce_from_sequence_def)

lemma nonce_counter_to_bytes_inject:
  "nonce_counter_to_bytes c = nonce_counter_to_bytes d \<longleftrightarrow> counter_value c = counter_value d"
  by (simp add: nonce_counter_to_bytes_def)

lemma encrypt_decrypt:
  assumes "aead_lawful C" and "length key = KEY_SIZE" and "length nonce = NONCE_SIZE"
    and "length msg < 2 ^ 32"
  obtains c where "encrypt C key nonce msg aad = Ok c" and "length c = length msg + TAG_SIZE"
    and "decrypt C key nonce c aad = Ok msg"
  using assms unfolding aead_lawful_def encrypt_def decrypt_def by fastforce

lemma decrypt_tight:
  assumes "aead_tight C" and "decrypt C key nonce c aad = Ok msg"
  shows "encrypt C key nonce msg aad = Ok c" and "length c = length msg + TAG_SIZE"
  using assms unfolding aead_tight_def encrypt_def decrypt_def
  by (auto simp: and_then_Inr_iff)

lemma decrypt_error:
  assumes "decrypt C key nonce c aad = Err e"
  shows "\<exists>m. e = Crypto m"
  using assms unfolding decrypt_def
  by (cases "cipher_init C key"; cases "aead_open C key nonce c aad") auto

lemma hkdf_key:
  assumes "hkdf_lawful C"
  obtains k where "hkdf C salt ikm info KEY_SIZE = Inr k" and "length k = KEY_SIZE"
proof -
  have "KEY_SIZE \<le> 255 * 32" by (simp add: KEY_SIZE_def)
  with assms show thesis using that unfolding hkdf_lawful_def by blast
qed

lemma derive_session_keys_ok:
  assumes "hkdf_lawful C"
  obtains k where "derive_session_keys C s salt = Ok k" and "session_keys_wf k"
proof -
  obtain a where "hkdf C (Some salt) s (as_bytes ''kanrin-client-write'') KEY_SIZE = Inr a" "length a = KEY_SIZE"
    by (rule hkdf_key [OF assms])
  moreover obtain b where "hkdf C (Some salt) s (as_bytes ''kanrin-server-write'') KEY_SIZE = Inr b" "length b = KEY_SIZE"
    by (rule hkdf_key [OF assms])
  ultimately show thesis using that unfolding derive_session_keys_def session_keys_wf_def by fastforce
qed

lemma derive_resumption_key_ok:
  assumes "hkdf_lawful C"
  obtains k where "derive_resumption_key C keys = Ok k" and "length k = KEY_SIZE"
proof -
  obtain k where "hkdf C None (client_write_key keys @ server_write_key keys) (as_bytes ''kanrin-resumption'') KEY_SIZE = Inr k"
    "length k = KEY_SIZE"
    by (rule hkdf_key [OF assms])
  then show thesis using that unfolding derive_resumption_key_def by fastforce
qed

lemma derive_resumption_key_error:
  "derive_resumption_key C keys = Err e \<Longrightarrow> \<exists>m. e = Crypto m"
  unfolding derive_resumption_key_def
  by (cases "hkdf C None (client_write_key keys @ server_write_key keys) (as_bytes ''kanrin-resumption'') KEY_SIZE") auto

section \<open>A concrete instance\<close>

definition demo_tag :: "bytes \<Rightarrow> bytes \<Rightarrow> bytes \<Rightarrow> bytes" where
  "demo_tag key nonce aad = take 16 (key @ nonce @ aad @ replicate 16 0)"

definition demo_crypto :: crypto_ops where
  "demo_crypto =
     \<lparr>cipher_init = (\<lambda>key. if length key = 32 then Inr () else Inl ''Invalid Length''),
      aead_seal = (\<lambda>key nonce msg aad. Inr (msg @ demo_tag key nonce aad)),
      aead_open = (\<lambda>key nonce c aad.
        if 16 \<le> length c \<and> drop (length c - 16) c = demo_tag key nonce aad
        then Inr (take (length c - 16) c) else Inl ''aead::Error''),
      hkdf = (\<lambda>salt ikm info n.
        if n \<le> 255 * 32 then Inr (take n (ikm @ replicate n 7)) else Inl ''invalid number of blocks''),
      hmac = (\<lambda>key msg. take 32 (key @ msg @ replicate 32 0)),
      x25519_public = (\<lambda>a. take 32 (a @ replicate 32 0)),
      x25519 = (\<lambda>a b. map2 (XOR) a b)\<rparr>"

lemma demo_crypto_sel [simp]:
  "cipher_init demo_crypto key = (if length key = 32 then Inr () else Inl ''Invalid Length'')"
  "aead_seal demo_crypto key nonce msg aad = Inr (msg @ demo_tag key nonce aad)"
  "aead_open demo_crypto key nonce c aad =
     (if 16 \<le> length c \<and> drop (length c - 16) c = demo_tag key nonce aad
      then Inr (take (length c - 16) c) else Inl ''aead::Error'')"
  "hkdf demo_crypto salt ikm info n =
     (if n \<le> 255 * 32 then Inr (take n (ikm @ replicate n 7)) else Inl ''invalid number of blocks'')"
  "hmac demo_crypto key msg = take 32 (key @ msg @ replicate 32 0)"
  "x25519_public demo_crypto a = take 32 (a @ replicate 32 0)"
  "x25519 demo_crypto a b = map2 (XOR) a b"
  by (simp_all add: demo_crypto_def)

lemma length_demo_tag [simp]: "length (demo_tag key nonce aad) = 16"
  by (simp add: demo_tag_def)

lemma demo_aead_lawful: "aead_lawful demo_crypto"
  by (simp add: aead_lawful_def KEY_SIZE_def TAG_SIZE_def)

lemma demo_aead_tight: "aead_tight demo_crypto"
  by (auto simp: aead_tight_def TAG_SIZE_def split: if_splits) (metis append_take_drop_id)

lemma demo_hkdf_lawful: "hkdf_lawful demo_crypto"
  by (auto simp: hkdf_lawful_def min_def)

lemma demo_hmac_lawful: "hmac_lawful demo_crypto"
  by (auto simp: hmac_lawful_def min_def)

lemma map2_xor_commute: "map2 (XOR) a b = map2 (XOR) b (a :: bytes)"
  by (induction a b rule: list_induct2') (simp_all add: xor.commute)

lemma demo_dh_lawful: "dh_lawful demo_crypto"
proof -
  have "map2 (XOR) a b = map2 (XOR) b a" for a b :: bytes by (rule map2_xor_commute)
  then show ?thesis by (simp add: dh_lawful_def)
qed

end
