(* ===== verification/Wire_Chunk.thy ===== *)
theory Wire_Chunk
  imports Crypto_Prims
begin

text \<open>
  The chunk format of \<open>kanrin-protocol/src/wire.rs\<close>: chunk types, the 13-byte header and its
  codec, the constructors of chunks, the AEAD-protected encoding with the header as
  associated data, and the length-prefixed framing for stream transports.
\<close>

section \<open>Headers\<close>

definition PROTOCOL_VERSION :: u8 where "PROTOCOL_VERSION = 1"

definition HEADER_SIZE :: nat where "HEADER_SIZE = 13"

definition MAX_PAYLOAD_SIZE :: nat where "MAX_PAYLOAD_SIZE = 65535"

definition MAX_PADDING_SIZE :: nat where "MAX_PADDING_SIZE = 255"

datatype chunk_type = Handshake | Data | Control | Padding | Resume

fun chunk_type_byte :: "chunk_type \<Rightarrow> u8" where
  "chunk_type_byte Handshake = 0x01"
| "chunk_type_byte Data = 0x02"
| "chunk_type_byte Control = 0x03"
| "chunk_type_byte Padding = 0x04"
| "chunk_type_byte Resume = 0x05"

definition chunk_type_from_byte :: "u8 \<Rightarrow> protocol_error + chunk_type" where
  "chunk_type_from_byte b =
     (if b = 0x01 then Ok Handshake
      else if b = 0x02 then Ok Data
      else if b = 0x03 then Ok Control
      else if b = 0x04 then Ok Padding
      else if b = 0x05 then Ok Resume
      else Err (InvalidChunk (''unknown chunk type: 0x'' @ hex02 b)))"

record chunk_header =
  version :: u8
  chunk_type :: chunk_type
  sequence :: u64
  payload_length :: u16
  padding_length :: u8

definition header_encode :: "chunk_header \<Rightarrow> bytes" where
  "header_encode h =
     [version h] @ [chunk_type_byte (chunk_type h)] @ be64 (sequence h) @ be16 (payload_length h)
       @ [padding_length h]"

text \<open>\<open>decode\<close> also advances the buffer it reads from: the rest is the second component.\<close>

definition header_decode :: "bytes \<Rightarrow> protocol_error + chunk_header \<times> bytes" where
  "header_decode buf =
     (if length buf < HEADER_SIZE then Err (BufferTooShort HEADER_SIZE (length buf))
      else let ver = buf ! 0 in
        if ver \<noteq> PROTOCOL_VERSION then Err (UnsupportedVersion ver)
        else and_then (chunk_type_from_byte (buf ! 1)) (\<lambda>ct.
          Ok (\<lparr>version = ver, chunk_type = ct, sequence = from_be (slice 2 10 buf),
               payload_length = from_be (slice 10 12 buf), padding_length = buf ! 12\<rparr>,
              drop HEADER_SIZE buf)))"

definition body_size :: "chunk_header \<Rightarrow> nat" where
  "body_size h = unat (payload_length h) + unat (padding_length h) + TAG_SIZE"

section \<open>Chunks\<close>

record chunk =
  header :: chunk_header
  payload :: bytes

definition chunk_new :: "chunk_type \<Rightarrow> bytes \<Rightarrow> u8 \<Rightarrow> chunk" where
  "chunk_new ct pl pad =
     \<lparr>header = \<lparr>version = PROTOCOL_VERSION, chunk_type = ct, sequence = 0,
                payload_length = word_of_nat (length pl), padding_length = pad\<rparr>,
      payload = pl\<rparr>"

text \<open>The constructors; \<open>r\<close> is the random byte the padding length is drawn from.\<close>

definition new_data :: "u8 \<Rightarrow> bytes \<Rightarrow> chunk" where
  "new_data r pl = chunk_new Data pl (r mod 64)"

definition new_handshake :: "bytes \<Rightarrow> chunk" where
  "new_handshake pl = chunk_new Handshake pl 0"

definition new_resume :: "bytes \<Rightarrow> chunk" where
  "new_resume pl = chunk_new Resume pl 0"

definition new_control :: "u8 \<Rightarrow> bytes \<Rightarrow> chunk" where
  "new_control r pl = chunk_new Control pl (r mod 32)"

definition new_padding :: "u8 \<Rightarrow> chunk" where
  "new_padding sz = chunk_new Padding [] sz"

definition encode_encrypted ::
  "crypto_ops \<Rightarrow> entropy \<Rightarrow> chunk \<Rightarrow> bytes \<Rightarrow> bytes \<Rightarrow> protocol_error + bytes" where
  "encode_encrypted C rnd c key nonce =
     (let buf = header_encode (header c);
          padding = random_bytes_vec rnd (unat (padding_length (header c)));
          plaintext = payload c @ padding;
          aad = take HEADER_SIZE buf
      in and_then (encrypt C key nonce plaintext aad) (\<lambda>ciphertext. Ok (buf @ ciphertext)))"

definition decode_encrypted :: "crypto_ops \<Rightarrow> bytes \<Rightarrow> bytes \<Rightarrow> bytes \<Rightarrow> protocol_error + chunk" where
  "decode_encrypted C data key nonce =
     (if length data < HEADER_SIZE then Err (BufferTooShort HEADER_SIZE (length data))
      else and_then (header_decode (take HEADER_SIZE data)) (\<lambda>(h, _).
        let expected_total = HEADER_SIZE + body_size h in
        if length data < expected_total then Err (BufferTooShort expected_total (length data))
        else
          let aad = take HEADER_SIZE data;
              ciphertext = slice HEADER_SIZE expected_total data
          in and_then (decrypt C key nonce ciphertext aad) (\<lambda>plaintext.
            Ok \<lparr>header = h, payload = take (unat (payload_length h)) plaintext\<rparr>)))"

definition encode_sequenced :: "crypto_ops \<Rightarrow> entropy \<Rightarrow> chunk \<Rightarrow> bytes \<Rightarrow> u64 \<Rightarrow> protocol_error + bytes" where
  "encode_sequenced C rnd c key s =
     (let h = (header c)\<lparr>sequence := s\<rparr>;
          c' = \<lparr>header = h, payload = payload c\<rparr>;
          nonce = nonce_from_sequence s
      in encode_encrypted C rnd c' key nonce)"

definition decode_sequenced :: "crypto_ops \<Rightarrow> bytes \<Rightarrow> bytes \<Rightarrow> protocol_error + chunk" where
  "decode_sequenced C data key =
     (if length data < HEADER_SIZE then Err (BufferTooShort HEADER_SIZE (length data))
      else and_then (header_decode (take HEADER_SIZE data)) (\<lambda>(h, _).
        decode_encrypted C data key (nonce_from_sequence (sequence h))))"

definition wire_size :: "chunk \<Rightarrow> nat" where
  "wire_size c = HEADER_SIZE + length (payload c) + unat (padding_length (header c)) + TAG_SIZE"

section \<open>Framing\<close>

definition frame_chunk :: "bytes \<Rightarrow> bytes" where
  "frame_chunk chunk_data = be32 (word_of_nat (length chunk_data)) @ chunk_data"

definition deframe_chunk :: "bytes \<Rightarrow> (bytes \<times> nat) option" where
  "deframe_chunk buf =
     (if length buf < 4 then None
      else let len = unat (from_be (slice 0 4 buf) :: u32) in
        if length buf < 4 + len then None
        else Some (slice 4 (4 + len) buf, 4 + len))"

section \<open>Header lemmas\<close>

lemma chunk_type_roundtrip [simp]: "chunk_type_from_byte (chunk_type_byte ct) = Ok ct"
  by (cases ct) (simp_all add: chunk_type_from_byte_def)

lemma chunk_type_from_byte_Inr: "chunk_type_from_byte b = Ok ct \<Longrightarrow> b = chunk_type_byte ct"
  by (auto simp: chunk_type_from_byte_def split: if_splits)

lemma length_header_encode [simp]: "length (header_encode h) = HEADER_SIZE"
  by (simp add: header_encode_def HEADER_SIZE_def)

lemma header_encode_parts:
  "header_encode h = version h # chunk_type_byte (chunk_type h) # be64 (sequence h)
     @ be16 (payload_length h) @ [padding_length h]"
  by (simp add: header_encode_def)

lemma header_decode_encode:
  assumes "version h = PROTOCOL_VERSION"
  shows "header_decode (header_encode h @ rest) = Ok (h, rest)"
proof -
  let ?buf = "header_encode h @ rest"
  have "slice 2 10 ?buf = be64 (sequence h)" "slice 10 12 ?buf = be16 (payload_length h)"
    by (simp_all add: header_encode_parts slice_def drop_Cons')
  moreover have "?buf ! 12 = padding_length h"
    by (simp add: header_encode_parts nth_append nth_Cons')
  moreover have "?buf ! 0 = version h" "?buf ! 1 = chunk_type_byte (chunk_type h)"
    by (simp_all add: header_encode_parts)
  ultimately show ?thesis
    using assms by (simp add: header_decode_def)
qed

lemma header_decode_sound:
  assumes "header_decode buf = Ok (h, rest)"
  shows "version h = PROTOCOL_VERSION" and "buf = header_encode h @ rest"
proof -
  from assms have len: "HEADER_SIZE \<le> length buf" and v: "buf ! 0 = PROTOCOL_VERSION"
    and rest: "rest = drop HEADER_SIZE buf"
    by (auto simp: header_decode_def Let_def and_then_Inr_iff split: if_splits)
  from assms len v obtain ct where ct: "chunk_type_from_byte (buf ! 1) = Ok ct"
    and h: "h = \<lparr>version = buf ! 0, chunk_type = ct, sequence = from_be (slice 2 10 buf),
               payload_length = from_be (slice 10 12 buf), padding_length = buf ! 12\<rparr>"
    by (auto simp: header_decode_def Let_def and_then_Inr_iff)
  from v h show "version h = PROTOCOL_VERSION" by simp
  have l: "13 \<le> length buf" using len by (simp add: HEADER_SIZE_def)
  then have ne: "buf \<noteq> []" by auto
  have "header_encode h = slice 0 1 buf @ slice 1 2 buf @ slice 2 10 buf @ slice 10 12 buf @ slice 12 13 buf"
    using l ne h chunk_type_from_byte_Inr [OF ct] nth_slice [of 0 buf 1] nth_slice [of 1 buf 2]
      nth_slice [of 12 buf 13]
    by (simp add: header_encode_def)
  also have "\<dots> = slice 0 13 buf" by (simp add: slice_cat)
  finally show "buf = header_encode h @ rest"
    by (simp add: slice_0 rest HEADER_SIZE_def)
qed

interpretation header_codec: exact_codec header_encode "\<lambda>bs. map_sum id fst (header_decode bs)"
    "\<lambda>h. version h = PROTOCOL_VERSION"
proof unfold_locales
  fix h :: chunk_header and rest
  assume "version h = PROTOCOL_VERSION"
  then show "map_sum id fst (header_decode (header_encode h @ rest)) = Inr h"
    by (simp add: header_decode_encode)
next
  fix bs h
  assume "map_sum id fst (header_decode bs) = Inr h"
  then obtain rest where "header_decode bs = Ok (h, rest)"
    by (cases "header_decode bs") auto
  then show "version h = PROTOCOL_VERSION \<and> (\<exists>rest. bs = header_encode h @ rest)"
    by (auto dest: header_decode_sound)
qed

section \<open>Chunk lemmas\<close>

definition chunk_wf :: "chunk \<Rightarrow> bool" where
  "chunk_wf c \<longleftrightarrow> version (header c) = PROTOCOL_VERSION \<and> unat (payload_length (header c)) = length (payload c)"

lemma chunk_wf_new: "length pl \<le> MAX_PAYLOAD_SIZE \<Longrightarrow> chunk_wf (chunk_new ct pl pad)"
  by (simp add: chunk_wf_def chunk_new_def MAX_PAYLOAD_SIZE_def codec_simps)

lemma chunk_wf_body_size: "chunk_wf c \<Longrightarrow> HEADER_SIZE + body_size (header c) = wire_size c"
  by (simp add: chunk_wf_def body_size_def wire_size_def)

lemma encode_decode_encrypted:
  assumes C: "aead_lawful C" and key: "length key = KEY_SIZE" and nonce: "length nonce = NONCE_SIZE"
    and wf: "chunk_wf c"
  shows "\<exists>bs. encode_encrypted C rnd c key nonce = Ok bs \<and> length bs = wire_size c \<and>
    take HEADER_SIZE bs = header_encode (header c) \<and>
    (\<forall>rest. decode_encrypted C (bs @ rest) key nonce = Ok c)"
proof -
  let ?h = "header c" and ?pad = "random_bytes_vec rnd (unat (padding_length (header c)))"
  let ?msg = "payload c @ ?pad" and ?aad = "header_encode (header c)"
  have "length ?msg < 65536 + 256"
    using wf unat_lt [of "payload_length ?h"] unat_lt [of "padding_length ?h"] by (simp add: chunk_wf_def)
  then have small: "length ?msg < 2 ^ 32" by simp
  obtain ct where ct: "encrypt C key nonce ?msg ?aad = Ok ct" "length ct = length ?msg + TAG_SIZE"
    "decrypt C key nonce ct ?aad = Ok ?msg"
    by (rule encrypt_decrypt [OF C key nonce small])
  let ?bs = "header_encode ?h @ ct"
  have enc: "encode_encrypted C rnd c key nonce = Ok ?bs"
    using ct(1) by (simp add: encode_encrypted_def)
  have len: "length ?bs = HEADER_SIZE + body_size ?h"
    using wf ct(2) by (simp add: chunk_wf_def body_size_def)
  have "decode_encrypted C (?bs @ rest) key nonce = Ok c" for rest
  proof -
    have "header_decode ?aad = Ok (?h, [])"
      using wf header_decode_encode [of ?h "[]"] by (simp add: chunk_wf_def)
    moreover have "take HEADER_SIZE (?bs @ rest) = ?aad" by simp
    moreover have "slice HEADER_SIZE (HEADER_SIZE + body_size ?h) (?bs @ rest) = ct"
      using len by (simp add: slice_def)
    moreover have "take (unat (payload_length ?h)) ?msg = payload c"
      using wf by (simp add: chunk_wf_def)
    ultimately show ?thesis
      using len ct(3) by (simp add: decode_encrypted_def Let_def)
  qed
  with enc len wf show ?thesis by (simp add: chunk_wf_body_size)
qed

lemma decode_encrypted_sound:
  assumes C: "aead_tight C" and dec: "decode_encrypted C data key nonce = Ok c"
  shows "chunk_wf c" and "wire_size c \<le> length data"
    and "\<exists>rnd. encode_encrypted C rnd c key nonce = Ok (take (wire_size c) data)"
proof -
  from dec obtain h rest pt where
    len: "HEADER_SIZE \<le> length data" and h: "header_decode (take HEADER_SIZE data) = Ok (h, rest)"
    and total: "HEADER_SIZE + body_size h \<le> length data"
    and open': "decrypt C key nonce (slice HEADER_SIZE (HEADER_SIZE + body_size h) data) (take HEADER_SIZE data) = Ok pt"
    and c: "c = \<lparr>header = h, payload = take (unat (payload_length h)) pt\<rparr>"
    by (auto simp: decode_encrypted_def Let_def and_then_Inr_iff split: if_splits prod.splits)
  let ?ct = "slice HEADER_SIZE (HEADER_SIZE + body_size h) data"
  note hs = header_decode_sound [OF h]
  have "length (take HEADER_SIZE data) = HEADER_SIZE" using len by simp
  with hs(2) have "rest = []" by (metis append_eq_append_conv append_Nil2 length_header_encode)
  with hs(2) have hd: "take HEADER_SIZE data = header_encode h" by simp
  note tight = decrypt_tight [OF C open']
  have pt: "length pt = unat (payload_length h) + unat (padding_length h)"
    using tight(2) total by (simp add: body_size_def)
  with c hs(1) show wf: "chunk_wf c" by (simp add: chunk_wf_def)
  have wire: "wire_size c = HEADER_SIZE + body_size h"
    using chunk_wf_body_size [OF wf] c by simp
  with total show "wire_size c \<le> length data" by simp
  obtain rnd where "random_bytes_vec rnd (length (drop (unat (payload_length h)) pt)) = drop (unat (payload_length h)) pt"
    using random_bytes_vec_any by blast
  then have rnd: "take (unat (payload_length h)) pt @ random_bytes_vec rnd (unat (padding_length h)) = pt"
    using pt by simp
  have "header_encode h @ ?ct = take (wire_size c) data"
    unfolding wire hd [symmetric] slice_0 [symmetric] by (rule slice_cat) simp_all
  moreover have "encode_encrypted C rnd c key nonce = Ok (header_encode h @ ?ct)"
    using tight(1) c hd rnd by (simp add: encode_encrypted_def Let_def)
  ultimately show "\<exists>rnd. encode_encrypted C rnd c key nonce = Ok (take (wire_size c) data)"
    by metis
qed

lemma encode_decode_sequenced:
  assumes C: "aead_lawful C" and key: "length key = KEY_SIZE" and wf: "chunk_wf c"
  shows "\<exists>bs. encode_sequenced C rnd c key s = Ok bs \<and> length bs = wire_size c \<and>
    (\<forall>rest. decode_sequenced C (bs @ rest) key = Ok (c\<lparr>header := (header c)\<lparr>sequence := s\<rparr>\<rparr>))"
proof -
  let ?c = "c\<lparr>header := (header c)\<lparr>sequence := s\<rparr>\<rparr>"
  have wf': "chunk_wf ?c" using wf by (simp add: chunk_wf_def)
  have enc: "encode_sequenced C rnd c key s = encode_encrypted C rnd ?c key (nonce_from_sequence s)"
    by (cases c) (simp add: encode_sequenced_def)
  obtain bs where bs: "encode_encrypted C rnd ?c key (nonce_from_sequence s) = Ok bs"
    "length bs = wire_size ?c" "take HEADER_SIZE bs = header_encode (header ?c)"
    "\<And>rest. decode_encrypted C (bs @ rest) key (nonce_from_sequence s) = Ok ?c"
    using encode_decode_encrypted [OF C key length_nonce_from_sequence wf'] by blast
  have "HEADER_SIZE \<le> length bs" using bs(2) by (simp add: wire_size_def)
  moreover have "header_decode (header_encode (header ?c)) = Ok (header ?c, [])"
    using header_decode_encode [of "header ?c" "[]"] wf' by (simp add: chunk_wf_def)
  ultimately have "decode_sequenced C (bs @ rest) key = Ok ?c" for rest
    using bs by (simp add: decode_sequenced_def)
  with enc bs show ?thesis by (auto simp: wire_size_def)
qed

lemma decode_sequenced_sound:
  assumes C: "aead_tight C" and dec: "decode_sequenced C data key = Ok c"
  shows "chunk_wf c" and "wire_size c \<le> length data"
    and "\<exists>rnd. encode_sequenced C rnd c key (sequence (header c)) = Ok (take (wire_size c) data)"
proof -
  from dec obtain h rest where len: "\<not> length data < HEADER_SIZE"
    and h: "header_decode (take HEADER_SIZE data) = Ok (h, rest)"
    and d: "decode_encrypted C data key (nonce_from_sequence (sequence h)) = Ok c"
    by (auto simp: decode_sequenced_def and_then_Inr_iff split: if_splits)
  from d h have hc: "header c = h"
    by (auto simp: decode_encrypted_def Let_def and_then_Inr_iff split: if_splits)
  note s = decode_encrypted_sound [OF C d]
  show "chunk_wf c" "wire_size c \<le> length data" by (fact s)+
  show "\<exists>rnd. encode_sequenced C rnd c key (sequence (header c)) = Ok (take (wire_size c) data)"
    using s(3) hc by (cases c) (simp add: encode_sequenced_def Let_def)
qed

section \<open>Framing lemmas\<close>

lemma deframe_frame:
  assumes "length c < 2 ^ 32"
  shows "deframe_chunk (frame_chunk c @ rest) = Some (c, 4 + length c)"
proof -
  have "slice 0 4 (frame_chunk c @ rest) = be32 (word_of_nat (length c))"
    by (simp add: frame_chunk_def slice_def)
  then have "unat (from_be (slice 0 4 (frame_chunk c @ rest)) :: u32) = length c"
    using assms by (simp add: codec_simps)
  then show ?thesis
    by (simp add: deframe_chunk_def frame_chunk_def slice_def)
qed

lemma deframe_sound:
  assumes "deframe_chunk buf = Some (c, n)"
  shows "n = 4 + length c" and "n \<le> length buf" and "take n buf = frame_chunk c" and "length c < 2 ^ 32"
proof -
  let ?len = "unat (from_be (slice 0 4 buf) :: u32)"
  from assms have l: "4 \<le> length buf" "4 + ?len \<le> length buf" and c: "c = slice 4 (4 + ?len) buf"
    and n: "n = 4 + ?len"
    by (auto simp: deframe_chunk_def Let_def split: if_splits)
  from l c have lc: "length c = ?len" by simp
  show "n = 4 + length c" "n \<le> length buf" using l n lc by simp_all
  show "length c < 2 ^ 32" unfolding lc by (rule order_less_le_trans [OF unat_lt]) simp
  have "frame_chunk c = be32 (from_be (slice 0 4 buf)) @ c"
    by (simp add: frame_chunk_def lc)
  also have "be32 (from_be (slice 0 4 buf)) = slice 0 4 buf"
    using l by simp
  finally show "take n buf = frame_chunk c"
    using slice_cat [of 0 4 "4 + ?len" buf] n c by (simp add: slice_0)
qed

lemma deframe_None_iff:
  "deframe_chunk buf = None \<longleftrightarrow>
     length buf < 4 \<or> length buf < 4 + unat (from_be (take 4 buf) :: u32)"
  by (simp add: deframe_chunk_def slice_0 Let_def)

section \<open>Properties\<close>

text \<open>C15. Sealing a chunk under a sequence and opening it gives the chunk back with that sequence in
  its header, whatever follows it in the buffer: every payload of at most 65535 bytes survives, and
  the encoding has the length \<open>wire_size\<close> announces.\<close>

theorem chunk_seal_open:
  assumes "aead_lawful C" and "length key = KEY_SIZE" and "length pl \<le> MAX_PAYLOAD_SIZE"
  shows "\<exists>bs. encode_sequenced C rnd (chunk_new ct pl pad) key s = Ok bs \<and>
    length bs = wire_size (chunk_new ct pl pad) \<and>
    (\<forall>rest. decode_sequenced C (bs @ rest) key = Ok
       \<lparr>header = \<lparr>version = PROTOCOL_VERSION, chunk_type = ct, sequence = s,
                  payload_length = word_of_nat (length pl), padding_length = pad\<rparr>,
        payload = pl\<rparr>)"
  using encode_decode_sequenced [OF assms(1,2) chunk_wf_new [OF assms(3)], of rnd ct pad s]
  by (simp add: chunk_new_def)

theorem chunk_seal_open_witness:
  "\<exists>bs. encode_sequenced demo_crypto (\<lambda>i. word_of_nat i) (chunk_new Data [1, 2, 3] 5) (replicate 32 9) 7 = Ok bs \<and>
    length bs = 37 \<and>
    (\<forall>rest. decode_sequenced demo_crypto (bs @ rest) (replicate 32 9) = Ok
       \<lparr>header = \<lparr>version = 1, chunk_type = Data, sequence = 7, payload_length = 3, padding_length = 5\<rparr>,
        payload = [1, 2, 3]\<rparr>)"
  using chunk_seal_open [of demo_crypto "replicate 32 9" "[1, 2, 3]" "\<lambda>i. word_of_nat i" Data 5 7]
  by (simp add: demo_aead_lawful KEY_SIZE_def MAX_PAYLOAD_SIZE_def wire_size_def chunk_new_def HEADER_SIZE_def
      TAG_SIZE_def PROTOCOL_VERSION_def)

text \<open>C16. Only sealed data opens: whatever bytes a decoder accepts under a key start with the sealing
  under that key of exactly the header and payload it returns, so neither the payload nor any
  header field (sequence, type, lengths) was altered.\<close>

theorem chunk_open_authentic:
  assumes "aead_tight C" and "decode_sequenced C data key = Ok c"
  shows "version (header c) = PROTOCOL_VERSION \<and> unat (payload_length (header c)) = length (payload c) \<and>
    wire_size c \<le> length data \<and>
    (\<exists>rnd. encode_sequenced C rnd c key (sequence (header c)) = Ok (take (wire_size c) data))"
  using decode_sequenced_sound [OF assms] by (simp add: chunk_wf_def)

theorem chunk_open_authentic_witness:
  "\<exists>data c. decode_sequenced demo_crypto data (replicate 32 9) = Ok c \<and> payload c = [4, 5] \<and>
    (\<exists>rnd. encode_sequenced demo_crypto rnd c (replicate 32 9) (sequence (header c)) = Ok (take (wire_size c) data))"
proof -
  have key: "length (replicate 32 (9 :: u8)) = KEY_SIZE" by (simp add: KEY_SIZE_def)
  have wf: "chunk_wf (new_data 3 [4, 5])"
    by (simp add: new_data_def chunk_wf_new MAX_PAYLOAD_SIZE_def)
  define c where "c = (new_data 3 [4, 5])\<lparr>header := (header (new_data 3 [4, 5]))\<lparr>sequence := 8\<rparr>\<rparr>"
  obtain bs where "\<forall>rest. decode_sequenced demo_crypto (bs @ rest) (replicate 32 9) = Ok c"
    using encode_decode_sequenced [OF demo_aead_lawful key wf, of "\<lambda>_. 0" 8] unfolding c_def [symmetric]
    by (elim exE conjE) (rule that)
  then have dec: "decode_sequenced demo_crypto (bs @ []) (replicate 32 9) = Ok c" by (rule spec)
  have pl: "payload c = [4, 5]" by (simp add: c_def new_data_def chunk_new_def)
  from chunk_open_authentic [OF demo_aead_tight dec] have
    "\<exists>rnd. encode_sequenced demo_crypto rnd c (replicate 32 9) (sequence (header c)) = Ok (take (wire_size c) (bs @ []))"
    by (elim conjE)
  with dec pl show ?thesis by (intro exI [of _ "bs @ []"] exI [of _ c] conjI)
qed

text \<open>Length-prefixed framing: a reader recovers a framed chunk and the number of bytes it took
  exactly when the whole frame has arrived, and never from a proper prefix of it.\<close>

lemma frame_reassembly:
  assumes "length c < 2 ^ 32"
  shows "deframe_chunk (frame_chunk c @ rest) = Some (c, 4 + length c) \<and>
    (\<forall>n < 4 + length c. deframe_chunk (take n (frame_chunk c)) = None)"
proof -
  have "deframe_chunk (take n (frame_chunk c)) = None" if "n < 4 + length c" for n
  proof (cases "n < 4")
    case True
    then show ?thesis by (simp add: deframe_chunk_def frame_chunk_def)
  next
    case False
    then have "take 4 (take n (frame_chunk c)) = be32 (word_of_nat (length c))"
      by (simp add: frame_chunk_def min_def)
    then show ?thesis
      using that False assms by (simp add: deframe_None_iff frame_chunk_def codec_simps)
  qed
  then show ?thesis using deframe_frame [OF assms] by blast
qed

end
