(* ===== verification/Wire_Control.thy ===== *)
theory Wire_Control
  imports Wire_Chunk
begin

text \<open>
  Control messages of \<open>kanrin-protocol/src/wire.rs\<close>: their encoding, their decoding, and the
  canonical form of the selective-acknowledgement ranges of an \<open>Ack\<close>. An \<open>f32\<close> score is
  its 32-bit pattern. Three of the seven variants have no branch in the decoder.
\<close>

definition MAX_SACK_RANGES :: nat where "MAX_SACK_RANGES = 32"

record sack_range =
  sr_start :: u64
  sr_end :: u64

datatype disconnect_reason =
    ClientClose | ServerClose | AuthFailed_reason | TrafficExceeded | Expired | Timeout_reason

datatype control_message =
    Ping u64
  | Pong u64
  | ConfigUpdate bytes string
  | ScoreReport string u32
  | SessionMigrate bytes
  | Disconnect disconnect_reason
  | Ack u64 "sack_range list"

fun disconnect_reason_byte :: "disconnect_reason \<Rightarrow> u8" where
  "disconnect_reason_byte ClientClose = 0x00"
| "disconnect_reason_byte ServerClose = 0x01"
| "disconnect_reason_byte AuthFailed_reason = 0x02"
| "disconnect_reason_byte TrafficExceeded = 0x03"
| "disconnect_reason_byte Expired = 0x04"
| "disconnect_reason_byte Timeout_reason = 0x05"

definition range_encode :: "sack_range \<Rightarrow> bytes" where
  "range_encode r = be64 (sr_start r) @ be64 (sr_end r)"

fun control_encode :: "control_message \<Rightarrow> bytes" where
  "control_encode (Ping ts) = 0x01 # be64 ts"
| "control_encode (Pong ts) = 0x02 # be64 ts"
| "control_encode (ConfigUpdate config_hash url) =
     0x03 # config_hash @ be16 (word_of_nat (length (as_bytes url))) @ as_bytes url"
| "control_encode (ScoreReport node_id score) =
     0x04 # word_of_nat (length (as_bytes node_id)) # as_bytes node_id @ be32 score"
| "control_encode (SessionMigrate new_token) =
     0x05 # be16 (word_of_nat (length new_token)) @ new_token"
| "control_encode (Disconnect reason) = [0x06, disconnect_reason_byte reason]"
| "control_encode (Ack ne ranges) =
     0x07 # be64 ne @ word_of_nat (length ranges) # concat (map range_encode ranges)"

text \<open>The loop of \<open>validate_sack_ranges\<close>; \<open>floor\<close> is 128 bits wide in the source, so that
  \<open>end + 1\<close> does not overflow, and is a \<open>nat\<close> here.\<close>

fun validate_ranges_from :: "nat \<Rightarrow> sack_range list \<Rightarrow> protocol_error + unit" where
  "validate_ranges_from fl [] = Ok ()"
| "validate_ranges_from fl (r # rs) =
     (if sr_start r > sr_end r then Err (InvalidChunk (''invalid sack: '' @ ''range start > end''))
      else if unat (sr_start r) \<le> fl then
        Err (InvalidChunk (''invalid sack: '' @ ''range not ascending/disjoint above cumulative point''))
      else validate_ranges_from (unat (sr_end r) + 1) rs)"

definition validate_sack_ranges :: "u64 \<Rightarrow> sack_range list \<Rightarrow> protocol_error + unit" where
  "validate_sack_ranges ne ranges = validate_ranges_from (unat ne) ranges"

fun chunks_exact :: "nat \<Rightarrow> 'a list \<Rightarrow> 'a list list" where
  "chunks_exact n xs =
     (if n = 0 \<or> length xs < n then [] else take n xs # chunks_exact n (drop n xs))"

declare chunks_exact.simps [simp del]

definition range_decode :: "bytes \<Rightarrow> sack_range" where
  "range_decode b = \<lparr>sr_start = from_be (take 8 b), sr_end = from_be (drop 8 b)\<rparr>"

definition disconnect_reason_from_byte :: "u8 \<Rightarrow> protocol_error + disconnect_reason" where
  "disconnect_reason_from_byte b =
     (if b = 0x00 then Ok ClientClose
      else if b = 0x01 then Ok ServerClose
      else if b = 0x02 then Ok AuthFailed_reason
      else if b = 0x03 then Ok TrafficExceeded
      else if b = 0x04 then Ok Expired
      else if b = 0x05 then Ok Timeout_reason
      else Err (InvalidChunk ''unknown disconnect reason''))"

definition control_decode :: "bytes \<Rightarrow> protocol_error + control_message" where
  "control_decode data =
     (if data = [] then Err (InvalidChunk ''empty control message'')
      else if data ! 0 = 0x01 then
        (if length data < 9 then Err (BufferTooShort 9 (length data))
         else Ok (Ping (from_be (slice 1 9 data))))
      else if data ! 0 = 0x02 then
        (if length data < 9 then Err (BufferTooShort 9 (length data))
         else Ok (Pong (from_be (slice 1 9 data))))
      else if data ! 0 = 0x06 then
        (if length data < 2 then Err (BufferTooShort 2 (length data))
         else and_then (disconnect_reason_from_byte (data ! 1)) (\<lambda>reason. Ok (Disconnect reason)))
      else if data ! 0 = 0x07 then
        (if length data < 10 then Err (BufferTooShort 10 (length data))
         else let ne = from_be (slice 1 9 data); count = unat (data ! 9) in
           if count > MAX_SACK_RANGES then
             Err (InvalidChunk (''too many sack ranges: '' @ decimal count))
           else let need = 10 + count * 16 in
             if length data < need then Err (BufferTooShort need (length data))
             else let ranges = map range_decode (chunks_exact 16 (slice 10 need data)) in
               and_then (validate_sack_ranges ne ranges) (\<lambda>_. Ok (Ack ne ranges)))
      else Err (InvalidChunk (''unknown control message type: 0x'' @ hex02 (data ! 0))))"

section \<open>Lemmas\<close>

lemma chunks_exact_Nil [simp]: "chunks_exact n [] = []"
  by (subst chunks_exact.simps) auto

lemma chunks_exact_append:
  assumes "0 < n" and "length xs = n"
  shows "chunks_exact n (xs @ ys) = xs # chunks_exact n ys"
  using assms by (subst chunks_exact.simps) simp

lemma chunks_exact_concat:
  assumes "0 < n" and "\<forall>xs\<in>set xss. length xs = n"
  shows "chunks_exact n (concat xss) = xss"
  using assms(2) by (induction xss) (simp_all add: chunks_exact_append assms(1))

lemma concat_chunks_exact:
  assumes "0 < n" and "length xs = k * n"
  shows "concat (chunks_exact n xs) = xs \<and> length (chunks_exact n xs) = k \<and> (\<forall>c\<in>set (chunks_exact n xs). length c = n)"
  using assms(2)
proof (induction k arbitrary: xs)
  case 0
  then show ?case by simp
next
  case (Suc k)
  then have l: "n \<le> length xs" and "length (drop n xs) = k * n" by simp_all
  note IH = Suc.IH [OF this(2)]
  have c: "\<not> (n = 0 \<or> length xs < n)" using l assms(1) by simp
  have e: "chunks_exact n xs = take n xs # chunks_exact n (drop n xs)"
    by (rule trans [OF chunks_exact.simps]) (simp only: c if_False)
  have "concat (chunks_exact n xs) = xs" unfolding e using IH by (metis append_take_drop_id concat.simps(2))
  moreover have "length (chunks_exact n xs) = Suc k" unfolding e using IH by (metis length_Cons)
  moreover have "length c = n" if "c \<in> set (chunks_exact n xs)" for c
  proof -
    have "length (take n xs) = n" using l by simp
    then show ?thesis using that IH unfolding e by (metis set_ConsD)
  qed
  ultimately show ?case by blast
qed

lemma length_range_encode [simp]: "length (range_encode r) = 16"
  by (simp add: range_encode_def)

lemma range_decode_encode [simp]: "range_decode (range_encode r) = r"
  by (simp add: range_decode_def range_encode_def)

lemma range_encode_decode: "length b = 16 \<Longrightarrow> range_encode (range_decode b) = b"
  by (simp add: range_decode_def range_encode_def)

lemma length_ranges_encode [simp]: "length (concat (map range_encode rs)) = length rs * 16"
  by (induction rs) simp_all

lemma map_range_encode_decode:
  "\<forall>b\<in>set bs. length b = 16 \<Longrightarrow> map (\<lambda>b. range_encode (range_decode b)) bs = bs"
  by (induction bs) (simp_all add: range_encode_decode)

lemma reason_roundtrip [simp]: "disconnect_reason_from_byte (disconnect_reason_byte r) = Ok r"
  by (cases r) (simp_all add: disconnect_reason_from_byte_def)

lemma reason_from_byte_Inr: "disconnect_reason_from_byte b = Ok r \<Longrightarrow> b = disconnect_reason_byte r"
  by (auto simp: disconnect_reason_from_byte_def split: if_splits)

text \<open>What validation accepts, written without the loop: well-formed ranges, ascending, with a
  gap between neighbours, all beyond the hole at the cumulative point.\<close>

definition sack_canonical :: "u64 \<Rightarrow> sack_range list \<Rightarrow> bool" where
  "sack_canonical ne rs \<longleftrightarrow>
     (\<forall>r\<in>set rs. sr_start r \<le> sr_end r \<and> ne < sr_start r) \<and>
     sorted_wrt (\<lambda>a b. unat (sr_end a) + 1 < unat (sr_start b)) rs"

lemma validate_ranges_from_iff:
  "validate_ranges_from fl rs = Ok () \<longleftrightarrow>
     (\<forall>r\<in>set rs. sr_start r \<le> sr_end r \<and> fl < unat (sr_start r)) \<and>
     sorted_wrt (\<lambda>a b. unat (sr_end a) + 1 < unat (sr_start b)) rs"
proof (induction fl rs rule: validate_ranges_from.induct)
  case (1 fl)
  then show ?case by simp
next
  case (2 fl r rs)
  show ?case
  proof (cases "sr_start r > sr_end r \<or> unat (sr_start r) \<le> fl")
    case True
    then show ?thesis by auto
  next
    case False
    then have IH: "validate_ranges_from (unat (sr_end r) + 1) rs = Ok () \<longleftrightarrow>
      (\<forall>q\<in>set rs. sr_start q \<le> sr_end q \<and> unat (sr_end r) + 1 < unat (sr_start q)) \<and>
      sorted_wrt (\<lambda>a b. unat (sr_end a) + 1 < unat (sr_start b)) rs"
      using 2 by simp
    have "unat (sr_start r) \<le> unat (sr_end r)"
      using False by (simp add: word_le_nat_alt word_less_nat_alt)
    moreover have "fl < unat (sr_start r)" using False by simp
    ultimately have "fl < unat (sr_end r) + 1" by linarith
    with False IH show ?thesis by (auto simp del: One_nat_def intro: less_trans)
  qed
qed

lemma validate_sack_ranges_iff: "validate_sack_ranges ne rs = Ok () \<longleftrightarrow> sack_canonical ne rs"
  by (simp add: validate_sack_ranges_def validate_ranges_from_iff sack_canonical_def word_less_nat_alt)

fun control_wf :: "control_message \<Rightarrow> bool" where
  "control_wf (Ack ne rs) \<longleftrightarrow> length rs \<le> MAX_SACK_RANGES \<and> sack_canonical ne rs"
| "control_wf (ConfigUpdate h u) \<longleftrightarrow> False"
| "control_wf (ScoreReport i s) \<longleftrightarrow> False"
| "control_wf (SessionMigrate t) \<longleftrightarrow> False"
| "control_wf m \<longleftrightarrow> True"

lemma control_decode_ack:
  assumes "length rs \<le> MAX_SACK_RANGES" and "sack_canonical ne rs"
  shows "control_decode (control_encode (Ack ne rs) @ rest) = Ok (Ack ne rs)"
proof -
  let ?data = "control_encode (Ack ne rs) @ rest"
  have n: "unat (word_of_nat (length rs) :: u8) = length rs"
    using assms(1) by (simp add: MAX_SACK_RANGES_def codec_simps)
  have d: "?data = [0x07] @ be64 ne @ [word_of_nat (length rs)] @ concat (map range_encode rs) @ rest"
    by simp
  have "slice 1 9 ?data = be64 ne" by (simp add: slice_def drop_Cons')
  moreover have "?data ! 9 = word_of_nat (length rs)" by (simp add: nth_append nth_Cons')
  moreover have "slice 10 (10 + length rs * 16) ?data = concat (map range_encode rs)"
    unfolding d by (simp add: slice_def drop_Cons')
  moreover have "map range_decode (chunks_exact 16 (concat (map range_encode rs))) = rs"
    by (simp add: chunks_exact_concat comp_def)
  moreover have "validate_sack_ranges ne rs = Ok ()"
    using assms(2) by (simp add: validate_sack_ranges_iff)
  moreover have "?data ! 0 = 0x07" "10 + length rs * 16 \<le> length ?data" by simp_all
  ultimately show ?thesis
    using n assms(1) unfolding control_decode_def by (simp add: Let_def)
qed

lemma control_decode_encode: "control_wf m \<Longrightarrow> control_decode (control_encode m @ rest) = Ok m"
proof (cases m)
  case (Ack ne rs)
  moreover assume "control_wf m"
  ultimately show ?thesis using control_decode_ack by simp
qed (simp_all add: control_decode_def slice_def)

lemma control_decode_sound:
  assumes "control_decode data = Ok m"
  shows "control_wf m \<and> (\<exists>rest. data = control_encode m @ rest)"
proof -
  have ne: "data \<noteq> []" using assms by (auto simp: control_decode_def)
  then obtain b d where data: "data = b # d" by (cases data) auto
  have fixed: "be64 (from_be (slice 1 9 data)) = slice 1 9 data" if "9 \<le> length data"
    using that by simp
  have cut: "data = b # slice 1 9 data @ drop 9 data" if "9 \<le> length data"
    using data by (simp add: slice_def)
  consider "b = 0x01" | "b = 0x02" | "b = 0x06" | "b = 0x07"
    using assms data by (auto simp: control_decode_def split: if_splits)
  then show ?thesis
  proof cases
    case 1
    with assms data have "9 \<le> length data" "m = Ping (from_be (slice 1 9 data))"
      by (auto simp: control_decode_def split: if_splits)
    with cut fixed 1 show ?thesis by (metis append_Cons control_encode.simps(1) control_wf.simps(5))
  next
    case 2
    with assms data have "9 \<le> length data" "m = Pong (from_be (slice 1 9 data))"
      by (auto simp: control_decode_def split: if_splits)
    with cut fixed 2 show ?thesis by (metis append_Cons control_encode.simps(2) control_wf.simps(6))
  next
    case 3
    have "\<not> length data < 2" using 3 assms data by (simp add: control_decode_def split: if_splits)
    then have l: "2 \<le> length data" by simp
    from 3 assms data have "and_then (disconnect_reason_from_byte (data ! 1)) (\<lambda>reason. Ok (Disconnect reason)) = Ok m"
      by (auto simp: control_decode_def split: if_splits)
    then obtain r where r: "disconnect_reason_from_byte (data ! 1) = Ok r" and m: "m = Disconnect r"
      by (auto simp: and_then_Inr_iff)
    obtain c e where "d = c # e" using l data by (cases d) auto
    with 3 data r m show ?thesis by (auto dest!: reason_from_byte_Inr)
  next
    case 4
    let ?ne = "from_be (slice 1 9 data) :: u64" and ?n = "unat (data ! 9)"
    let ?cs = "chunks_exact 16 (slice 10 (10 + ?n * 16) data)"
    from 4 assms data have l: "10 \<le> length data" and n: "?n \<le> MAX_SACK_RANGES"
      and need: "10 + ?n * 16 \<le> length data" and m: "m = Ack ?ne (map range_decode ?cs)"
      and v: "validate_sack_ranges ?ne (map range_decode ?cs) = Ok ()"
      by (auto simp: control_decode_def Let_def and_then_Inr_iff split: if_splits)
    have cs: "concat ?cs = slice 10 (10 + ?n * 16) data" "length ?cs = ?n" "\<forall>c\<in>set ?cs. length c = 16"
      using concat_chunks_exact [of 16 "slice 10 (10 + ?n * 16) data" ?n] need by simp_all
    have "control_encode m = 0x07 # slice 1 9 data @ data ! 9 # slice 10 (10 + ?n * 16) data"
      using m cs l map_range_encode_decode [OF cs(3)] by (simp add: comp_def)
    also have "\<dots> = slice 0 1 data @ slice 1 9 data @ slice 9 10 data @ slice 10 (10 + ?n * 16) data"
      using 4 data l nth_slice [of 0 data 1] nth_slice [of 9 data 10] by simp
    also have "\<dots> = slice 0 (10 + ?n * 16) data"
      by (simp add: slice_cat)
    also have "\<dots> = take (10 + ?n * 16) data" by (rule slice_0)
    finally have "data = control_encode m @ drop (10 + ?n * 16) data" by simp
    moreover have "control_wf m"
      using m n v cs(2) by (simp add: validate_sack_ranges_iff)
    ultimately show ?thesis by blast
  qed
qed

interpretation control_codec: exact_codec control_encode control_decode control_wf
  by unfold_locales (simp_all add: control_decode_encode control_decode_sound)

lemma control_decode_unknown:
  assumes "b \<notin> {0x01, 0x02, 0x06, 0x07}"
  shows "control_decode (b # d) = Err (InvalidChunk (''unknown control message type: 0x'' @ hex02 b))"
  using assms by (simp add: control_decode_def)

section \<open>Properties\<close>

text \<open>The control-message decoder accepts exactly the encodings of well-formed pings, pongs,
  disconnects and canonical acknowledgements (at most 32 ranges, well formed, ascending, with
  gaps, above the cumulative point), and returns the message that was encoded.\<close>

lemma control_decode_exact:
  "control_decode data = Ok m \<longleftrightarrow> control_wf m \<and> (\<exists>rest. data = control_encode m @ rest)"
  by (rule control_codec.dec_iff)

text \<open>Three of the seven control messages can be sent but never received: whatever their
  contents, their encodings are rejected as messages of unknown type.\<close>

lemma control_undecodable:
  "control_decode (control_encode (ConfigUpdate h u)) = Err (InvalidChunk ''unknown control message type: 0x03'') \<and>
   control_decode (control_encode (ScoreReport i s)) = Err (InvalidChunk ''unknown control message type: 0x04'') \<and>
   control_decode (control_encode (SessionMigrate t)) = Err (InvalidChunk ''unknown control message type: 0x05'')"
  by (simp_all add: control_decode_unknown hex02_def hex_digit_def)

end
