(* ===== verification/Std_Collections.thy ===== *)
theory Std_Collections
  imports Kanrin_Prelude "HOL-Library.AList"
begin

text \<open>
  The standard-library containers the program uses: \<open>BTreeMap\<close> (a key-sorted association
  list, so iteration is in key order), \<open>HashMap\<close> (an association list with distinct keys;
  its order is not meaningful), and a \<open>Vec\<close> kept in priority order by \<open>push\<close> followed by
  \<open>sort_by_key\<close>. The locale \<open>keyed_store\<close> states the laws of a keyed container that the
  byte accounting of the buffers and the counting of the registries rest on; it is
  interpreted on both containers.
\<close>

section \<open>The keyed-store interface\<close>

definition store_weight :: "('v \<Rightarrow> nat) \<Rightarrow> ('k \<times> 'v) list \<Rightarrow> nat" where
  "store_weight w es = sum_list (map (\<lambda>(_, v). w v) es)"

lemma store_weight_simps [simp]:
  "store_weight w [] = 0"
  "store_weight w ((k, v) # es) = w v + store_weight w es"
  "store_weight w (es @ fs) = store_weight w es + store_weight w fs"
  by (simp_all add: store_weight_def)

lemma store_weight_dom:
  assumes "distinct (map fst es)"
  shows "store_weight w es = (\<Sum>k\<in>dom (map_of es). w (the (map_of es k)))"
  using assms
proof (induction es)
  case Nil
  then show ?case by simp
next
  case (Cons e es)
  obtain k v where e: "e = (k, v)" by (cases e)
  let ?m = "map_of es"
  have k: "k \<notin> dom ?m"
    using Cons.prems e by (auto simp: dom_map_of_conv_image_fst)
  have "(\<Sum>i\<in>dom (?m(k \<mapsto> v)). w (the ((?m(k \<mapsto> v)) i)))
      = w v + (\<Sum>i\<in>dom ?m. w (the ((?m(k \<mapsto> v)) i)))"
    using k by (simp add: finite_dom_map_of)
  also have "(\<Sum>i\<in>dom ?m. w (the ((?m(k \<mapsto> v)) i))) = (\<Sum>i\<in>dom ?m. w (the (?m i)))"
    using k by (intro sum.cong) auto
  finally show ?case using Cons e by simp
qed

lemma store_weight_one: "store_weight (\<lambda>_. 1) es = length es"
  by (induction es) auto

locale keyed_store =
  fixes lookup :: "'m \<Rightarrow> 'k \<Rightarrow> 'v option"
    and insert :: "'k \<Rightarrow> 'v \<Rightarrow> 'm \<Rightarrow> 'm"
    and remove :: "'k \<Rightarrow> 'm \<Rightarrow> 'm"
    and entries :: "'m \<Rightarrow> ('k \<times> 'v) list"
    and invar :: "'m \<Rightarrow> bool"
  assumes lookup_entries: "invar m \<Longrightarrow> lookup m = map_of (entries m)"
    and distinct_entries: "invar m \<Longrightarrow> distinct (map fst (entries m))"
    and lookup_insert: "invar m \<Longrightarrow> lookup (insert k v m) = (lookup m)(k \<mapsto> v)"
    and lookup_remove: "invar m \<Longrightarrow> lookup (remove k m) = (lookup m)(k := None)"
    and invar_insert: "invar m \<Longrightarrow> invar (insert k v m)"
    and invar_remove: "invar m \<Longrightarrow> invar (remove k m)"
begin

lemma weight_conv:
  "invar m \<Longrightarrow> store_weight w (entries m) = (\<Sum>k\<in>dom (lookup m). w (the (lookup m k)))"
  by (simp add: lookup_entries distinct_entries store_weight_dom)

lemma finite_keys: "invar m \<Longrightarrow> finite (dom (lookup m))"
  by (simp add: lookup_entries finite_dom_map_of)

lemma weight_remove:
  assumes "invar m" and "lookup m k = Some v"
  shows "store_weight w (entries (remove k m)) + w v = store_weight w (entries m)"
proof -
  let ?f = "\<lambda>i. w (the (lookup m i))"
  have k: "k \<in> dom (lookup m)" using assms(2) by blast
  have "store_weight w (entries (remove k m)) = (\<Sum>i\<in>dom (lookup m) - {k}. ?f i)"
    using assms(1) by (auto simp: weight_conv invar_remove lookup_remove intro!: sum.cong)
  then show ?thesis
    using assms k finite_keys [OF assms(1)] by (simp add: weight_conv sum.remove)
qed

lemma weight_remove_absent:
  assumes "invar m" and "lookup m k = None"
  shows "store_weight w (entries (remove k m)) = store_weight w (entries m)"
proof -
  have "(lookup m)(k := None) = lookup m" using assms(2) by (simp add: fun_upd_idem)
  then show ?thesis using assms(1) by (simp add: weight_conv invar_remove lookup_remove)
qed

lemma weight_insert:
  assumes "invar m"
  shows "store_weight w (entries (insert k v m)) + (case lookup m k of None \<Rightarrow> 0 | Some old \<Rightarrow> w old)
    = store_weight w (entries m) + w v"
proof -
  let ?f = "\<lambda>i. w (the (lookup m i))" and ?g = "\<lambda>i. w (the (((lookup m)(k \<mapsto> v)) i))"
  have fin: "finite (dom (lookup m))" by (rule finite_keys) fact
  have "store_weight w (entries (insert k v m)) = (\<Sum>i\<in>Set.insert k (dom (lookup m) - {k}). ?g i)"
    using assms by (simp add: weight_conv invar_insert lookup_insert)
  also have "\<dots> = w v + (\<Sum>i\<in>dom (lookup m) - {k}. ?g i)"
    using fin by (subst sum.insert) auto
  also have "(\<Sum>i\<in>dom (lookup m) - {k}. ?g i) = (\<Sum>i\<in>dom (lookup m) - {k}. ?f i)"
    by (intro sum.cong) auto
  finally have new: "store_weight w (entries (insert k v m)) = w v + (\<Sum>i\<in>dom (lookup m) - {k}. ?f i)" .
  show ?thesis
  proof (cases "lookup m k")
    case None
    then have "dom (lookup m) - {k} = dom (lookup m)" by blast
    with None new assms show ?thesis by (simp add: weight_conv)
  next
    case (Some old)
    then have "k \<in> dom (lookup m)" by blast
    then have "store_weight w (entries m) = w old + (\<Sum>i\<in>dom (lookup m) - {k}. ?f i)"
      using assms fin Some by (simp add: weight_conv sum.remove)
    with new Some show ?thesis by simp
  qed
qed

lemma weight_ge:
  assumes "invar m" and "lookup m k = Some v"
  shows "w v \<le> store_weight w (entries m)"
  using weight_remove [OF assms, of w] by linarith

lemma size_insert:
  assumes "invar m"
  shows "length (entries (insert k v m)) = (if lookup m k = None then Suc (length (entries m)) else length (entries m))"
  using weight_insert [OF assms, of "\<lambda>_. 1" k v] unfolding store_weight_one
  by (cases "lookup m k") simp_all

lemma size_remove:
  assumes "invar m"
  shows "length (entries (remove k m)) = (if lookup m k = None then length (entries m) else length (entries m) - 1)"
proof (cases "lookup m k")
  case None
  then show ?thesis
    using weight_remove_absent [OF assms None, of "\<lambda>_. 1"] unfolding store_weight_one by simp
next
  case (Some v)
  then show ?thesis
    using weight_remove [OF assms Some, of "\<lambda>_. 1"] unfolding store_weight_one by simp
qed

lemma entries_lookup:
  "invar m \<Longrightarrow> (k, v) \<in> set (entries m) \<longleftrightarrow> lookup m k = Some v"
  by (simp add: lookup_entries distinct_entries)

end

section \<open>BTreeMap\<close>

type_synonym ('k, 'v) btree = "('k \<times> 'v) list"

fun bt_insert :: "'k::linorder \<Rightarrow> 'v \<Rightarrow> ('k, 'v) btree \<Rightarrow> ('k, 'v) btree" where
  "bt_insert k v [] = [(k, v)]"
| "bt_insert k v ((k', v') # m) =
     (if k < k' then (k, v) # (k', v') # m
      else if k = k' then (k, v) # m
      else (k', v') # bt_insert k v m)"

definition bt_remove :: "'k::linorder \<Rightarrow> ('k, 'v) btree \<Rightarrow> ('k, 'v) btree" where
  "bt_remove k m = filter (\<lambda>(k', _). k' \<noteq> k) m"

definition bt_get :: "('k::linorder, 'v) btree \<Rightarrow> 'k \<Rightarrow> 'v option" where
  "bt_get m k = map_of m k"

text \<open>\<open>split_off(&k)\<close> keeps the keys below \<open>k\<close> and returns the rest.\<close>

definition bt_split_off :: "'k::linorder \<Rightarrow> ('k, 'v) btree \<Rightarrow> ('k, 'v) btree \<times> ('k, 'v) btree" where
  "bt_split_off k m = (filter (\<lambda>(k', _). k' < k) m, filter (\<lambda>(k', _). k \<le> k') m)"

definition bt_range_from :: "'k::linorder \<Rightarrow> ('k, 'v) btree \<Rightarrow> ('k, 'v) btree" where
  "bt_range_from a m = filter (\<lambda>(k, _). a \<le> k) m"

definition bt_range :: "'k::linorder \<Rightarrow> 'k \<Rightarrow> ('k, 'v) btree \<Rightarrow> ('k, 'v) btree" where
  "bt_range a b m = filter (\<lambda>(k, _). a \<le> k \<and> k \<le> b) m"

definition bt_first :: "('k, 'v) btree \<Rightarrow> ('k \<times> 'v) option" where
  "bt_first m = (case m of [] \<Rightarrow> None | e # _ \<Rightarrow> Some e)"

definition bt_keys :: "('k, 'v) btree \<Rightarrow> 'k list" where
  "bt_keys m = map fst m"

definition bt_wf :: "('k::linorder, 'v) btree \<Rightarrow> bool" where
  "bt_wf m = sorted_wrt (<) (map fst m)"

lemma bt_wf_Nil [simp]: "bt_wf []"
  by (simp add: bt_wf_def)

lemma bt_wf_Cons: "bt_wf ((k, v) # m) \<longleftrightarrow> (\<forall>k'\<in>fst ` set m. k < k') \<and> bt_wf m"
  by (auto simp: bt_wf_def)

lemma bt_wf_distinct: "bt_wf m \<Longrightarrow> distinct (map fst m)"
  by (simp add: bt_wf_def sorted_wrt_less_distinct)

lemma fst_set_bt_insert [simp]: "fst ` set (bt_insert k v m) = Set.insert k (fst ` set m)"
  by (induction k v m rule: bt_insert.induct) auto

lemma bt_wf_insert [simp]: "bt_wf m \<Longrightarrow> bt_wf (bt_insert k v m)"
  by (induction k v m rule: bt_insert.induct) (auto simp: bt_wf_Cons)

lemma bt_wf_filter [simp]: "bt_wf m \<Longrightarrow> bt_wf (filter P m)"
  unfolding bt_wf_def sorted_wrt_map by (rule sorted_wrt_filter)

lemma bt_wf_remove [simp]: "bt_wf m \<Longrightarrow> bt_wf (bt_remove k m)"
  by (simp add: bt_remove_def)

lemma map_of_filter_key: "map_of (filter (\<lambda>(k, _). P k) m) k = (if P k then map_of m k else None)"
  by (induction m) auto

lemma bt_get_insert: "bt_wf m \<Longrightarrow> bt_get (bt_insert k v m) = (bt_get m)(k \<mapsto> v)"
  by (induction k v m rule: bt_insert.induct) (auto simp: bt_get_def bt_wf_Cons fun_eq_iff)

lemma bt_get_remove: "bt_get (bt_remove k m) = (bt_get m)(k := None)"
  by (auto simp: bt_get_def bt_remove_def map_of_filter_key fun_eq_iff)

interpretation btree: keyed_store bt_get bt_insert bt_remove "\<lambda>m. m" bt_wf
  by unfold_locales (auto simp: bt_get_def [abs_def] bt_wf_distinct bt_get_remove bt_get_insert [unfolded bt_get_def [abs_def]]
      bt_get_remove [unfolded bt_get_def [abs_def]])

lemma bt_get_range_from: "bt_get (bt_range_from a m) k = (if a \<le> k then bt_get m k else None)"
  by (simp add: bt_get_def bt_range_from_def map_of_filter_key)

lemma bt_get_range: "bt_get (bt_range a b m) k = (if a \<le> k \<and> k \<le> b then bt_get m k else None)"
  by (simp add: bt_get_def bt_range_def map_of_filter_key)

lemma in_set_bt_get: "bt_wf m \<Longrightarrow> (k, v) \<in> set m \<longleftrightarrow> bt_get m k = Some v"
  by (rule btree.entries_lookup)

lemma bt_get_eq_None: "bt_get m k = None \<longleftrightarrow> k \<notin> fst ` set m"
  by (simp add: bt_get_def map_of_eq_None_iff)

lemma length_bt_remove_less: "bt_get m k = Some v \<Longrightarrow> length (bt_remove k m) < length m"
proof -
  assume "bt_get m k = Some v"
  then have "(k, v) \<in> set m" by (simp add: bt_get_def map_of_SomeD)
  then show ?thesis unfolding bt_remove_def
    by (intro length_filter_less) auto
qed

section \<open>HashMap\<close>

type_synonym ('k, 'v) hmap = "('k \<times> 'v) list"

definition hm_get :: "('k, 'v) hmap \<Rightarrow> 'k \<Rightarrow> 'v option" where
  "hm_get m k = map_of m k"

definition hm_insert :: "'k \<Rightarrow> 'v \<Rightarrow> ('k, 'v) hmap \<Rightarrow> ('k, 'v) hmap" where
  "hm_insert k v m = AList.update k v m"

definition hm_remove :: "'k \<Rightarrow> ('k, 'v) hmap \<Rightarrow> ('k, 'v) hmap" where
  "hm_remove k m = AList.delete k m"

definition hm_retain :: "('k \<Rightarrow> 'v \<Rightarrow> bool) \<Rightarrow> ('k, 'v) hmap \<Rightarrow> ('k, 'v) hmap" where
  "hm_retain p m = filter (\<lambda>(k, v). p k v) m"

definition hm_wf :: "('k, 'v) hmap \<Rightarrow> bool" where
  "hm_wf m = distinct (map fst m)"

interpretation hmap: keyed_store hm_get hm_insert hm_remove "\<lambda>m. m" hm_wf
  by unfold_locales
     (auto simp: hm_get_def hm_insert_def hm_remove_def hm_wf_def fun_eq_iff
        update_conv' delete_conv distinct_update distinct_delete)

lemma hm_wf_Nil [simp]: "hm_wf []"
  by (simp add: hm_wf_def)

lemma hm_get_Nil [simp]: "hm_get [] k = None"
  by (simp add: hm_get_def)

lemma hm_wf_retain [simp]: "hm_wf m \<Longrightarrow> hm_wf (hm_retain p m)"
  unfolding hm_wf_def hm_retain_def by (rule distinct_map_filter)

lemma hm_get_retain:
  "hm_wf m \<Longrightarrow> hm_get (hm_retain p m) k = (case hm_get m k of None \<Rightarrow> None | Some v \<Rightarrow> if p k v then Some v else None)"
  by (induction m) (auto simp: hm_wf_def hm_get_def hm_retain_def image_iff map_of_eq_None_iff split: option.splits)

lemma length_hm_retain: "length (hm_retain p m) \<le> length m"
  by (simp add: hm_retain_def)

section \<open>Vectors kept sorted by priority\<close>

text \<open>\<open>v.push(x); v.sort_by_key(f)\<close>: Rust's sort is stable, as is \<open>sort_key\<close>.\<close>

definition push_sort_by_key :: "('a \<Rightarrow> 'k::linorder) \<Rightarrow> 'a \<Rightarrow> 'a list \<Rightarrow> 'a list" where
  "push_sort_by_key f x xs = sort_key f (xs @ [x])"

lemma set_push_sort [simp]: "set (push_sort_by_key f x xs) = Set.insert x (set xs)"
  by (simp add: push_sort_by_key_def)

lemma length_push_sort [simp]: "length (push_sort_by_key f x xs) = Suc (length xs)"
  by (simp add: push_sort_by_key_def)

lemma sorted_push_sort [simp]: "sorted (map f (push_sort_by_key f x xs))"
  by (simp add: push_sort_by_key_def)

text \<open>Among equal priorities, earlier registrations stay first.\<close>

lemma push_sort_stable:
  "filter (\<lambda>y. f y = k) (push_sort_by_key f x xs) = filter (\<lambda>y. f y = k) xs @ (if f x = k then [x] else [])"
proof -
  have "filter (\<lambda>y. f y = k) (sort_key f (xs @ [x])) = filter (\<lambda>y. f y = k) (xs @ [x])"
    by (rule sort_key_stable)
  then show ?thesis by (simp add: push_sort_by_key_def)
qed

end
