(* ===== verification/Continuity_Send.thy ===== *)
theory Continuity_Send
  imports Wire_Control Std_Collections
begin

text \<open>
  The sending half of \<open>kanrin-protocol/src/continuity.rs\<close>: the buffer of unacknowledged chunks
  with its byte accounting, the acknowledgements that release them, and the replay cursor.
  \<open>release\<close> is the abstract specification of an acknowledgement: drop exactly the chunks whose
  sequence satisfies a predicate. Every acknowledgement operation refines it.
\<close>

definition DEFAULT_MAX_BUFFER_BYTES :: nat where "DEFAULT_MAX_BUFFER_BYTES = 16 * 1024 * 1024"

record send_buffer =
  sb_chunks :: "(u64, bytes) btree"
  sb_buffered_bytes :: nat
  sb_max_bytes :: nat

definition send_buffer_new :: "nat \<Rightarrow> send_buffer" where
  "send_buffer_new mx = \<lparr>sb_chunks = [], sb_buffered_bytes = 0, sb_max_bytes = mx\<rparr>"

definition send_buffer_with_default_capacity :: send_buffer where
  "send_buffer_with_default_capacity = send_buffer_new DEFAULT_MAX_BUFFER_BYTES"

definition send_push :: "u64 \<Rightarrow> bytes \<Rightarrow> send_buffer \<Rightarrow> (protocol_error + unit) \<times> send_buffer" where
  "send_push sq data sb =
     (if sb_chunks sb \<noteq> [] \<and> sb_buffered_bytes sb + length data > sb_max_bytes sb
      then (Err (SendBufferFull (sb_buffered_bytes sb) (sb_max_bytes sb)), sb)
      else
        let old = bt_get (sb_chunks sb) sq;
            sb1 = sb\<lparr>sb_chunks := bt_insert sq data (sb_chunks sb)\<rparr>;
            sb2 = (case old of
                     Some o1 \<Rightarrow> sb1\<lparr>sb_buffered_bytes := sb_buffered_bytes sb1 - length o1\<rparr>
                   | None \<Rightarrow> sb1)
        in (Ok (), sb2\<lparr>sb_buffered_bytes := sb_buffered_bytes sb2 + length data\<rparr>))"

definition ack_cumulative :: "u64 \<Rightarrow> send_buffer \<Rightarrow> nat \<times> send_buffer" where
  "ack_cumulative up_to sb =
     (let (removed, retained) =
            (case checked_add up_to 1 of
               Some boundary \<Rightarrow> bt_split_off boundary (sb_chunks sb)
             | None \<Rightarrow> (sb_chunks sb, []));
          removed_bytes = store_weight length removed
      in (length removed,
          sb\<lparr>sb_chunks := retained, sb_buffered_bytes := sb_buffered_bytes sb - removed_bytes\<rparr>))"

primrec ack_selective :: "u64 list \<Rightarrow> send_buffer \<Rightarrow> nat \<times> send_buffer" where
  "ack_selective [] sb = (0, sb)"
| "ack_selective (sq # sqs) sb =
     (case bt_get (sb_chunks sb) sq of
        Some data \<Rightarrow>
          let (removed, sb') = ack_selective sqs
                (sb\<lparr>sb_chunks := bt_remove sq (sb_chunks sb),
                    sb_buffered_bytes := sb_buffered_bytes sb - length data\<rparr>)
          in (removed + 1, sb')
      | None \<Rightarrow> ack_selective sqs sb)"

definition ack_range :: "u64 \<Rightarrow> u64 \<Rightarrow> send_buffer \<Rightarrow> nat \<times> send_buffer" where
  "ack_range start stop sb =
     (if start > stop then (0, sb)
      else ack_selective (bt_keys (bt_range start stop (sb_chunks sb))) sb)"

primrec ack_ranges :: "sack_range list \<Rightarrow> send_buffer \<Rightarrow> nat \<times> send_buffer" where
  "ack_ranges [] sb = (0, sb)"
| "ack_ranges (r # rs) sb =
     (let (n, sb1) = ack_range (sr_start r) (sr_end r) sb; (m, sb2) = ack_ranges rs sb1 in (n + m, sb2))"

definition apply_ack :: "u64 \<Rightarrow> sack_range list \<Rightarrow> send_buffer \<Rightarrow> nat \<times> send_buffer" where
  "apply_ack ne ranges sb =
     (let (cumulative, sb1) =
            (case checked_sub ne 1 of Some up_to \<Rightarrow> ack_cumulative up_to sb | None \<Rightarrow> (0, sb));
          (selective, sb2) = ack_ranges ranges sb1
      in (cumulative + selective, sb2))"

definition unacked :: "send_buffer \<Rightarrow> (u64 \<times> bytes) list" where
  "unacked sb = map (\<lambda>(sq, c). (sq, c)) (sb_chunks sb)"

definition send_len :: "send_buffer \<Rightarrow> nat" where
  "send_len sb = length (sb_chunks sb)"

definition send_is_empty :: "send_buffer \<Rightarrow> bool" where
  "send_is_empty sb \<longleftrightarrow> sb_chunks sb = []"

definition send_is_full :: "send_buffer \<Rightarrow> bool" where
  "send_is_full sb \<longleftrightarrow> sb_buffered_bytes sb \<ge> sb_max_bytes sb"

definition lowest_unacked :: "send_buffer \<Rightarrow> u64 option" where
  "lowest_unacked sb = map_option fst (bt_first (sb_chunks sb))"

section \<open>Replay\<close>

record replay =
  rep_next :: "u64 option"
  rep_replayed :: nat

definition replay_new :: replay where
  "replay_new = \<lparr>rep_next = Some 0, rep_replayed = 0\<rparr>"

definition next_chunk :: "send_buffer \<Rightarrow> replay \<Rightarrow> (u64 \<times> bytes) option" where
  "next_chunk sb r =
     (case rep_next r of None \<Rightarrow> None | Some from_ \<Rightarrow> bt_first (bt_range_from from_ (sb_chunks sb)))"

definition confirm_sent :: "u64 \<Rightarrow> replay \<Rightarrow> replay" where
  "confirm_sent sq r = r\<lparr>rep_next := checked_add sq 1, rep_replayed := rep_replayed r + 1\<rparr>"

definition is_complete :: "send_buffer \<Rightarrow> replay \<Rightarrow> bool" where
  "is_complete sb r \<longleftrightarrow> next_chunk sb r = None"

section \<open>The buffer invariant\<close>

definition send_inv :: "send_buffer \<Rightarrow> bool" where
  "send_inv sb \<longleftrightarrow> bt_wf (sb_chunks sb) \<and> sb_buffered_bytes sb = store_weight length (sb_chunks sb)"

definition send_bounded :: "send_buffer \<Rightarrow> bool" where
  "send_bounded sb \<longleftrightarrow> sb_buffered_bytes sb \<le> sb_max_bytes sb \<or> length (sb_chunks sb) \<le> 1"

lemma send_new_inv [simp]: "send_inv (send_buffer_new mx)" "send_bounded (send_buffer_new mx)"
  by (simp_all add: send_inv_def send_bounded_def send_buffer_new_def)

lemma send_push_full:
  "sb_chunks sb \<noteq> [] \<Longrightarrow> sb_max_bytes sb < sb_buffered_bytes sb + length d \<Longrightarrow>
    send_push sq d sb = (Err (SendBufferFull (sb_buffered_bytes sb) (sb_max_bytes sb)), sb)"
  by (simp add: send_push_def)

lemma send_push_ok:
  assumes "send_inv sb" and "sb_chunks sb = [] \<or> sb_buffered_bytes sb + length d \<le> sb_max_bytes sb"
  obtains sb' where "send_push sq d sb = (Ok (), sb')" and "send_inv sb'"
    and "sb_chunks sb' = bt_insert sq d (sb_chunks sb)"
    and "sb_buffered_bytes sb' + (case bt_get (sb_chunks sb) sq of None \<Rightarrow> 0 | Some d' \<Rightarrow> length d')
          = sb_buffered_bytes sb + length d"
    and "sb_max_bytes sb' = sb_max_bytes sb"
proof -
  let ?c = "sb_chunks sb"
  from assms(1) have wf: "bt_wf ?c" and b: "sb_buffered_bytes sb = store_weight length ?c"
    by (simp_all add: send_inv_def)
  note w = btree.weight_insert [OF wf, of length sq d]
  define sb' where "sb' = snd (send_push sq d sb)"
  have run: "send_push sq d sb = (Ok (), sb')"
    and c: "sb_chunks sb' = bt_insert sq d ?c" and m: "sb_max_bytes sb' = sb_max_bytes sb"
    and n: "sb_buffered_bytes sb' =
      sb_buffered_bytes sb - (case bt_get ?c sq of None \<Rightarrow> 0 | Some d' \<Rightarrow> length d') + length d"
    using assms(2) by (auto simp: sb'_def send_push_def Let_def split: option.splits)
  have le: "(case bt_get ?c sq of None \<Rightarrow> 0 | Some d' \<Rightarrow> length d') \<le> sb_buffered_bytes sb"
    using btree.weight_ge [OF wf, of sq _ length] b by (auto split: option.splits)
  have "send_inv sb'" using wf w b c n le by (simp add: send_inv_def)
  with run c m n le show thesis by (intro that [of sb']) simp_all
qed

lemma send_push_bounded:
  assumes "send_inv sb" and "send_bounded sb"
  shows "send_inv (snd (send_push sq d sb)) \<and> send_bounded (snd (send_push sq d sb))"
proof (cases "sb_chunks sb \<noteq> [] \<and> sb_max_bytes sb < sb_buffered_bytes sb + length d")
  case True
  with assms show ?thesis by (simp add: send_push_full)
next
  case False
  then have "sb_chunks sb = [] \<or> sb_buffered_bytes sb + length d \<le> sb_max_bytes sb" by auto
  from send_push_ok [OF assms(1) this, of sq] obtain sb' where sb':
    "send_push sq d sb = (Ok (), sb')" "send_inv sb'" "sb_chunks sb' = bt_insert sq d (sb_chunks sb)"
    "sb_buffered_bytes sb' \<le> sb_buffered_bytes sb + length d" "sb_max_bytes sb' = sb_max_bytes sb"
    by (metis le_add1)
  then show ?thesis using False by (auto simp: send_bounded_def)
qed

section \<open>Acknowledgements\<close>

definition release :: "(u64 \<Rightarrow> bool) \<Rightarrow> send_buffer \<Rightarrow> nat \<times> send_buffer" where
  "release P sb =
     (length (filter (\<lambda>(k, _). P k) (sb_chunks sb)),
      sb\<lparr>sb_chunks := filter (\<lambda>(k, _). \<not> P k) (sb_chunks sb),
         sb_buffered_bytes := sb_buffered_bytes sb - store_weight length (filter (\<lambda>(k, _). P k) (sb_chunks sb))\<rparr>)"

lemma store_weight_partition:
  "store_weight w (filter P es) + store_weight w (filter (\<lambda>x. \<not> P x) es) = store_weight w es"
  by (induction es) auto

lemma filter_not_prod: "filter (\<lambda>(k, _). \<not> P k) m = filter (\<lambda>x. \<not> (case x of (k, _) \<Rightarrow> P k)) m"
  by (rule filter_cong) auto

lemma release_inv: "send_inv sb \<Longrightarrow> send_inv (snd (release P sb))"
  using store_weight_partition [of length "\<lambda>(k, _). P k" "sb_chunks sb"]
  by (simp add: send_inv_def release_def filter_not_prod)

lemma release_bounded:
  assumes "send_bounded sb" shows "send_bounded (snd (release P sb))"
  using assms unfolding send_bounded_def release_def
  by (auto intro: order.trans [OF length_filter_le])

lemma release_max [simp]: "sb_max_bytes (snd (release P sb)) = sb_max_bytes sb"
  by (simp add: release_def)

lemma release_chunks: "sb_chunks (snd (release P sb)) = filter (\<lambda>(k, _). \<not> P k) (sb_chunks sb)"
  by (simp add: release_def)

lemma release_get:
  "bt_get (sb_chunks (snd (release P sb))) k = (if P k then None else bt_get (sb_chunks sb) k)"
  using map_of_filter_key [of "\<lambda>k. \<not> P k" "sb_chunks sb" k] by (simp add: release_chunks bt_get_def)

lemma release_count: "fst (release P sb) + length (sb_chunks (snd (release P sb))) = length (sb_chunks sb)"
  using length_filter_partition [of "\<lambda>(k, _). P k" "sb_chunks sb"] by (simp add: release_def filter_not_prod)

lemma release_False [simp]: "release (\<lambda>_. False) sb = (0, sb)"
  by (simp add: release_def)

lemma release_cong: "(\<And>k. P k \<longleftrightarrow> Q k) \<Longrightarrow> release P sb = release Q sb"
  by (simp add: release_def)

text \<open>Two operations in a row, their counts added.\<close>

definition count_then :: "nat \<times> send_buffer \<Rightarrow> (send_buffer \<Rightarrow> nat \<times> send_buffer) \<Rightarrow> nat \<times> send_buffer" where
  "count_then r f = (fst r + fst (f (snd r)), snd (f (snd r)))"

lemma case_count_then: "(case r of (n, sb1) \<Rightarrow> case f sb1 of (m, sb2) \<Rightarrow> (n + m, sb2)) = count_then r f"
  by (simp add: count_then_def case_prod_unfold Let_def)

lemma filter_or_measures:
  "length (filter (\<lambda>(k, _). P k) m) + length (filter (\<lambda>(k, _). Q k) (filter (\<lambda>(k, _). \<not> P k) m))
      = length (filter (\<lambda>(k, _). P k \<or> Q k) m)"
  "store_weight w (filter (\<lambda>(k, _). P k) m)
      + store_weight w (filter (\<lambda>(k, _). Q k) (filter (\<lambda>(k, _). \<not> P k) m))
      = store_weight w (filter (\<lambda>(k, _). P k \<or> Q k) m)"
  by (induction m) auto

lemma release_release: "count_then (release P sb) (release Q) = release (\<lambda>k. P k \<or> Q k) sb"
proof -
  let ?m = "sb_chunks sb"
  have c: "filter (\<lambda>(k, _). \<not> Q k) (filter (\<lambda>(k, _). \<not> P k) ?m) = filter (\<lambda>(k, _). \<not> (P k \<or> Q k)) ?m"
    unfolding filter_filter by (rule filter_cong) auto
  show ?thesis
    using filter_or_measures(1) [of P ?m Q] filter_or_measures(2) [of length P ?m Q]
    unfolding count_then_def release_def by (simp add: c del: filter_filter de_Morgan_disj)
qed

lemma ack_cumulative_release: "ack_cumulative up_to sb = release (\<lambda>k. k \<le> up_to) sb"
proof (cases "up_to = word_MAX")
  case True
  then show ?thesis by (simp add: ack_cumulative_def checked_add_1 release_def)
next
  case False
  then have "k < up_to + 1 \<longleftrightarrow> k \<le> up_to" for k
    using unat_Suc [OF False] by (simp add: word_less_nat_alt word_le_nat_alt less_Suc_eq_le)
  moreover from this have "up_to + 1 \<le> k \<longleftrightarrow> \<not> k \<le> up_to" for k by (metis not_le)
  ultimately show ?thesis
    using False by (simp add: ack_cumulative_def checked_add_1 release_def bt_split_off_def)
qed

lemma filter_key_eq:
  assumes "bt_wf m"
  shows "filter (\<lambda>(k, _). k = a) m = (case bt_get m a of None \<Rightarrow> [] | Some v \<Rightarrow> [(a, v)])"
  using assms
proof (induction m)
  case Nil
  then show ?case by (simp add: bt_get_def)
next
  case (Cons e m)
  obtain k v where e: "e = (k, v)" by (cases e)
  show ?case
  proof (cases "k = a")
    case True
    then have "filter (\<lambda>(k, _). k = a) m = []"
      using Cons.prems e by (auto simp: bt_wf_Cons filter_empty_conv)
    with True e show ?thesis by (simp add: bt_get_def)
  next
    case False
    then show ?thesis using Cons e by (simp add: bt_get_def bt_wf_Cons)
  qed
qed

lemma ack_one_release:
  assumes "bt_wf (sb_chunks sb)"
  shows "(case bt_get (sb_chunks sb) a of
      None \<Rightarrow> (0, sb)
    | Some d \<Rightarrow> (1, sb\<lparr>sb_chunks := bt_remove a (sb_chunks sb),
                      sb_buffered_bytes := sb_buffered_bytes sb - length d\<rparr>)) = release (\<lambda>k. k = a) sb"
proof (cases "bt_get (sb_chunks sb) a")
  case None
  then have "filter (\<lambda>(k, _). k \<noteq> a) (sb_chunks sb) = sb_chunks sb"
    unfolding bt_get_eq_None by (force intro: filter_True)
  with None show ?thesis by (simp add: release_def filter_key_eq [OF assms])
next
  case (Some d)
  then show ?thesis by (simp add: release_def filter_key_eq [OF assms] bt_remove_def)
qed

lemma ack_selective_release:
  "bt_wf (sb_chunks sb) \<Longrightarrow> ack_selective sqs sb = release (\<lambda>k. k \<in> set sqs) sb"
proof (induction sqs arbitrary: sb)
  case Nil
  then show ?case by simp
next
  case (Cons a sqs)
  let ?one = "release (\<lambda>k. k = a) sb"
  have "bt_wf (sb_chunks (snd ?one))" using Cons.prems by (simp add: release_chunks)
  note IH = Cons.IH [OF this]
  have "ack_selective (a # sqs) sb = count_then ?one (ack_selective sqs)"
    unfolding ack_one_release [OF Cons.prems, of a, symmetric]
    by (cases "bt_get (sb_chunks sb) a") (simp_all add: count_then_def case_prod_unfold Let_def)
  also have "\<dots> = count_then ?one (release (\<lambda>k. k \<in> set sqs))"
    by (simp add: count_then_def IH)
  also have "\<dots> = release (\<lambda>k. k = a \<or> k \<in> set sqs) sb" by (rule release_release)
  finally show ?case by simp
qed

lemma release_keys_cong:
  assumes "\<And>k. k \<in> fst ` set (sb_chunks sb) \<Longrightarrow> P k \<longleftrightarrow> Q k"
  shows "release P sb = release Q sb"
proof -
  have "filter (\<lambda>(k, _). P k) (sb_chunks sb) = filter (\<lambda>(k, _). Q k) (sb_chunks sb)"
    "filter (\<lambda>(k, _). \<not> P k) (sb_chunks sb) = filter (\<lambda>(k, _). \<not> Q k) (sb_chunks sb)"
    using assms by (force intro: filter_cong)+
  then show ?thesis by (simp add: release_def)
qed

lemma ack_range_release:
  assumes "bt_wf (sb_chunks sb)"
  shows "ack_range a b sb = release (\<lambda>k. a \<le> k \<and> k \<le> b) sb"
proof (cases "a > b")
  case True
  then have "release (\<lambda>k. a \<le> k \<and> k \<le> b) sb = release (\<lambda>_. False) sb"
    by (intro release_cong) auto
  with True show ?thesis by (simp add: ack_range_def)
next
  case False
  have "release (\<lambda>k. k \<in> set (bt_keys (bt_range a b (sb_chunks sb)))) sb = release (\<lambda>k. a \<le> k \<and> k \<le> b) sb"
    by (rule release_keys_cong) (force simp: bt_keys_def bt_range_def)
  with False show ?thesis by (simp add: ack_range_def ack_selective_release [OF assms])
qed

lemma ack_ranges_release:
  "bt_wf (sb_chunks sb) \<Longrightarrow>
    ack_ranges rs sb = release (\<lambda>k. \<exists>r\<in>set rs. sr_start r \<le> k \<and> k \<le> sr_end r) sb"
proof (induction rs arbitrary: sb)
  case Nil
  then show ?case by simp
next
  case (Cons r rs)
  let ?P = "\<lambda>k. sr_start r \<le> k \<and> k \<le> sr_end r" and ?Q = "\<lambda>k. \<exists>r\<in>set rs. sr_start r \<le> k \<and> k \<le> sr_end r"
  have "bt_wf (sb_chunks (snd (release ?P sb)))" using Cons.prems by (simp add: release_chunks)
  note IH = Cons.IH [OF this]
  have "ack_ranges (r # rs) sb = count_then (release ?P sb) (ack_ranges rs)"
    by (simp add: ack_range_release [OF Cons.prems] case_count_then)
  also have "\<dots> = count_then (release ?P sb) (release ?Q)"
    by (simp add: count_then_def IH)
  also have "\<dots> = release (\<lambda>k. ?P k \<or> ?Q k) sb" by (rule release_release)
  finally show ?case by simp
qed

text \<open>The sequences an acknowledgement covers.\<close>

definition acked :: "u64 \<Rightarrow> sack_range list \<Rightarrow> u64 \<Rightarrow> bool" where
  "acked ne rs k \<longleftrightarrow> k < ne \<or> (\<exists>r\<in>set rs. sr_start r \<le> k \<and> k \<le> sr_end r)"

lemma apply_ack_release:
  assumes "bt_wf (sb_chunks sb)"
  shows "apply_ack ne rs sb = release (acked ne rs) sb"
proof -
  let ?Q = "\<lambda>k. \<exists>r\<in>set rs. sr_start r \<le> k \<and> k \<le> sr_end r"
  have cum: "(case checked_sub ne 1 of Some up_to \<Rightarrow> ack_cumulative up_to sb | None \<Rightarrow> (0, sb)) = release (\<lambda>k. k < ne) sb"
  proof (cases "ne = 0")
    case True
    then show ?thesis by (simp add: checked_sub_def)
  next
    case False
    then have "1 \<le> ne" by (simp add: word_le_nat_alt Suc_le_eq unat_gt_0)
    moreover have "k \<le> ne - 1 \<longleftrightarrow> k < ne" for k
      using False \<open>1 \<le> ne\<close> by (simp add: word_le_nat_alt word_less_nat_alt unat_sub) linarith
    ultimately show ?thesis by (simp add: checked_sub_def ack_cumulative_release)
  qed
  have "bt_wf (sb_chunks (snd (release (\<lambda>k. k < ne) sb)))" using assms by (simp add: release_chunks)
  note ranges = ack_ranges_release [OF this, of rs]
  have "apply_ack ne rs sb = count_then (release (\<lambda>k. k < ne) sb) (ack_ranges rs)"
    by (simp add: apply_ack_def cum case_count_then)
  also have "\<dots> = count_then (release (\<lambda>k. k < ne) sb) (release ?Q)"
    by (simp add: count_then_def ranges)
  also have "\<dots> = release (\<lambda>k. k < ne \<or> ?Q k) sb" by (rule release_release)
  finally show ?thesis by (simp add: acked_def [abs_def])
qed

lemma apply_ack_inv:
  assumes "send_inv sb"
  shows "send_inv (snd (apply_ack ne rs sb))"
  using assms release_inv by (simp add: apply_ack_release send_inv_def)

lemma apply_ack_get:
  assumes "send_inv sb"
  shows "bt_get (sb_chunks (snd (apply_ack ne rs sb))) k = (if acked ne rs k then None else bt_get (sb_chunks sb) k)"
  using assms by (simp add: apply_ack_release send_inv_def release_get)

section \<open>Any sequence of operations\<close>

datatype send_op =
    Push u64 bytes
  | AckCumulative u64
  | AckSelective "u64 list"
  | AckRange u64 u64
  | ApplyAck u64 "sack_range list"

fun send_apply :: "send_op \<Rightarrow> send_buffer \<Rightarrow> send_buffer" where
  "send_apply (Push sq d) sb = snd (send_push sq d sb)"
| "send_apply (AckCumulative up_to) sb = snd (ack_cumulative up_to sb)"
| "send_apply (AckSelective sqs) sb = snd (ack_selective sqs sb)"
| "send_apply (AckRange a b) sb = snd (ack_range a b sb)"
| "send_apply (ApplyAck ne rs) sb = snd (apply_ack ne rs sb)"

lemma send_push_max [simp]: "sb_max_bytes (snd (send_push sq d sb)) = sb_max_bytes sb"
  by (simp add: send_push_def Let_def split: option.split)

lemma send_apply_inv:
  assumes "send_inv sb" and "send_bounded sb"
  shows "send_inv (send_apply op sb) \<and> send_bounded (send_apply op sb) \<and>
    sb_max_bytes (send_apply op sb) = sb_max_bytes sb"
proof -
  have wf: "bt_wf (sb_chunks sb)" using assms(1) by (simp add: send_inv_def)
  show ?thesis
    using send_push_bounded [OF assms] release_inv [OF assms(1)] release_bounded [OF assms(2)]
    by (cases op) (simp_all add: ack_cumulative_release ack_selective_release [OF wf]
        ack_range_release [OF wf] apply_ack_release [OF wf])
qed

lemma send_run_inv:
  assumes "send_inv sb" and "send_bounded sb"
  shows "send_inv (fold send_apply ops sb) \<and> send_bounded (fold send_apply ops sb) \<and>
    sb_max_bytes (fold send_apply ops sb) = sb_max_bytes sb"
  using assms
proof (induction ops arbitrary: sb)
  case Nil
  then show ?case by simp
next
  case (Cons op ops)
  from send_apply_inv [OF Cons.prems, of op] Cons.IH [of "send_apply op sb"] show ?case by simp
qed

section \<open>Properties\<close>

text \<open>After any sequence of pushes and acknowledgements the send buffer's byte counter is the exact
  total of the chunks it holds, the chunks are in strictly ascending sequence order, and the
  configured bound is respected except by a single chunk that alone exceeds it.\<close>

lemma send_buffer_accounting:
  assumes "sb = fold send_apply ops (send_buffer_new mx)"
  shows "sb_buffered_bytes sb = sum_list (map (\<lambda>(_, d). length d) (sb_chunks sb)) \<and>
    sorted_wrt (<) (map fst (sb_chunks sb)) \<and>
    (sb_buffered_bytes sb \<le> mx \<or> length (sb_chunks sb) \<le> 1)"
  using send_run_inv [of "send_buffer_new mx" ops] assms
  by (auto simp: send_inv_def send_bounded_def bt_wf_def store_weight_def send_buffer_new_def)

text \<open>C13. Applying an acknowledgement releases exactly the chunks it covers: those below the cumulative
  point and those in its ranges. Every other chunk is kept unchanged, the result counts the
  chunks released, and applying the same acknowledgement again, or an older one, releases nothing
  more.\<close>

theorem apply_ack_exact:
  assumes "send_inv sb"
  shows "bt_get (sb_chunks (snd (apply_ack ne rs sb))) k =
      (if k < ne \<or> (\<exists>r\<in>set rs. sr_start r \<le> k \<and> k \<le> sr_end r) then None else bt_get (sb_chunks sb) k) \<and>
    fst (apply_ack ne rs sb) + length (sb_chunks (snd (apply_ack ne rs sb))) = length (sb_chunks sb) \<and>
    ((\<forall>q. acked ne' rs' q \<longrightarrow> acked ne rs q) \<longrightarrow>
      fst (apply_ack ne' rs' (snd (apply_ack ne rs sb))) = 0)"
proof -
  have wf: "bt_wf (sb_chunks sb)" using assms by (simp add: send_inv_def)
  let ?sb = "snd (apply_ack ne rs sb)"
  have wf': "bt_wf (sb_chunks ?sb)" using apply_ack_inv [OF assms] by (simp add: send_inv_def)
  have "filter (\<lambda>(k, _). acked ne' rs' k) (sb_chunks ?sb) = []" if "\<forall>q. acked ne' rs' q \<longrightarrow> acked ne rs q"
    using that by (auto simp: apply_ack_release [OF wf] release_chunks filter_empty_conv)
  then have "fst (apply_ack ne' rs' ?sb) = 0" if "\<forall>q. acked ne' rs' q \<longrightarrow> acked ne rs q"
    using that by (simp add: apply_ack_release [OF wf'] release_def)
  moreover have "fst (apply_ack ne rs sb) + length (sb_chunks ?sb) = length (sb_chunks sb)"
    by (simp add: apply_ack_release [OF wf] release_count)
  ultimately show ?thesis using apply_ack_get [OF assms, of ne rs k] by (simp add: acked_def)
qed

theorem apply_ack_exact_witness:
  "bt_get (sb_chunks (snd (apply_ack 1 [\<lparr>sr_start = 2, sr_end = 2\<rparr>] (fold send_apply [Push 0 [7], Push 1 [8], Push 2 [9]] (send_buffer_new 99))))) 1
    = Some [8]"
proof -
  have "send_inv (fold send_apply [Push 0 [7], Push 1 [8], Push 2 [9]] (send_buffer_new 99))"
    by (rule send_run_inv [THEN conjunct1]) simp_all
  note exact = apply_ack_exact [OF this, of 1 "[\<lparr>sr_start = 2, sr_end = 2\<rparr>]" 1, THEN conjunct1]
  have "bt_get (sb_chunks (fold send_apply [Push 0 [7], Push 1 [8], Push 2 [9]] (send_buffer_new 99))) 1 = Some [8]"
    by (simp add: send_push_def send_buffer_new_def bt_get_def Let_def)
  then show ?thesis unfolding exact by (simp add: word_le_nat_alt)
qed

end
