(* ===== verification/Continuity_Recv.thy ===== *)
theory Continuity_Recv
  imports Wire_Control Std_Collections
begin

text \<open>
  The receiving half of \<open>kanrin-protocol/src/continuity.rs\<close>: the reassembly buffer and the
  acknowledgement it builds. The specification is the set of sequences received
  (\<open>recv_set\<close>) and the stream delivered so far (\<open>recv_stream\<close>).
\<close>

datatype received = Ready | Buffered | Duplicate

record receive_buffer =
  rb_next_expected :: u64
  rb_pending :: "(u64, bytes) btree"
  rb_ready :: "bytes list"
  rb_buffered_bytes :: nat
  rb_max_bytes :: nat

definition receive_buffer_new :: "nat \<Rightarrow> receive_buffer" where
  "receive_buffer_new mx =
     \<lparr>rb_next_expected = 0, rb_pending = [], rb_ready = [], rb_buffered_bytes = 0, rb_max_bytes = mx\<rparr>"

definition receive_buffer_with_default_capacity :: receive_buffer where
  "receive_buffer_with_default_capacity = receive_buffer_new (16 * 1024 * 1024)"

text \<open>The loop that delivers the pending chunks an in-order chunk unblocked.\<close>

function unblock :: "receive_buffer \<Rightarrow> receive_buffer" where
  "unblock rb =
     (case bt_get (rb_pending rb) (rb_next_expected rb) of
        None \<Rightarrow> rb
      | Some nxt \<Rightarrow> unblock
          (rb\<lparr>rb_pending := bt_remove (rb_next_expected rb) (rb_pending rb),
              rb_buffered_bytes := rb_buffered_bytes rb - length nxt,
              rb_ready := rb_ready rb @ [nxt],
              rb_next_expected := rb_next_expected rb + 1\<rparr>))"
  by pat_completeness auto

termination
  by (relation "measure (\<lambda>rb. length (rb_pending rb))") (auto simp: length_bt_remove_less)

declare unblock.simps [simp del]

definition accept :: "u64 \<Rightarrow> bytes \<Rightarrow> receive_buffer \<Rightarrow> (protocol_error + received) \<times> receive_buffer" where
  "accept sq pl rb =
     (if sq < rb_next_expected rb \<or> bt_get (rb_pending rb) sq \<noteq> None then (Ok Duplicate, rb)
      else if sq > rb_next_expected rb then
        (if rb_buffered_bytes rb + length pl > rb_max_bytes rb
         then (Err (ReceiveBufferFull (rb_buffered_bytes rb) (rb_max_bytes rb)), rb)
         else (Ok Buffered, rb\<lparr>rb_buffered_bytes := rb_buffered_bytes rb + length pl,
                               rb_pending := bt_insert sq pl (rb_pending rb)\<rparr>))
      else
        (Ok Ready, unblock (rb\<lparr>rb_ready := rb_ready rb @ [pl],
                               rb_next_expected := rb_next_expected rb + 1\<rparr>)))"

definition drain_ready :: "receive_buffer \<Rightarrow> bytes list \<times> receive_buffer" where
  "drain_ready rb = (rb_ready rb, rb\<lparr>rb_ready := []\<rparr>)"

fun build_ranges :: "u64 list \<Rightarrow> sack_range list \<Rightarrow> sack_range list" where
  "build_ranges [] ranges = ranges"
| "build_ranges (sq # sqs) ranges =
     (if ranges \<noteq> [] \<and> sr_end (last ranges) + 1 = sq
      then build_ranges sqs (butlast ranges @ [(last ranges)\<lparr>sr_end := sq\<rparr>])
      else if length ranges = MAX_SACK_RANGES then ranges
      else build_ranges sqs (ranges @ [\<lparr>sr_start = sq, sr_end = sq\<rparr>]))"

definition build_ack :: "receive_buffer \<Rightarrow> control_message" where
  "build_ack rb = Ack (rb_next_expected rb) (build_ranges (bt_keys (rb_pending rb)) [])"

definition pending_len :: "receive_buffer \<Rightarrow> nat" where
  "pending_len rb = length (rb_pending rb)"

definition recv_is_full :: "receive_buffer \<Rightarrow> bool" where
  "recv_is_full rb \<longleftrightarrow> rb_buffered_bytes rb \<ge> rb_max_bytes rb"

section \<open>Invariant and reassembly\<close>

definition recv_set :: "receive_buffer \<Rightarrow> u64 set" where
  "recv_set rb = {k. k < rb_next_expected rb \<or> bt_get (rb_pending rb) k \<noteq> None}"

definition recv_inv :: "receive_buffer \<Rightarrow> bool" where
  "recv_inv rb \<longleftrightarrow>
     bt_wf (rb_pending rb) \<and> (\<forall>k\<in>dom (bt_get (rb_pending rb)). rb_next_expected rb < k) \<and>
     rb_buffered_bytes rb = store_weight length (rb_pending rb) \<and>
     rb_buffered_bytes rb \<le> rb_max_bytes rb"

text \<open>\<open>recv_stream f out rb\<close>: with \<open>out\<close> already handed on, the buffer is reassembling the stream
  whose chunk under sequence \<open>s\<close> is \<open>f s\<close>.\<close>

definition recv_stream :: "(nat \<Rightarrow> bytes) \<Rightarrow> bytes list \<Rightarrow> receive_buffer \<Rightarrow> bool" where
  "recv_stream f out rb \<longleftrightarrow>
     out @ rb_ready rb = map f [0..<unat (rb_next_expected rb)] \<and>
     (\<forall>k v. bt_get (rb_pending rb) k = Some v \<longrightarrow> v = f (unat k))"

lemma recv_new [simp]:
  "recv_inv (receive_buffer_new mx)" "recv_stream f [] (receive_buffer_new mx)"
  "recv_set (receive_buffer_new mx) = {}"
  by (auto simp: recv_inv_def recv_stream_def recv_set_def receive_buffer_new_def bt_get_def)

text \<open>The invariant without the strict lower bound, which holds while the loop runs.\<close>

definition unblock_inv :: "receive_buffer \<Rightarrow> bool" where
  "unblock_inv rb \<longleftrightarrow>
     bt_wf (rb_pending rb) \<and> (\<forall>k\<in>dom (bt_get (rb_pending rb)). rb_next_expected rb \<le> k \<and> k \<noteq> word_MAX) \<and>
     rb_buffered_bytes rb = store_weight length (rb_pending rb) \<and>
     rb_buffered_bytes rb \<le> rb_max_bytes rb"

lemma succ_le_iff: "a \<noteq> word_MAX \<Longrightarrow> a + 1 \<le> b \<longleftrightarrow> a < b" for a b :: "'a::len word"
  using unat_Suc [of a] by (simp add: word_le_nat_alt word_less_nat_alt Suc_le_eq)

lemma less_succ_iff: "a \<noteq> word_MAX \<Longrightarrow> b < a + 1 \<longleftrightarrow> b < a \<or> b = a" for a b :: "'a::len word"
  using succ_le_iff [of a b] by (auto simp: not_le [symmetric])

definition unblock_step :: "bytes \<Rightarrow> receive_buffer \<Rightarrow> receive_buffer" where
  "unblock_step v rb = rb\<lparr>rb_pending := bt_remove (rb_next_expected rb) (rb_pending rb),
              rb_buffered_bytes := rb_buffered_bytes rb - length v,
              rb_ready := rb_ready rb @ [v],
              rb_next_expected := rb_next_expected rb + 1\<rparr>"

lemma unblock_unfold:
  "unblock rb = (case bt_get (rb_pending rb) (rb_next_expected rb) of
      None \<Rightarrow> rb | Some v \<Rightarrow> unblock (unblock_step v rb))"
  by (subst unblock.simps) (simp add: unblock_step_def split: option.split)

lemma unblock_step_inv:
  assumes inv: "unblock_inv rb" and get: "bt_get (rb_pending rb) (rb_next_expected rb) = Some v"
  shows "unblock_inv (unblock_step v rb)"
    and "recv_set (unblock_step v rb) = recv_set rb"
    and "recv_stream f out rb \<Longrightarrow> recv_stream f out (unblock_step v rb)"
    and "unat (rb_next_expected (unblock_step v rb)) = Suc (unat (rb_next_expected rb))"
proof -
  let ?n = "rb_next_expected rb" and ?p = "rb_pending rb"
  from inv have wf: "bt_wf ?p" and ge: "\<And>k. k \<in> dom (bt_get ?p) \<Longrightarrow> ?n \<le> k \<and> k \<noteq> word_MAX"
    and b: "rb_buffered_bytes rb = store_weight length ?p" "rb_buffered_bytes rb \<le> rb_max_bytes rb"
    by (auto simp: unblock_inv_def)
  have nm: "?n \<noteq> word_MAX" using ge get by blast
  note w = btree.weight_remove [OF wf get, of length]
  have keys: "bt_get (bt_remove ?n ?p) = (bt_get ?p)(?n := None)" by (rule bt_get_remove)
  show "unblock_inv (unblock_step v rb)"
    using wf ge b w nm
    by (auto simp: unblock_inv_def unblock_step_def keys succ_le_iff order_less_le split: if_splits)
  show "recv_set (unblock_step v rb) = recv_set rb"
    using get by (auto simp: recv_set_def unblock_step_def keys less_succ_iff [OF nm])
  show "unat (rb_next_expected (unblock_step v rb)) = Suc (unat ?n)"
    using nm by (simp add: unblock_step_def unat_Suc)
  show "recv_stream f out (unblock_step v rb)" if s: "recv_stream f out rb"
  proof -
    have "v = f (unat ?n)" and r: "out @ rb_ready rb = map f [0..<unat ?n]"
      using s get by (auto simp: recv_stream_def)
    then have "out @ rb_ready rb @ [v] = map f [0..<Suc (unat ?n)]"
      by (simp flip: append_assoc)
    then show ?thesis
      using s nm by (auto simp: recv_stream_def unblock_step_def keys unat_Suc split: if_splits)
  qed
qed

lemma unblock_correct:
  assumes "unblock_inv rb"
  shows "recv_inv (unblock rb)" and "recv_set (unblock rb) = recv_set rb"
    and "recv_stream f out rb \<Longrightarrow> recv_stream f out (unblock rb)"
    and "rb_max_bytes (unblock rb) = rb_max_bytes rb"
proof -
  have "recv_inv (unblock rb) \<and> recv_set (unblock rb) = recv_set rb \<and>
      (recv_stream f out rb \<longrightarrow> recv_stream f out (unblock rb)) \<and> rb_max_bytes (unblock rb) = rb_max_bytes rb"
    using assms
  proof (induction rb rule: measure_induct_rule [where f = "\<lambda>rb. length (rb_pending rb)"])
    case (less rb)
    show ?case
    proof (cases "bt_get (rb_pending rb) (rb_next_expected rb)")
      case None
      have "rb_next_expected rb < k" if "bt_get (rb_pending rb) k = Some v" for k v
        using that None less.prems by (cases "k = rb_next_expected rb") (auto simp: unblock_inv_def order_less_le)
      then have "recv_inv rb" using less.prems by (auto simp: recv_inv_def unblock_inv_def)
      with None show ?thesis by (simp add: unblock_unfold [of rb])
    next
      case (Some v)
      note step = unblock_step_inv [OF less.prems Some]
      have "length (rb_pending (unblock_step v rb)) < length (rb_pending rb)"
        using length_bt_remove_less [OF Some] by (simp add: unblock_step_def)
      from less.IH [OF this step(1)] step(2) step(3) [of f out] Some show ?thesis
        by (simp add: unblock_unfold [of rb] unblock_step_def)
    qed
  qed
  then show "recv_inv (unblock rb)" "recv_set (unblock rb) = recv_set rb"
    "recv_stream f out rb \<Longrightarrow> recv_stream f out (unblock rb)" "rb_max_bytes (unblock rb) = rb_max_bytes rb"
    by blast+
qed

text \<open>Every branch of \<open>accept\<close>. The sequence \<open>u64::MAX\<close> is never sent (the session stops two
  short of it), and no chunk is stored under it.\<close>

definition no_max :: "receive_buffer \<Rightarrow> bool" where
  "no_max rb \<longleftrightarrow> bt_get (rb_pending rb) word_MAX = None"

lemma accept_duplicate:
  "sq \<in> recv_set rb \<Longrightarrow> accept sq pl rb = (Ok Duplicate, rb)"
  by (auto simp: accept_def recv_set_def)

lemma accept_full:
  "sq \<notin> recv_set rb \<Longrightarrow> rb_next_expected rb < sq \<Longrightarrow> rb_max_bytes rb < rb_buffered_bytes rb + length pl \<Longrightarrow>
    accept sq pl rb = (Err (ReceiveBufferFull (rb_buffered_bytes rb) (rb_max_bytes rb)), rb)"
  by (auto simp: accept_def recv_set_def)

lemma accept_buffered:
  assumes inv: "recv_inv rb" and new: "sq \<notin> recv_set rb" and gap: "rb_next_expected rb < sq"
    and fits: "rb_buffered_bytes rb + length pl \<le> rb_max_bytes rb"
  obtains rb' where "accept sq pl rb = (Ok Buffered, rb')" and "recv_inv rb'"
    and "recv_set rb' = insert sq (recv_set rb)" and "rb_next_expected rb' = rb_next_expected rb"
    and "rb_ready rb' = rb_ready rb" and "rb_pending rb' = bt_insert sq pl (rb_pending rb)"
    and "rb_max_bytes rb' = rb_max_bytes rb"
proof -
  define rb' where "rb' = rb\<lparr>rb_buffered_bytes := rb_buffered_bytes rb + length pl,
                               rb_pending := bt_insert sq pl (rb_pending rb)\<rparr>"
  from inv have wf: "bt_wf (rb_pending rb)" by (simp add: recv_inv_def)
  have none: "bt_get (rb_pending rb) sq = None" using new by (simp add: recv_set_def)
  note w = btree.weight_insert [OF wf, of length sq pl]
  have keys: "bt_get (bt_insert sq pl (rb_pending rb)) = (bt_get (rb_pending rb))(sq \<mapsto> pl)"
    by (rule bt_get_insert [OF wf])
  have "recv_inv rb'"
    using inv gap fits w none by (auto simp: recv_inv_def rb'_def keys)
  moreover have "recv_set rb' = insert sq (recv_set rb)"
    by (auto simp: recv_set_def rb'_def keys)
  moreover have "accept sq pl rb = (Ok Buffered, rb')"
    using none gap fits by (auto simp: accept_def rb'_def)
  ultimately show thesis by (intro that [of rb']) (simp_all add: rb'_def)
qed

lemma accept_ready:
  assumes inv: "recv_inv rb" and nm: "no_max rb" "sq \<noteq> word_MAX" and eq: "sq = rb_next_expected rb"
  obtains rb' where "accept sq pl rb = (Ok Ready, rb')" and "recv_inv rb'"
    and "recv_set rb' = insert sq (recv_set rb)" and "rb_max_bytes rb' = rb_max_bytes rb"
    and "\<And>f out. recv_stream f out rb \<Longrightarrow> pl = f (unat sq) \<Longrightarrow> recv_stream f out rb'"
proof -
  define rb1 where "rb1 = rb\<lparr>rb_ready := rb_ready rb @ [pl], rb_next_expected := rb_next_expected rb + 1\<rparr>"
  have keys: "\<And>k. k \<in> dom (bt_get (rb_pending rb)) \<Longrightarrow> rb_next_expected rb < k"
    using inv by (auto simp: recv_inv_def)
  have none: "bt_get (rb_pending rb) sq = None" using keys [of sq] eq by auto
  have "unblock_inv rb1"
    using inv nm eq by (auto simp: unblock_inv_def recv_inv_def rb1_def succ_le_iff no_max_def)
  note u = unblock_correct [OF this]
  have "accept sq pl rb = (Ok Ready, unblock rb1)"
    using none eq by (simp add: accept_def rb1_def)
  moreover have "recv_set rb1 = insert sq (recv_set rb)"
    using nm(2) eq by (auto simp: recv_set_def rb1_def less_succ_iff)
  moreover have "recv_stream f out rb1" if "recv_stream f out rb" "pl = f (unat sq)" for f out
    using that nm(2) eq by (simp add: recv_stream_def rb1_def unat_Suc flip: append_assoc)
  ultimately show thesis using u by (intro that [of "unblock rb1"]) (simp_all add: rb1_def)
qed

lemma no_max_recv_set: "no_max rb \<longleftrightarrow> word_MAX \<notin> recv_set rb"
proof -
  have "\<not> (word_MAX :: u64) < n" for n
    using unat_lt [of n] by (simp add: word_less_nat_alt unat_max)
  then show ?thesis by (simp add: no_max_def recv_set_def)
qed

lemma next_not_received: "recv_inv rb \<Longrightarrow> rb_next_expected rb \<notin> recv_set rb"
  by (auto simp: recv_set_def recv_inv_def)

text \<open>\<open>next_expected\<close> is the least sequence not received.\<close>

lemma next_expected_least: "recv_inv rb \<Longrightarrow> k \<notin> recv_set rb \<Longrightarrow> rb_next_expected rb \<le> k"
  by (auto simp: recv_set_def)

section \<open>Any sequence of arrivals\<close>

text \<open>What the owner of the buffer does to it: offer a chunk, or take what is ready.\<close>

datatype recv_event = Offer u64 bytes | Drain

primrec recv_run :: "recv_event list \<Rightarrow> bytes list \<times> receive_buffer \<Rightarrow> bytes list \<times> receive_buffer" where
  "recv_run [] st = st"
| "recv_run (ev # evs) st =
     recv_run evs
       (case ev of
          Offer sq pl \<Rightarrow> (fst st, snd (accept sq pl (snd st)))
        | Drain \<Rightarrow> (let (out, rb) = drain_ready (snd st) in (fst st @ out, rb)))"

definition offers_from :: "(nat \<Rightarrow> bytes) \<Rightarrow> recv_event list \<Rightarrow> bool" where
  "offers_from f evs \<longleftrightarrow> (\<forall>sq pl. Offer sq pl \<in> set evs \<longrightarrow> sq \<noteq> word_MAX \<and> pl = f (unat sq))"

lemma accept_preserves:
  assumes inv: "recv_inv rb" and nm: "no_max rb" and sq: "sq \<noteq> word_MAX" "pl = f (unat sq)"
    and st: "recv_stream f out rb"
  shows "recv_inv (snd (accept sq pl rb)) \<and> no_max (snd (accept sq pl rb)) \<and>
    recv_stream f out (snd (accept sq pl rb)) \<and> recv_set rb \<subseteq> recv_set (snd (accept sq pl rb))"
proof -
  consider (dup) "sq \<in> recv_set rb" | (full) "sq \<notin> recv_set rb" "rb_next_expected rb < sq"
      "rb_max_bytes rb < rb_buffered_bytes rb + length pl"
    | (buf) "sq \<notin> recv_set rb" "rb_next_expected rb < sq" "rb_buffered_bytes rb + length pl \<le> rb_max_bytes rb"
    | (ready) "sq = rb_next_expected rb"
    using next_expected_least [OF inv, of sq] by force
  then show ?thesis
  proof cases
    case dup
    then show ?thesis using inv nm st by (simp add: accept_duplicate)
  next
    case full
    then show ?thesis using inv nm st by (simp add: accept_full)
  next
    case buf
    obtain rb' where rb': "accept sq pl rb = (Ok Buffered, rb')" "recv_inv rb'"
      "recv_set rb' = insert sq (recv_set rb)" "rb_next_expected rb' = rb_next_expected rb"
      "rb_ready rb' = rb_ready rb" "rb_pending rb' = bt_insert sq pl (rb_pending rb)"
      by (rule accept_buffered [OF inv buf])
    have "recv_stream f out rb'"
      using st sq(2) rb' inv by (auto simp: recv_stream_def recv_inv_def bt_get_insert split: if_splits)
    then show ?thesis using rb' nm sq(1) by (auto simp: no_max_recv_set)
  next
    case ready
    obtain rb' where rb': "accept sq pl rb = (Ok Ready, rb')" "recv_inv rb'"
      "recv_set rb' = insert sq (recv_set rb)" "recv_stream f out rb'"
      using accept_ready [OF inv nm sq(1) ready, of pl] st sq(2) by metis
    then show ?thesis using nm sq(1) by (auto simp: no_max_recv_set)
  qed
qed

lemma accept_recv_set:
  assumes inv: "recv_inv rb" and nm: "no_max rb" and sq: "sq \<noteq> word_MAX"
  shows "recv_set (snd (accept sq pl rb)) \<subseteq> insert sq (recv_set rb)"
proof (cases "sq \<in> recv_set rb")
  case True
  then show ?thesis by (auto simp: accept_duplicate)
next
  case False
  then have "rb_next_expected rb \<le> sq" by (rule next_expected_least [OF inv])
  then consider "sq = rb_next_expected rb" | "rb_next_expected rb < sq" by force
  then show ?thesis
  proof cases
    case 1
    then show ?thesis
      using accept_ready [OF inv nm sq 1, of pl] by (metis snd_conv subset_refl)
  next
    case 2
    then show ?thesis
      using accept_buffered [OF inv False 2, of pl] accept_full [OF False 2, of pl]
      by (metis not_le snd_conv subset_insertI subset_refl)
  qed
qed

lemma drain_preserves:
  "recv_inv rb \<Longrightarrow> recv_inv (snd (drain_ready rb))"
  "no_max rb \<Longrightarrow> no_max (snd (drain_ready rb))"
  "recv_set (snd (drain_ready rb)) = recv_set rb"
  "recv_stream f out rb \<Longrightarrow> recv_stream f (out @ fst (drain_ready rb)) (snd (drain_ready rb))"
  by (auto simp: drain_ready_def recv_inv_def no_max_def recv_set_def recv_stream_def)

lemma recv_run_preserves:
  assumes "recv_inv rb" and "no_max rb" and "recv_stream f out rb" and "offers_from f evs"
    and "recv_run evs (out, rb) = (out', rb')"
  shows "recv_inv rb' \<and> no_max rb' \<and> recv_stream f out' rb' \<and> recv_set rb \<subseteq> recv_set rb'"
  using assms
proof (induction evs arbitrary: out rb)
  case Nil
  then show ?case by simp
next
  case (Cons ev evs)
  have rest: "offers_from f evs" using Cons.prems(4) by (auto simp: offers_from_def)
  show ?case
  proof (cases ev)
    case (Offer sq pl)
    then have "sq \<noteq> word_MAX" "pl = f (unat sq)" using Cons.prems(4) by (auto simp: offers_from_def)
    note a = accept_preserves [OF Cons.prems(1,2) this Cons.prems(3)]
    have "recv_run evs (out, snd (accept sq pl rb)) = (out', rb')"
      using Cons.prems(5) Offer by simp
    from Cons.IH [OF _ _ _ rest this] a show ?thesis by blast
  next
    case Drain
    note d = drain_preserves(1,2) [of rb] drain_preserves(3) [of rb] drain_preserves(4) [OF Cons.prems(3)]
    have "recv_run evs (out @ fst (drain_ready rb), snd (drain_ready rb)) = (out', rb')"
      using Cons.prems(5) Drain by (simp add: case_prod_unfold Let_def)
    from Cons.IH [OF _ _ _ rest this] d Cons.prems(1,2) show ?thesis by simp
  qed
qed

section \<open>The acknowledgement\<close>

definition ranges_cover :: "sack_range list \<Rightarrow> u64 set" where
  "ranges_cover rs = {k. \<exists>r\<in>set rs. sr_start r \<le> k \<and> k \<le> sr_end r}"

lemma below_not_max: "a < b \<Longrightarrow> a \<noteq> word_MAX" for a b :: "'a::len word"
proof
  assume "a < b" and "a = word_MAX"
  then have "2 ^ LENGTH('a) - 1 < unat b" by (simp add: word_less_nat_alt unat_max)
  with unat_lt [of b] show False by linarith
qed

lemma ranges_cover_append: "ranges_cover (rs @ [r]) = ranges_cover rs \<union> {sr_start r..sr_end r}"
  by (auto simp: ranges_cover_def)

lemma prefix_cover_Suc:
  assumes "\<exists>j \<le> length ks. A = (B \<union> {k}) \<union> set (take j ks) \<and> (P \<longrightarrow> j = length ks)"
  shows "\<exists>j \<le> length (k # ks). A = B \<union> set (take j (k # ks)) \<and> (P \<longrightarrow> j = length (k # ks))"
proof -
  from assms obtain j where "j \<le> length ks" "A = (B \<union> {k}) \<union> set (take j ks)" "P \<longrightarrow> j = length ks" by blast
  then show ?thesis by (intro exI [of _ "Suc j"]) auto
qed

lemma build_ranges_correct:
  assumes "sorted_wrt (<) ks" and "sack_canonical ne rs" and "length rs \<le> MAX_SACK_RANGES"
    and "\<forall>k\<in>set ks. ne < k" and "rs \<noteq> [] \<Longrightarrow> \<forall>k\<in>set ks. sr_end (last rs) < k"
  shows "sack_canonical ne (build_ranges ks rs) \<and> length (build_ranges ks rs) \<le> MAX_SACK_RANGES \<and>
    (\<exists>j \<le> length ks. ranges_cover (build_ranges ks rs) = ranges_cover rs \<union> set (take j ks) \<and>
       (length (build_ranges ks rs) < MAX_SACK_RANGES \<longrightarrow> j = length ks))"
  using assms
proof (induction ks rs rule: build_ranges.induct)
  case (1 rs)
  then show ?case by simp
next
  case (2 k ks rs)
  have sk: "sorted_wrt (<) ks" "\<forall>q\<in>set ks. k < q" "\<forall>q\<in>set ks. ne < q" and nek: "ne < k"
    using "2.prems" by auto
  show ?case
  proof (cases "rs \<noteq> [] \<and> sr_end (last rs) + 1 = k")
    case True
    then have ext: "rs \<noteq> []" "sr_end (last rs) + 1 = k" by auto
    let ?l = "last rs" and ?rs = "butlast rs @ [(last rs)\<lparr>sr_end := k\<rparr>]"
    have rs: "rs = butlast rs @ [?l]" using ext(1) by simp
    have lt: "sr_end ?l < k" using "2.prems"(5) ext(1) by simp
    have canon: "sack_canonical ne (butlast rs @ [?l])" using "2.prems"(2) rs by simp
    then have c: "sr_start ?l \<le> sr_end ?l" by (simp add: sack_canonical_def)
    have "sack_canonical ne ?rs"
      using canon lt c by (auto simp: sack_canonical_def sorted_wrt_append intro: order_trans less_imp_le)
    moreover have "length ?rs \<le> MAX_SACK_RANGES" using "2.prems"(3) ext(1) by simp
    ultimately have IH: "sack_canonical ne (build_ranges ks ?rs) \<and> length (build_ranges ks ?rs) \<le> MAX_SACK_RANGES \<and>
      (\<exists>j \<le> length ks. ranges_cover (build_ranges ks ?rs) = ranges_cover ?rs \<union> set (take j ks) \<and>
         (length (build_ranges ks ?rs) < MAX_SACK_RANGES \<longrightarrow> j = length ks))"
      using "2.IH"(1) [OF True sk(1)] sk by simp
    have "{sr_start ?l..k} = {sr_start ?l..sr_end ?l} \<union> {k}"
    proof -
      have "q < k \<longleftrightarrow> q \<le> sr_end ?l" for q
        using less_succ_iff [OF below_not_max [OF lt], of q] ext(2) by (auto simp: le_less)
      then have "q \<le> k \<longleftrightarrow> q \<le> sr_end ?l \<or> q = k" for q by (auto simp: le_less)
      then show ?thesis using c lt by (auto intro: order_trans less_imp_le)
    qed
    then have "ranges_cover ?rs = ranges_cover rs \<union> {k}"
      by (subst (2) rs) (simp add: ranges_cover_append Un_assoc)
    with IH have "\<exists>j \<le> length (k # ks). ranges_cover (build_ranges ks ?rs) = ranges_cover rs \<union> set (take j (k # ks)) \<and>
         (length (build_ranges ks ?rs) < MAX_SACK_RANGES \<longrightarrow> j = length (k # ks))"
      by (intro prefix_cover_Suc) simp
    moreover have "build_ranges (k # ks) rs = build_ranges ks ?rs" using True by simp
    ultimately show ?thesis using IH by simp
  next
    case False
    show ?thesis
    proof (cases "length rs = MAX_SACK_RANGES")
      case True
      with False "2.prems" show ?thesis by (auto intro: exI [of _ 0])
    next
      case notfull: False
      let ?r = "\<lparr>sr_start = k, sr_end = k\<rparr>"
      have gap: "unat (sr_end r) + 1 < unat k" if r: "r \<in> set rs" for r
      proof -
        have ne': "rs \<noteq> []" using r by auto
        then have lt: "sr_end (last rs) < k" using "2.prems"(5) by simp
        have "sr_end (last rs) + 1 \<noteq> k" using False ne' by simp
        then have last: "unat (sr_end (last rs)) + 1 < unat k"
          using lt unat_Suc [OF below_not_max [OF lt]]
          by (metis Suc_eq_plus1 Suc_leI le_neq_implies_less word_less_nat_alt word_unat_eq_iff)
        show ?thesis
        proof (cases "r = last rs")
          case True
          with last show ?thesis by simp
        next
          case False
          with r have rb: "r \<in> set (butlast rs)" using ne'
            by (cases rs rule: rev_cases) auto
          have "sack_canonical ne (butlast rs @ [last rs])" using "2.prems"(2) ne' by simp
          with rb have "unat (sr_end r) + 1 < unat (sr_start (last rs))" "sr_start (last rs) \<le> sr_end (last rs)"
            by (auto simp: sack_canonical_def sorted_wrt_append)
          with last show ?thesis by (simp add: word_le_nat_alt)
        qed
      qed
      have "sack_canonical ne (rs @ [?r])"
        using "2.prems"(2) gap nek by (auto simp: sack_canonical_def sorted_wrt_append)
      then have IH: "sack_canonical ne (build_ranges ks (rs @ [?r])) \<and> length (build_ranges ks (rs @ [?r])) \<le> MAX_SACK_RANGES \<and>
        (\<exists>j \<le> length ks. ranges_cover (build_ranges ks (rs @ [?r])) = ranges_cover (rs @ [?r]) \<union> set (take j ks) \<and>
         (length (build_ranges ks (rs @ [?r])) < MAX_SACK_RANGES \<longrightarrow> j = length ks))"
        using "2.IH"(2) [OF False notfull sk(1)] sk notfull "2.prems"(3) by simp
      have "ranges_cover (rs @ [?r]) = ranges_cover rs \<union> {k}"
        by (simp add: ranges_cover_append)
      with IH have "\<exists>j \<le> length (k # ks). ranges_cover (build_ranges ks (rs @ [?r])) = ranges_cover rs \<union> set (take j (k # ks)) \<and>
         (length (build_ranges ks (rs @ [?r])) < MAX_SACK_RANGES \<longrightarrow> j = length (k # ks))"
        by (intro prefix_cover_Suc) simp
      moreover have "build_ranges (k # ks) rs = build_ranges ks (rs @ [?r])"
        unfolding build_ranges.simps(2) using False notfull by (simp only: if_False)
      ultimately show ?thesis using IH by simp
    qed
  qed
qed

lemma unblock_max: "rb_max_bytes (unblock rb) = rb_max_bytes rb"
proof (induction rb rule: unblock.induct)
  case (1 rb)
  then show ?case by (subst unblock.simps) (auto split: option.split)
qed

lemma accept_max: "rb_max_bytes (snd (accept sq pl rb)) = rb_max_bytes rb"
  by (simp add: accept_def unblock_max)

lemma subset_insert_trans: "S \<subseteq> A \<union> B \<Longrightarrow> A \<subseteq> insert x R \<Longrightarrow> insert x B = B' \<Longrightarrow> S \<subseteq> R \<union> B'"
  by blast

lemma recv_run_set:
  assumes "recv_inv rb" and "no_max rb" and "recv_stream f out rb" and "offers_from f evs"
    and "recv_run evs (out, rb) = (out', rb')"
  shows "recv_set rb' \<subseteq> recv_set rb \<union> {sq. \<exists>pl. Offer sq pl \<in> set evs} \<and> rb_max_bytes rb' = rb_max_bytes rb"
  using assms
proof (induction evs arbitrary: out rb)
  case Nil
  then show ?case by simp
next
  case (Cons ev evs)
  have rest: "offers_from f evs" using Cons.prems(4) by (auto simp: offers_from_def)
  show ?case
  proof (cases ev)
    case (Offer sq pl)
    then have sq: "sq \<noteq> word_MAX" "pl = f (unat sq)" using Cons.prems(4) by (auto simp: offers_from_def)
    note a = accept_preserves [OF Cons.prems(1,2) sq Cons.prems(3)]
    note s = accept_recv_set [OF Cons.prems(1,2) sq(1), of pl]
    have m: "rb_max_bytes (snd (accept sq pl rb)) = rb_max_bytes rb"
      by (rule accept_max)
    have "recv_run evs (out, snd (accept sq pl rb)) = (out', rb')"
      using Cons.prems(5) Offer by simp
    note IH = Cons.IH [OF _ _ _ rest this]
    have B: "insert sq {q. \<exists>pl. Offer q pl \<in> set evs} = {q. \<exists>pl. Offer q pl \<in> set (ev # evs)}"
      using Offer by auto
    have "recv_set rb' \<subseteq> recv_set (snd (accept sq pl rb)) \<union> {q. \<exists>pl. Offer q pl \<in> set evs}"
      and "rb_max_bytes rb' = rb_max_bytes rb"
      using IH a m by simp_all
    then show ?thesis using subset_insert_trans [OF _ s B] by blast
  next
    case Drain
    note d = drain_preserves(1,2) [of rb] drain_preserves(3) [of rb] drain_preserves(4) [OF Cons.prems(3)]
    have m: "rb_max_bytes (snd (drain_ready rb)) = rb_max_bytes rb" by (simp add: drain_ready_def)
    have "recv_run evs (out @ fst (drain_ready rb), snd (drain_ready rb)) = (out', rb')"
      using Cons.prems(5) Drain by (simp add: case_prod_unfold Let_def)
    from Cons.IH [OF _ _ _ rest this] d m Cons.prems(1,2) Drain show ?thesis by simp
  qed
qed

lemma reassembly_set:
  assumes "offers_from f evs" and "recv_run evs ([], receive_buffer_new mx) = (out, rb)"
  shows "recv_set rb \<subseteq> {sq. \<exists>pl. Offer sq pl \<in> set evs}"
proof -
  have "no_max (receive_buffer_new mx)" by (simp add: no_max_recv_set)
  from recv_run_set [OF recv_new(1) this recv_new(2) assms] show ?thesis by simp
qed

section \<open>Properties\<close>

text \<open>C6. Reassembly: whatever chunks of a stream arrive, in whatever order and however often, and
  whenever the owner drains, what was handed on followed by what is ready is exactly the stream's
  chunks below \<open>next_expected\<close>, each once and in order; only chunks that arrived count as
  received, and the out-of-order bytes never exceed the bound.\<close>

theorem reassembly_in_order:
  assumes "offers_from f evs" and "recv_run evs ([], receive_buffer_new mx) = (out, rb)"
  shows "out @ rb_ready rb = map f [0..<unat (rb_next_expected rb)] \<and>
    recv_set rb \<subseteq> {sq. \<exists>pl. Offer sq pl \<in> set evs} \<and>
    rb_next_expected rb \<notin> recv_set rb \<and>
    rb_buffered_bytes rb = sum_list (map (\<lambda>(_, d). length d) (rb_pending rb)) \<and>
    rb_buffered_bytes rb \<le> mx"
proof -
  have nm: "no_max (receive_buffer_new mx)" by (simp add: no_max_recv_set)
  note p = recv_run_preserves [OF recv_new(1) nm recv_new(2) assms]
    and q = recv_run_set [OF recv_new(1) nm recv_new(2) assms]
  have "rb_max_bytes (receive_buffer_new mx) = mx" by (simp add: receive_buffer_new_def)
  with p q next_not_received [of rb] show ?thesis
    by (auto simp: recv_stream_def recv_inv_def store_weight_def)
qed

theorem reassembly_in_order_witness:
  "let (out, rb) = recv_run [Offer 1 [1], Offer 0 [0], Drain, Offer 1 [1], Offer 2 [2]] ([], receive_buffer_new 10)
   in out @ rb_ready rb = map (\<lambda>n. [word_of_nat n]) [0..<unat (rb_next_expected rb)]"
proof -
  let ?evs = "[Offer 1 [1], Offer 0 [0], Drain, Offer 1 [1], Offer 2 [2]]"
  have o: "offers_from (\<lambda>n. [word_of_nat n]) ?evs" by (auto simp: offers_from_def)
  obtain out rb where run: "recv_run ?evs ([], receive_buffer_new 10) = (out, rb)" by fastforce
  from reassembly_in_order [OF o run] run show ?thesis by (simp del: recv_run.simps)
qed

end
