(* ===== verification/Continuity_Replay.thy ===== *)
theory Continuity_Replay
  imports Continuity_Send Continuity_Recv
begin

text \<open>
  Replay onto a new transport (\<open>Replay\<close> of \<open>continuity.rs\<close>, with the loop of
  \<open>kanrin-client/src/switch.rs\<close> and \<open>kanrin-server/src/session.rs\<close>), the interleaving of a
  replay with acknowledgements as a step relation, and the end-to-end argument that
  acknowledgement, retention and replay together lose nothing.
\<close>

section \<open>The replay loop\<close>

lemma next_chunk_measure:
  assumes "next_chunk sb r = Some (sq, d)"
  shows "length (case rep_next (confirm_sent sq r) of None \<Rightarrow> [] | Some a \<Rightarrow> bt_range_from a (sb_chunks sb)) <
    length (case rep_next r of None \<Rightarrow> [] | Some a \<Rightarrow> bt_range_from a (sb_chunks sb))"
proof -
  obtain a xs where a: "rep_next r = Some a" and xs: "bt_range_from a (sb_chunks sb) = (sq, d) # xs"
    using assms by (auto simp: next_chunk_def bt_first_def split: option.splits list.splits)
  have ge: "a \<le> sq" using xs by (auto simp: bt_range_from_def filter_eq_Cons_iff)
  show ?thesis
  proof (cases "sq = word_MAX")
    case True
    then show ?thesis using a xs by (simp add: confirm_sent_def checked_add_1)
  next
    case False
    have "bt_range_from (sq + 1) (sb_chunks sb) = bt_range_from (sq + 1) (bt_range_from a (sb_chunks sb))"
      using ge succ_le_iff [OF False] unfolding bt_range_from_def filter_filter
      by (intro filter_cong) (auto intro: order_trans less_imp_le)
    also have "\<dots> = bt_range_from (sq + 1) xs"
      unfolding xs using succ_le_iff [OF False, of sq] by (simp add: bt_range_from_def)
    finally have "length (bt_range_from (sq + 1) (sb_chunks sb)) \<le> length xs"
      by (simp add: bt_range_from_def)
    then show ?thesis using a xs False by (simp add: confirm_sent_def checked_add_1)
  qed
qed

text \<open>The connection is a parameter: \<open>send data c\<close> is its outcome and the connection after it.\<close>

function replay_loop ::
  "(bytes \<Rightarrow> 'c \<Rightarrow> ('e + unit) \<times> 'c) \<Rightarrow> send_buffer \<Rightarrow> replay \<Rightarrow> 'c \<Rightarrow> ('e + replay) \<times> 'c" where
  "replay_loop send sb r c =
     (case next_chunk sb r of
        None \<Rightarrow> (Ok r, c)
      | Some (sq, data) \<Rightarrow>
          (case send data c of
             (Inl e, c') \<Rightarrow> (Err e, c')
           | (Inr _, c') \<Rightarrow> replay_loop send sb (confirm_sent sq r) c'))"
  by pat_completeness auto

termination
  by (relation "measure (\<lambda>(send, sb, r, c).
        length (case rep_next r of None \<Rightarrow> [] | Some a \<Rightarrow> bt_range_from a (sb_chunks sb)))")
     (auto intro: next_chunk_measure)

declare replay_loop.simps [simp del]

definition replay_onto ::
  "(bytes \<Rightarrow> 'c \<Rightarrow> ('e + unit) \<times> 'c) \<Rightarrow> send_buffer \<Rightarrow> 'c \<Rightarrow> ('e + nat) \<times> 'c" where
  "replay_onto send sb c =
     (case replay_loop send sb replay_new c of
        (Inl e, c') \<Rightarrow> (Err e, c')
      | (Inr r, c') \<Rightarrow> (Ok (rep_replayed r), c'))"

text \<open>What it means to send a list of frames in order, stopping at the first failure.\<close>

primrec send_frames :: "(bytes \<Rightarrow> 'c \<Rightarrow> ('e + unit) \<times> 'c) \<Rightarrow> bytes list \<Rightarrow> 'c \<Rightarrow> ('e + unit) \<times> 'c" where
  "send_frames send [] c = (Ok (), c)"
| "send_frames send (d # ds) c =
     (case send d c of (Inl e, c') \<Rightarrow> (Err e, c') | (Inr _, c') \<Rightarrow> send_frames send ds c')"

definition replay_pending :: "send_buffer \<Rightarrow> replay \<Rightarrow> (u64 \<times> bytes) list" where
  "replay_pending sb r = (case rep_next r of None \<Rightarrow> [] | Some a \<Rightarrow> bt_range_from a (sb_chunks sb))"

lemma next_chunk_pending: "next_chunk sb r = bt_first (replay_pending sb r)"
  by (auto simp: next_chunk_def replay_pending_def bt_first_def split: option.split)

lemma replay_pending_confirm:
  assumes wf: "bt_wf (sb_chunks sb)" and p: "replay_pending sb r = (sq, d) # xs"
  shows "replay_pending sb (confirm_sent sq r) = xs"
proof -
  obtain a where a: "rep_next r = Some a" and r: "bt_range_from a (sb_chunks sb) = (sq, d) # xs"
    using p by (auto simp: replay_pending_def split: option.splits)
  have ge: "a \<le> sq" using r by (auto simp: bt_range_from_def filter_eq_Cons_iff)
  have "bt_wf ((sq, d) # xs)" unfolding r [symmetric] using wf by (simp add: bt_range_from_def)
  then have gt: "\<forall>k\<in>fst ` set xs. sq < k" by (simp add: bt_wf_Cons)
  show ?thesis
  proof (cases "sq = word_MAX")
    case True
    then have "xs = []" using gt below_not_max by (cases xs) force+
    with True show ?thesis by (simp add: replay_pending_def confirm_sent_def checked_add_1)
  next
    case False
    have "bt_range_from (sq + 1) (sb_chunks sb) = bt_range_from (sq + 1) (bt_range_from a (sb_chunks sb))"
      using ge succ_le_iff [OF False] unfolding bt_range_from_def filter_filter
      by (intro filter_cong) (auto intro: order_trans less_imp_le)
    also have "\<dots> = xs"
      unfolding r using gt succ_le_iff [OF False] by (force simp: bt_range_from_def filter_id_conv)
    finally show ?thesis using False by (simp add: replay_pending_def confirm_sent_def checked_add_1)
  qed
qed

lemma replay_loop_sends:
  assumes "bt_wf (sb_chunks sb)"
  shows "case send_frames send (map snd (replay_pending sb r)) c of
      (Inl e, c') \<Rightarrow> replay_loop send sb r c = (Err e, c')
    | (Inr _, c') \<Rightarrow> \<exists>r'. replay_loop send sb r c = (Ok r', c') \<and>
         rep_replayed r' = rep_replayed r + length (replay_pending sb r) \<and> is_complete sb r'"
proof (induction "replay_pending sb r" arbitrary: r c)
  case Nil
  then show ?case
    by (subst (1 2) replay_loop.simps) (simp add: next_chunk_pending bt_first_def is_complete_def flip: Nil)
next
  case (Cons x xs)
  obtain sq d where x: "x = (sq, d)" by (cases x)
  with Cons have p: "replay_pending sb r = (sq, d) # xs" by simp
  note xs = replay_pending_confirm [OF assms p]
  have loop: "replay_loop send sb r c = (case send d c of
      (Inl e, c') \<Rightarrow> (Err e, c') | (Inr _, c') \<Rightarrow> replay_loop send sb (confirm_sent sq r) c')"
    by (subst replay_loop.simps) (simp add: next_chunk_pending p bt_first_def)
  obtain res c1 where s: "send d c = (res, c1)" by fastforce
  show ?case
  proof (cases res)
    case (Inl e)
    then show ?thesis using loop s p by simp
  next
    case (Inr u)
    have "rep_replayed (confirm_sent sq r) = Suc (rep_replayed r)" by (simp add: confirm_sent_def)
    with Cons.hyps(1) [of "confirm_sent sq r" c1] xs loop s p Inr show ?thesis
      by (auto split: prod.splits sum.splits)
  qed
qed

lemma replay_new_pending: "replay_pending sb replay_new = unacked sb"
  by (simp add: replay_pending_def replay_new_def unacked_def bt_range_from_def)

lemma replay_onto_sends:
  assumes "bt_wf (sb_chunks sb)"
  shows "replay_onto send sb c = (case send_frames send (map snd (unacked sb)) c of
      (Inl e, c') \<Rightarrow> (Err e, c') | (Inr _, c') \<Rightarrow> (Ok (length (unacked sb)), c'))"
proof -
  have "rep_replayed replay_new = 0" by (simp add: replay_new_def)
  with replay_loop_sends [OF assms, of send replay_new c] show ?thesis
    unfolding replay_onto_def replay_new_pending by (auto split: prod.splits sum.splits)
qed

section \<open>Replay interleaved with acknowledgements\<close>

text \<open>The state is the buffer, the cursor and what went out so far.\<close>

type_synonym replay_state = "send_buffer \<times> replay \<times> (u64 \<times> bytes) list"

inductive replay_step :: "replay_state \<Rightarrow> replay_state \<Rightarrow> bool" where
  send: "next_chunk sb r = Some (sq, d) \<Longrightarrow>
    replay_step (sb, r, sent) (sb, confirm_sent sq r, sent @ [(sq, d)])"
| ack: "replay_step (sb, r, sent) (snd (apply_ack ne rs sb), r, sent)"

inductive_cases replay_stepE: "replay_step (sb, r, sent) st'"

definition below_cursor :: "replay \<Rightarrow> u64 \<Rightarrow> bool" where
  "below_cursor r k \<longleftrightarrow> (case rep_next r of None \<Rightarrow> True | Some a \<Rightarrow> k < a)"

definition replay_inv :: "(u64 \<times> bytes) list \<Rightarrow> replay_state \<Rightarrow> bool" where
  "replay_inv chunks0 st \<longleftrightarrow> (case st of (sb, r, sent) \<Rightarrow>
     send_inv sb \<and> set (sb_chunks sb) \<subseteq> set chunks0 \<and> set sent \<subseteq> set chunks0 \<and>
     sorted_wrt (<) (map fst sent) \<and> (\<forall>(k, _)\<in>set sent. below_cursor r k) \<and>
     (\<forall>(k, d)\<in>set (sb_chunks sb). below_cursor r k \<longrightarrow> (k, d) \<in> set sent) \<and>
     rep_replayed r = length sent)"

lemma replay_inv_init: "send_inv sb \<Longrightarrow> replay_inv (sb_chunks sb) (sb, replay_new, [])"
  by (auto simp: replay_inv_def replay_new_def below_cursor_def)

lemma next_chunk_Some:
  assumes "next_chunk sb r = Some (sq, d)" and "bt_wf (sb_chunks sb)"
  shows "(sq, d) \<in> set (sb_chunks sb)" and "\<not> below_cursor r sq"
    and "\<And>k e. (k, e) \<in> set (sb_chunks sb) \<Longrightarrow> \<not> below_cursor r k \<Longrightarrow> sq \<le> k"
proof -
  obtain a xs where a: "rep_next r = Some a" and xs: "bt_range_from a (sb_chunks sb) = (sq, d) # xs"
    using assms by (auto simp: next_chunk_def bt_first_def split: option.splits list.splits)
  have "(sq, d) \<in> set (bt_range_from a (sb_chunks sb))" unfolding xs by simp
  then show "(sq, d) \<in> set (sb_chunks sb)" "\<not> below_cursor r sq"
    using a by (auto simp: bt_range_from_def below_cursor_def)
  fix k e
  assume "(k, e) \<in> set (sb_chunks sb)" "\<not> below_cursor r k"
  then have "(k, e) \<in> set ((sq, d) # xs)"
    unfolding xs [symmetric] using a by (auto simp: bt_range_from_def below_cursor_def)
  moreover have "bt_wf ((sq, d) # xs)"
    unfolding xs [symmetric] using assms(2) by (simp add: bt_range_from_def)
  ultimately show "sq \<le> k" by (force simp: bt_wf_Cons)
qed

lemma below_cursor_confirm: "below_cursor (confirm_sent sq r) k \<longleftrightarrow> k \<le> sq"
  using less_succ_iff [of sq k]
  by (auto simp: below_cursor_def confirm_sent_def checked_add_1 le_less
      intro: word_order.not_eq_extremum [THEN iffD1])

lemma replay_inv_step:
  assumes "replay_step st st'" and "replay_inv chunks0 st"
  shows "replay_inv chunks0 st'"
  using assms
proof (cases rule: replay_step.cases)
  case (send sb r sq d sent)
  note inv = assms(2) [unfolded replay_inv_def send(1) prod.case]
  then have wf: "bt_wf (sb_chunks sb)" by (simp add: send_inv_def)
  note nc = next_chunk_Some [OF send(3) wf]
  have mono: "below_cursor r k \<Longrightarrow> k < sq" for k
    using nc(2) by (auto simp: below_cursor_def split: option.splits)
  have "(k, e) \<in> set (sent @ [(sq, d)])" if k: "(k, e) \<in> set (sb_chunks sb)" "k \<le> sq" for k e
  proof (cases "below_cursor r k")
    case True
    with inv k show ?thesis by auto
  next
    case False
    with nc(3) k have "k = sq" by force
    with k(1) nc(1) wf have "e = d" by (metis in_set_bt_get option.inject)
    with \<open>k = sq\<close> show ?thesis by simp
  qed
  moreover have "sorted_wrt (<) (map fst (sent @ [(sq, d)]))"
    using inv mono by (fastforce simp: sorted_wrt_append)
  ultimately show ?thesis
    using inv nc(1) mono unfolding send(2) replay_inv_def prod.case below_cursor_confirm
    by (fastforce simp: confirm_sent_def intro: less_imp_le)
next
  case (ack sb r sent ne rs)
  note inv = assms(2) [unfolded replay_inv_def ack(1) prod.case]
  then have wf: "bt_wf (sb_chunks sb)" by (simp add: send_inv_def)
  have "set (sb_chunks (snd (apply_ack ne rs sb))) \<subseteq> set (sb_chunks sb)"
    by (auto simp: apply_ack_release [OF wf] release_chunks)
  with inv apply_ack_inv [of sb ne rs] show ?thesis
    unfolding ack(2) replay_inv_def prod.case by blast
qed

lemma replay_reachable_inv:
  "replay_step\<^sup>*\<^sup>* st st' \<Longrightarrow> replay_inv chunks0 st \<Longrightarrow> replay_inv chunks0 st'"
  by (induction rule: rtranclp_induct) (auto intro: replay_inv_step)

lemma replay_inv_complete:
  assumes "replay_inv chunks0 (sb, r, sent)" and "is_complete sb r"
  shows "set (sb_chunks sb) \<subseteq> set sent"
proof -
  have "below_cursor r k" if "(k, d) \<in> set (sb_chunks sb)" for k d
  proof (rule ccontr)
    assume "\<not> below_cursor r k"
    with that obtain a where "rep_next r = Some a" "(k, d) \<in> set (bt_range_from a (sb_chunks sb))"
      by (auto simp: below_cursor_def bt_range_from_def split: option.splits)
    then have "next_chunk sb r \<noteq> None"
      by (auto simp: next_chunk_def bt_first_def split: list.splits)
    with assms(2) show False by (simp add: is_complete_def)
  qed
  with assms(1) show ?thesis by (auto simp: replay_inv_def)
qed

lemma replay_inv_length:
  assumes "replay_inv chunks0 (sb, r, sent)" and "distinct (map fst chunks0)"
  shows "length sent \<le> length chunks0"
proof -
  have "sorted_wrt (<) (map fst sent)" "set sent \<subseteq> set chunks0"
    using assms(1) by (auto simp: replay_inv_def)
  then have "distinct sent" "set sent \<subseteq> set chunks0"
    using sorted_wrt_less_distinct [of "map fst sent"] by (auto simp: distinct_map)
  then show ?thesis by (metis card_length card_mono distinct_card List.finite_set le_trans)
qed

section \<open>Properties\<close>

text \<open>C17. Replaying onto a new transport always terminates and puts exactly the unacknowledged chunks on
  it, in ascending sequence order and each once, including a chunk at the very top of the sequence
  space; if a send fails it stops there with that error, and otherwise it reports how many chunks
  it sent.\<close>

theorem replay_onto_exact:
  assumes "send_inv sb"
  shows "replay_onto send sb c = (case send_frames send (map snd (sb_chunks sb)) c of
      (Inl e, c') \<Rightarrow> (Err e, c') | (Inr _, c') \<Rightarrow> (Ok (length (sb_chunks sb)), c')) \<and>
    sorted_wrt (<) (map fst (sb_chunks sb))"
proof -
  have wf: "bt_wf (sb_chunks sb)" using assms by (simp add: send_inv_def)
  have u: "unacked sb = sb_chunks sb" by (simp add: unacked_def)
  show ?thesis using replay_onto_sends [OF wf, of send c] wf unfolding u by (simp add: bt_wf_def)
qed

theorem replay_onto_exact_witness:
  "replay_onto (\<lambda>d c. (Inr () :: string + unit, c @ [d])) \<lparr>sb_chunks = [(5, [1]), (word_MAX, [2])], sb_buffered_bytes = 2, sb_max_bytes = 9\<rparr> []
    = (Ok 2, [[1], [2]])"
proof -
  have "send_inv \<lparr>sb_chunks = [(5, [1]), (word_MAX, [2])], sb_buffered_bytes = 2, sb_max_bytes = 9\<rparr>"
    by (simp add: send_inv_def bt_wf_def word_less_nat_alt unat_max)
  from replay_onto_exact [OF this, of "\<lambda>d c. (Inr () :: string + unit, c @ [d])" "[]", THEN conjunct1]
  show ?thesis by simp
qed

text \<open>A replay may be interleaved with acknowledgements that prune the buffer under its cursor:
  whatever the interleaving, chunks go out in strictly ascending order, so none twice, only chunks
  that were unacknowledged when the replay began go out, and once the cursor reports completion
  every chunk still unacknowledged has been sent.\<close>

lemma replay_interleaved:
  assumes "send_inv sb0" and "replay_step\<^sup>*\<^sup>* (sb0, replay_new, []) (sb, r, sent)"
  shows "sorted_wrt (<) (map fst sent) \<and> set sent \<subseteq> set (sb_chunks sb0) \<and>
    length sent \<le> length (sb_chunks sb0) \<and> rep_replayed r = length sent \<and>
    (is_complete sb r \<longrightarrow> set (sb_chunks sb) \<subseteq> set sent)"
proof -
  have inv: "replay_inv (sb_chunks sb0) (sb, r, sent)"
    using replay_reachable_inv [OF assms(2) replay_inv_init [OF assms(1)]] .
  have "distinct (map fst (sb_chunks sb0))" using assms(1) by (simp add: send_inv_def bt_wf_distinct)
  from replay_inv_length [OF inv this] replay_inv_complete [OF inv] inv show ?thesis
    by (auto simp: replay_inv_def)
qed

end
