(* ===== verification/Continuity.thy ===== *)
theory Continuity
  imports Continuity_Replay
begin

text \<open>
  Both halves of the continuity layer together. First the acknowledgement: what
  \<open>build_ack\<close> reports is canonical, so that the peer's decoder accepts it, and covers only
  sequences received, so that applying it releases nothing the receiver lacks. Then one
  direction of a session as a step relation (\<open>pipe_step\<close>) over a network that loses,
  duplicates and reorders frames and acknowledgements, with its invariant, and the fact that
  a replay completes the stream from every reachable state. The sender of \<open>pipe_step\<close> is a caller
  that sends what \<open>push\<close> retained and numbers data only.
\<close>

section \<open>Acknowledgements are sound\<close>

lemma bt_keys_sorted: "bt_wf m \<Longrightarrow> sorted_wrt (<) (bt_keys m)"
  by (simp add: bt_wf_def bt_keys_def)

lemma set_bt_keys: "k \<in> set (bt_keys m) \<longleftrightarrow> bt_get m k \<noteq> None"
  unfolding bt_get_eq_None by (auto simp: bt_keys_def)

lemma build_ack_correct:
  assumes "recv_inv rb"
  obtains rs where "build_ack rb = Ack (rb_next_expected rb) rs"
    and "sack_canonical (rb_next_expected rb) rs" and "length rs \<le> MAX_SACK_RANGES"
    and "\<And>k. acked (rb_next_expected rb) rs k \<Longrightarrow> k \<in> recv_set rb"
    and "length rs < MAX_SACK_RANGES \<Longrightarrow> (\<And>k. acked (rb_next_expected rb) rs k \<longleftrightarrow> k \<in> recv_set rb)"
proof -
  let ?ne = "rb_next_expected rb" and ?ks = "bt_keys (rb_pending rb)"
  let ?rs = "build_ranges ?ks []"
  from assms have wf: "bt_wf (rb_pending rb)" and gt: "\<forall>k\<in>set ?ks. ?ne < k"
    by (auto simp: recv_inv_def set_bt_keys)
  have "sack_canonical ?ne []" by (simp add: sack_canonical_def)
  from build_ranges_correct [OF bt_keys_sorted [OF wf] this _ gt]
  obtain j where c: "sack_canonical ?ne ?rs" "length ?rs \<le> MAX_SACK_RANGES"
    and cov: "ranges_cover ?rs = ranges_cover [] \<union> set (take j ?ks)"
    and all: "length ?rs < MAX_SACK_RANGES \<longrightarrow> j = length ?ks"
    by (auto simp del: build_ranges.simps)
  have a: "acked ?ne ?rs k \<longleftrightarrow> k < ?ne \<or> k \<in> set (take j ?ks)" for k
    using cov by (auto simp: acked_def ranges_cover_def)
  have sub: "k \<in> set (take j ?ks) \<Longrightarrow> bt_get (rb_pending rb) k \<noteq> None" for k
    using set_bt_keys by (metis in_set_takeD)
  show thesis
  proof (rule that [of ?rs])
    show "build_ack rb = Ack ?ne ?rs" by (simp add: build_ack_def)
    show "acked ?ne ?rs k \<Longrightarrow> k \<in> recv_set rb" for k using a sub by (auto simp: recv_set_def)
    show "acked ?ne ?rs k \<longleftrightarrow> k \<in> recv_set rb" if "length ?rs < MAX_SACK_RANGES" for k
      using a all that by (auto simp: recv_set_def set_bt_keys)
  qed (fact c)+
qed

lemma build_ack_wf: "recv_inv rb \<Longrightarrow> control_wf (build_ack rb)"
  by (erule build_ack_correct) simp

section \<open>Offering chunks in order\<close>

primrec offer_all :: "(u64 \<times> bytes) list \<Rightarrow> receive_buffer \<Rightarrow> (protocol_error + received) list \<times> receive_buffer" where
  "offer_all [] rb = ([], rb)"
| "offer_all (x # xs) rb =
     (let (r, rb1) = accept (fst x) (snd x) rb; (rs, rb2) = offer_all xs rb1 in (r # rs, rb2))"

text \<open>When everything below a sequence has been received, offering it never hits the bound.\<close>

lemma accept_in_order:
  assumes inv: "recv_inv rb" and nm: "no_max rb" and st: "recv_stream f out rb"
    and sq: "sq \<noteq> word_MAX" and below: "\<And>k. k < sq \<Longrightarrow> k \<in> recv_set rb"
  obtains r rb' where "accept sq (f (unat sq)) rb = (Ok r, rb')" and "recv_inv rb'" and "no_max rb'"
    and "recv_stream f out rb'" and "recv_set rb' = insert sq (recv_set rb)"
proof (cases "sq \<in> recv_set rb")
  case True
  then show thesis using that inv nm st accept_duplicate by (metis insert_absorb)
next
  case False
  have "rb_next_expected rb \<le> sq" by (rule next_expected_least [OF inv False])
  moreover have "\<not> rb_next_expected rb < sq"
    using below next_not_received [OF inv] by blast
  ultimately have eq: "sq = rb_next_expected rb" by simp
  obtain rb' where rb': "accept sq (f (unat sq)) rb = (Ok Ready, rb')" "recv_inv rb'"
      "recv_set rb' = insert sq (recv_set rb)" "recv_stream f out rb'"
    using accept_ready [OF inv nm sq eq, of "f (unat sq)"] st by metis
  then show thesis using nm sq by (intro that [of Ready rb']) (auto simp: no_max_recv_set)
qed

lemma offer_all_completes:
  assumes "recv_inv rb" and "no_max rb" and "recv_stream f out rb"
    and "sorted_wrt (<) ks" and "\<forall>k\<in>set ks. k < n"
    and "\<And>k. k < n \<Longrightarrow> k \<in> recv_set rb \<or> k \<in> set ks"
  shows "\<exists>rs rb'. offer_all (map (\<lambda>k. (k, f (unat k))) ks) rb = (map Inr rs, rb') \<and>
    recv_inv rb' \<and> no_max rb' \<and> recv_stream f out rb' \<and> recv_set rb' = recv_set rb \<union> set ks"
  using assms
proof (induction ks arbitrary: rb)
  case Nil
  then show ?case by (intro exI [of _ "[]"]) auto
next
  case (Cons k ks)
  have k: "k \<noteq> word_MAX" using Cons.prems(5) below_not_max by auto
  have "q \<in> recv_set rb" if "q < k" for q
  proof -
    have "q < n" using that Cons.prems(5) by auto
    moreover have "q \<notin> set (k # ks)" using that Cons.prems(4) by auto
    ultimately show ?thesis using Cons.prems(6) by blast
  qed
  then obtain r rb1 where a: "accept k (f (unat k)) rb = (Ok r, rb1)" "recv_inv rb1" "no_max rb1"
    "recv_stream f out rb1" "recv_set rb1 = insert k (recv_set rb)"
    using accept_in_order [OF Cons.prems(1-3) k] by metis
  have "\<exists>rs rb'. offer_all (map (\<lambda>k. (k, f (unat k))) ks) rb1 = (map Inr rs, rb') \<and>
    recv_inv rb' \<and> no_max rb' \<and> recv_stream f out rb' \<and> recv_set rb' = recv_set rb1 \<union> set ks"
    using Cons.prems(4-6) a by (intro Cons.IH) auto
  then obtain rs rb' where rest: "offer_all (map (\<lambda>k. (k, f (unat k))) ks) rb1 = (map Inr rs, rb')"
    "recv_inv rb'" "no_max rb'" "recv_stream f out rb'" "recv_set rb' = recv_set rb1 \<union> set ks"
    by blast
  show ?case
    using a rest by (intro exI [of _ "r # rs"] exI [of _ rb']) auto
qed

lemma complete_stream:
  assumes "recv_inv rb" and "recv_stream f out rb" and "recv_set rb = {k. k < n}"
  shows "rb_next_expected rb = n" and "out @ rb_ready rb = map f [0..<unat n]"
proof -
  have "\<not> rb_next_expected rb < n" using next_not_received [OF assms(1)] assms(3) by blast
  moreover have "\<not> n < rb_next_expected rb" using assms(3) by (auto simp: recv_set_def)
  ultimately show "rb_next_expected rb = n" by simp
  with assms(2) show "out @ rb_ready rb = map f [0..<unat n]" by (simp add: recv_stream_def)
qed

section \<open>One direction of a session\<close>

text \<open>\<open>pp_next\<close> is the next sequence to assign; \<open>pp_frames\<close> and \<open>pp_acks\<close> are what was ever put
  on the network, so that delivering an element any number of times, late, in any order or
  never covers loss, duplication and reordering; \<open>pp_out\<close> is what the receiver handed on.\<close>

record pipe =
  pp_next :: u64
  pp_send :: send_buffer
  pp_recv :: receive_buffer
  pp_frames :: "u64 set"
  pp_acks :: "(u64 \<times> sack_range list) set"
  pp_out :: "bytes list"

definition pipe_init :: "nat \<Rightarrow> nat \<Rightarrow> pipe" where
  "pipe_init smax rmax =
     \<lparr>pp_next = 0, pp_send = send_buffer_new smax, pp_recv = receive_buffer_new rmax,
      pp_frames = {}, pp_acks = {}, pp_out = []\<rparr>"

text \<open>\<open>f s\<close> is the payload sent under sequence \<open>s\<close> and \<open>e s\<close> its encoding, which the send
  buffer holds. The session refuses to send at \<open>MAX_NONCE\<close>.\<close>

inductive pipe_step :: "(nat \<Rightarrow> bytes) \<Rightarrow> (nat \<Rightarrow> bytes) \<Rightarrow> pipe \<Rightarrow> pipe \<Rightarrow> bool"
  for f :: "nat \<Rightarrow> bytes" and e :: "nat \<Rightarrow> bytes" where
  send: "unat (pp_next p) < 2 ^ 64 - 2 \<Longrightarrow>
    send_push (pp_next p) (e (unat (pp_next p))) (pp_send p) = (Ok (), sb) \<Longrightarrow>
    pipe_step f e p (p\<lparr>pp_send := sb, pp_frames := insert (pp_next p) (pp_frames p), pp_next := pp_next p + 1\<rparr>)"
| deliver: "sq \<in> pp_frames p \<Longrightarrow>
    pipe_step f e p (p\<lparr>pp_recv := snd (accept sq (f (unat sq)) (pp_recv p))\<rparr>)"
| drain: "pipe_step f e p
    (p\<lparr>pp_out := pp_out p @ fst (drain_ready (pp_recv p)), pp_recv := snd (drain_ready (pp_recv p))\<rparr>)"
| make_ack: "build_ack (pp_recv p) = Ack ne rs \<Longrightarrow>
    pipe_step f e p (p\<lparr>pp_acks := insert (ne, rs) (pp_acks p)\<rparr>)"
| apply_ack: "(ne, rs) \<in> pp_acks p \<Longrightarrow>
    pipe_step f e p (p\<lparr>pp_send := snd (apply_ack ne rs (pp_send p))\<rparr>)"
| replay: "(sq, d) \<in> set (unacked (pp_send p)) \<Longrightarrow>
    pipe_step f e p (p\<lparr>pp_frames := insert sq (pp_frames p)\<rparr>)"

inductive_cases pipe_stepE: "pipe_step f e p p'"

definition pipe_inv :: "(nat \<Rightarrow> bytes) \<Rightarrow> (nat \<Rightarrow> bytes) \<Rightarrow> pipe \<Rightarrow> bool" where
  "pipe_inv f e p \<longleftrightarrow>
     send_inv (pp_send p) \<and> recv_inv (pp_recv p) \<and> no_max (pp_recv p) \<and>
     recv_stream f (pp_out p) (pp_recv p) \<and>
     pp_next p \<noteq> word_MAX \<and>
     (\<forall>k\<in>pp_frames p. k < pp_next p) \<and>
     recv_set (pp_recv p) \<subseteq> {k. k < pp_next p} \<and>
     (\<forall>k d. bt_get (sb_chunks (pp_send p)) k = Some d \<longrightarrow> k < pp_next p \<and> d = e (unat k)) \<and>
     (\<forall>k. k < pp_next p \<longrightarrow> k \<in> recv_set (pp_recv p) \<or> bt_get (sb_chunks (pp_send p)) k \<noteq> None) \<and>
     (\<forall>(ne, rs)\<in>pp_acks p. \<forall>k. acked ne rs k \<longrightarrow> k \<in> recv_set (pp_recv p))"

lemma pipe_inv_init: "pipe_inv f e (pipe_init smax rmax)"
  by (simp add: pipe_inv_def pipe_init_def no_max_recv_set send_buffer_new_def send_inv_def bt_get_def)

lemma pipe_inv_recv_mono:
  assumes "pipe_inv f e p" and "recv_inv rb" and "no_max rb" and "recv_stream f out rb"
    and "recv_set (pp_recv p) \<subseteq> recv_set rb" and "recv_set rb \<subseteq> {k. k < pp_next p}"
  shows "pipe_inv f e (p\<lparr>pp_out := out, pp_recv := rb\<rparr>)"
  using assms unfolding pipe_inv_def by fastforce

lemma pipe_inv_step:
  assumes "pipe_step f e p p'" and "pipe_inv f e p"
  shows "pipe_inv f e p'"
  using assms(1)
proof (cases rule: pipe_step.cases)
  case (send sb)
  let ?n = "pp_next p"
  have n: "?n \<noteq> word_MAX" using assms(2) by (simp add: pipe_inv_def)
  have n': "?n + 1 \<noteq> word_MAX"
  proof
    assume "?n + 1 = word_MAX"
    then have "Suc (unat ?n) = unat (word_MAX :: u64)" using unat_Suc [OF n] by metis
    also have "\<dots> = 2 ^ 64 - 1" using unat_max [where 'a = 64] by simp
    finally show False using send(2) by simp
  qed
  have inv: "send_inv (pp_send p)" using assms(2) by (simp add: pipe_inv_def)
  have ok: "sb_chunks (pp_send p) = [] \<or> sb_buffered_bytes (pp_send p) + length (e (unat ?n)) \<le> sb_max_bytes (pp_send p)"
    using send(3) send_push_full [of "pp_send p" "e (unat ?n)" ?n] by fastforce
  obtain sb' where "send_push ?n (e (unat ?n)) (pp_send p) = (Ok (), sb')" "send_inv sb'"
    "sb_chunks sb' = bt_insert ?n (e (unat ?n)) (sb_chunks (pp_send p))"
    by (rule send_push_ok [OF inv ok])
  then have sb: "send_inv sb" "bt_get (sb_chunks sb) = (bt_get (sb_chunks (pp_send p)))(?n \<mapsto> e (unat ?n))"
    using send(3) inv by (auto simp: send_inv_def bt_get_insert)
  show ?thesis
    using assms(2) sb n' less_succ_iff [OF n] unfolding send(1) pipe_inv_def by auto
next
  case (deliver sq)
  have inv: "recv_inv (pp_recv p)" "no_max (pp_recv p)" "recv_stream f (pp_out p) (pp_recv p)"
    using assms(2) by (auto simp: pipe_inv_def)
  have sq: "sq < pp_next p" using assms(2) deliver(2) by (auto simp: pipe_inv_def)
  note a = accept_preserves [OF inv(1,2) below_not_max [OF sq] refl inv(3)]
  have "recv_set (snd (accept sq (f (unat sq)) (pp_recv p))) \<subseteq> insert sq (recv_set (pp_recv p))"
    by (rule accept_recv_set [OF inv(1,2) below_not_max [OF sq]])
  then have "recv_set (snd (accept sq (f (unat sq)) (pp_recv p))) \<subseteq> {k. k < pp_next p}"
    using sq assms(2) by (auto simp: pipe_inv_def)
  from pipe_inv_recv_mono [OF assms(2) _ _ _ _ this, of "pp_out p"] a show ?thesis
    unfolding deliver(1) by simp
next
  case drain
  have inv: "recv_inv (pp_recv p)" "no_max (pp_recv p)" "recv_stream f (pp_out p) (pp_recv p)"
    "recv_set (pp_recv p) \<subseteq> {k. k < pp_next p}"
    using assms(2) by (auto simp: pipe_inv_def)
  note d = drain_preserves(1) [OF inv(1)] drain_preserves(2) [OF inv(2)] drain_preserves(4) [OF inv(3)]
    drain_preserves(3) [of "pp_recv p"]
  from pipe_inv_recv_mono [OF assms(2) d(1,2,3)] d(4) inv(4) show ?thesis
    unfolding drain by simp
next
  case (make_ack ne rs)
  have "recv_inv (pp_recv p)" using assms(2) by (simp add: pipe_inv_def)
  from build_ack_correct [OF this] make_ack(2)
  have "acked ne rs k \<Longrightarrow> k \<in> recv_set (pp_recv p)" for k
    by (metis control_message.inject(7))
  with assms(2) show ?thesis unfolding make_ack(1) pipe_inv_def by auto
next
  case (apply_ack ne rs)
  have "acked ne rs k \<Longrightarrow> k \<in> recv_set (pp_recv p)" for k
    using assms(2) apply_ack(2) by (auto simp: pipe_inv_def)
  moreover have inv: "send_inv (pp_send p)" using assms(2) by (simp add: pipe_inv_def)
  ultimately show ?thesis
    using assms(2) apply_ack_inv [OF inv] unfolding apply_ack(1) pipe_inv_def
    by (simp add: apply_ack_get [OF inv])
next
  case (replay sq d)
  have "bt_wf (sb_chunks (pp_send p))" using assms(2) by (simp add: pipe_inv_def send_inv_def)
  then have "bt_get (sb_chunks (pp_send p)) sq = Some d"
    using replay(2) by (simp add: unacked_def in_set_bt_get)
  with assms(2) show ?thesis unfolding replay(1) pipe_inv_def by auto
qed

lemma pipe_reachable_inv: "(pipe_step f e)\<^sup>*\<^sup>* (pipe_init smax rmax) p \<Longrightarrow> pipe_inv f e p"
  by (induction rule: rtranclp_induct) (auto intro: pipe_inv_step pipe_inv_init)

text \<open>From any state satisfying the invariant, offering what the sender retains, in the order the
  replay sends it, completes the stream.\<close>

lemma pipe_inv_replay_completes:
  assumes "pipe_inv f e p"
  shows "\<exists>rs rb. offer_all (map (\<lambda>(k, _). (k, f (unat k))) (unacked (pp_send p))) (pp_recv p) = (map Inr rs, rb) \<and>
    rb_next_expected rb = pp_next p \<and> pp_out p @ rb_ready rb = map f [0..<unat (pp_next p)]"
proof -
  let ?ks = "bt_keys (sb_chunks (pp_send p))"
  have eq: "map (\<lambda>(k, _). (k, f (unat k))) (unacked (pp_send p)) = map (\<lambda>k. (k, f (unat k))) ?ks"
    by (simp add: unacked_def bt_keys_def comp_def case_prod_unfold)
  have inv: "recv_inv (pp_recv p)" "no_max (pp_recv p)" "recv_stream f (pp_out p) (pp_recv p)"
    and sub: "recv_set (pp_recv p) \<subseteq> {k. k < pp_next p}"
    and held: "\<forall>k\<in>set ?ks. k < pp_next p" and srt: "sorted_wrt (<) ?ks"
    and cov: "\<And>k. k < pp_next p \<Longrightarrow> k \<in> recv_set (pp_recv p) \<or> k \<in> set ?ks"
    using assms by (auto simp: pipe_inv_def set_bt_keys send_inv_def bt_keys_sorted)
  obtain rs rb where o: "offer_all (map (\<lambda>k. (k, f (unat k))) ?ks) (pp_recv p) = (map Inr rs, rb)"
    "recv_inv rb" "recv_stream f (pp_out p) rb" "recv_set rb = recv_set (pp_recv p) \<union> set ?ks"
    using offer_all_completes [OF inv srt held cov] by blast
  have "recv_set rb = {k. k < pp_next p}" using o(4) sub held cov by blast
  from complete_stream [OF o(2,3) this] o(1) eq show ?thesis by metis
qed

section \<open>Properties\<close>

definition demo_stream :: "nat \<Rightarrow> bytes" where
  "demo_stream n = [word_of_nat n]"

text \<open>A state where the first chunk was lost and the second one arrived.\<close>

definition demo_pipe :: pipe where
  "demo_pipe =
     \<lparr>pp_next = 2,
      pp_send = \<lparr>sb_chunks = [(0, [0]), (1, [1])], sb_buffered_bytes = 2, sb_max_bytes = 100\<rparr>,
      pp_recv = \<lparr>rb_next_expected = 0, rb_pending = [(1, [1])], rb_ready = [], rb_buffered_bytes = 1, rb_max_bytes = 100\<rparr>,
      pp_frames = {0, 1}, pp_acks = {}, pp_out = []\<rparr>"

lemma demo_pipe_reachable: "(pipe_step demo_stream demo_stream)\<^sup>*\<^sup>* (pipe_init 100 100) demo_pipe"
proof -
  define p1 where "p1 = (pipe_init 100 100)\<lparr>pp_send := \<lparr>sb_chunks = [(0, [0])], sb_buffered_bytes = 1, sb_max_bytes = 100\<rparr>,
    pp_frames := {0}, pp_next := 1\<rparr>"
  define p2 where "p2 = p1\<lparr>pp_send := \<lparr>sb_chunks = [(0, [0]), (1, [1])], sb_buffered_bytes = 2, sb_max_bytes = 100\<rparr>,
    pp_frames := {1, 0}, pp_next := 2\<rparr>"
  have push0: "send_push 0 [0] (send_buffer_new 100) = (Ok (), \<lparr>sb_chunks = [(0, [0])], sb_buffered_bytes = 1, sb_max_bytes = 100\<rparr>)"
    by (simp add: send_push_def send_buffer_new_def bt_get_def)
  have push1: "send_push 1 [1] \<lparr>sb_chunks = [(0, [0])], sb_buffered_bytes = 1, sb_max_bytes = 100\<rparr> =
     (Ok (), \<lparr>sb_chunks = [(0, [0]), (1, [1])], sb_buffered_bytes = 2, sb_max_bytes = 100\<rparr>)"
    by (simp add: send_push_def bt_get_def)
  have "pipe_step demo_stream demo_stream (pipe_init 100 100) p1"
    using pipe_step.send [of "pipe_init 100 100" demo_stream _ demo_stream] push0
    by (simp add: p1_def pipe_init_def demo_stream_def)
  moreover have "pipe_step demo_stream demo_stream p1 p2"
    using pipe_step.send [of p1 demo_stream _ demo_stream] push1
    by (simp add: p2_def p1_def demo_stream_def)
  moreover have "pipe_step demo_stream demo_stream p2 demo_pipe"
    using pipe_step.deliver [of 1 p2 demo_stream demo_stream]
    by (simp add: p2_def p1_def demo_pipe_def pipe_init_def demo_stream_def accept_def receive_buffer_new_def bt_get_def
        insert_commute)
  ultimately show ?thesis
    by (meson rtranclp.rtrancl_into_rtrancl rtranclp.rtrancl_refl)
qed

text \<open>C1. Nothing is ever lost or reordered: however the network loses, repeats and reorders frames and
  acknowledgements, what the receiver delivered is exactly the stream's chunks below its position,
  in order and each once, and every chunk sent so far has been received or is still held,
  unchanged, by the sender for replay.\<close>

theorem continuity_no_loss:
  assumes "(pipe_step f e)\<^sup>*\<^sup>* (pipe_init smax rmax) p"
  shows "pp_out p @ rb_ready (pp_recv p) = map f [0..<unat (rb_next_expected (pp_recv p))] \<and>
    rb_next_expected (pp_recv p) \<le> pp_next p \<and>
    (\<forall>k < pp_next p. k \<in> recv_set (pp_recv p) \<or> bt_get (sb_chunks (pp_send p)) k = Some (e (unat k)))"
proof -
  have inv: "pipe_inv f e p" by (rule pipe_reachable_inv [OF assms])
  have "\<not> pp_next p < rb_next_expected (pp_recv p)"
    using inv by (auto simp: pipe_inv_def recv_set_def)
  moreover have "k \<in> recv_set (pp_recv p) \<or> bt_get (sb_chunks (pp_send p)) k = Some (e (unat k))"
    if "k < pp_next p" for k
    using inv that unfolding pipe_inv_def by blast
  ultimately show ?thesis using inv by (auto simp: pipe_inv_def recv_stream_def)
qed

theorem continuity_no_loss_witness:
  "pp_out demo_pipe @ rb_ready (pp_recv demo_pipe) = [] \<and> bt_get (sb_chunks (pp_send demo_pipe)) 0 = Some [0]"
proof -
  have "(0 :: u64) < pp_next demo_pipe" "0 \<notin> recv_set (pp_recv demo_pipe)" "unat (rb_next_expected (pp_recv demo_pipe)) = 0"
    by (simp_all add: demo_pipe_def recv_set_def bt_get_def)
  with continuity_no_loss [OF demo_pipe_reachable] show ?thesis by (auto simp: demo_stream_def)
qed

text \<open>C7. A replay completes the stream: from every reachable state, offering the receiver the chunks the
  sender still holds, in the order a replay sends them, is never refused (no chunk has to wait out
  of order, so the bound cannot be hit) and ends with every chunk sent so far delivered in
  order.\<close>

theorem continuity_replay_completes:
  assumes "(pipe_step f e)\<^sup>*\<^sup>* (pipe_init smax rmax) p"
  shows "\<exists>rs rb. offer_all (map (\<lambda>(k, _). (k, f (unat k))) (unacked (pp_send p))) (pp_recv p) = (map Inr rs, rb) \<and>
    rb_next_expected rb = pp_next p \<and> pp_out p @ rb_ready rb = map f [0..<unat (pp_next p)]"
  by (rule pipe_inv_replay_completes [OF pipe_reachable_inv [OF assms]])

theorem continuity_replay_completes_witness:
  "\<exists>rs rb. offer_all [(0, [0]), (1, [1])] (pp_recv demo_pipe) = (map Inr rs, rb) \<and> rb_ready rb = [[0], [1]]"
proof -
  have p: "map (\<lambda>(k, _). (k, demo_stream (unat k))) (unacked (pp_send demo_pipe)) = [(0, [0]), (1, [1])]"
    "pp_out demo_pipe = []" "unat (pp_next demo_pipe) = Suc (Suc 0)"
    by (simp_all add: demo_pipe_def unacked_def demo_stream_def)
  have "map demo_stream [0..<Suc (Suc 0)] = [[0], [1]]" by (simp add: demo_stream_def)
  with continuity_replay_completes [OF demo_pipe_reachable, unfolded p] show ?thesis by auto
qed

text \<open>C25. The acknowledgement a receiver builds is always one the sender's decoder accepts (canonical
  ranges, at most 32 of them), it survives the wire unchanged, it covers only sequences the
  receiver has, and all of them when it needs fewer than 32 ranges; so applying it never releases
  a chunk the receiver lacks.\<close>

theorem build_ack_sound:
  assumes "offers_from f evs" and "recv_run evs ([], receive_buffer_new mx) = (out, rb)"
  shows "\<exists>ne rs. build_ack rb = Ack ne rs \<and> length rs \<le> 32 \<and>
    control_decode (control_encode (build_ack rb)) = Ok (Ack ne rs) \<and>
    (\<forall>k. acked ne rs k \<longrightarrow> k \<in> recv_set rb) \<and>
    (length rs < 32 \<longrightarrow> (\<forall>k. acked ne rs k \<longleftrightarrow> k \<in> recv_set rb))"
proof -
  have "no_max (receive_buffer_new mx)" by (simp add: no_max_recv_set)
  from recv_run_preserves [OF recv_new(1) this recv_new(2) assms] have inv: "recv_inv rb" by blast
  obtain rs where rs: "build_ack rb = Ack (rb_next_expected rb) rs" "length rs \<le> MAX_SACK_RANGES"
    "\<forall>k. acked (rb_next_expected rb) rs k \<longrightarrow> k \<in> recv_set rb"
    "length rs < MAX_SACK_RANGES \<longrightarrow> (\<forall>k. acked (rb_next_expected rb) rs k \<longleftrightarrow> k \<in> recv_set rb)"
    using build_ack_correct [OF inv] by metis
  moreover have "control_decode (control_encode (build_ack rb)) = Ok (build_ack rb)"
    by (rule control_codec.roundtrip [OF build_ack_wf [OF inv]])
  ultimately show ?thesis unfolding MAX_SACK_RANGES_def by metis
qed

theorem build_ack_sound_witness:
  "\<exists>ne rs. build_ack (snd (recv_run [Offer 0 [0], Offer 2 [2], Offer 3 [3], Offer 6 [6]] ([], receive_buffer_new 10))) = Ack ne rs \<and>
    \<not> acked ne rs 1"
proof -
  let ?evs = "[Offer 0 [0], Offer 2 [2], Offer 3 [3], Offer 6 [6]]"
  have o: "offers_from (\<lambda>n. [word_of_nat n]) ?evs" by (auto simp: offers_from_def)
  obtain out rb where run: "recv_run ?evs ([], receive_buffer_new 10) = (out, rb)" by fastforce
  have "1 \<notin> recv_set rb"
    using reassembly_set [OF o run] by auto
  with build_ack_sound [OF o run] run show ?thesis by (metis snd_conv)
qed

end
