(* ===== verification/Wire_Proxy.thy ===== *)
theory Wire_Proxy
  imports Wire_Chunk
begin

text \<open>Proxy requests of \<open>kanrin-protocol/src/wire.rs\<close>, the payloads of data chunks: their
  encoding and decoding. Addresses are Rust strings and are decoded lossily.\<close>

datatype proxy_request =
    TcpConnect string u16
  | UdpDatagram u32 string u16 bytes
  | DnsQuery u16 bytes

fun proxy_encode :: "proxy_request \<Rightarrow> bytes" where
  "proxy_encode (TcpConnect address port) =
     [0x01] @ [word_of_nat (length (as_bytes address))] @ as_bytes address @ be16 port"
| "proxy_encode (UdpDatagram session_id address port dat) =
     [0x02] @ be32 session_id @ [word_of_nat (length (as_bytes address))] @ as_bytes address
       @ be16 port @ be16 (word_of_nat (length dat)) @ dat"
| "proxy_encode (DnsQuery qid query) =
     [0x03] @ be16 qid @ be16 (word_of_nat (length query)) @ query"

definition proxy_decode_tcp :: "bytes \<Rightarrow> protocol_error + proxy_request" where
  "proxy_decode_tcp data =
     (if length data < 4 then Err (BufferTooShort 4 (length data))
      else let addr_len = unat (data ! 1) in
        if length data < 2 + addr_len + 2 then Err (BufferTooShort (2 + addr_len + 2) (length data))
        else Ok (TcpConnect (from_utf8_lossy (slice 2 (2 + addr_len) data))
                            (from_be [data ! (2 + addr_len), data ! (3 + addr_len)])))"

definition proxy_decode_udp :: "bytes \<Rightarrow> protocol_error + proxy_request" where
  "proxy_decode_udp data =
     (if length data < 8 then Err (BufferTooShort 8 (length data))
      else let session_id = from_be (slice 1 5 data);
               addr_len = unat (data ! 5);
               off = 6 + addr_len in
        if length data < off + 4 then Err (BufferTooShort (off + 4) (length data))
        else let address = from_utf8_lossy (slice 6 (6 + addr_len) data);
                 port = from_be [data ! off, data ! (off + 1)];
                 data_len = unat (from_be [data ! (off + 2), data ! (off + 3)] :: u16);
                 payload_start = off + 4 in
          if length data < payload_start + data_len
          then Err (BufferTooShort (payload_start + data_len) (length data))
          else Ok (UdpDatagram session_id address port (slice payload_start (payload_start + data_len) data)))"

definition proxy_decode_dns :: "bytes \<Rightarrow> protocol_error + proxy_request" where
  "proxy_decode_dns data =
     (if length data < 5 then Err (BufferTooShort 5 (length data))
      else let qid = from_be [data ! 1, data ! 2];
               query_len = unat (from_be [data ! 3, data ! 4] :: u16) in
        if length data < 5 + query_len then Err (BufferTooShort (5 + query_len) (length data))
        else Ok (DnsQuery qid (slice 5 (5 + query_len) data)))"

definition proxy_decode :: "bytes \<Rightarrow> protocol_error + proxy_request" where
  "proxy_decode data =
     (if data = [] then Err (InvalidChunk ''empty proxy request'')
      else if data ! 0 = 0x01 then proxy_decode_tcp data
      else if data ! 0 = 0x02 then proxy_decode_udp data
      else if data ! 0 = 0x03 then proxy_decode_dns data
      else Err (InvalidChunk (''unknown proxy request type: 0x'' @ hex02 (data ! 0))))"

section \<open>Lemmas\<close>

text \<open>Requests whose variable-length fields fit their length prefixes.\<close>

fun proxy_wf :: "proxy_request \<Rightarrow> bool" where
  "proxy_wf (TcpConnect a p) \<longleftrightarrow> is_str a \<and> length a < 256"
| "proxy_wf (UdpDatagram s a p d) \<longleftrightarrow> is_str a \<and> length a < 256 \<and> length d < 65536"
| "proxy_wf (DnsQuery i q) \<longleftrightarrow> length q < 65536"

lemma nth_pair: "n + 1 < length bs \<Longrightarrow> [bs ! n, bs ! (n + 1)] = slice n (n + 2) bs"
  by (simp add: slice_def take_Suc_conv_app_nth hd_drop_conv_nth numeral_2_eq_2)

lemma proxy_decode_tcp_encode:
  assumes "is_str a" and "length a < 256"
  shows "proxy_decode_tcp (proxy_encode (TcpConnect a p) @ rest) = Ok (TcpConnect a p)"
proof -
  let ?d = "proxy_encode (TcpConnect a p) @ rest"
  have n: "unat (?d ! 1) = length a"
    using assms(2) by (simp add: codec_simps)
  have "slice 2 (2 + length a) ?d = as_bytes a" by (simp add: slice_def)
  moreover have "[?d ! (2 + length a), ?d ! (3 + length a)] = be16 p"
    using nth_pair [of "2 + length a" ?d] by (simp add: slice_def add.commute)
  moreover have "2 + length a + 2 \<le> length ?d" by simp
  ultimately show ?thesis
    using n assms(1) unfolding proxy_decode_tcp_def by (simp add: Let_def)
qed

lemma proxy_decode_udp_encode:
  assumes "is_str a" and "length a < 256" and "length d < 65536"
  shows "proxy_decode_udp (proxy_encode (UdpDatagram s a p d) @ rest) = Ok (UdpDatagram s a p d)"
proof -
  let ?d = "proxy_encode (UdpDatagram s a p d) @ rest" and ?o = "6 + length a"
  have len: "length ?d = ?o + 4 + length d + length rest" by simp
  have split: "?d = (0x02 # be32 s @ word_of_nat (length a) # as_bytes a) @ be16 p @ be16 (word_of_nat (length d)) @ d @ rest"
    by simp
  have n: "unat (?d ! 5) = length a"
    using assms(2) by (simp add: nth_append nth_Cons' codec_simps)
  have "slice 1 5 ?d = be32 s" by (simp add: slice_def)
  moreover have "slice 6 (6 + length a) ?d = as_bytes a" by (simp add: slice_def drop_Cons')
  moreover have "[?d ! ?o, ?d ! (?o + 1)] = be16 p"
  proof -
    have "[?d ! ?o, ?d ! (?o + 1)] = slice ?o (?o + 2) ?d"
      by (rule nth_pair) (simp only: len)
    also have "\<dots> = be16 p"
      unfolding split by (simp add: slice_def drop_Cons')
    finally show ?thesis .
  qed
  moreover have "[?d ! (?o + 2), ?d ! (?o + 3)] = be16 (word_of_nat (length d))"
  proof -
    have "[?d ! (?o + 2), ?d ! (?o + 2 + 1)] = slice (?o + 2) (?o + 2 + 2) ?d"
      by (rule nth_pair) (simp only: len)
    also have "\<dots> = be16 (word_of_nat (length d))"
      unfolding split by (simp add: slice_def drop_Cons')
    finally show ?thesis by (simp add: add.commute add.left_commute)
  qed
  moreover have "slice (?o + 4) (?o + 4 + length d) ?d = d"
    unfolding split by (simp add: slice_def drop_Cons')
  moreover have "unat (word_of_nat (length d) :: u16) = length d"
    using assms(3) by (simp add: codec_simps)
  ultimately show ?thesis
    using n len assms(1) unfolding proxy_decode_udp_def Let_def by (simp del: proxy_encode.simps)
qed

lemma proxy_decode_dns_encode:
  assumes "length q < 65536"
  shows "proxy_decode_dns (proxy_encode (DnsQuery i q) @ rest) = Ok (DnsQuery i q)"
proof -
  let ?d = "proxy_encode (DnsQuery i q) @ rest"
  have "[?d ! 1, ?d ! 2] = be16 i" "[?d ! 3, ?d ! 4] = be16 (word_of_nat (length q))"
    using nth_pair [of 1 ?d] nth_pair [of 3 ?d] by (simp_all add: slice_def numeral_2_eq_2 drop_Cons')
  moreover have "slice 5 (5 + length q) ?d = q" by (simp add: slice_def drop_Cons')
  moreover have "unat (word_of_nat (length q) :: u16) = length q"
    using assms by (simp add: codec_simps)
  ultimately show ?thesis unfolding proxy_decode_dns_def Let_def by simp
qed

lemma proxy_encode_head:
  "proxy_encode r @ rest \<noteq> []"
  "(proxy_encode r @ rest) ! 0 =
     (case r of TcpConnect a p \<Rightarrow> 0x01 | UdpDatagram s a p d \<Rightarrow> 0x02 | DnsQuery i q \<Rightarrow> 0x03)"
  by (cases r; simp)+

lemma proxy_decode_encode: "proxy_wf r \<Longrightarrow> proxy_decode (proxy_encode r @ rest) = Ok r"
  unfolding proxy_decode_def
  by (cases r)
     (simp_all only: proxy_encode_head proxy_request.case proxy_wf.simps proxy_decode_tcp_encode
       proxy_decode_udp_encode proxy_decode_dns_encode if_True if_False simp_thms, simp_all)

interpretation proxy_codec: prefix_codec proxy_encode proxy_decode proxy_wf
  by unfold_locales (rule proxy_decode_encode)

text \<open>Whatever arrives, a decoded request is one the encoder can represent.\<close>

lemma proxy_decode_range:
  assumes "proxy_decode data = Ok r"
  shows "case r of TcpConnect a p \<Rightarrow> is_str a | UdpDatagram s a p d \<Rightarrow> is_str a \<and> length d < 65536
    | DnsQuery i q \<Rightarrow> length q < 65536"
proof -
  have "unat (w :: u16) < 65536" for w using unat_lt [of w] by simp
  then show ?thesis
    using assms
    by (auto simp: proxy_decode_def proxy_decode_tcp_def proxy_decode_udp_def proxy_decode_dns_def Let_def
        split: if_splits intro: less_le_trans min.strict_coboundedI1)
qed

section \<open>Properties\<close>

text \<open>A proxy request whose address is a string of at most 255 bytes and whose data fits 65535
  bytes is decoded to itself, whatever follows it, so requests laid one after another are read
  back one by one and two of them never share an encoding.\<close>

lemma proxy_roundtrip:
  assumes "proxy_wf r" and "proxy_wf r'"
  shows "proxy_decode (proxy_encode r @ rest) = Ok r \<and>
    (proxy_encode r @ rest = proxy_encode r' @ rest' \<longrightarrow> r = r' \<and> rest = rest')"
  using assms by (blast intro: proxy_codec.dec_enc dest: proxy_codec.prefix_free)

end
