(* ===== verification/Server_Alloc.thy ===== *)
theory Server_Alloc
  imports Std_Collections "HOL-Library.Multiset"
begin

text \<open>
  The tunnel-address pool of \<open>kanrin-server/src/session.rs\<close>. Addresses are 32-bit words. The
  specification is the list of addresses leased out: \<open>alloc_inv\<close> relates it to the pool, and
  the locale \<open>address_pool\<close> is the contract the server's life cycle rests on.
\<close>

type_synonym ipv4 = u32

record ip_allocator =
  al_base :: u32
  al_next :: u32
  al_freed :: "u32 list"

definition allocator_new :: "ipv4 \<Rightarrow> ip_allocator" where
  "allocator_new base_ip = \<lparr>al_base = base_ip AND 0xFFFFFF00, al_next = 2, al_freed = []\<rparr>"

text \<open>\<open>Vec::pop\<close> takes the last element.\<close>

definition allocate :: "ip_allocator \<Rightarrow> ipv4 option \<times> ip_allocator" where
  "allocate al =
     (if al_freed al \<noteq> [] then
        (Some (al_base al OR last (al_freed al)), al\<lparr>al_freed := butlast (al_freed al)\<rparr>)
      else if al_next al \<ge> 254 then (None, al)
      else (Some (al_base al OR al_next al), al\<lparr>al_next := al_next al + 1\<rparr>))"

definition release_ip :: "ipv4 \<Rightarrow> ip_allocator \<Rightarrow> ip_allocator" where
  "release_ip ip al =
     (let host = ip AND 0xFF in
      if host < 2 \<or> host \<ge> 254 then al
      else if host \<notin> set (al_freed al) then al\<lparr>al_freed := al_freed al @ [host]\<rparr>
      else al)"

section \<open>Addresses and host octets\<close>

lemma low_byte_base: "(x AND 0xFFFFFF00) AND 0xFF = (0 :: u32)"
proof -
  have "(0xFFFFFF00 :: u32) AND 0xFF = 0" by simp
  then show ?thesis by (metis and.assoc and_zero_eq)
qed

lemma and_FF_small:
  assumes "h < 256"
  shows "h AND 0xFF = (h :: u32)"
proof -
  have "unat h < 2 ^ 8" using assms by (simp add: word_less_nat_alt)
  then have "unat (take_bit 8 h) = unat h" by (simp add: unsigned_take_bit_eq take_bit_nat_eq_self)
  then have "take_bit 8 h = h" by (simp add: word_unat_eq_iff)
  moreover have "(0xFF :: u32) = mask 8" by (simp add: mask_eq_exp_minus_1)
  ultimately show ?thesis by (simp add: take_bit_eq_mask)
qed

lemma host_of_address:
  assumes "b AND 0xFF = 0" and "h < 256"
  shows "(b OR h) AND 0xFF = (h :: u32)"
  using assms and_FF_small by (simp add: bit.conj_disj_distrib2)

lemma address_inject:
  assumes "b AND 0xFF = (0 :: u32)" and "h < 256" and "k < 256"
  shows "b OR h = b OR k \<longleftrightarrow> h = k"
  using host_of_address [OF assms(1,2)] host_of_address [OF assms(1,3)] by metis

section \<open>The pool and the leases\<close>

definition pool_hosts :: "ip_allocator \<Rightarrow> u32 set" where
  "pool_hosts al = {h. 2 \<le> h \<and> h < al_next al}"

definition alloc_inv :: "ipv4 list \<Rightarrow> ip_allocator \<Rightarrow> bool" where
  "alloc_inv leased al \<longleftrightarrow>
     al_base al AND 0xFF = 0 \<and> 2 \<le> al_next al \<and> al_next al \<le> 254 \<and>
     distinct leased \<and> distinct (al_freed al) \<and>
     (\<exists>hs. leased = map (\<lambda>h. al_base al OR h) hs \<and> set hs \<inter> set (al_freed al) = {} \<and>
        set hs \<union> set (al_freed al) = pool_hosts al)"

lemma below_254: "h < 254 \<Longrightarrow> h < (256 :: u32)"
  by (simp add: word_less_nat_alt)

lemma alloc_inv_new: "alloc_inv [] (allocator_new b)"
proof -
  have "pool_hosts (allocator_new b) = {}"
    by (auto simp: pool_hosts_def allocator_new_def)
  then show ?thesis
    unfolding alloc_inv_def by (simp add: allocator_new_def low_byte_base word_le_nat_alt)
qed

lemma alloc_invE:
  assumes "alloc_inv leased al"
  obtains hs where "al_base al AND 0xFF = 0" and "2 \<le> al_next al" and "al_next al \<le> 254"
    and "distinct leased" and "distinct (al_freed al)" and "leased = map (\<lambda>h. al_base al OR h) hs"
    and "set hs \<inter> set (al_freed al) = {}" and "set hs \<union> set (al_freed al) = pool_hosts al"
    and "\<forall>h \<in> set hs \<union> set (al_freed al). 2 \<le> h \<and> h < 254"
proof -
  from assms have n: "al_next al \<le> 254" by (simp add: alloc_inv_def)
  have "2 \<le> h \<and> h < 254" if "h \<in> pool_hosts al" for h
    using that n by (auto simp: pool_hosts_def intro: less_le_trans)
  then show thesis using assms that unfolding alloc_inv_def by blast
qed

text \<open>Leasing a new host: the shape both branches of \<open>allocate\<close> have.\<close>

lemma alloc_inv_lease:
  assumes inv: "al_base al AND 0xFF = 0" "2 \<le> al_next al'" "al_next al' \<le> 254" "al_base al' = al_base al"
    and d: "distinct (map (\<lambda>h. al_base al OR h) hs)" "distinct (al_freed al')"
    and new: "h \<notin> set hs" "h \<notin> set (al_freed al')" "set hs \<inter> set (al_freed al') = {}"
    and cov: "insert h (set hs) \<union> set (al_freed al') = pool_hosts al'"
  shows "alloc_inv (map (\<lambda>h. al_base al OR h) (h # hs)) al'" and "al_base al OR h \<notin> (\<lambda>h. al_base al OR h) ` set hs"
proof -
  have small: "k < 256" if "k \<in> insert h (set hs)" for k
  proof -
    from that cov have "k < al_next al'" by (auto simp: pool_hosts_def)
    then show ?thesis using inv(3) below_254 less_le_trans by blast
  qed
  show notin: "al_base al OR h \<notin> (\<lambda>h. al_base al OR h) ` set hs"
  proof
    assume "al_base al OR h \<in> (\<lambda>h. al_base al OR h) ` set hs"
    then obtain k where k: "k \<in> set hs" "al_base al OR h = al_base al OR k" by blast
    then have "h = k" using small [of h] small [of k] address_inject [OF inv(1), of h k] by simp
    then show False using k(1) new(1) by simp
  qed
  show "alloc_inv (map (\<lambda>h. al_base al OR h) (h # hs)) al'"
    unfolding alloc_inv_def
  proof (intro conjI exI [of _ "h # hs"])
    show "distinct (map (\<lambda>h. al_base al OR h) (h # hs))" using d(1) notin by simp
    show "map (\<lambda>h. al_base al OR h) (h # hs) = map (\<lambda>h. al_base al' OR h) (h # hs)" using inv(4) by simp
    show "set (h # hs) \<inter> set (al_freed al') = {}" using new by simp
    show "set (h # hs) \<union> set (al_freed al') = pool_hosts al'" using cov by simp
  qed (use inv d(2) in simp_all)
qed

lemma allocate_Some:
  assumes inv: "alloc_inv leased al" and a: "allocate al = (Some ip, al')"
  shows "alloc_inv (ip # leased) al'" and "ip \<notin> set leased"
    and "al_base al' = al_base al" and "2 \<le> ip AND 0xFF \<and> ip AND 0xFF < 254"
proof -
  obtain hs where b: "al_base al AND 0xFF = 0" and n: "2 \<le> al_next al" "al_next al \<le> 254"
    and d: "distinct leased" "distinct (al_freed al)" and l: "leased = map (\<lambda>h. al_base al OR h) hs"
    and disj: "set hs \<inter> set (al_freed al) = {}" and cov: "set hs \<union> set (al_freed al) = pool_hosts al"
    and rng: "\<forall>h \<in> set hs \<union> set (al_freed al). 2 \<le> h \<and> h < 254"
    using inv by (rule alloc_invE)
  have "\<exists>h. ip = al_base al OR h \<and> 2 \<le> h \<and> h < 254 \<and> al_base al' = al_base al \<and>
    alloc_inv (map (\<lambda>h. al_base al OR h) (h # hs)) al' \<and> ip \<notin> (\<lambda>h. al_base al OR h) ` set hs"
  proof (cases "al_freed al" rule: rev_cases)
    case (snoc fr h)
    then have ip: "ip = al_base al OR h" and al': "al' = al\<lparr>al_freed := fr\<rparr>"
      using a by (auto simp: allocate_def)
    have "h \<notin> set hs" "h \<notin> set fr" "set hs \<inter> set fr = {}" "distinct fr" "insert h (set hs) \<union> set fr = pool_hosts al"
      using disj d(2) cov snoc by auto
    moreover have "2 \<le> h \<and> h < 254" using rng snoc by simp
    ultimately have "alloc_inv (map (\<lambda>h. al_base al OR h) (h # hs)) al'"
      "al_base al OR h \<notin> (\<lambda>h. al_base al OR h) ` set hs"
      using alloc_inv_lease [of al al' hs h] b n d(1) l al' by (simp_all add: pool_hosts_def)
    then show ?thesis using ip al' \<open>2 \<le> h \<and> h < 254\<close> by (intro exI [of _ h]) simp
  next
    case Nil
    let ?h = "al_next al"
    have lt: "?h < 254" using a Nil by (auto simp: allocate_def not_le split: if_splits)
    then have nm: "?h \<noteq> word_MAX" by (auto simp: word_less_nat_alt unat_max)
    have ip: "ip = al_base al OR ?h" and al': "al' = al\<lparr>al_next := ?h + 1\<rparr>"
      using a Nil lt by (auto simp: allocate_def not_le split: if_splits)
    have "unat (?h + 1) = Suc (unat ?h)" using nm by (rule unat_Suc)
    then have h1: "?h + 1 \<le> 254" "2 \<le> ?h + 1" and "\<And>k. k < ?h + 1 \<longleftrightarrow> k < ?h \<or> k = ?h"
      using lt n(1) by (auto simp: word_le_nat_alt word_less_nat_alt word_unat_eq_iff)
    then have "pool_hosts al' = insert ?h (pool_hosts al)"
      using n(1) al' by (auto simp: pool_hosts_def)
    moreover have "?h \<notin> set hs" using cov Nil by (auto simp: pool_hosts_def)
    ultimately have "alloc_inv (map (\<lambda>h. al_base al OR h) (?h # hs)) al'"
      "al_base al OR ?h \<notin> (\<lambda>h. al_base al OR h) ` set hs"
      using alloc_inv_lease [of al al' hs ?h] b n lt d(1) l al' cov Nil h1 by simp_all
    then show ?thesis using ip al' lt n(1) by (intro exI [of _ ?h]) simp
  qed
  then obtain h where h: "ip = al_base al OR h" "2 \<le> h" "h < 254" "al_base al' = al_base al"
    "alloc_inv (map (\<lambda>h. al_base al OR h) (h # hs)) al'" "ip \<notin> (\<lambda>h. al_base al OR h) ` set hs"
    by blast
  show "alloc_inv (ip # leased) al'" "ip \<notin> set leased" "al_base al' = al_base al" using h l by simp_all
  show "2 \<le> ip AND 0xFF \<and> ip AND 0xFF < 254"
    using h host_of_address [OF b below_254] by simp
qed

text \<open>\<open>None\<close> means that all 252 host octets are in use.\<close>

lemma allocate_None:
  assumes inv: "alloc_inv leased al" and a: "allocate al = (None, al')"
  shows "al' = al" and "length leased = 252"
proof -
  obtain hs where b: "al_base al AND 0xFF = 0" and n: "2 \<le> al_next al" "al_next al \<le> 254"
    and d: "distinct leased" "distinct (al_freed al)" and l: "leased = map (\<lambda>h. al_base al OR h) hs"
    and disj: "set hs \<inter> set (al_freed al) = {}" and cov: "set hs \<union> set (al_freed al) = pool_hosts al"
    and rng: "\<forall>h \<in> set hs \<union> set (al_freed al). 2 \<le> h \<and> h < 254"
    using inv by (rule alloc_invE)
  show "al' = al" using a by (auto simp: allocate_def split: if_splits)
  have e: "al_freed al = []" "al_next al = 254"
    using a n by (auto simp: allocate_def split: if_splits)
  have "distinct hs" using d l by (simp add: distinct_map)
  then have "length leased = card (pool_hosts al)"
    using l cov e(1) by (simp add: distinct_card [symmetric])
  also have "pool_hosts al = word_of_nat ` {2..<254}"
  proof -
    have "h \<in> word_of_nat ` {2..<254}" if "2 \<le> h" "h < 254" for h :: u32
      using that by (intro image_eqI [of _ _ "unat h"]) (auto simp: word_le_nat_alt word_less_nat_alt)
    moreover have "2 \<le> (word_of_nat k :: u32) \<and> (word_of_nat k :: u32) < 254" if "k \<in> {2..<254}" for k
      using that by (auto simp: word_le_nat_alt word_less_nat_alt unat_of_nat)
    ultimately show ?thesis using e(2) by (auto simp: pool_hosts_def)
  qed
  also have "card (word_of_nat ` {2..<254} :: u32 set) = 252"
  proof -
    have "inj_on (word_of_nat :: nat \<Rightarrow> u32) {2..<254}"
      by (rule inj_on_inverseI [of _ unat]) (simp add: unat_of_nat)
    then show ?thesis by (simp add: card_image)
  qed
  finally show "length leased = 252" .
qed

lemma release_leased:
  assumes inv: "alloc_inv leased al" and ip: "ip \<in> set leased"
  shows "alloc_inv (remove1 ip leased) (release_ip ip al)" and "al_base (release_ip ip al) = al_base al"
proof -
  obtain hs where b: "al_base al AND 0xFF = 0" and n: "2 \<le> al_next al" "al_next al \<le> 254"
    and d: "distinct leased" "distinct (al_freed al)" and l: "leased = map (\<lambda>h. al_base al OR h) hs"
    and disj: "set hs \<inter> set (al_freed al) = {}" and cov: "set hs \<union> set (al_freed al) = pool_hosts al"
    and rng: "\<forall>h \<in> set hs \<union> set (al_freed al). 2 \<le> h \<and> h < 254"
    using inv by (rule alloc_invE)
  obtain h where h: "h \<in> set hs" "ip = al_base al OR h" using ip l by auto
  then have r: "2 \<le> h" "h < 254" using rng by auto
  have host: "ip AND 0xFF = h" using h(2) host_of_address [OF b below_254 [OF r(2)]] by simp
  have rel: "release_ip ip al = al\<lparr>al_freed := al_freed al @ [h]\<rparr>"
    using r h(1) disj host by (auto simp: release_ip_def Let_def)
  have dh: "distinct hs" using d(1) l by (simp add: distinct_map)
  have "remove1 ip leased = filter (\<lambda>x. x \<noteq> ip) leased"
    using distinct_remove1_removeAll [OF d(1), of ip] removeAll_filter_not_eq [of ip]
    by (simp add: eq_commute [of ip])
  also have "\<dots> = map (\<lambda>h. al_base al OR h) (filter (\<lambda>k. k \<noteq> h) hs)"
  proof -
    have "al_base al OR k = ip \<longleftrightarrow> k = h" if "k \<in> set hs" for k
      using address_inject [OF b below_254 below_254, of k h] rng that r(2) h(2) by auto
    then show ?thesis unfolding l filter_map by (intro arg_cong [of _ _ "map _"] filter_cong) auto
  qed
  finally have rem: "remove1 ip leased = map (\<lambda>h. al_base al OR h) (filter (\<lambda>k. k \<noteq> h) hs)" .
  show "alloc_inv (remove1 ip leased) (release_ip ip al)"
    unfolding alloc_inv_def rel
  proof (intro conjI exI [of _ "filter (\<lambda>k. k \<noteq> h) hs"])
    show "distinct (remove1 ip leased)" using d(1) by simp
    show "distinct (al_freed (al\<lparr>al_freed := al_freed al @ [h]\<rparr>))" using d(2) h(1) disj by auto
    show "set (filter (\<lambda>k. k \<noteq> h) hs) \<union> set (al_freed (al\<lparr>al_freed := al_freed al @ [h]\<rparr>)) =
        pool_hosts (al\<lparr>al_freed := al_freed al @ [h]\<rparr>)"
      using cov h(1) by (auto simp: pool_hosts_def)
  qed (use b n rem disj in auto)
  show "al_base (release_ip ip al) = al_base al" by (simp add: rel)
qed

section \<open>The contract\<close>

locale address_pool =
  fixes alloc :: "'p \<Rightarrow> 'a option \<times> 'p"
    and free :: "'a \<Rightarrow> 'p \<Rightarrow> 'p"
    and invar :: "'a list \<Rightarrow> 'p \<Rightarrow> bool"
  assumes invar_distinct: "invar leased p \<Longrightarrow> distinct leased"
    and alloc_Some: "invar leased p \<Longrightarrow> alloc p = (Some a, p') \<Longrightarrow> invar (a # leased) p' \<and> a \<notin> set leased"
    and alloc_None: "invar leased p \<Longrightarrow> alloc p = (None, p') \<Longrightarrow> p' = p"
    and free_leased: "invar leased p \<Longrightarrow> a \<in> set leased \<Longrightarrow> invar (remove1 a leased) (free a p)"
    and invar_perm: "invar leased p \<Longrightarrow> mset leased' = mset leased \<Longrightarrow> invar leased' p"
begin

text \<open>Freeing a batch of leases, as the reaper does.\<close>

lemma free_all:
  assumes "invar (as @ rest) p"
  shows "invar rest (fold free as p)"
  using assms
proof (induction as arbitrary: p)
  case Nil
  then show ?case by simp
next
  case (Cons a as)
  have "invar (remove1 a (a # as @ rest)) (free a p)"
    using Cons.prems by (intro free_leased) simp_all
  then show ?case using Cons.IH by simp
qed

lemma free_middle:
  assumes "invar (as @ a # bs) p"
  shows "invar (as @ bs) (free a p)"
proof -
  have "invar (a # as @ bs) p" using assms by (rule invar_perm) simp
  from free_leased [OF this, of a] show ?thesis by simp
qed

end

lemma alloc_inv_perm:
  assumes inv: "alloc_inv leased al" and perm: "mset leased' = mset leased"
  shows "alloc_inv leased' al"
proof -
  obtain hs where b: "al_base al AND 0xFF = 0" and n: "2 \<le> al_next al" "al_next al \<le> 254"
    and d: "distinct leased" "distinct (al_freed al)" and l: "leased = map (\<lambda>h. al_base al OR h) hs"
    and disj: "set hs \<inter> set (al_freed al) = {}" and cov: "set hs \<union> set (al_freed al) = pool_hosts al"
    and rng: "\<forall>h \<in> set hs \<union> set (al_freed al). 2 \<le> h \<and> h < 254"
    using inv by (rule alloc_invE)
  let ?hs = "map (\<lambda>a. a AND 0xFF) leased'"
  have same: "set leased' = set leased" using perm by (rule mset_eq_setD)
  have host: "(al_base al OR h) AND 0xFF = h" if "h \<in> set hs" for h
    using that rng b by (intro host_of_address below_254) auto
  have "al_base al OR (a AND 0xFF) = a" if "a \<in> set leased'" for a
    using that same l host by auto
  then have "leased' = map (\<lambda>h. al_base al OR h) ?hs" by (simp add: map_idI o_def)
  moreover have "set ?hs = set hs" using same l host by (auto simp: image_image)
  moreover have "distinct leased'" using d(1) perm by (metis mset_eq_imp_distinct_iff)
  ultimately show ?thesis using b n d disj cov unfolding alloc_inv_def by (intro conjI exI [of _ ?hs]) auto
qed

interpretation pool: address_pool allocate release_ip alloc_inv
proof unfold_locales
  fix leased al a al' leased'
  show "alloc_inv leased al \<Longrightarrow> distinct leased" by (simp add: alloc_inv_def)
  show "alloc_inv leased al \<Longrightarrow> allocate al = (Some a, al') \<Longrightarrow> alloc_inv (a # leased) al' \<and> a \<notin> set leased"
    using allocate_Some by blast
  show "alloc_inv leased al \<Longrightarrow> allocate al = (None, al') \<Longrightarrow> al' = al" by (rule allocate_None(1))
  show "alloc_inv leased al \<Longrightarrow> a \<in> set leased \<Longrightarrow> alloc_inv (remove1 a leased) (release_ip a al)"
    by (rule release_leased(1))
  show "alloc_inv leased al \<Longrightarrow> mset leased' = mset leased \<Longrightarrow> alloc_inv leased' al"
    by (rule alloc_inv_perm)
qed

end
