(* ===== verification/Session.thy ===== *)
theory Session
  imports Wire_Chunk Std_Collections
begin

text \<open>
  \<open>kanrin-protocol/src/session.rs\<close>: the established session, which numbers and encrypts
  outgoing chunks and decrypts incoming ones, and the session manager. Byte and chunk counters
  are 64 bits wide and wrap. \<open>Instant::now()\<close> is the argument \<open>now\<close>.
\<close>

type_synonym session_id = bytes

definition session_id_generate :: "entropy \<Rightarrow> session_id" where
  "session_id_generate rnd = random_bytes_vec rnd 16"

datatype session_state = Handshaking | Active | Migrating | Suspended | Closed

record session =
  s_id :: session_id
  s_state :: session_state
  s_keys :: session_keys
  send_seq :: u64
  recv_count :: u64
  created_at :: instant
  last_activity :: instant
  bytes_sent :: u64
  bytes_received :: u64
  migration_token :: "bytes option"

definition session_new :: "instant \<Rightarrow> session_id \<Rightarrow> session_keys \<Rightarrow> session" where
  "session_new now sid keys =
     \<lparr>s_id = sid, s_state = Active, s_keys = keys, send_seq = 0, recv_count = 0,
      created_at = now, last_activity = now, bytes_sent = 0, bytes_received = 0,
      migration_token = None\<rparr>"

definition encrypt_outgoing ::
  "crypto_ops \<Rightarrow> entropy \<Rightarrow> instant \<Rightarrow> chunk \<Rightarrow> bool \<Rightarrow> session \<Rightarrow> (protocol_error + bytes) \<times> session" where
  "encrypt_outgoing C rnd now c is_client s =
     (let key = (if is_client then client_write_key (s_keys s) else server_write_key (s_keys s));
          sq = send_seq s
      in if sq \<ge> MAX_NONCE then (Err NonceExhausted, s)
         else case encode_sequenced C rnd c key sq of
           Inl e \<Rightarrow> (Err e, s)
         | Inr encoded \<Rightarrow>
             (Ok encoded, s\<lparr>send_seq := sq + 1,
                            bytes_sent := bytes_sent s + word_of_nat (length encoded),
                            last_activity := now\<rparr>))"

definition decrypt_incoming ::
  "crypto_ops \<Rightarrow> instant \<Rightarrow> bytes \<Rightarrow> bool \<Rightarrow> session \<Rightarrow> (protocol_error + chunk) \<times> session" where
  "decrypt_incoming C now data is_client s =
     (let key = (if is_client then server_write_key (s_keys s) else client_write_key (s_keys s))
      in case decode_sequenced C data key of
           Inl e \<Rightarrow> (Err e, s)
         | Inr c \<Rightarrow>
             (Ok c, s\<lparr>recv_count := recv_count s + 1,
                      bytes_received := bytes_received s + word_of_nat (length data),
                      last_activity := now\<rparr>))"

definition generate_migration_token :: "entropy \<Rightarrow> session \<Rightarrow> bytes \<times> session" where
  "generate_migration_token rnd s =
     (let token = random_bytes_vec rnd 32 in (token, s\<lparr>migration_token := Some token\<rparr>))"

definition validate_migration_token :: "bytes \<Rightarrow> session \<Rightarrow> bool" where
  "validate_migration_token token s =
     (case migration_token s of Some expected \<Rightarrow> constant_time_eq expected token | None \<Rightarrow> False)"

definition session_age :: "instant \<Rightarrow> session \<Rightarrow> duration" where
  "session_age now s = elapsed now (created_at s)"

definition idle_time :: "instant \<Rightarrow> session \<Rightarrow> duration" where
  "idle_time now s = elapsed now (last_activity s)"

definition is_idle :: "instant \<Rightarrow> duration \<Rightarrow> session \<Rightarrow> bool" where
  "is_idle now timeout s \<longleftrightarrow> idle_time now s > timeout"

definition begin_migration :: "session \<Rightarrow> session" where
  "begin_migration s = s\<lparr>s_state := Migrating\<rparr>"

definition complete_migration :: "session \<Rightarrow> session" where
  "complete_migration s = s\<lparr>s_state := Active, migration_token := None\<rparr>"

definition session_close :: "session \<Rightarrow> session" where
  "session_close s = s\<lparr>s_state := Closed\<rparr>"

section \<open>The session manager\<close>

record session_manager =
  sm_sessions :: "(session_id, session) hmap"
  sm_max_sessions :: nat
  sm_idle_timeout :: duration

definition session_manager_new :: "nat \<Rightarrow> duration \<Rightarrow> session_manager" where
  "session_manager_new mx timeout = \<lparr>sm_sessions = [], sm_max_sessions = mx, sm_idle_timeout = timeout\<rparr>"

definition cleanup_idle :: "instant \<Rightarrow> session_manager \<Rightarrow> session_manager" where
  "cleanup_idle now m =
     m\<lparr>sm_sessions := hm_retain (\<lambda>_ s. \<not> is_idle now (sm_idle_timeout m) s \<and> s_state s \<noteq> Closed) (sm_sessions m)\<rparr>"

definition create_session ::
  "instant \<Rightarrow> entropy \<Rightarrow> session_keys \<Rightarrow> session_manager \<Rightarrow> (protocol_error + session_id) \<times> session_manager" where
  "create_session now rnd keys m =
     (let m1 = (if length (sm_sessions m) \<ge> sm_max_sessions m then cleanup_idle now m else m) in
      if length (sm_sessions m) \<ge> sm_max_sessions m \<and> length (sm_sessions m1) \<ge> sm_max_sessions m1
      then (Err (protocol_error.Session ''max sessions reached''), m1)
      else let sid = session_id_generate rnd; s = session_new now sid keys in
        (Ok sid, m1\<lparr>sm_sessions := hm_insert sid s (sm_sessions m1)\<rparr>))"

definition get_session :: "session_id \<Rightarrow> session_manager \<Rightarrow> session option" where
  "get_session sid m = hm_get (sm_sessions m) sid"

definition remove_session :: "session_id \<Rightarrow> session_manager \<Rightarrow> session option \<times> session_manager" where
  "remove_session sid m = (hm_get (sm_sessions m) sid, m\<lparr>sm_sessions := hm_remove sid (sm_sessions m)\<rparr>)"

definition active_count :: "session_manager \<Rightarrow> nat" where
  "active_count m = length (filter (\<lambda>(_, s). s_state s = Active) (sm_sessions m))"

definition total_count :: "session_manager \<Rightarrow> nat" where
  "total_count m = length (sm_sessions m)"

section \<open>Lemmas\<close>

lemma MAX_NONCE_nat: "unat MAX_NONCE = 2 ^ 64 - 2"
  by (simp add: MAX_NONCE_def)

lemma encrypt_outgoing_cases:
  obtains (exhausted) "send_seq s \<ge> MAX_NONCE" "encrypt_outgoing C rnd now c b s = (Err NonceExhausted, s)"
  | (failed) e where "send_seq s < MAX_NONCE"
      "encode_sequenced C rnd c (if b then client_write_key (s_keys s) else server_write_key (s_keys s)) (send_seq s) = Err e"
      "encrypt_outgoing C rnd now c b s = (Err e, s)"
  | (sent) bs where "send_seq s < MAX_NONCE"
      "encode_sequenced C rnd c (if b then client_write_key (s_keys s) else server_write_key (s_keys s)) (send_seq s) = Ok bs"
      "encrypt_outgoing C rnd now c b s = (Ok bs, s\<lparr>send_seq := send_seq s + 1,
         bytes_sent := bytes_sent s + word_of_nat (length bs), last_activity := now\<rparr>)"
proof (cases "send_seq s \<ge> MAX_NONCE")
  case True
  then show thesis using exhausted by (simp add: encrypt_outgoing_def)
next
  case False
  then have lt: "send_seq s < MAX_NONCE" by (simp add: not_le)
  show thesis
  proof (cases "encode_sequenced C rnd c (if b then client_write_key (s_keys s) else server_write_key (s_keys s)) (send_seq s)")
    case (Inl e)
    with False lt show thesis by (intro failed) (simp_all add: encrypt_outgoing_def)
  next
    case (Inr bs)
    with False lt show thesis by (intro sent) (simp_all add: encrypt_outgoing_def)
  qed
qed

lemma encrypt_outgoing_Ok:
  assumes "encrypt_outgoing C rnd now c b s = (Ok bs, s')"
  shows "send_seq s < MAX_NONCE" and "send_seq s' = send_seq s + 1" and "s_keys s' = s_keys s"
    and "encode_sequenced C rnd c (if b then client_write_key (s_keys s) else server_write_key (s_keys s)) (send_seq s) = Ok bs"
    and "unat (send_seq s') = Suc (unat (send_seq s))"
proof -
  show lt: "send_seq s < MAX_NONCE" and s: "send_seq s' = send_seq s + 1" "s_keys s' = s_keys s"
    and "encode_sequenced C rnd c (if b then client_write_key (s_keys s) else server_write_key (s_keys s)) (send_seq s) = Ok bs"
    using assms by (cases rule: encrypt_outgoing_cases [of s C rnd now c b]; force)+
  have "send_seq s \<noteq> word_MAX"
    using lt by (auto simp: word_less_nat_alt MAX_NONCE_nat unat_max)
  then show "unat (send_seq s') = Suc (unat (send_seq s))" using s(1) by (simp add: unat_Suc)
qed

lemma encrypt_outgoing_Err:
  "encrypt_outgoing C rnd now c b s = (Err e, s') \<Longrightarrow> s' = s"
  by (cases rule: encrypt_outgoing_cases [of s C rnd now c b]) auto

text \<open>The sequence a frame carries in clear.\<close>

definition frame_sequence :: "bytes \<Rightarrow> u64" where
  "frame_sequence bs = from_be (slice 2 10 bs)"

lemma encode_encrypted_head:
  "encode_encrypted C rnd c key nonce = Ok bs \<Longrightarrow> \<exists>ct. bs = header_encode (header c) @ ct"
  by (auto simp: encode_encrypted_def Let_def and_then_Inr_iff)

lemma frame_sequence_encode:
  assumes "encode_sequenced C rnd c key sq = Ok bs"
  shows "frame_sequence bs = sq"
proof -
  obtain ct where "bs = header_encode ((header c)\<lparr>sequence := sq\<rparr>) @ ct"
    using assms encode_encrypted_head by (fastforce simp: encode_sequenced_def Let_def)
  then have "slice 2 10 bs = be64 sq" by (simp add: header_encode_parts slice_def drop_Cons')
  then show ?thesis by (simp add: frame_sequence_def)
qed

text \<open>A frame was sealed under a nonce: its ciphertext, everything after the header, is what encrypting some
  plaintext under the key and that nonce gives, with the header as associated data.\<close>

definition sealed_under :: "crypto_ops \<Rightarrow> bytes \<Rightarrow> bytes \<Rightarrow> bytes \<Rightarrow> bool" where
  "sealed_under C key nonce bs \<longleftrightarrow>
     (\<exists>plain. encrypt C key nonce plain (take HEADER_SIZE bs) = Ok (drop HEADER_SIZE bs))"

lemma encode_sequenced_sealed:
  assumes "encode_sequenced C rnd c key sq = Ok bs"
  shows "sealed_under C key (nonce_from_sequence sq) bs"
  using assms by (auto simp: encode_sequenced_def encode_encrypted_def sealed_under_def Let_def and_then_Inr_iff)

text \<open>Any series of sends, each with its chunk, its randomness and its clock reading.\<close>

primrec send_series ::
  "crypto_ops \<Rightarrow> bool \<Rightarrow> (chunk \<times> entropy \<times> instant) list \<Rightarrow> session \<Rightarrow> (protocol_error + bytes) list \<times> session" where
  "send_series C b [] s = ([], s)"
| "send_series C b (x # xs) s =
     (case x of (c, rnd, now) \<Rightarrow>
       let (r, s1) = encrypt_outgoing C rnd now c b s; (rs, s2) = send_series C b xs s1 in (r # rs, s2))"

definition sent_frames :: "(protocol_error + bytes) list \<Rightarrow> bytes list" where
  "sent_frames rs = concat (map (\<lambda>r. case r of Inl _ \<Rightarrow> [] | Inr bs \<Rightarrow> [bs]) rs)"

lemma sent_frames_simps [simp]:
  "sent_frames [] = []"
  "sent_frames (Inl e # rs) = sent_frames rs"
  "sent_frames (Inr bs # rs) = bs # sent_frames rs"
  by (simp_all add: sent_frames_def)

lemma send_series_sequences:
  assumes "send_series C b xs s = (rs, s')"
  shows "map (unat \<circ> frame_sequence) (sent_frames rs) =
      [unat (send_seq s)..<unat (send_seq s) + length (sent_frames rs)]"
    and "unat (send_seq s') = unat (send_seq s) + length (sent_frames rs)"
    and "s_keys s' = s_keys s"
  using assms
proof (induction xs arbitrary: s rs)
  case Nil
  {
    case 1
    then show ?case by auto
  next
    case 2
    then show ?case by auto
  next
    case 3
    then show ?case by simp
  }
next
  case (Cons x xs)
  obtain c rnd now where x: "x = (c, rnd, now)" by (cases x)
  have *: "map (unat \<circ> frame_sequence) (sent_frames rs) =
      [unat (send_seq s)..<unat (send_seq s) + length (sent_frames rs)] \<and>
    unat (send_seq s') = unat (send_seq s) + length (sent_frames rs) \<and> s_keys s' = s_keys s"
    if run: "send_series C b (x # xs) s = (rs, s')" for s rs
  proof -
    obtain r s1 where r: "encrypt_outgoing C rnd now c b s = (r, s1)" by fastforce
    obtain rs2 where rs: "send_series C b xs s1 = (rs2, s')" "rs = r # rs2"
      using run x r by (auto split: prod.splits)
    note IH = Cons.IH [OF rs(1)]
    show ?thesis
    proof (cases r)
      case (Inl e)
      then have "s1 = s" using r encrypt_outgoing_Err by blast
      with IH Inl rs(2) show ?thesis by (simp add: comp_def)
    next
      case (Inr bs)
      note ok = encrypt_outgoing_Ok [OF r [unfolded Inr]]
      have "frame_sequence bs = send_seq s" by (rule frame_sequence_encode [OF ok(4)])
      moreover have "sent_frames rs = bs # sent_frames rs2"
        using rs(2) Inr by simp
      ultimately show ?thesis using IH ok by (simp add: upt_conv_Cons comp_def del: upt_Suc)
    qed
  qed
  {
    case 1
    then show ?case using * by (simp only:)
  next
    case 2
    then show ?case using * by (simp only:)
  next
    case 3
    then show ?case using * by (simp only:)
  }
qed

text \<open>The key of one role.\<close>

definition write_key :: "bool \<Rightarrow> session_keys \<Rightarrow> bytes" where
  "write_key b keys = (if b then client_write_key keys else server_write_key keys)"

lemma send_series_sealed:
  "send_series C b xs s = (rs, s') \<Longrightarrow> bs \<in> set (sent_frames rs) \<Longrightarrow>
    sealed_under C (write_key b (s_keys s)) (nonce_from_sequence (frame_sequence bs)) bs \<and> frame_sequence bs < MAX_NONCE"
proof (induction xs arbitrary: s rs)
  case (Cons x xs)
  obtain c rnd now where x: "x = (c, rnd, now)" by (cases x)
  obtain r s1 where r: "encrypt_outgoing C rnd now c b s = (r, s1)" by fastforce
  obtain rs2 where rs: "send_series C b xs s1 = (rs2, s')" "rs = r # rs2"
    using Cons.prems(1) x r by (auto split: prod.splits)
  show ?case
  proof (cases r)
    case (Inl e)
    then have "s1 = s" using r encrypt_outgoing_Err by blast
    then show ?thesis using Cons.IH [OF rs(1)] Cons.prems(2) rs(2) Inl by simp
  next
    case (Inr f)
    note ok = encrypt_outgoing_Ok [OF r [unfolded Inr]]
    have "frame_sequence f = send_seq s" by (rule frame_sequence_encode [OF ok(4)])
    moreover have "sealed_under C (write_key b (s_keys s)) (nonce_from_sequence (send_seq s)) f"
      using encode_sequenced_sealed [OF ok(4)] by (simp add: write_key_def)
    ultimately show ?thesis using Cons.IH [OF rs(1)] Cons.prems(2) rs(2) Inr ok by auto
  qed
qed simp

section \<open>Session manager lemmas\<close>

definition session_manager_inv :: "session_manager \<Rightarrow> bool" where
  "session_manager_inv m \<longleftrightarrow> hm_wf (sm_sessions m) \<and> length (sm_sessions m) \<le> sm_max_sessions m"

lemma cleanup_idle_inv: "session_manager_inv m \<Longrightarrow> session_manager_inv (cleanup_idle now m)"
  using length_hm_retain le_trans by (fastforce simp: session_manager_inv_def cleanup_idle_def)

lemma cleanup_idle_get:
  "hm_wf (sm_sessions m) \<Longrightarrow> get_session sid (cleanup_idle now m) =
     (case get_session sid m of None \<Rightarrow> None
      | Some s \<Rightarrow> if is_idle now (sm_idle_timeout m) s \<or> s_state s = Closed then None else Some s)"
  by (auto simp: get_session_def cleanup_idle_def hm_get_retain split: option.splits)

lemma remove_session_inv: "session_manager_inv m \<Longrightarrow> session_manager_inv (snd (remove_session sid m))"
  by (auto simp: session_manager_inv_def remove_session_def hmap.invar_remove hmap.size_remove)

lemma create_session_cases:
  obtains (full) m1 where "m1 = cleanup_idle now m" "sm_max_sessions m \<le> length (sm_sessions m)"
      "sm_max_sessions m \<le> length (sm_sessions m1)"
      "create_session now rnd keys m = (Err (protocol_error.Session ''max sessions reached''), m1)"
  | (created) m1 where "m1 = m \<or> m1 = cleanup_idle now m \<and> sm_max_sessions m \<le> length (sm_sessions m)"
      "length (sm_sessions m1) < sm_max_sessions m"
      "create_session now rnd keys m = (Ok (session_id_generate rnd),
         m1\<lparr>sm_sessions := hm_insert (session_id_generate rnd) (session_new now (session_id_generate rnd) keys) (sm_sessions m1)\<rparr>)"
proof (cases "sm_max_sessions m \<le> length (sm_sessions m)")
  case True
  have mx: "sm_max_sessions (cleanup_idle now m) = sm_max_sessions m" by (simp add: cleanup_idle_def)
  show thesis
  proof (cases "sm_max_sessions m \<le> length (sm_sessions (cleanup_idle now m))")
    case True
    with \<open>sm_max_sessions m \<le> length (sm_sessions m)\<close> mx show thesis
      by (intro full) (simp_all add: create_session_def Let_def)
  next
    case False
    with \<open>sm_max_sessions m \<le> length (sm_sessions m)\<close> mx show thesis
      by (intro created [of "cleanup_idle now m"]) (simp_all add: create_session_def Let_def)
  qed
next
  case False
  then show thesis by (intro created [of m]) (simp_all add: create_session_def Let_def)
qed

lemma create_session_inv:
  assumes "session_manager_inv m"
  shows "session_manager_inv (snd (create_session now rnd keys m))"
proof (cases rule: create_session_cases [of now m rnd keys])
  case (full m1)
  then show ?thesis using cleanup_idle_inv [OF assms] by simp
next
  case (created m1)
  have "session_manager_inv m1" "sm_max_sessions m1 = sm_max_sessions m"
    using created(1) assms cleanup_idle_inv [OF assms] by (auto simp: cleanup_idle_def)
  with created show ?thesis
    by (auto simp: session_manager_inv_def hmap.invar_insert hmap.size_insert)
qed

section \<open>Properties\<close>

text \<open>C8. No nonce is used twice: over any series of sends in one role, every frame that leaves was sealed
  under the role's key, the same throughout, and the nonce of the sequence in its header; these
  sequences are consecutive from the session's counter on and all below \<open>MAX_NONCE\<close>, so the nonces are
  pairwise different.\<close>

theorem session_nonces_unique:
  assumes "send_series C b xs s = (rs, s')"
  shows "(\<forall>bs\<in>set (sent_frames rs).
      sealed_under C (write_key b (s_keys s)) (nonce_from_sequence (frame_sequence bs)) bs \<and> frame_sequence bs < MAX_NONCE) \<and>
    map (unat \<circ> frame_sequence) (sent_frames rs) =
      [unat (send_seq s)..<unat (send_seq s) + length (sent_frames rs)] \<and>
    distinct (map (nonce_from_sequence \<circ> frame_sequence) (sent_frames rs)) \<and>
    unat (send_seq s') = unat (send_seq s) + length (sent_frames rs) \<and> s_keys s' = s_keys s"
proof -
  note seq = send_series_sequences [OF assms]
  have "distinct (map unat (map frame_sequence (sent_frames rs)))"
    using seq(1) by (simp add: comp_def)
  then have "distinct (map frame_sequence (sent_frames rs))" by (simp only: distinct_map)
  then have "distinct (map nonce_from_sequence (map frame_sequence (sent_frames rs)))"
    by (simp add: distinct_map inj_on_def del: map_map)
  with seq send_series_sealed [OF assms] show ?thesis by (simp add: comp_def)
qed

theorem session_nonces_unique_witness:
  "map (unat \<circ> frame_sequence) (sent_frames (fst (send_series demo_crypto True
      [(new_data 1 [1], \<lambda>_. 0, 5), (new_data 2 [2], \<lambda>_. 0, 6)]
      (session_new 0 (replicate 16 0) \<lparr>client_write_key = replicate 32 1, server_write_key = replicate 32 2\<rparr>)))) = [0, 1]"
proof -
  let ?xs = "[(new_data 1 [1], \<lambda>_. 0, 5), (new_data 2 [2], \<lambda>_. 0, 6)]"
  let ?s = "session_new 0 (replicate 16 0) \<lparr>client_write_key = replicate 32 1, server_write_key = replicate 32 2\<rparr>"
  obtain rs s' where run: "send_series demo_crypto True ?xs ?s = (rs, s')" by fastforce
  have "\<not> MAX_NONCE \<le> 0" "\<not> MAX_NONCE \<le> 1"
    by (simp_all only: word_le_nat_alt MAX_NONCE_nat unat_0 unat_1) simp_all
  then have "length (sent_frames (fst (send_series demo_crypto True ?xs ?s))) = 2"
    by (simp add: encrypt_outgoing_def session_new_def encode_sequenced_def encode_encrypted_def
        encrypt_def new_data_def chunk_new_def Let_def)
  with run session_nonces_unique [OF run] show ?thesis
    by (simp add: session_new_def comp_def numeral_2_eq_2)
qed

end
