(* ===== verification/Server_Registry.thy ===== *)
theory Server_Registry
  imports Server_Alloc Session Continuity_Send Continuity_Recv
begin

text \<open>
  The state of the server that outlives a connection: \<open>kanrin-server/src/registry.rs\<close> (the
  session entries and their registry) and \<open>kanrin-server/src/forwarder.rs\<close> (one queue per
  tunnel address). A task handle is a number, and which tasks have finished is an argument. An
  unbounded channel is a number as well; \<open>channels\<close> maps the channels whose receiver still
  exists to what is queued on them, so that sending on any other fails.
\<close>

section \<open>Session entries\<close>

definition SESSION_LINGER :: duration where "SESSION_LINGER = from_secs 120"

record session_entry =
  e_id :: session_id
  e_keys :: session_keys
  e_assigned_ip :: ipv4
  e_session :: session
  e_send_buffer :: send_buffer
  e_recv_buffer :: receive_buffer
  e_reply_rx :: nat
  e_attached :: "nat list"
  e_last_seen :: instant

definition entry_touch :: "instant \<Rightarrow> session_entry \<Rightarrow> session_entry" where
  "entry_touch now e = e\<lparr>e_last_seen := now\<rparr>"

text \<open>The handles it returns are the ones it aborts.\<close>

definition entry_attach :: "instant \<Rightarrow> nat list \<Rightarrow> session_entry \<Rightarrow> nat list \<times> session_entry" where
  "entry_attach now tasks e = (e_attached e, entry_touch now (e\<lparr>e_attached := tasks\<rparr>))"

definition entry_is_attached :: "(nat \<Rightarrow> bool) \<Rightarrow> session_entry \<Rightarrow> bool" where
  "entry_is_attached finished e \<longleftrightarrow> list_ex (\<lambda>h. \<not> finished h) (e_attached e)"

definition entry_idle_for :: "instant \<Rightarrow> session_entry \<Rightarrow> duration" where
  "entry_idle_for now e = elapsed now (e_last_seen e)"

section \<open>The registry\<close>

type_synonym registry = "(session_id, session_entry) hmap"

definition registry_insert ::
  "instant \<Rightarrow> session_id \<Rightarrow> session_keys \<Rightarrow> ipv4 \<Rightarrow> nat \<Rightarrow> registry \<Rightarrow> session_entry \<times> registry" where
  "registry_insert now sid keys assigned_ip reply_rx reg =
     (let entry = \<lparr>e_id = sid, e_keys = keys, e_assigned_ip = assigned_ip,
                   e_session = session_new now sid keys,
                   e_send_buffer = send_buffer_with_default_capacity,
                   e_recv_buffer = receive_buffer_with_default_capacity,
                   e_reply_rx = reply_rx, e_attached = [], e_last_seen = now\<rparr>
      in (entry, hm_insert sid entry reg))"

definition registry_get :: "registry \<Rightarrow> session_id \<Rightarrow> session_entry option" where
  "registry_get reg sid = hm_get reg sid"

definition registry_remove :: "session_id \<Rightarrow> registry \<Rightarrow> session_entry option \<times> registry" where
  "registry_remove sid reg = (hm_get reg sid, hm_remove sid reg)"

definition registry_len :: "registry \<Rightarrow> nat" where
  "registry_len reg = length reg"

definition registry_is_empty :: "registry \<Rightarrow> bool" where
  "registry_is_empty reg \<longleftrightarrow> reg = []"

definition entry_expired :: "(nat \<Rightarrow> bool) \<Rightarrow> instant \<Rightarrow> session_entry \<Rightarrow> bool" where
  "entry_expired finished now e \<longleftrightarrow>
     \<not> entry_is_attached finished e \<and> entry_idle_for now e > SESSION_LINGER"

definition reap_expired :: "(nat \<Rightarrow> bool) \<Rightarrow> instant \<Rightarrow> registry \<Rightarrow> ipv4 list \<times> registry" where
  "reap_expired finished now reg =
     (map (\<lambda>(_, e). e_assigned_ip e) (filter (\<lambda>(_, e). entry_expired finished now e) reg),
      hm_retain (\<lambda>_ e. \<not> entry_expired finished now e) reg)"

section \<open>Channels\<close>

record channels =
  ch_next :: nat
  ch_open :: "(nat, bytes list) hmap"

definition channels_new :: channels where
  "channels_new = \<lparr>ch_next = 0, ch_open = []\<rparr>"

definition unbounded_channel :: "channels \<Rightarrow> nat \<times> channels" where
  "unbounded_channel ch =
     (ch_next ch, ch\<lparr>ch_next := Suc (ch_next ch), ch_open := hm_insert (ch_next ch) [] (ch_open ch)\<rparr>)"

definition channel_send :: "nat \<Rightarrow> bytes \<Rightarrow> channels \<Rightarrow> bool \<times> channels" where
  "channel_send c packet ch =
     (case hm_get (ch_open ch) c of
        None \<Rightarrow> (False, ch)
      | Some q \<Rightarrow> (True, ch\<lparr>ch_open := hm_insert c (q @ [packet]) (ch_open ch)\<rparr>))"

definition channel_close :: "nat \<Rightarrow> channels \<Rightarrow> channels" where
  "channel_close c ch = ch\<lparr>ch_open := hm_remove c (ch_open ch)\<rparr>"

section \<open>The forwarder\<close>

type_synonym clients = "(ipv4, nat) hmap"

definition register_client :: "ipv4 \<Rightarrow> clients \<times> channels \<Rightarrow> nat \<times> clients \<times> channels" where
  "register_client ip fw =
     (case fw of (cl, ch) \<Rightarrow>
        case unbounded_channel ch of (c, ch') \<Rightarrow> (c, hm_insert ip c cl, ch'))"

definition unregister_client :: "ipv4 \<Rightarrow> clients \<Rightarrow> clients" where
  "unregister_client ip cl = hm_remove ip cl"

text \<open>What \<open>send_to_internet\<close> writes into the TUN device.\<close>

definition send_to_internet :: "bytes \<Rightarrow> bytes list" where
  "send_to_internet ip_packet =
     (if length ip_packet < 20 then []
      else if drop_bit 4 (ip_packet ! 0) \<noteq> 4 then []
      else [ip_packet])"

definition packet_dst :: "bytes \<Rightarrow> ipv4" where
  "packet_dst packet = from_be (slice 16 20 packet)"

text \<open>One packet read back from the TUN device.\<close>

definition dispatch :: "bytes \<Rightarrow> clients \<times> channels \<Rightarrow> clients \<times> channels" where
  "dispatch packet fw =
     (case fw of (cl, ch) \<Rightarrow>
        if length packet < 20 \<or> drop_bit 4 (packet ! 0) \<noteq> 4 then (cl, ch)
        else case hm_get cl (packet_dst packet) of
          None \<Rightarrow> (cl, ch)
        | Some tx \<Rightarrow>
            (case channel_send tx packet ch of
               (True, ch') \<Rightarrow> (cl, ch')
             | (False, ch') \<Rightarrow> (hm_remove (packet_dst packet) cl, ch')))"

section \<open>Lemmas\<close>

definition registry_wf :: "registry \<Rightarrow> bool" where
  "registry_wf reg \<longleftrightarrow> hm_wf reg \<and> (\<forall>(sid, e)\<in>set reg. e_id e = sid)"

lemma registry_wf_Nil [simp]: "registry_wf []"
  by (simp add: registry_wf_def)

definition registry_ips :: "registry \<Rightarrow> ipv4 list" where
  "registry_ips reg = map (\<lambda>(_, e). e_assigned_ip e) reg"

lemma registry_ips_Nil [simp]: "registry_ips [] = []"
  by (simp add: registry_ips_def)

lemma registry_wf_retain: "registry_wf reg \<Longrightarrow> registry_wf (hm_retain p reg)"
  by (auto simp: registry_wf_def) (auto simp: hm_retain_def)

lemma reap_splits:
  assumes "reap_expired finished now reg = (ips, reg')"
  shows "mset (registry_ips reg) = mset ips + mset (registry_ips reg')"
  using assms unfolding reap_expired_def registry_ips_def hm_retain_def
  by (induction reg arbitrary: ips reg') (auto split: if_splits)

lemma reap_keeps_iff:
  assumes "hm_wf reg" and "reap_expired finished now reg = (ips, reg')"
  shows "registry_get reg' sid = Some e \<longleftrightarrow> registry_get reg sid = Some e \<and> \<not> entry_expired finished now e"
  using assms by (auto simp: reap_expired_def registry_get_def hm_get_retain split: option.splits if_splits)

lemma mset_registry_insert:
  assumes "hm_get reg sid = None"
  shows "mset (registry_ips (hm_insert sid e reg)) = add_mset (e_assigned_ip e) (mset (registry_ips reg))"
  using assms unfolding registry_ips_def hm_insert_def hm_get_def
  by (induction reg) (auto split: if_splits)

lemma registry_ips_update:
  assumes "registry_get reg sid = Some e" and "e_assigned_ip e' = e_assigned_ip e" and "hm_wf reg"
  shows "registry_ips (hm_insert sid e' reg) = registry_ips reg"
  using assms unfolding registry_ips_def hm_insert_def registry_get_def hm_get_def hm_wf_def
  by (induction reg) (auto split: if_splits)

lemma registry_wf_insert:
  assumes "registry_wf reg" and "e_id e = sid"
  shows "registry_wf (hm_insert sid e reg)"
proof -
  have wf: "hm_wf reg" using assms by (simp add: registry_wf_def)
  then have wf': "hm_wf (hm_insert sid e reg)" by (rule hmap.invar_insert)
  have "e_id f = k" if "(k, f) \<in> set (hm_insert sid e reg)" for k f
    using that assms hmap.entries_lookup [OF wf', of k f] hmap.entries_lookup [OF wf, of k f]
    by (auto simp: hmap.lookup_insert [OF wf] registry_wf_def split: if_splits)
  with wf' show ?thesis by (auto simp: registry_wf_def)
qed

lemma in_registry_ips:
  assumes "hm_wf reg"
  shows "ip \<in> set (registry_ips reg) \<longleftrightarrow> (\<exists>sid e. registry_get reg sid = Some e \<and> e_assigned_ip e = ip)"
  using hmap.entries_lookup [OF assms] by (force simp: registry_ips_def registry_get_def)

lemma registry_ip_inject:
  assumes "hm_wf reg" and "distinct (registry_ips reg)"
    and "registry_get reg s = Some e" and "registry_get reg t = Some f" and "e_assigned_ip e = e_assigned_ip f"
  shows "s = t"
proof -
  have "(s, e) \<in> set reg" "(t, f) \<in> set reg"
    using assms(3,4) by (simp_all add: registry_get_def hmap.entries_lookup [OF assms(1)])
  moreover have "inj_on (\<lambda>(_, e). e_assigned_ip e) (set reg)"
    using assms(2) by (simp add: registry_ips_def distinct_map)
  ultimately have "(s, e) = (t, f)" using assms(5) by (intro inj_onD [of "\<lambda>(_, e). e_assigned_ip e" "set reg"]) simp_all
  then show ?thesis by simp
qed

lemma dispatch_cases:
  obtains (ignored) "dispatch packet (cl, ch) = (cl, ch)"
  | (queued) tx q where "hm_get cl (packet_dst packet) = Some tx" "hm_get (ch_open ch) tx = Some q"
      "dispatch packet (cl, ch) = (cl, ch\<lparr>ch_open := hm_insert tx (q @ [packet]) (ch_open ch)\<rparr>)"
  | (dropped) tx where "hm_get cl (packet_dst packet) = Some tx" "hm_get (ch_open ch) tx = None"
      "dispatch packet (cl, ch) = (hm_remove (packet_dst packet) cl, ch)"
proof (cases "length packet < 20 \<or> drop_bit 4 (packet ! 0) \<noteq> 4 \<or> hm_get cl (packet_dst packet) = None")
  case True
  then have "dispatch packet (cl, ch) = (cl, ch)" by (auto simp: dispatch_def)
  then show thesis by (rule ignored)
next
  case False
  then obtain tx where tx: "hm_get cl (packet_dst packet) = Some tx" by auto
  show thesis
  proof (cases "hm_get (ch_open ch) tx")
    case None
    with False tx show thesis by (intro dropped [OF tx]) (auto simp: dispatch_def channel_send_def)
  next
    case (Some q)
    with False tx show thesis by (intro queued [OF tx]) (auto simp: dispatch_def channel_send_def)
  qed
qed

end
