(* ===== verification/Server_Lifecycle.thy ===== *)
theory Server_Lifecycle
  imports Server_Registry
begin

text \<open>
  The life cycle of connections, sessions and tunnel addresses in \<open>kanrin-server/src/main.rs\<close>:
  the accept loop, the task that waits for a connection's outcome, the reaper, and the points
  of \<open>session.rs\<close> at which a connection commits to a session. The interleaving of these tasks
  is the step relation \<open>server_step\<close>. Its steps are the sections between two await points (or
  lock acquisitions); what connections do to their own entry is an arbitrary change that
  keeps the entry's identity, address and queue. A random session identifier is taken not to
  collide with a live one.
\<close>

datatype connection_outcome = AddressTaken | AddressUnused

text \<open>A connection between accept and outcome: still holding the address reserved for it, holding
  it although it attached to another session's entry, or having passed it to its own session.\<close>

datatype conn = Reserved ipv4 | Resumed ipv4 session_entry | Established ipv4

record server =
  sv_max_clients :: nat
  sv_alloc :: ip_allocator
  sv_registry :: registry
  sv_clients :: clients
  sv_chans :: channels
  sv_conns :: "conn list"
  sv_reaping :: "ipv4 list"
  sv_active :: nat

definition server_init :: "nat \<Rightarrow> server" where
  "server_init max_clients =
     \<lparr>sv_max_clients = max_clients, sv_alloc = allocator_new 0x0A0A0000, sv_registry = [],
      sv_clients = [], sv_chans = channels_new, sv_conns = [], sv_reaping = [], sv_active = 0\<rparr>"

definition accept_connection :: "server \<Rightarrow> server" where
  "accept_connection s =
     (if sv_active s \<ge> sv_max_clients s then s
      else case allocate (sv_alloc s) of
        (None, al) \<Rightarrow> s\<lparr>sv_alloc := al\<rparr>
      | (Some assigned_ip, al) \<Rightarrow>
          s\<lparr>sv_alloc := al, sv_conns := sv_conns s @ [Reserved assigned_ip], sv_active := sv_active s + 1\<rparr>)"

text \<open>The end of \<open>accept_new\<close>: no await point separates the two calls.\<close>

definition commit_session :: "instant \<Rightarrow> session_id \<Rightarrow> session_keys \<Rightarrow> ipv4 \<Rightarrow> server \<Rightarrow> server" where
  "commit_session now sid keys assigned_ip s =
     (case register_client assigned_ip (sv_clients s, sv_chans s) of
        (reply_rx, cl, ch) \<Rightarrow>
          s\<lparr>sv_clients := cl, sv_chans := ch,
            sv_registry := snd (registry_insert now sid keys assigned_ip reply_rx (sv_registry s))\<rparr>)"

definition connection_finished :: "ipv4 \<Rightarrow> string + connection_outcome \<Rightarrow> server \<Rightarrow> server" where
  "connection_finished assigned_ip outcome s =
     (case outcome of
        Inr AddressUnused \<Rightarrow> s\<lparr>sv_alloc := release_ip assigned_ip (sv_alloc s), sv_active := sv_active s - 1\<rparr>
      | Inr AddressTaken \<Rightarrow> s\<lparr>sv_active := sv_active s - 1\<rparr>
      | Inl _ \<Rightarrow> s\<lparr>sv_alloc := release_ip assigned_ip (sv_alloc s), sv_active := sv_active s - 1\<rparr>)"

text \<open>One tick of the reaper; \<open>finished\<close> tells which of the tasks attached to entries are over.\<close>

definition reap_tick :: "(nat \<Rightarrow> bool) \<Rightarrow> instant \<Rightarrow> server \<Rightarrow> server" where
  "reap_tick finished now s =
     (case reap_expired finished now (sv_registry s) of
        (ips, reg) \<Rightarrow> s\<lparr>sv_registry := reg, sv_reaping := ips\<rparr>)"

definition reap_address :: "server \<Rightarrow> server" where
  "reap_address s =
     (case sv_reaping s of
        [] \<Rightarrow> s
      | ip # rest \<Rightarrow>
          s\<lparr>sv_clients := unregister_client ip (sv_clients s),
            sv_alloc := release_ip ip (sv_alloc s), sv_reaping := rest\<rparr>)"

definition server_dispatch :: "bytes \<Rightarrow> server \<Rightarrow> server" where
  "server_dispatch packet s =
     (case dispatch packet (sv_clients s, sv_chans s) of (cl, ch) \<Rightarrow> s\<lparr>sv_clients := cl, sv_chans := ch\<rparr>)"

inductive server_step :: "server \<Rightarrow> server \<Rightarrow> bool" where
  st_accept: "server_step s (accept_connection s)"
| st_commit: "sv_conns s = xs @ Reserved ip # ys \<Longrightarrow> registry_get (sv_registry s) sid = None \<Longrightarrow>
    server_step s ((commit_session now sid keys ip s)\<lparr>sv_conns := xs @ Established ip # ys\<rparr>)"
| st_resume: "sv_conns s = xs @ Reserved ip # ys \<Longrightarrow> registry_get (sv_registry s) sid = Some e \<Longrightarrow>
    server_step s (s\<lparr>sv_conns := xs @ Resumed ip e # ys\<rparr>)"
| st_entry: "registry_get (sv_registry s) sid = Some e \<Longrightarrow> e_id e' = e_id e \<Longrightarrow>
    e_assigned_ip e' = e_assigned_ip e \<Longrightarrow> e_reply_rx e' = e_reply_rx e \<Longrightarrow>
    server_step s (s\<lparr>sv_registry := hm_insert sid e' (sv_registry s)\<rparr>)"
| st_unused: "sv_conns s = xs @ c # ys \<Longrightarrow> c = Reserved ip \<or> c = Resumed ip e \<Longrightarrow>
    outcome = Inr AddressUnused \<or> outcome = Inl err \<Longrightarrow>
    server_step s ((connection_finished ip outcome s)\<lparr>sv_conns := xs @ ys\<rparr>)"
| st_taken: "sv_conns s = xs @ Established ip # ys \<Longrightarrow>
    server_step s ((connection_finished ip (Inr AddressTaken) s)\<lparr>sv_conns := xs @ ys\<rparr>)"
| st_reap: "sv_reaping s = [] \<Longrightarrow> server_step s (reap_tick finished now s)"
| st_reap_address: "sv_reaping s \<noteq> [] \<Longrightarrow> server_step s (reap_address s)"
| st_dispatch: "server_step s (server_dispatch packet s)"
| st_close: "(\<forall>sid e. registry_get (sv_registry s) sid = Some e \<longrightarrow> e_reply_rx e \<noteq> c) \<Longrightarrow>
    server_step s (s\<lparr>sv_chans := channel_close c (sv_chans s)\<rparr>)"

section \<open>The invariant\<close>

definition conn_ips :: "conn \<Rightarrow> ipv4 list" where
  "conn_ips c = (case c of Reserved ip \<Rightarrow> [ip] | Resumed ip _ \<Rightarrow> [ip] | Established _ \<Rightarrow> [])"

lemma conn_ips_simps [simp]:
  "conn_ips (Reserved ip) = [ip]" "conn_ips (Resumed ip e) = [ip]" "conn_ips (Established ip) = []"
  by (simp_all add: conn_ips_def)

text \<open>Every address in use, by its owner: connections, sessions, and the reaper.\<close>

definition owned :: "server \<Rightarrow> ipv4 list" where
  "owned s = concat (map conn_ips (sv_conns s)) @ registry_ips (sv_registry s) @ sv_reaping s"

definition queues_inv :: "server \<Rightarrow> bool" where
  "queues_inv s \<longleftrightarrow>
     hm_wf (sv_clients s) \<and> hm_wf (ch_open (sv_chans s)) \<and>
     (\<forall>ip c. hm_get (sv_clients s) ip = Some c \<longrightarrow> c < ch_next (sv_chans s)) \<and>
     (\<forall>a b c. hm_get (sv_clients s) a = Some c \<longrightarrow> hm_get (sv_clients s) b = Some c \<longrightarrow> a = b) \<and>
     (\<forall>sid e. registry_get (sv_registry s) sid = Some e \<longrightarrow>
        hm_get (sv_clients s) (e_assigned_ip e) = Some (e_reply_rx e) \<and>
        hm_get (ch_open (sv_chans s)) (e_reply_rx e) \<noteq> None) \<and>
     (\<forall>ip. hm_get (sv_clients s) ip \<noteq> None \<longrightarrow> ip \<in> set (registry_ips (sv_registry s)) \<union> set (sv_reaping s))"

definition server_inv :: "server \<Rightarrow> bool" where
  "server_inv s \<longleftrightarrow>
     alloc_inv (owned s) (sv_alloc s) \<and> registry_wf (sv_registry s) \<and> queues_inv s \<and>
     sv_active s = length (sv_conns s) \<and> sv_active s \<le> sv_max_clients s"

lemma server_invD:
  assumes "server_inv s"
  shows "alloc_inv (owned s) (sv_alloc s)" and "registry_wf (sv_registry s)" and "hm_wf (sv_registry s)"
    and "queues_inv s" and "distinct (owned s)" and "sv_active s = length (sv_conns s)"
    and "sv_active s \<le> sv_max_clients s"
  using assms pool.invar_distinct by (auto simp: server_inv_def registry_wf_def)

lemma server_inv_init: "server_inv (server_init n)"
  by (simp add: server_inv_def server_init_def owned_def alloc_inv_new queues_inv_def channels_new_def registry_get_def)

text \<open>The two rules by which every step is shown to keep the pool consistent.\<close>

lemma owned_cong:
  "concat (map conn_ips (sv_conns s')) = concat (map conn_ips (sv_conns s)) \<Longrightarrow>
   registry_ips (sv_registry s') = registry_ips (sv_registry s) \<Longrightarrow> sv_reaping s' = sv_reaping s \<Longrightarrow>
   owned s' = owned s"
  by (simp add: owned_def)

lemma queues_cong:
  "sv_clients s' = sv_clients s \<Longrightarrow> sv_chans s' = sv_chans s \<Longrightarrow> sv_registry s' = sv_registry s \<Longrightarrow>
   sv_reaping s' = sv_reaping s \<Longrightarrow> queues_inv s' = queues_inv s"
  by (simp add: queues_inv_def)

lemma accept_connection_inv:
  assumes inv: "server_inv s"
  shows "server_inv (accept_connection s)"
proof (cases "sv_active s \<ge> sv_max_clients s")
  case True
  then show ?thesis using inv by (simp add: accept_connection_def)
next
  case False
  obtain r al where al: "allocate (sv_alloc s) = (r, al)" by (cases "allocate (sv_alloc s)")
  show ?thesis
  proof (cases r)
    case None
    then have "al = sv_alloc s" using pool.alloc_None [OF server_invD(1) [OF inv]] al by simp
    then have "accept_connection s = s" using False al None by (simp add: accept_connection_def)
    then show ?thesis using inv by simp
  next
    case (Some ip)
    let ?t = "s\<lparr>sv_alloc := al, sv_conns := sv_conns s @ [Reserved ip], sv_active := sv_active s + 1\<rparr>"
    have t: "accept_connection s = ?t" using False al Some by (simp add: accept_connection_def)
    have "alloc_inv (ip # owned s) al" using pool.alloc_Some [OF server_invD(1) [OF inv]] al Some by simp
    then have "alloc_inv (owned ?t) al" by (rule pool.invar_perm) (simp add: owned_def)
    moreover have "queues_inv ?t = queues_inv s" by (rule queues_cong) simp_all
    ultimately show ?thesis using server_invD [OF inv] False unfolding t by (simp add: server_inv_def)
  qed
qed

lemma commit_session_inv:
  assumes inv: "server_inv s" and c: "sv_conns s = xs @ Reserved ip # ys"
    and fresh: "registry_get (sv_registry s) sid = None"
  shows "server_inv ((commit_session now sid keys ip s)\<lparr>sv_conns := xs @ Established ip # ys\<rparr>)"
proof -
  let ?c = "ch_next (sv_chans s)"
  define e where "e = fst (registry_insert now sid keys ip ?c (sv_registry s))"
  have e: "e_id e = sid" "e_assigned_ip e = ip" "e_reply_rx e = ?c" "snd (registry_insert now sid keys ip ?c (sv_registry s)) =
      hm_insert sid e (sv_registry s)"
    by (simp_all add: e_def registry_insert_def Let_def)
  let ?t = "s\<lparr>sv_clients := hm_insert ip ?c (sv_clients s),
      sv_chans := (sv_chans s)\<lparr>ch_next := Suc ?c, ch_open := hm_insert ?c [] (ch_open (sv_chans s))\<rparr>,
      sv_registry := hm_insert sid e (sv_registry s), sv_conns := xs @ Established ip # ys\<rparr>"
  have t: "(commit_session now sid keys ip s)\<lparr>sv_conns := xs @ Established ip # ys\<rparr> = ?t"
    by (simp add: commit_session_def register_client_def unbounded_channel_def e(4))
  note I = server_invD [OF inv]
  have q: "hm_wf (sv_clients s)" "hm_wf (ch_open (sv_chans s))" using I(4) by (simp_all add: queues_inv_def)
  note gets = hmap.lookup_insert [OF q(1)] hmap.lookup_insert [OF q(2)] hmap.lookup_insert [OF I(3)]
  have ips: "mset (registry_ips (hm_insert sid e (sv_registry s))) = add_mset ip (mset (registry_ips (sv_registry s)))"
    using mset_registry_insert [of "sv_registry s" sid e] fresh e(2) by (simp add: registry_get_def)
  then have set_ips: "set (registry_ips (hm_insert sid e (sv_registry s))) = insert ip (set (registry_ips (sv_registry s)))"
    by (metis set_mset_add_mset_insert set_mset_mset)
  have "ip \<notin> set (registry_ips (sv_registry s)) \<union> set (sv_reaping s)"
    using I(5) c by (auto simp: owned_def)
  then have noq: "hm_get (sv_clients s) ip = None" and other: "\<And>k f. registry_get (sv_registry s) k = Some f \<Longrightarrow> e_assigned_ip f \<noteq> ip"
    using I(4) in_registry_ips [OF I(3)] unfolding queues_inv_def by blast+
  have "alloc_inv (owned ?t) (sv_alloc s)"
    using I(1) by (rule pool.invar_perm) (simp add: owned_def c ips)
  moreover have "registry_wf (hm_insert sid e (sv_registry s))" using I(2) e(1) by (rule registry_wf_insert)
  moreover have "queues_inv ?t"
    unfolding queues_inv_def
  proof (intro conjI allI impI)
    show "hm_wf (sv_clients ?t)" "hm_wf (ch_open (sv_chans ?t))" using q hmap.invar_insert by auto
    show "k < ch_next (sv_chans ?t)" if "hm_get (sv_clients ?t) a = Some k" for a k
      using that I(4) by (auto simp: gets queues_inv_def less_Suc_eq split: if_splits)
    show "a = b" if "hm_get (sv_clients ?t) a = Some k" "hm_get (sv_clients ?t) b = Some k" for a b k
      using that I(4) by (auto simp: gets queues_inv_def split: if_splits)
    fix k f assume "registry_get (sv_registry ?t) k = Some f"
    then have f: "k = sid \<and> f = e \<or> k \<noteq> sid \<and> registry_get (sv_registry s) k = Some f"
      by (auto simp: gets registry_get_def split: if_splits)
    show "hm_get (sv_clients ?t) (e_assigned_ip f) = Some (e_reply_rx f)"
      using f e other I(4) by (auto simp: gets queues_inv_def)
    show "hm_get (ch_open (sv_chans ?t)) (e_reply_rx f) \<noteq> None"
      using f e I(4) by (auto simp: gets queues_inv_def)
  next
    fix a assume "hm_get (sv_clients ?t) a \<noteq> None"
    then show "a \<in> set (registry_ips (sv_registry ?t)) \<union> set (sv_reaping ?t)"
      using I(4) set_ips by (auto simp: gets queues_inv_def split: if_splits)
  qed
  ultimately show ?thesis using I(6,7) c unfolding t by (simp add: server_inv_def)
qed

lemma finished_inv:
  assumes inv: "server_inv s" and c: "sv_conns s = xs @ c # ys" and ip: "conn_ips c = [ip]"
    and out: "outcome = Inr AddressUnused \<or> outcome = Inl err"
  shows "server_inv ((connection_finished ip outcome s)\<lparr>sv_conns := xs @ ys\<rparr>)"
proof -
  let ?t = "s\<lparr>sv_alloc := release_ip ip (sv_alloc s), sv_active := sv_active s - 1, sv_conns := xs @ ys\<rparr>"
  note I = server_invD [OF inv]
  have t: "(connection_finished ip outcome s)\<lparr>sv_conns := xs @ ys\<rparr> = ?t"
    using out by (auto simp: connection_finished_def)
  have "alloc_inv (concat (map conn_ips xs) @ ip # concat (map conn_ips ys) @ registry_ips (sv_registry s) @ sv_reaping s)
      (sv_alloc s)"
    using I(1) c ip by (simp add: owned_def)
  from pool.free_middle [OF this] have "alloc_inv (owned ?t) (sv_alloc ?t)" by (simp add: owned_def)
  moreover have "queues_inv ?t = queues_inv s" by (rule queues_cong) simp_all
  ultimately show ?thesis using I c unfolding t by (simp add: server_inv_def)
qed

lemma taken_inv:
  assumes inv: "server_inv s" and c: "sv_conns s = xs @ Established ip # ys"
  shows "server_inv ((connection_finished ip (Inr AddressTaken) s)\<lparr>sv_conns := xs @ ys\<rparr>)"
proof -
  let ?t = "s\<lparr>sv_active := sv_active s - 1, sv_conns := xs @ ys\<rparr>"
  have t: "(connection_finished ip (Inr AddressTaken) s)\<lparr>sv_conns := xs @ ys\<rparr> = ?t"
    by (simp add: connection_finished_def)
  have "owned ?t = owned s" by (rule owned_cong) (simp_all add: c)
  moreover have "queues_inv ?t = queues_inv s" by (rule queues_cong) simp_all
  ultimately show ?thesis using server_invD [OF inv] c unfolding t by (simp add: server_inv_def)
qed

lemma resume_inv:
  assumes inv: "server_inv s" and c: "sv_conns s = xs @ Reserved ip # ys"
  shows "server_inv (s\<lparr>sv_conns := xs @ Resumed ip e # ys\<rparr>)"
proof -
  let ?t = "s\<lparr>sv_conns := xs @ Resumed ip e # ys\<rparr>"
  have "owned ?t = owned s" by (rule owned_cong) (simp_all add: c)
  moreover have "queues_inv ?t = queues_inv s" by (rule queues_cong) simp_all
  ultimately show ?thesis using server_invD [OF inv] c by (simp add: server_inv_def)
qed

lemma entry_inv:
  assumes inv: "server_inv s" and e: "registry_get (sv_registry s) sid = Some e"
    and same: "e_id e' = e_id e" "e_assigned_ip e' = e_assigned_ip e" "e_reply_rx e' = e_reply_rx e"
  shows "server_inv (s\<lparr>sv_registry := hm_insert sid e' (sv_registry s)\<rparr>)"
proof -
  let ?t = "s\<lparr>sv_registry := hm_insert sid e' (sv_registry s)\<rparr>"
  note I = server_invD [OF inv]
  have "(sid, e) \<in> set (sv_registry s)" using e by (simp add: hmap.entries_lookup [OF I(3)] registry_get_def)
  then have "e_id e = sid" using I(2) by (auto simp: registry_wf_def)
  then have wf: "registry_wf (hm_insert sid e' (sv_registry s))" using I(2) same by (intro registry_wf_insert) simp_all
  have ips: "registry_ips (hm_insert sid e' (sv_registry s)) = registry_ips (sv_registry s)"
    using e same(2) I(3) by (rule registry_ips_update)
  then have "owned ?t = owned s" by (simp add: owned_def)
  moreover have "queues_inv ?t"
    unfolding queues_inv_def
  proof (intro conjI allI impI)
    fix k f assume "registry_get (sv_registry ?t) k = Some f"
    then have "k = sid \<and> f = e' \<or> registry_get (sv_registry s) k = Some f"
      by (auto simp: hmap.lookup_insert [OF I(3)] registry_get_def split: if_splits)
    then show "hm_get (sv_clients ?t) (e_assigned_ip f) = Some (e_reply_rx f)"
      "hm_get (ch_open (sv_chans ?t)) (e_reply_rx f) \<noteq> None"
      using e same I(4) by (auto simp: queues_inv_def)
  qed (use I(4) ips in \<open>auto simp: queues_inv_def\<close>)
  ultimately show ?thesis using I wf by (simp add: server_inv_def)
qed

lemma reap_tick_inv:
  assumes inv: "server_inv s" and none: "sv_reaping s = []"
  shows "server_inv (reap_tick finished now s)"
proof -
  obtain ips reg where r: "reap_expired finished now (sv_registry s) = (ips, reg)"
    by (cases "reap_expired finished now (sv_registry s)")
  let ?t = "s\<lparr>sv_registry := reg, sv_reaping := ips\<rparr>"
  have t: "reap_tick finished now s = ?t" using r by (simp add: reap_tick_def)
  note I = server_invD [OF inv] and split = reap_splits [OF r]
  note keep = reap_keeps_iff [OF I(3) r]
  have set_split: "set (registry_ips (sv_registry s)) = set ips \<union> set (registry_ips reg)"
    using split by (metis set_mset_mset set_mset_union)
  have "alloc_inv (owned ?t) (sv_alloc s)"
    using I(1) by (rule pool.invar_perm) (simp add: owned_def none split)
  moreover have "registry_wf reg"
    using r registry_wf_retain [OF I(2)] by (auto simp: reap_expired_def)
  moreover have "queues_inv ?t"
    unfolding queues_inv_def
  proof (intro conjI allI impI)
    fix k f assume "registry_get (sv_registry ?t) k = Some f"
    then have "registry_get (sv_registry s) k = Some f" using keep by simp
    then show "hm_get (sv_clients ?t) (e_assigned_ip f) = Some (e_reply_rx f)"
      "hm_get (ch_open (sv_chans ?t)) (e_reply_rx f) \<noteq> None"
      using I(4) by (auto simp: queues_inv_def)
  next
    fix a assume "hm_get (sv_clients ?t) a \<noteq> None"
    then have "a \<in> set (registry_ips (sv_registry s))" using I(4) none unfolding queues_inv_def by auto
    then show "a \<in> set (registry_ips (sv_registry ?t)) \<union> set (sv_reaping ?t)" using set_split by auto
  qed (use I(4) in \<open>auto simp: queues_inv_def\<close>)
  ultimately show ?thesis using I(6,7) unfolding t by (simp add: server_inv_def)
qed

lemma reap_address_inv:
  assumes inv: "server_inv s" and some: "sv_reaping s \<noteq> []"
  shows "server_inv (reap_address s)"
proof -
  obtain ip rest where r: "sv_reaping s = ip # rest" using some by (cases "sv_reaping s") auto
  let ?t = "s\<lparr>sv_clients := hm_remove ip (sv_clients s), sv_alloc := release_ip ip (sv_alloc s), sv_reaping := rest\<rparr>"
  have t: "reap_address s = ?t" using r by (simp add: reap_address_def unregister_client_def)
  note I = server_invD [OF inv]
  have q: "hm_wf (sv_clients s)" using I(4) by (simp add: queues_inv_def)
  note rem = hmap.lookup_remove [OF q]
  have "alloc_inv ((concat (map conn_ips (sv_conns s)) @ registry_ips (sv_registry s)) @ ip # rest) (sv_alloc s)"
    using I(1) r by (simp add: owned_def)
  from pool.free_middle [OF this] have "alloc_inv (owned ?t) (sv_alloc ?t)" by (simp add: owned_def)
  moreover have "ip \<notin> set (registry_ips (sv_registry s))" using I(5) r by (auto simp: owned_def)
  then have other: "\<And>k f. registry_get (sv_registry s) k = Some f \<Longrightarrow> e_assigned_ip f \<noteq> ip"
    using in_registry_ips [OF I(3)] by blast
  have "queues_inv ?t"
    unfolding queues_inv_def
  proof (intro conjI allI impI)
    show "hm_wf (sv_clients ?t)" using q hmap.invar_remove by auto
    fix k f assume "registry_get (sv_registry ?t) k = Some f"
    then show "hm_get (sv_clients ?t) (e_assigned_ip f) = Some (e_reply_rx f)"
      "hm_get (ch_open (sv_chans ?t)) (e_reply_rx f) \<noteq> None"
      using other I(4) by (auto simp: rem queues_inv_def)
  next
    fix a assume "hm_get (sv_clients ?t) a \<noteq> None"
    then have "a \<noteq> ip" "hm_get (sv_clients s) a \<noteq> None" by (auto simp: rem split: if_splits)
    then show "a \<in> set (registry_ips (sv_registry ?t)) \<union> set (sv_reaping ?t)"
      using I(4) r unfolding queues_inv_def by auto
  qed (use I(4) in \<open>auto simp: queues_inv_def rem split: if_splits\<close>)
  ultimately show ?thesis using I unfolding t by (simp add: server_inv_def)
qed

lemma channel_close_inv:
  assumes inv: "server_inv s" and c: "\<forall>sid e. registry_get (sv_registry s) sid = Some e \<longrightarrow> e_reply_rx e \<noteq> c"
  shows "server_inv (s\<lparr>sv_chans := channel_close c (sv_chans s)\<rparr>)"
proof -
  let ?t = "s\<lparr>sv_chans := channel_close c (sv_chans s)\<rparr>"
  note I = server_invD [OF inv]
  have q: "hm_wf (ch_open (sv_chans s))" using I(4) by (simp add: queues_inv_def)
  note rem = hmap.lookup_remove [OF q]
  have "queues_inv ?t"
    unfolding queues_inv_def
  proof (intro conjI allI impI)
    show "hm_wf (ch_open (sv_chans ?t))" using q hmap.invar_remove by (auto simp: channel_close_def)
    fix k f assume "registry_get (sv_registry ?t) k = Some f"
    then show "hm_get (sv_clients ?t) (e_assigned_ip f) = Some (e_reply_rx f)"
      "hm_get (ch_open (sv_chans ?t)) (e_reply_rx f) \<noteq> None"
      using c I(4) by (auto simp: channel_close_def rem queues_inv_def)
  qed (use I(4) in \<open>auto simp: queues_inv_def channel_close_def\<close>)
  moreover have "owned ?t = owned s" by (rule owned_cong) simp_all
  ultimately show ?thesis using I by (simp add: server_inv_def)
qed

lemma queues_entry:
  assumes "queues_inv s" and "registry_get (sv_registry s) sid = Some e"
  shows "hm_get (sv_clients s) (e_assigned_ip e) = Some (e_reply_rx e)"
    and "hm_get (ch_open (sv_chans s)) (e_reply_rx e) \<noteq> None"
  using assms unfolding queues_inv_def by blast+

lemma server_dispatch_inv:
  assumes inv: "server_inv s"
  shows "server_inv (server_dispatch packet s)"
proof (cases rule: dispatch_cases [of packet "sv_clients s" "sv_chans s"])
  case ignored
  then have "server_dispatch packet s = s" by (simp add: server_dispatch_def)
  then show ?thesis using inv by simp
next
  note I = server_invD [OF inv]
  have q: "hm_wf (sv_clients s)" "hm_wf (ch_open (sv_chans s))" using I(4) by (simp_all add: queues_inv_def)
  note gets = hmap.lookup_insert [OF q(2)] hmap.lookup_remove [OF q(1)]
  {
    case (queued tx qu)
    let ?t = "s\<lparr>sv_chans := (sv_chans s)\<lparr>ch_open := hm_insert tx (qu @ [packet]) (ch_open (sv_chans s))\<rparr>\<rparr>"
    have t: "server_dispatch packet s = ?t" using queued by (simp add: server_dispatch_def)
    have "queues_inv ?t"
      unfolding queues_inv_def
    proof (intro conjI allI impI)
      show "hm_wf (ch_open (sv_chans ?t))" using q hmap.invar_insert by auto
    qed (use I(4) in \<open>auto simp: gets queues_inv_def\<close>)
    moreover have "owned ?t = owned s" by (rule owned_cong) simp_all
    ultimately show ?thesis using I unfolding t by (simp add: server_inv_def)
  next
    case (dropped tx)
    let ?t = "s\<lparr>sv_clients := hm_remove (packet_dst packet) (sv_clients s)\<rparr>"
    have t: "server_dispatch packet s = ?t" using dropped by (simp add: server_dispatch_def)
    have other: "e_assigned_ip f \<noteq> packet_dst packet" if "registry_get (sv_registry s) k = Some f" for k f
      using queues_entry [OF I(4) that] dropped(1,2) by auto
    have "queues_inv ?t"
      unfolding queues_inv_def
    proof (intro conjI allI impI)
      show "hm_wf (sv_clients ?t)" using q hmap.invar_remove by auto
      fix k f assume f: "registry_get (sv_registry ?t) k = Some f"
      then show "hm_get (sv_clients ?t) (e_assigned_ip f) = Some (e_reply_rx f)"
        using other [of k f] I(4) by (auto simp: gets queues_inv_def)
      show "hm_get (ch_open (sv_chans ?t)) (e_reply_rx f) \<noteq> None"
        using f I(4) by (auto simp: queues_inv_def)
    qed (use I(4) in \<open>auto simp: gets queues_inv_def split: if_splits\<close>)
    moreover have "owned ?t = owned s" by (rule owned_cong) simp_all
    ultimately show ?thesis using I unfolding t by (simp add: server_inv_def)
  }
qed

lemma server_inv_step: "server_step s t \<Longrightarrow> server_inv s \<Longrightarrow> server_inv t"
proof (induction rule: server_step.induct)
  case (st_unused s xs c ys ip e outcome err)
  then have "conn_ips c = [ip]" by auto
  with st_unused show ?case by (intro finished_inv)
qed (auto intro: accept_connection_inv commit_session_inv resume_inv entry_inv taken_inv
      reap_tick_inv reap_address_inv server_dispatch_inv channel_close_inv)

lemma server_reachable_inv:
  assumes "server_step\<^sup>*\<^sup>* (server_init n) s"
  shows "server_inv s"
  using assms by (induction rule: rtranclp_induct) (auto intro: server_inv_init server_inv_step)

lemma dispatch_queue:
  assumes inv: "server_inv s" and e: "registry_get (sv_registry s) sid = Some e"
    and q: "hm_get (ch_open (sv_chans s)) (e_reply_rx e) = Some q"
  shows "hm_get (ch_open (sv_chans (server_dispatch packet s))) (e_reply_rx e) =
    Some (if 20 \<le> length packet \<and> drop_bit 4 (packet ! 0) = 4 \<and> packet_dst packet = e_assigned_ip e
          then q @ [packet] else q)"
proof (cases "20 \<le> length packet \<and> drop_bit 4 (packet ! 0) = 4")
  case False
  then have "server_dispatch packet s = s" by (auto simp: server_dispatch_def dispatch_def)
  then show ?thesis using False q by auto
next
  case True
  note I = server_invD [OF inv]
  have wf: "hm_wf (ch_open (sv_chans s))" and cl: "hm_get (sv_clients s) (e_assigned_ip e) = Some (e_reply_rx e)"
    using I(4) e by (auto simp: queues_inv_def)
  have inj: "hm_get (sv_clients s) a = Some (e_reply_rx e) \<Longrightarrow> a = e_assigned_ip e" for a
    using I(4) cl unfolding queues_inv_def by blast
  show ?thesis
  proof (cases "hm_get (sv_clients s) (packet_dst packet)")
    case None
    then have "server_dispatch packet s = s" by (auto simp: server_dispatch_def dispatch_def)
    then show ?thesis using None cl q by auto
  next
    case (Some tx)
    note tx = this
    show ?thesis
    proof (cases "packet_dst packet = e_assigned_ip e")
      case True
      then have "server_dispatch packet s =
          s\<lparr>sv_chans := (sv_chans s)\<lparr>ch_open := hm_insert (e_reply_rx e) (q @ [packet]) (ch_open (sv_chans s))\<rparr>\<rparr>"
        using cl q \<open>20 \<le> length packet \<and> drop_bit 4 (packet ! 0) = 4\<close>
        by (simp add: server_dispatch_def dispatch_def channel_send_def)
      then show ?thesis using True \<open>20 \<le> length packet \<and> drop_bit 4 (packet ! 0) = 4\<close>
        by (simp add: hmap.lookup_insert [OF wf])
    next
      case False
      then have "tx \<noteq> e_reply_rx e" using inj tx by blast
      moreover have "snd (dispatch packet (sv_clients s, sv_chans s)) = snd (channel_send tx packet (sv_chans s))"
        using True tx by (simp add: dispatch_def split: prod.split bool.split)
      ultimately have "hm_get (ch_open (sv_chans (server_dispatch packet s))) (e_reply_rx e) = Some q"
        using q by (simp add: server_dispatch_def case_prod_beta channel_send_def hmap.lookup_insert [OF wf] split: option.splits)
      then show ?thesis using False by simp
    qed
  qed
qed

lemma server_step_max: "server_step s t \<Longrightarrow> sv_max_clients t = sv_max_clients s"
  by (induction rule: server_step.induct)
     (auto simp: accept_connection_def commit_session_def connection_finished_def reap_tick_def reap_address_def
        server_dispatch_def split: prod.splits option.splits list.splits sum.splits connection_outcome.splits)

section \<open>Expiry\<close>

text \<open>A released address is the next one handed out; the reaper releases the addresses of the sessions it
  removed one after the other.\<close>

lemma release_then_allocate:
  assumes "alloc_inv leased al" and "ip \<in> set leased"
  shows "fst (allocate (release_ip ip al)) = Some ip"
proof -
  obtain hs where b: "al_base al AND 0xFF = 0" and l: "leased = map (\<lambda>h. al_base al OR h) hs"
    and disj: "set hs \<inter> set (al_freed al) = {}"
    and rng: "\<forall>h \<in> set hs \<union> set (al_freed al). 2 \<le> h \<and> h < 254"
    using assms(1) by (rule alloc_invE)
  obtain h where h: "h \<in> set hs" "ip = al_base al OR h" using assms(2) l by auto
  then have r: "2 \<le> h" "h < 254" "h \<notin> set (al_freed al)" using rng disj by auto
  have "ip AND 0xFF = h" using host_of_address [OF b below_254 [OF r(2)]] h(2) by simp
  then show ?thesis using r h(2) by (simp add: release_ip_def allocate_def Let_def not_less [symmetric])
qed

lemma reap_address_fields [simp]:
  "sv_conns (reap_address s) = sv_conns s" "sv_active (reap_address s) = sv_active s"
  "sv_max_clients (reap_address s) = sv_max_clients s" "sv_registry (reap_address s) = sv_registry s"
  "sv_reaping (reap_address s) = tl (sv_reaping s)"
  by (simp_all add: reap_address_def split: list.split)

lemma reap_tick_expired:
  assumes "hm_wf (sv_registry s)" and "registry_get (sv_registry s) sid = Some e" and "entry_expired finished now e"
  shows "registry_get (sv_registry (reap_tick finished now s)) sid = None"
    and "e_assigned_ip e \<in> set (sv_reaping (reap_tick finished now s))"
proof -
  obtain ips reg where reap: "reap_expired finished now (sv_registry s) = (ips, reg)" by fastforce
  show "registry_get (sv_registry (reap_tick finished now s)) sid = None"
    using reap_keeps_iff [OF assms(1) reap, of sid] assms(2,3) reap by (simp add: reap_tick_def) (metis not_Some_eq option.inject)
  have "(sid, e) \<in> set (sv_registry s)"
    using hmap.entries_lookup [OF assms(1)] assms(2) by (auto simp: registry_get_def)
  then show "e_assigned_ip e \<in> set (sv_reaping (reap_tick finished now s))"
    using assms(3) by (force simp: reap_tick_def reap_expired_def)
qed

lemma reap_tick_fields [simp]:
  "sv_conns (reap_tick finished now s) = sv_conns s" "sv_active (reap_tick finished now s) = sv_active s"
  "sv_max_clients (reap_tick finished now s) = sv_max_clients s"
  by (simp_all add: reap_tick_def split: prod.split)

lemma reap_address_run:
  "server_step\<^sup>*\<^sup>* s0 s \<Longrightarrow> k \<le> length (sv_reaping s) \<Longrightarrow>
    server_step\<^sup>*\<^sup>* s0 ((reap_address ^^ k) s) \<and> sv_reaping ((reap_address ^^ k) s) = drop k (sv_reaping s) \<and>
    sv_conns ((reap_address ^^ k) s) = sv_conns s \<and> sv_active ((reap_address ^^ k) s) = sv_active s \<and>
    sv_max_clients ((reap_address ^^ k) s) = sv_max_clients s \<and> sv_registry ((reap_address ^^ k) s) = sv_registry s"
proof (induction k)
  case (Suc k)
  then have IH: "server_step\<^sup>*\<^sup>* s0 ((reap_address ^^ k) s)" "sv_reaping ((reap_address ^^ k) s) = drop k (sv_reaping s)"
    by simp_all
  then have "server_step ((reap_address ^^ k) s) (reap_address ((reap_address ^^ k) s))"
    using Suc.prems(2) by (intro st_reap_address) simp
  with IH(1) have "server_step\<^sup>*\<^sup>* s0 (reap_address ((reap_address ^^ k) s))" by (rule rtranclp.rtrancl_into_rtrancl)
  then show ?case using Suc IH by (simp add: drop_Suc tl_drop)
qed simp

lemma reaped_address_reused:
  assumes reach: "server_step\<^sup>*\<^sup>* (server_init n) s" and ip: "ip \<in> set (sv_reaping s)" and room: "sv_active s < sv_max_clients s"
  shows "\<exists>k. server_step\<^sup>*\<^sup>* (server_init n) (accept_connection ((reap_address ^^ Suc k) s)) \<and>
    sv_conns (accept_connection ((reap_address ^^ Suc k) s)) = sv_conns s @ [Reserved ip] \<and>
    sv_registry (accept_connection ((reap_address ^^ Suc k) s)) = sv_registry s"
proof -
  obtain k where k: "k < length (sv_reaping s)" "sv_reaping s ! k = ip" using ip by (auto simp: in_set_conv_nth)
  let ?a = "(reap_address ^^ k) s" and ?b = "(reap_address ^^ Suc k) s"
  have a: "server_step\<^sup>*\<^sup>* (server_init n) ?a" "sv_reaping ?a = ip # drop (Suc k) (sv_reaping s)"
    using reap_address_run [OF reach, of k] k Cons_nth_drop_Suc [OF k(1)] by simp_all
  have b: "server_step\<^sup>*\<^sup>* (server_init n) ?b" "sv_conns ?b = sv_conns s" "sv_active ?b = sv_active s"
      "sv_max_clients ?b = sv_max_clients s" "sv_registry ?b = sv_registry s"
    using reap_address_run [OF reach, of "Suc k"] k(1) by simp_all
  have "ip \<in> set (owned ?a)" using a(2) by (simp add: owned_def)
  with server_invD(1) [OF server_reachable_inv [OF a(1)]]
  have "fst (allocate (release_ip ip (sv_alloc ?a))) = Some ip" by (rule release_then_allocate)
  moreover have "sv_alloc ?b = release_ip ip (sv_alloc ?a)" using a(2) by (simp add: reap_address_def)
  ultimately obtain al where "allocate (sv_alloc ?b) = (Some ip, al)" by (metis prod.collapse)
  then have "accept_connection ?b = ?b\<lparr>sv_alloc := al, sv_conns := sv_conns s @ [Reserved ip], sv_active := sv_active s + 1\<rparr>"
    using b room unfolding accept_connection_def by (simp del: funpow.simps)
  then show ?thesis using rtranclp.rtrancl_into_rtrancl [OF b(1) st_accept] b(5)
    by (intro exI [of _ k]) (simp del: funpow.simps)
qed

section \<open>Example runs\<close>

definition demo_keys :: session_keys where
  "demo_keys = \<lparr>client_write_key = replicate 32 1, server_write_key = replicate 32 2\<rparr>"

text \<open>A server on which one client has an established session.\<close>

definition demo_server :: server where
  "demo_server = (commit_session 0 [1] demo_keys 0x0A0A0002 (accept_connection (server_init 8)))
     \<lparr>sv_conns := [Established 0x0A0A0002]\<rparr>"

lemma demo_accept: "sv_conns (accept_connection (server_init 8)) = [] @ Reserved 0x0A0A0002 # []"
  by (simp add: accept_connection_def server_init_def allocate_def allocator_new_def word_le_nat_alt)

lemma demo_accept_registry: "sv_registry (accept_connection (server_init 8)) = []"
  by (simp add: accept_connection_def server_init_def allocate_def allocator_new_def word_le_nat_alt)

lemma demo_server_reachable: "server_step\<^sup>*\<^sup>* (server_init 8) demo_server"
proof -
  have "server_step (server_init 8) (accept_connection (server_init 8))" by (rule st_accept)
  moreover have "server_step (accept_connection (server_init 8))
    ((commit_session 0 [1] demo_keys 0x0A0A0002 (accept_connection (server_init 8)))
      \<lparr>sv_conns := [] @ Established 0x0A0A0002 # []\<rparr>)"
    by (rule st_commit [OF demo_accept]) (simp add: demo_accept_registry registry_get_def)
  ultimately show ?thesis unfolding demo_server_def by simp
qed

definition demo_entry :: session_entry where
  "demo_entry = fst (registry_insert 0 [1] demo_keys 0x0A0A0002 0 [])"

lemma demo_server_simps:
  "sv_registry demo_server = [([1], demo_entry)]" "sv_conns demo_server = [Established 0x0A0A0002]"
  "sv_clients demo_server = [(0x0A0A0002, 0)]" "sv_reaping demo_server = []"
  "ch_open (sv_chans demo_server) = [(0, [])]" "sv_active demo_server = 1" "sv_max_clients demo_server = 8"
  "sv_alloc demo_server = \<lparr>al_base = 0x0A0A0000, al_next = 3, al_freed = []\<rparr>" "ch_next (sv_chans demo_server) = 1"
  by (simp_all add: demo_server_def demo_entry_def commit_session_def registry_insert_def Let_def register_client_def
      unbounded_channel_def accept_connection_def server_init_def allocate_def allocator_new_def channels_new_def
      hm_insert_def word_le_nat_alt)

lemma demo_entry_simps: "e_assigned_ip demo_entry = 0x0A0A0002" "e_reply_rx demo_entry = 0" "e_id demo_entry = [1]"
  "e_attached demo_entry = []" "e_last_seen demo_entry = 0"
  by (simp_all add: demo_entry_def registry_insert_def Let_def)

lemma demo_registry: "registry_get (sv_registry demo_server) [1] = Some demo_entry"
  by (simp add: demo_server_simps registry_get_def hm_get_def)

section \<open>Properties\<close>

text \<open>C4. However accepts, handshakes, resumptions, disconnections, expiry and packet dispatch
  interleave, every tunnel address has at most one owner: the addresses reserved for
  connections, those of the registered sessions and those the reaper is about to return are
  pairwise distinct. An address the pool hands out has no owner and no queue left in the
  forwarder, and the client count is the number of live connections and within its bound.\<close>

theorem server_addresses_exclusive:
  assumes "server_step\<^sup>*\<^sup>* (server_init n) s"
  shows "distinct (concat (map conn_ips (sv_conns s)) @ registry_ips (sv_registry s) @ sv_reaping s) \<and>
    (\<forall>ip al. allocate (sv_alloc s) = (Some ip, al) \<longrightarrow>
       ip \<notin> set (concat (map conn_ips (sv_conns s)) @ registry_ips (sv_registry s) @ sv_reaping s) \<and>
       hm_get (sv_clients s) ip = None) \<and>
    sv_active s = length (sv_conns s) \<and> sv_active s \<le> n"
proof -
  note inv = server_reachable_inv [OF assms]
  note I = server_invD [OF inv]
  have "sv_max_clients t = n" if "server_step\<^sup>*\<^sup>* (server_init n) t" for t
    using that by (induction rule: rtranclp_induct) (simp add: server_init_def, metis server_step_max)
  then have mx: "sv_max_clients s = n" using assms by blast
  have new: "ip \<notin> set (owned s) \<and> hm_get (sv_clients s) ip = None"
    if "allocate (sv_alloc s) = (Some ip, al)" for ip al
  proof -
    have out: "ip \<notin> set (owned s)" using pool.alloc_Some [OF I(1) that] by simp
    then have "ip \<notin> set (registry_ips (sv_registry s)) \<union> set (sv_reaping s)" by (simp add: owned_def)
    with out show ?thesis using I(4) unfolding queues_inv_def by blast
  qed
  then show ?thesis using I(5-7) mx unfolding owned_def by blast
qed

theorem server_addresses_exclusive_witness:
  "distinct (concat (map conn_ips (sv_conns demo_server)) @ registry_ips (sv_registry demo_server) @ sv_reaping demo_server)
    \<and> allocate (sv_alloc demo_server) = (Some 0x0A0A0003, \<lparr>al_base = 0x0A0A0000, al_next = 4, al_freed = []\<rparr>)
    \<and> hm_get (sv_clients demo_server) 0x0A0A0003 = None"
proof -
  have a: "allocate (sv_alloc demo_server) = (Some 0x0A0A0003, \<lparr>al_base = 0x0A0A0000, al_next = 4, al_freed = []\<rparr>)"
    by (simp add: demo_server_simps allocate_def word_le_nat_alt)
  with server_addresses_exclusive [OF demo_server_reachable] show ?thesis by blast
qed

text \<open>C18. Replies are isolated: whatever the other tasks have done before, dispatching a packet read
  from the TUN device appends it to a session's queue exactly if it is an IPv4 packet addressed
  to that session's tunnel address, and leaves every other session's queue as it was.\<close>

theorem dispatch_isolated:
  assumes "server_step\<^sup>*\<^sup>* (server_init n) s" and "registry_get (sv_registry s) sid = Some e"
  shows "\<exists>q. hm_get (ch_open (sv_chans s)) (e_reply_rx e) = Some q \<and>
    hm_get (ch_open (sv_chans (server_dispatch packet s))) (e_reply_rx e) =
      Some (if 20 \<le> length packet \<and> drop_bit 4 (packet ! 0) = 4 \<and> packet_dst packet = e_assigned_ip e
            then q @ [packet] else q)"
proof -
  note inv = server_reachable_inv [OF assms(1)]
  obtain q where "hm_get (ch_open (sv_chans s)) (e_reply_rx e) = Some q"
    using queues_entry(2) [OF server_invD(4) [OF inv] assms(2)] by blast
  then show ?thesis using dispatch_queue [OF inv assms(2)] by blast
qed

definition demo_reply :: bytes where
  "demo_reply = 0x45 # replicate 15 0 @ [10, 10, 0, 2]"

lemma demo_reply_addressed:
  "20 \<le> length demo_reply \<and> drop_bit 4 (demo_reply ! 0) = 4 \<and> packet_dst demo_reply = 0x0A0A0002"
proof (intro conjI)
  show "20 \<le> length demo_reply" by (simp add: demo_reply_def)
  show "drop_bit 4 (demo_reply ! 0) = 4" by (simp add: demo_reply_def)
  show "packet_dst demo_reply = 0x0A0A0002"
    by (simp add: demo_reply_def packet_dst_def slice_def from_be_def)
qed

theorem dispatch_isolated_witness:
  "hm_get (ch_open (sv_chans (server_dispatch demo_reply demo_server))) 0 = Some [demo_reply]"
proof -
  obtain q where q: "hm_get (ch_open (sv_chans demo_server)) 0 = Some q"
    and d: "hm_get (ch_open (sv_chans (server_dispatch demo_reply demo_server))) 0 =
      Some (if 20 \<le> length demo_reply \<and> drop_bit 4 (demo_reply ! 0) = 4 \<and> packet_dst demo_reply = 0x0A0A0002
            then q @ [demo_reply] else q)"
    using dispatch_isolated [OF demo_server_reachable demo_registry, of demo_reply] unfolding demo_entry_simps by blast
  have "q = []" using q by (simp add: demo_server_simps hm_get_def)
  then show ?thesis using d demo_reply_addressed by simp
qed

end
