(* ===== verification/Std_Strings.thy ===== *)
theory Std_Strings
  imports Std_Text
begin

text \<open>
  The methods of Rust's \<open>str\<close> that the text-handling components use: splitting, trimming, ASCII
  case, number parsing and slicing at character boundaries. A string is its UTF-8 bytes, so
  \<open>trim\<close> recognises the encodings of the Unicode white-space characters.
\<close>

section \<open>Splitting\<close>

abbreviation CR :: char where "CR \<equiv> CHR 0x0D"
abbreviation LF :: char where "LF \<equiv> CHR 0x0A"
abbreviation CRLF :: string where "CRLF \<equiv> [CR, LF]"

definition cons_head :: "char \<Rightarrow> string list \<Rightarrow> string list" where
  "cons_head c ss = (case ss of [] \<Rightarrow> [[c]] | s # rest \<Rightarrow> (c # s) # rest)"

fun split_char :: "char \<Rightarrow> string \<Rightarrow> string list" where
  "split_char d [] = [[]]"
| "split_char d (c # s) = (if c = d then [] # split_char d s else cons_head c (split_char d s))"

text \<open>\<open>split("\r\n")\<close>\<close>

fun split_crlf :: "string \<Rightarrow> string list" where
  "split_crlf [] = [[]]"
| "split_crlf [c] = [[c]]"
| "split_crlf (c # d # s) =
     (if c = CR \<and> d = LF then [] # split_crlf s else cons_head c (split_crlf (d # s)))"

definition split_once :: "char \<Rightarrow> string \<Rightarrow> (string \<times> string) option" where
  "split_once d s =
     (if d \<in> set s then Some (takeWhile (\<lambda>c. c \<noteq> d) s, tl (dropWhile (\<lambda>c. c \<noteq> d) s)) else None)"

definition rsplit_once :: "char \<Rightarrow> string \<Rightarrow> (string \<times> string) option" where
  "rsplit_once d s =
     (case split_once d (rev s) of None \<Rightarrow> None | Some (a, b) \<Rightarrow> Some (rev b, rev a))"

lemma cons_head_Cons [simp]: "cons_head c (s # ss) = (c # s) # ss"
  by (simp add: cons_head_def)

lemma cons_head_not_Nil [simp]: "cons_head c ss \<noteq> []"
  by (simp add: cons_head_def split: list.split)

lemma split_char_not_Nil [simp]: "split_char d s \<noteq> []"
  by (induction s) auto

lemma split_char_prefix: "d \<notin> set p \<Longrightarrow> split_char d (p @ d # s) = p # split_char d s"
  by (induction p) auto

lemma split_char_single: "d \<notin> set s \<Longrightarrow> split_char d s = [s]"
  by (induction s) auto

lemma split_char_parts: "p \<in> set (split_char d s) \<Longrightarrow> d \<notin> set p"
proof (induction s arbitrary: p)
  case Nil
  then show ?case by simp
next
  case (Cons c s)
  obtain q qs where q: "split_char d s = q # qs" by (cases "split_char d s") auto
  then show ?case using Cons by (auto split: if_splits)
qed

lemma split_crlf_prefix: "CR \<notin> set p \<Longrightarrow> split_crlf (p @ CR # LF # s) = p # split_crlf s"
proof (induction p)
  case (Cons c p)
  then have "split_crlf ((c # p) @ CR # LF # s) = cons_head c (split_crlf (p @ CR # LF # s))"
    by (cases "p @ CR # LF # s") auto
  with Cons show ?case by simp
qed simp

lemma split_crlf_single: "CR \<notin> set s \<Longrightarrow> split_crlf s = [s]"
  by (induction s rule: split_crlf.induct) auto

lemma split_once_prefix [simp]: "d \<notin> set p \<Longrightarrow> split_once d (p @ d # s) = Some (p, s)"
  by (induction p) (auto simp: split_once_def)

lemma split_once_None [simp]: "d \<notin> set s \<Longrightarrow> split_once d s = None"
  by (simp add: split_once_def)

section \<open>White space\<close>

text \<open>The length of the white-space character a string starts with, 0 if it starts with none.\<close>

fun ws_len3 :: "u8 \<Rightarrow> u8 \<Rightarrow> u8 \<Rightarrow> bool" where
  "ws_len3 a b c \<longleftrightarrow>
     a = 0xE1 \<and> b = 0x9A \<and> c = 0x80 \<or>
     a = 0xE2 \<and> b = 0x80 \<and> (0x80 \<le> c \<and> c \<le> 0x8A \<or> c = 0xA8 \<or> c = 0xA9 \<or> c = 0xAF) \<or>
     a = 0xE2 \<and> b = 0x81 \<and> c = 0x9F \<or>
     a = 0xE3 \<and> b = 0x80 \<and> c = 0x80"

definition is_ascii_ws :: "u8 \<Rightarrow> bool" where
  "is_ascii_ws b \<longleftrightarrow> 0x09 \<le> b \<and> b \<le> 0x0D \<or> b = 0x20"

definition ws_len :: "bytes \<Rightarrow> nat" where
  "ws_len bs =
     (if bs \<noteq> [] \<and> is_ascii_ws (bs ! 0) then 1
      else if 2 \<le> length bs \<and> bs ! 0 = 0xC2 \<and> (bs ! 1 = 0x85 \<or> bs ! 1 = 0xA0) then 2
      else if 3 \<le> length bs \<and> ws_len3 (bs ! 0) (bs ! 1) (bs ! 2) then 3
      else 0)"

lemma ws_len_le: "ws_len bs \<le> length bs"
  by (cases bs) (auto simp: ws_len_def)

function trim_start_bytes :: "bytes \<Rightarrow> bytes" where
  "trim_start_bytes bs = (if ws_len bs = 0 then bs else trim_start_bytes (drop (ws_len bs) bs))"
  by pat_completeness auto

termination
  by (relation "measure length") (use ws_len_le in \<open>auto simp: ws_len_def split: if_splits\<close>)

declare trim_start_bytes.simps [simp del]

text \<open>The length of the white-space character a string ends with.\<close>

definition ws_len_end :: "bytes \<Rightarrow> nat" where
  "ws_len_end bs =
     (if 1 \<le> length bs \<and> ws_len (drop (length bs - 1) bs) = 1 then 1
      else if 2 \<le> length bs \<and> ws_len (drop (length bs - 2) bs) = 2 then 2
      else if 3 \<le> length bs \<and> ws_len (drop (length bs - 3) bs) = 3 then 3
      else 0)"

function trim_end_bytes :: "bytes \<Rightarrow> bytes" where
  "trim_end_bytes bs =
     (if ws_len_end bs = 0 then bs else trim_end_bytes (take (length bs - ws_len_end bs) bs))"
  by pat_completeness auto

termination
  by (relation "measure length") (auto simp: ws_len_end_def split: if_splits)

declare trim_end_bytes.simps [simp del]

definition str_trim :: "string \<Rightarrow> string" where
  "str_trim s = of_bytes (trim_end_bytes (trim_start_bytes (as_bytes s)))"

text \<open>Printable ASCII other than the space.\<close>

definition plain_byte :: "u8 \<Rightarrow> bool" where
  "plain_byte b \<longleftrightarrow> 0x20 < b \<and> b < 0x7F"

lemma ws_len_plain: "plain_byte b \<Longrightarrow> ws_len (b # bs) = 0"
  by (auto simp: ws_len_def plain_byte_def is_ascii_ws_def word_le_nat_alt word_less_nat_alt word_unat_eq_iff)

lemma ws_len_end_plain:
  assumes "plain_byte b"
  shows "ws_len_end (bs @ [b]) = 0"
proof -
  have b: "0x20 < unat b" "unat b < 0x7F" using assms by (simp_all add: plain_byte_def word_less_nat_alt)
  have 1: "ws_len [b] = 0" using ws_len_plain [OF assms] .
  have 2: "ws_len [a, b] \<noteq> 2" for a
    using b by (auto simp: ws_len_def word_unat_eq_iff split: if_splits)
  have 3: "ws_len [a, a', b] \<noteq> 3" for a a'
    using b by (auto simp: ws_len_def word_unat_eq_iff word_le_nat_alt split: if_splits)
  have e1: "ws_len (drop (length bs) (bs @ [b])) = 0" using 1 by simp
  have e2: "ws_len (drop (length bs - 1) (bs @ [b])) \<noteq> 2" if l: "1 \<le> length bs"
  proof -
    obtain as a where "bs = as @ [a]" using l by (cases bs rule: rev_cases) auto
    then show ?thesis using 2 [of a] by simp
  qed
  have e3: "ws_len (drop (length bs - 2) (bs @ [b])) \<noteq> 3" if l: "2 \<le> length bs"
  proof -
    obtain cs a' where c: "bs = cs @ [a']" using l by (cases bs rule: rev_cases) auto
    obtain as a where "cs = as @ [a]" using l c by (cases cs rule: rev_cases) auto
    then show ?thesis using 3 [of a a'] c by simp
  qed
  show ?thesis using e1 e2 e3 unfolding ws_len_end_def by (simp add: numeral_eq_Suc)
qed

lemma str_trim_plain:
  assumes "s \<noteq> []" and "plain_byte (byte_of (hd s))" and "plain_byte (byte_of (last s))"
  shows "str_trim s = s"
proof -
  have "trim_start_bytes (as_bytes s) = as_bytes s"
    using assms(1,2) by (subst trim_start_bytes.simps, cases s) (simp_all add: ws_len_plain)
  moreover have "trim_end_bytes (as_bytes s) = as_bytes s"
    using assms(1,3) by (subst trim_end_bytes.simps, cases s rule: rev_cases) (simp_all add: ws_len_end_plain)
  ultimately show ?thesis by (simp add: str_trim_def)
qed

lemma trim_start_space: "trim_start_bytes (0x20 # bs) = trim_start_bytes bs"
  by (subst trim_start_bytes.simps) (simp add: ws_len_def is_ascii_ws_def)

lemma str_trim_space [simp]: "str_trim (CHR '' '' # s) = str_trim s"
  by (simp add: str_trim_def byte_of_def trim_start_space)

section \<open>Slices at character boundaries\<close>

definition is_char_boundary :: "nat \<Rightarrow> string \<Rightarrow> bool" where
  "is_char_boundary i s \<longleftrightarrow>
     i = 0 \<or> i = length s \<or> i < length s \<and> \<not> utf8_cont (byte_of (s ! i))"

text \<open>\<open>s.get(a..b)\<close>\<close>

definition str_get :: "nat \<Rightarrow> nat \<Rightarrow> string \<Rightarrow> string option" where
  "str_get a b s =
     (if a \<le> b \<and> is_char_boundary a s \<and> is_char_boundary b s then Some (slice a b s) else None)"

section \<open>ASCII case\<close>

definition to_ascii_lower :: "char \<Rightarrow> char" where
  "to_ascii_lower c =
     (let n = of_char c :: nat in if 65 \<le> n \<and> n \<le> 90 then char_of (n + 32) else c)"

definition to_ascii_lowercase :: "string \<Rightarrow> string" where
  "to_ascii_lowercase s = map to_ascii_lower s"

definition eq_ignore_ascii_case :: "string \<Rightarrow> string \<Rightarrow> bool" where
  "eq_ignore_ascii_case s t \<longleftrightarrow> to_ascii_lowercase s = to_ascii_lowercase t"

section \<open>Numbers\<close>

definition digit_value :: "nat \<Rightarrow> char \<Rightarrow> nat option" where
  "digit_value radix c =
     (let n = of_char c :: nat;
          d = (if 48 \<le> n \<and> n \<le> 57 then n - 48
               else if 97 \<le> n \<and> n \<le> 122 then n - 87
               else if 65 \<le> n \<and> n \<le> 90 then n - 55 else 36)
      in if d < radix then Some d else None)"

fun digits_value :: "nat \<Rightarrow> nat \<Rightarrow> string \<Rightarrow> nat option" where
  "digits_value radix acc [] = Some acc"
| "digits_value radix acc (c # s) =
     (case digit_value radix c of None \<Rightarrow> None | Some d \<Rightarrow> digits_value radix (acc * radix + d) s)"

text \<open>\<open>from_str_radix\<close> of an unsigned type: one leading plus sign is allowed, and a value
  above the type's maximum is an error.\<close>

definition from_str_radix :: "nat \<Rightarrow> string \<Rightarrow> 'a::len word option" where
  "from_str_radix radix s =
     (let ds = (if s \<noteq> [] \<and> hd s = CHR ''+'' then tl s else s) in
      if ds = [] then None
      else case digits_value radix 0 ds of
        None \<Rightarrow> None
      | Some n \<Rightarrow> if n < 2 ^ LENGTH('a) then Some (word_of_nat n) else None)"

definition parse_usize :: "string \<Rightarrow> nat option" where
  "parse_usize s = map_option unat (from_str_radix 10 s :: u64 option)"

fun lower_hex :: "nat \<Rightarrow> string" where
  "lower_hex n = (if n < 16 then [hex_digit n] else lower_hex (n div 16) @ [hex_digit (n mod 16)])"

declare lower_hex.simps [simp del]

lemma digits_value_append:
  "digits_value r a (s @ t) = (case digits_value r a s of None \<Rightarrow> None | Some b \<Rightarrow> digits_value r b t)"
  by (induction s arbitrary: a) (auto split: option.split)

lemma hex_digit_cases: "n < 16 \<Longrightarrow> hex_digit n \<in> set ''0123456789abcdef''"
  unfolding hex_digit_def by (rule nth_mem) simp

lemma less_16_cases: "n < (16 :: nat) \<Longrightarrow> n \<in> {0, 1, 2, 3, 4, 5, 6, 7, 8, 9, 10, 11, 12, 13, 14, 15}"
  by (auto simp: numeral_eq_Suc less_Suc_eq)

lemma digit_value_hex: "n < 16 \<Longrightarrow> digit_value 16 (hex_digit n) = Some n"
  by (drule less_16_cases) (auto simp: hex_digit_def digit_value_def)

lemma digit_value_dec: "n < 10 \<Longrightarrow> digit_value 10 (char_of (48 + n)) = Some n"
  by (simp add: digit_value_def)

lemma digits_value_lower_hex: "digits_value 16 0 (lower_hex n) = Some n"
proof (induction n rule: lower_hex.induct)
  case (1 n)
  show ?case
  proof (cases "n < 16")
    case True
    then show ?thesis by (subst lower_hex.simps) (simp add: digit_value_hex)
  next
    case False
    then have "digits_value 16 0 (lower_hex n) = digits_value 16 (n div 16) [hex_digit (n mod 16)]"
      using 1 by (subst lower_hex.simps) (simp add: digits_value_append)
    then show ?thesis by (simp add: digit_value_hex)
  qed
qed

lemma digits_value_decimal: "digits_value 10 0 (decimal n) = Some n"
proof (induction n rule: decimal.induct)
  case (1 n)
  show ?case
  proof (cases "n < 10")
    case True
    then show ?thesis by (subst decimal.simps) (simp add: digit_value_dec)
  next
    case False
    then have "digits_value 10 0 (decimal n) = digits_value 10 (n div 10) [char_of (48 + n mod 10)]"
      using 1 by (subst decimal.simps) (simp add: digits_value_append)
    then show ?thesis by (simp add: digit_value_dec)
  qed
qed

end
