(* ===== verification/Server_Http.thy ===== *)
theory Server_Http
  imports Std_Strings Std_Collections
begin

text \<open>
  The HTTP/1.1 of the front door, \<open>kanrin-server/src/http.rs\<close>: the request-head parser, the
  responses the server generates itself, and the resolution of a request path to a file. A
  \<open>PathBuf\<close> is the list of its components (pushing a relative segment appends it), and the
  file system is the argument \<open>is_dir\<close>.
\<close>

definition MAX_HEAD_BYTES :: nat where "MAX_HEAD_BYTES = 16 * 1024"

section \<open>Request heads\<close>

record request_head =
  rh_method :: string
  rh_target :: string
  rh_version :: string
  rh_headers :: "(string, string) hmap"
  rh_head_len :: nat
  rh_raw :: bytes

datatype parse_error = Incomplete | Malformed | TooLarge

text \<open>\<open>windows(n).position(|w| w == pat)\<close> for the length \<open>n\<close> of \<open>pat\<close>.\<close>

fun find_window :: "'a list \<Rightarrow> 'a list \<Rightarrow> nat option" where
  "find_window pat [] = (if pat = [] then Some 0 else None)"
| "find_window pat (b # bs) =
     (if take (length pat) (b # bs) = pat then Some 0 else map_option Suc (find_window pat bs))"

abbreviation blank_line :: bytes where
  "blank_line \<equiv> [0x0D, 0x0A, 0x0D, 0x0A]"

definition find_head_end :: "bytes \<Rightarrow> nat option" where
  "find_head_end buf = find_window blank_line buf"

fun parse_headers :: "string list \<Rightarrow> (string, string) hmap \<Rightarrow> parse_error + (string, string) hmap" where
  "parse_headers [] headers = Ok headers"
| "parse_headers (line # lines) headers =
     (if line = [] then parse_headers lines headers
      else case split_once (CHR '':'') line of
        None \<Rightarrow> Err Malformed
      | Some (name, val) \<Rightarrow>
          if name = [] \<or> CHR '' '' \<in> set name then Err Malformed
          else parse_headers lines (hm_insert (to_ascii_lowercase name) (str_trim val) headers))"

definition request_head_parse :: "bytes \<Rightarrow> parse_error + request_head" where
  "request_head_parse buf =
     (if length buf > MAX_HEAD_BYTES then Err TooLarge
      else case find_head_end buf of
        None \<Rightarrow> Err Incomplete
      | Some head_end \<Rightarrow>
          (case from_utf8 (take head_end buf) of
             None \<Rightarrow> Err Malformed
           | Some txt \<Rightarrow>
               (case split_char (CHR '' '') (hd (split_crlf txt)) of
                  [meth, target, version] \<Rightarrow>
                    if meth = [] \<or> target = [] \<or> version = [] \<or> take 5 version \<noteq> ''HTTP/'' then Err Malformed
                    else and_then (parse_headers (tl (split_crlf txt)) []) (\<lambda>headers.
                      Ok \<lparr>rh_method = meth, rh_target = target, rh_version = version, rh_headers = headers,
                          rh_head_len = head_end + 4, rh_raw = take (head_end + 4) buf\<rparr>)
                | _ \<Rightarrow> Err Malformed)))"

definition rh_header :: "request_head \<Rightarrow> string \<Rightarrow> string option" where
  "rh_header h name = hm_get (rh_headers h) name"

definition content_length :: "request_head \<Rightarrow> nat option" where
  "content_length h = Option.bind (rh_header h ''content-length'') parse_usize"

definition rh_path :: "request_head \<Rightarrow> string" where
  "rh_path h = hd (split_char (CHR ''?'') (rh_target h))"

definition wants_keep_alive :: "request_head \<Rightarrow> bool" where
  "wants_keep_alive h =
     (case rh_header h ''connection'' of
        Some v \<Rightarrow> if eq_ignore_ascii_case v ''close'' then False
                  else if eq_ignore_ascii_case v ''keep-alive'' then True
                  else rh_version h \<noteq> ''HTTP/1.0''
      | None \<Rightarrow> rh_version h \<noteq> ''HTTP/1.0'')"

section \<open>Responses\<close>

record response =
  rs_status :: u16
  rs_reason :: string
  rs_headers :: "(string \<times> string) list"
  rs_body :: bytes

definition response_new :: "u16 \<Rightarrow> string \<Rightarrow> response" where
  "response_new status reason = \<lparr>rs_status = status, rs_reason = reason, rs_headers = [], rs_body = []\<rparr>"

definition rs_header :: "string \<Rightarrow> string \<Rightarrow> response \<Rightarrow> response" where
  "rs_header name val r = r\<lparr>rs_headers := rs_headers r @ [(name, val)]\<rparr>"

definition rs_with_body :: "bytes \<Rightarrow> response \<Rightarrow> response" where
  "rs_with_body b r = r\<lparr>rs_body := b\<rparr>"

definition header_line :: "string \<times> string \<Rightarrow> string" where
  "header_line h = (case h of (name, val) \<Rightarrow> name @ '': '' @ val @ CRLF)"

definition response_head :: "response \<Rightarrow> string" where
  "response_head r =
     ''HTTP/1.1 '' @ decimal (unat (rs_status r)) @ '' '' @ rs_reason r @ CRLF @
     concat (map header_line (rs_headers r)) @
     ''Content-Length: '' @ decimal (length (rs_body r)) @ CRLF @ CRLF"

definition response_encode :: "response \<Rightarrow> bytes" where
  "response_encode r = as_bytes (response_head r) @ rs_body r"

definition response_not_found :: response where
  "response_not_found = response_new 404 ''Not Found''"

definition response_bad_request :: response where
  "response_bad_request = response_new 400 ''Bad Request''"

definition content_type_for :: "string \<Rightarrow> string" where
  "content_type_for path =
     (case rsplit_once (CHR ''.'') path of
        Some (_, e) \<Rightarrow>
          (let ext = to_ascii_lowercase e in
           if ext = ''html'' \<or> ext = ''htm'' then ''text/html; charset=utf-8''
           else if ext = ''css'' then ''text/css''
           else if ext = ''js'' then ''application/javascript''
           else if ext = ''json'' then ''application/json''
           else if ext = ''png'' then ''image/png''
           else if ext = ''jpg'' \<or> ext = ''jpeg'' then ''image/jpeg''
           else if ext = ''svg'' then ''image/svg+xml''
           else if ext = ''ico'' then ''image/x-icon''
           else if ext = ''txt'' then ''text/plain; charset=utf-8''
           else ''application/octet-stream'')
      | None \<Rightarrow> ''application/octet-stream'')"

section \<open>Paths\<close>

text \<open>The loop of \<open>percent_decode\<close> on what is left of the input.\<close>

fun percent_decode_loop :: "string \<Rightarrow> bytes \<Rightarrow> bytes option" where
  "percent_decode_loop [] out = Some out"
| "percent_decode_loop (c # s) out =
     (if c = CHR ''%'' then
        (case str_get 1 3 (c # s) of
           None \<Rightarrow> None
         | Some hex \<Rightarrow>
             (case from_str_radix 16 hex of
                None \<Rightarrow> None
              | Some b \<Rightarrow> percent_decode_loop (drop 2 s) (out @ [b])))
      else percent_decode_loop s (out @ [byte_of c]))"

definition percent_decode :: "string \<Rightarrow> string option" where
  "percent_decode input = Option.bind (percent_decode_loop input []) from_utf8"

type_synonym path = "string list"

fun push_segments :: "string list \<Rightarrow> path \<Rightarrow> path option" where
  "push_segments [] out = Some out"
| "push_segments (segment # segments) out =
     (if segment = [] \<or> segment = ''.'' then push_segments segments out
      else if find_window ''..'' segment \<noteq> None \<or> CHR 0x5C \<in> set segment \<or> CHR '':'' \<in> set segment then None
      else push_segments segments (out @ [segment]))"

definition resolve_path :: "(path \<Rightarrow> bool) \<Rightarrow> path \<Rightarrow> string \<Rightarrow> path option" where
  "resolve_path is_dir root request_path =
     Option.bind (percent_decode request_path) (\<lambda>decoded.
       let trimmed = dropWhile (\<lambda>c. c = CHR ''/'') decoded;
           relative = (if trimmed = [] then ''index.html'' else trimmed)
       in Option.bind (push_segments (split_char (CHR ''/'') relative) root) (\<lambda>out.
            Some (if is_dir out then out @ [''index.html''] else out)))"

section \<open>Windows\<close>

lemma find_window_Some:
  "find_window pat bs = Some k \<Longrightarrow> k + length pat \<le> length bs \<and> take (length pat) (drop k bs) = pat"
proof (induction pat bs arbitrary: k rule: find_window.induct)
  case (2 pat b bs)
  show ?case
  proof (cases "take (length pat) (b # bs) = pat")
    case True
    then have "length pat \<le> length (b # bs)" by (metis length_take min.cobounded1)
    then show ?thesis using 2 True by simp
  next
    case False
    then show ?thesis using 2 by auto
  qed
qed (auto split: if_splits)

text \<open>The first occurrence does not move when more is appended.\<close>

lemma take_app_le: "n \<le> length xs \<Longrightarrow> take n (xs @ ys) = take n xs"
  by simp

lemma find_window_append:
  "find_window pat bs = Some k \<Longrightarrow> find_window pat (bs @ cs) = Some k"
proof (induction pat bs arbitrary: k rule: find_window.induct)
  case (1 pat)
  then show ?case by (cases cs) (auto split: if_splits)
next
  case (2 pat b bs)
  show ?case
  proof (cases "take (length pat) (b # bs) = pat")
    case True
    then have "length pat \<le> length (b # bs)" by (metis length_take min.cobounded1)
    then have "take (length pat) ((b # bs) @ cs) = pat" using True by (simp add: take_append del: append_Cons take_Cons)
    then show ?thesis using True 2 by simp
  next
    case False
    then obtain j where j: "find_window pat bs = Some j" "k = Suc j" using 2 by auto
    have "length pat \<le> length (b # bs)" using find_window_Some [OF j(1)] by simp
    then have "take (length pat) ((b # bs) @ cs) = take (length pat) (b # bs)" by (rule take_app_le)
    then have "take (length pat) ((b # bs) @ cs) \<noteq> pat" using False by simp
    then show ?thesis using 2 False j by simp
  qed
qed

text \<open>It is found as soon as it is complete and no sooner.\<close>

lemma find_window_take:
  assumes "find_window pat bs = Some k" and "n < k + length pat"
  shows "find_window pat (take n bs) = None"
proof (cases "find_window pat (take n bs)")
  case (Some j)
  from find_window_append [OF Some, of "drop n bs"] have "j = k" using assms(1) by simp
  moreover have "j + length pat \<le> n" using find_window_Some [OF Some] by simp
  ultimately show ?thesis using assms(2) by simp
qed simp

lemma find_head_end_Some:
  assumes "find_head_end buf = Some k"
  shows "take (k + 4) buf = take k buf @ blank_line" and "k + 4 \<le> length buf"
proof -
  have f: "k + 4 \<le> length buf" "take 4 (drop k buf) = blank_line"
    using find_window_Some [OF assms [unfolded find_head_end_def]] by (simp_all add: numeral_eq_Suc)
  then show "k + 4 \<le> length buf" "take (k + 4) buf = take k buf @ blank_line"
    by (simp_all add: take_add)
qed

section \<open>The parser\<close>

lemma parse_Incomplete_iff:
  "request_head_parse buf = Err Incomplete \<longleftrightarrow> length buf \<le> MAX_HEAD_BYTES \<and> find_head_end buf = None"
proof -
  have no: "parse_headers ls m \<noteq> Inl Incomplete" for ls m
    by (induction ls m rule: parse_headers.induct) (auto split: option.splits if_splits)
  show ?thesis
    unfolding request_head_parse_def
    by (auto simp: and_then_Inl_iff no split: option.splits list.splits if_splits)
qed

lemma parse_head_len:
  assumes "request_head_parse buf = Ok h"
  obtains k where "find_head_end buf = Some k" and "rh_head_len h = k + 4" and "rh_raw h = take (k + 4) buf"
    and "k + 4 \<le> length buf" and "length buf \<le> MAX_HEAD_BYTES"
  using assms find_head_end_Some(2) that unfolding request_head_parse_def
  by (fastforce simp: and_then_Inr_iff split: option.splits list.splits if_splits)

text \<open>What follows the head does not influence how it is parsed.\<close>

lemma parse_append:
  assumes "request_head_parse buf = Ok h" and "length (buf @ rest) \<le> MAX_HEAD_BYTES"
  shows "request_head_parse (buf @ rest) = Ok h"
proof -
  obtain k where k: "find_head_end buf = Some k" "k + 4 \<le> length buf" using assms(1) by (rule parse_head_len)
  have fe: "find_head_end (buf @ rest) = Some k" using k(1) unfolding find_head_end_def by (rule find_window_append)
  have t: "take k (buf @ rest) = take k buf" "take (k + 4) (buf @ rest) = take (k + 4) buf" using k(2) by simp_all
  have c: "\<not> length (buf @ rest) > MAX_HEAD_BYTES" "\<not> length buf > MAX_HEAD_BYTES" using assms(2) by simp_all
  have "request_head_parse (buf @ rest) = request_head_parse buf"
    unfolding request_head_parse_def by (simp only: c if_False fe k(1) option.case t)
  then show ?thesis using assms(1) by simp
qed

section \<open>Path resolution\<close>

definition segment_ok :: "string \<Rightarrow> bool" where
  "segment_ok seg \<longleftrightarrow> find_window ''..'' seg = None \<and> CHR 0x5C \<notin> set seg \<and> CHR '':'' \<notin> set seg"

lemma push_segments_iff:
  "push_segments segs out = Some p \<longleftrightarrow>
     (\<forall>seg\<in>set segs. seg = [] \<or> seg = ''.'' \<or> segment_ok seg) \<and>
     p = out @ filter (\<lambda>seg. seg \<noteq> [] \<and> seg \<noteq> ''.'') segs"
  by (induction segs out rule: push_segments.induct) (auto simp: segment_ok_def)

text \<open>How a file system reads a path: empty and \<open>.\<close> components stay, \<open>..\<close> goes up.\<close>

fun fs_walk :: "path \<Rightarrow> string list \<Rightarrow> path" where
  "fs_walk dir [] = dir"
| "fs_walk dir (seg # segs) =
     (if seg = [] \<or> seg = ''.'' then fs_walk dir segs
      else if seg = ''..'' then fs_walk (butlast dir) segs
      else fs_walk (dir @ [seg]) segs)"

lemma fs_walk_plain: "\<forall>seg\<in>set segs. seg \<notin> {[], ''.'', ''..''} \<Longrightarrow> fs_walk dir segs = dir @ segs"
  by (induction dir segs rule: fs_walk.induct) auto

lemma segment_ok_not_dots: "segment_ok seg \<Longrightarrow> seg \<noteq> ''..''"
  by (auto simp: segment_ok_def)

lemma from_str_radix_hex02: "from_str_radix 16 (hex02 b) = Some b"
proof -
  have h: "unat b div 16 < 16" "unat b mod 16 < 16" using unat_lt [of b] by simp_all
  have "hex_digit (unat b div 16) \<noteq> CHR ''+''" using hex_digit_cases [OF h(1)] by auto
  moreover have "digits_value 16 0 (hex02 b) = Some (unat b)"
    using h by (simp add: hex02_def digit_value_hex del: minus_mod_eq_mult_div)
  moreover have "unat b < 2 ^ LENGTH(8)" using unat_lt [of b] by simp
  ultimately show ?thesis by (simp add: from_str_radix_def Let_def hex02_def [of b, THEN arg_cong [of _ _ hd]] hex02_def)
qed

definition url_escape :: "(char \<Rightarrow> bool) \<Rightarrow> string \<Rightarrow> string" where
  "url_escape esc s = concat (map (\<lambda>c. if esc c then CHR ''%'' # hex02 (byte_of c) else [c]) s)"

text \<open>Everything that has to be escaped is.\<close>

definition escapes_enough :: "(char \<Rightarrow> bool) \<Rightarrow> string \<Rightarrow> bool" where
  "escapes_enough esc s \<longleftrightarrow> (\<forall>c\<in>set s. c = CHR ''%'' \<or> 0x80 \<le> byte_of c \<longrightarrow> esc c)"

lemma hex_digit_ascii: "n < 16 \<Longrightarrow> \<not> utf8_cont (byte_of (hex_digit n))"
  by (drule less_16_cases) (auto simp: hex_digit_def byte_of_def utf8_cont_def)

lemma ascii_not_cont: "\<not> 0x80 \<le> b \<Longrightarrow> \<not> utf8_cont b"
  by (auto simp: utf8_cont_def)

lemma url_escape_head_not_cont:
  assumes "escapes_enough esc s" and "url_escape esc s \<noteq> []"
  shows "\<not> utf8_cont (byte_of (hd (url_escape esc s)))"
  using assms
  by (cases s) (auto simp: url_escape_def escapes_enough_def byte_of_def ascii_not_cont utf8_cont_def)

lemma percent_decode_loop_escape:
  "escapes_enough esc s \<Longrightarrow> percent_decode_loop (url_escape esc s) out = Some (out @ as_bytes s)"
proof (induction s arbitrary: out)
  case Nil
  then show ?case by (simp add: url_escape_def)
next
  case (Cons c s)
  let ?rest = "url_escape esc s"
  have e: "escapes_enough esc s" using Cons.prems by (simp add: escapes_enough_def)
  show ?case
  proof (cases "esc c")
    case True
    let ?s = "CHR ''%'' # hex02 (byte_of c) @ ?rest"
    have "is_char_boundary 1 ?s" using unat_lt [of "byte_of c"]
      by (simp add: is_char_boundary_def hex02_def hex_digit_ascii)
    moreover have "is_char_boundary 3 ?s"
      using url_escape_head_not_cont [OF e] by (cases ?rest) (simp_all add: is_char_boundary_def hex02_def numeral_3_eq_3)
    ultimately have "str_get 1 3 ?s = Some (hex02 (byte_of c))"
      by (simp add: str_get_def slice_def hex02_def)
    then have "percent_decode_loop ?s out = percent_decode_loop ?rest (out @ [byte_of c])"
      by (simp add: from_str_radix_hex02) (simp add: hex02_def)
    then show ?thesis using Cons.IH [OF e] True by (simp add: url_escape_def)
  next
    case False
    then have "c \<noteq> CHR ''%''" using Cons.prems by (auto simp: escapes_enough_def)
    then show ?thesis using Cons.IH [OF e] False by (simp add: url_escape_def)
  qed
qed

lemma percent_decode_escape:
  assumes "is_str s" and "escapes_enough esc s"
  shows "percent_decode (url_escape esc s) = Some s"
  using assms by (simp add: percent_decode_def percent_decode_loop_escape from_utf8_as_bytes)

section \<open>Well-formed heads\<close>

fun join_lines :: "string list \<Rightarrow> string" where
  "join_lines [] = []"
| "join_lines [l] = l"
| "join_lines (l # ls) = l @ CRLF @ join_lines ls"

definition line_ok :: "string \<Rightarrow> bool" where
  "line_ok l \<longleftrightarrow> l \<noteq> [] \<and> CR \<notin> set l"

lemma find_blank_skip:
  "0x0D \<notin> set p \<Longrightarrow> find_window blank_line (p @ bs) = map_option ((+) (length p)) (find_window blank_line bs)"
  by (induction p) (auto split: option.split simp: map_option_case)

lemma find_blank_crlf:
  assumes "bs \<noteq> []" and "hd bs \<noteq> 0x0D"
  shows "find_window blank_line (0x0D # 0x0A # bs) = map_option (\<lambda>n. n + 2) (find_window blank_line bs)"
  using assms by (cases bs) (auto split: option.split simp: map_option_case)

lemma byte_of_eq: "byte_of c = byte_of d \<longleftrightarrow> c = d"
  by (metis char_at_byte_of)

lemma byte_of_crlf: "byte_of CR = 0x0D" "byte_of LF = 0x0A"
  by (simp_all add: byte_of_def)

lemma CR_free_bytes: "CR \<notin> set l \<Longrightarrow> 0x0D \<notin> set (as_bytes l)"
  unfolding byte_of_crlf [symmetric] by (auto simp: as_bytes_def byte_of_eq)

lemma hd_join_lines: "l \<noteq> [] \<Longrightarrow> join_lines (l # ls) \<noteq> [] \<and> hd (join_lines (l # ls)) = hd l"
  by (cases ls) simp_all

lemma find_head_end_lines:
  "ls \<noteq> [] \<Longrightarrow> \<forall>l\<in>set ls. line_ok l \<Longrightarrow>
   find_window blank_line (as_bytes (join_lines ls) @ blank_line @ rest) = Some (length (join_lines ls))"
proof (induction ls rule: join_lines.induct)
  case (2 l)
  then show ?case using CR_free_bytes [of l] by (simp add: find_blank_skip line_ok_def)
next
  case (3 l k ls)
  let ?tail = "as_bytes (join_lines (k # ls)) @ blank_line @ rest"
  have k: "line_ok k" and l: "CR \<notin> set l" using 3(3) by (simp_all add: line_ok_def)
  obtain c s where cs: "join_lines (k # ls) = c # s" "c \<noteq> CR"
  proof -
    have "k \<noteq> []" "hd k \<noteq> CR" using k by (cases k; auto simp: line_ok_def)+
    with hd_join_lines [of k ls] that show thesis by (cases "join_lines (k # ls)") auto
  qed
  have "find_window blank_line (0x0D # 0x0A # ?tail) = map_option (\<lambda>n. n + 2) (find_window blank_line ?tail)"
    using cs byte_of_eq [of c CR] by (intro find_blank_crlf) (simp_all add: byte_of_crlf)
  then have "find_window blank_line (as_bytes l @ 0x0D # 0x0A # ?tail) = Some (length l + (length (join_lines (k # ls)) + 2))"
    using 3 CR_free_bytes [OF l] by (simp add: find_blank_skip)
  then show ?case by (simp add: byte_of_crlf)
qed simp

lemma split_crlf_lines: "ls \<noteq> [] \<Longrightarrow> \<forall>l\<in>set ls. line_ok l \<Longrightarrow> split_crlf (join_lines ls) = ls"
  by (induction ls rule: join_lines.induct) (simp_all add: line_ok_def split_crlf_single split_crlf_prefix)

lemma is_str_join: "\<forall>l\<in>set ls. is_str l \<Longrightarrow> is_str (join_lines ls)"
proof (induction ls rule: join_lines.induct)
  case (3 l k ls)
  have "is_str CRLF" by (rule is_str_ascii) (simp add: byte_of_def)
  with 3 show ?case by (simp only: join_lines.simps) (intro is_str_append; simp)
qed (simp_all add: is_str_def)

lemma parse_lines:
  assumes ls: "line_ok (meth @ '' '' @ target @ '' '' @ version)" "\<forall>l\<in>set ls. line_ok l"
    and tokens: "meth \<noteq> []" "target \<noteq> []" "CHR '' '' \<notin> set meth" "CHR '' '' \<notin> set target" "CHR '' '' \<notin> set version"
    and version: "take 5 version = ''HTTP/''"
    and str: "is_str (join_lines ((meth @ '' '' @ target @ '' '' @ version) # ls))"
    and headers: "parse_headers ls [] = Ok headers"
    and len: "length (join_lines ((meth @ '' '' @ target @ '' '' @ version) # ls)) + 4 \<le> MAX_HEAD_BYTES"
  shows "request_head_parse (as_bytes (join_lines ((meth @ '' '' @ target @ '' '' @ version) # ls)) @ blank_line) =
    Ok \<lparr>rh_method = meth, rh_target = target, rh_version = version, rh_headers = headers,
        rh_head_len = length (join_lines ((meth @ '' '' @ target @ '' '' @ version) # ls)) + 4,
        rh_raw = as_bytes (join_lines ((meth @ '' '' @ target @ '' '' @ version) # ls)) @ blank_line\<rparr>"
proof -
  let ?ls = "(meth @ '' '' @ target @ '' '' @ version) # ls" and ?buf = "as_bytes (join_lines ((meth @ '' '' @ target @ '' '' @ version) # ls)) @ blank_line"
  have fe: "find_head_end ?buf = Some (length (join_lines ?ls))"
    using find_head_end_lines [of ?ls "[]"] ls unfolding find_head_end_def by simp
  have t: "take (length (join_lines ?ls)) ?buf = as_bytes (join_lines ?ls)"
    "take (length (join_lines ?ls) + 4) ?buf = ?buf" by simp_all
  have u: "from_utf8 (as_bytes (join_lines ?ls)) = Some (join_lines ?ls)" using str by (rule from_utf8_as_bytes)
  have sp: "split_crlf (join_lines ?ls) = ?ls" using ls by (intro split_crlf_lines) simp_all
  have tok: "split_char (CHR '' '') (meth @ '' '' @ target @ '' '' @ version) = [meth, target, version]"
    using split_char_prefix [OF tokens(3)] split_char_prefix [OF tokens(4)] split_char_single [OF tokens(5)] by simp
  have c: "\<not> length ?buf > MAX_HEAD_BYTES" using len by simp
  have "version \<noteq> []" using version by auto
  then show ?thesis
    unfolding request_head_parse_def
    by (simp only: c if_False fe option.case t u sp list.sel tok list.case headers and_then_simps tokens(1,2) version simp_thms)
qed

section \<open>Properties\<close>

abbreviation confined :: "string \<Rightarrow> bool" where
  "confined seg \<equiv> seg \<notin> {[], ''.'', ''..''} \<and> CHR ''/'' \<notin> set seg \<and> CHR 0x5C \<notin> set seg \<and> CHR '':'' \<notin> set seg"

lemma walk_confined: "\<forall>seg\<in>set segs. confined seg \<Longrightarrow> fs_walk root (take n segs) = root @ take n segs"
  by (rule fs_walk_plain) (auto dest: in_set_takeD)

text \<open>The path a request names below the root, before the index of a directory is added.\<close>

definition relative_path :: "string \<Rightarrow> string" where
  "relative_path d = (let t = dropWhile (\<lambda>c. c = CHR ''/'') d in if t = [] then ''index.html'' else t)"

lemma resolve_path_relative:
  "percent_decode p = Some d \<Longrightarrow> resolve_path is_dir root p =
     Option.bind (push_segments (split_char (CHR ''/'') (relative_path d)) root)
       (\<lambda>out. Some (if is_dir out then out @ [''index.html''] else out))"
  by (simp add: resolve_path_def Let_def relative_path_def)

lemma resolve_path_Some:
  assumes "percent_decode p = Some d" and "resolve_path is_dir root p = Some out"
  shows "\<exists>segs. out = root @ segs \<and> (\<forall>seg\<in>set segs. confined seg)"
proof -
  let ?segs = "filter (\<lambda>seg. seg \<noteq> [] \<and> seg \<noteq> ''.'') (split_char (CHR ''/'') (relative_path d))"
  obtain mid where mid: "push_segments (split_char (CHR ''/'') (relative_path d)) root = Some mid"
    and out: "out = (if is_dir mid then mid @ [''index.html''] else mid)"
    using assms(2) unfolding resolve_path_relative [OF assms(1)] by (auto simp: bind_eq_Some_conv)
  have m: "mid = root @ ?segs" "\<forall>seg\<in>set ?segs. segment_ok seg" using mid by (auto simp: push_segments_iff)
  have good: "confined seg" if "seg \<in> set ?segs" for seg
  proof -
    have "segment_ok seg" "CHR ''/'' \<notin> set seg" "seg \<noteq> []" "seg \<noteq> ''.''" using that m(2) split_char_parts by auto
    then show ?thesis using segment_ok_not_dots [of seg] by (simp add: segment_ok_def)
  qed
  have index: "confined ''index.html''" by simp
  show ?thesis
  proof (cases "is_dir mid")
    case True
    then have "out = root @ (?segs @ [''index.html''])" using out m(1) by simp
    moreover have "\<forall>seg\<in>set (?segs @ [''index.html'']). confined seg" using good index by (simp only: set_append ball_Un) simp
    ultimately show ?thesis by blast
  next
    case False
    then show ?thesis using out m(1) good by auto
  qed
qed

lemma resolve_path_None:
  assumes "percent_decode p = Some d" and "resolve_path is_dir root p = None"
  shows "\<exists>seg\<in>set (split_char (CHR ''/'') (dropWhile (\<lambda>c. c = CHR ''/'') d)). \<not> segment_ok seg"
proof -
  have p: "push_segments (split_char (CHR ''/'') (relative_path d)) root = None"
    using assms(2) unfolding resolve_path_relative [OF assms(1)]
    by (cases "push_segments (split_char (CHR ''/'') (relative_path d)) root") auto
  then have "\<exists>seg\<in>set (split_char (CHR ''/'') (relative_path d)). seg \<noteq> [] \<and> seg \<noteq> ''.'' \<and> \<not> segment_ok seg"
    using push_segments_iff [of "split_char (CHR ''/'') (relative_path d)" root] by (metis option.distinct(1))
  moreover have "dropWhile (\<lambda>c. c = CHR ''/'') d \<noteq> []" using p by (intro notI) (simp add: relative_path_def cons_head_def)
  then have "relative_path d = dropWhile (\<lambda>c. c = CHR ''/'') d" by (simp only: relative_path_def Let_def if_False)
  ultimately show ?thesis by metis
qed

text \<open>C26. No request path escapes the document root. A path that resolves yields the root followed by
  components none of which is empty, \<open>.\<close>, \<open>..\<close> or contains a separator, and a file system that
  interprets \<open>.\<close> and \<open>..\<close> never leaves the root while following them. Nothing else is refused:
  a path that decodes is rejected only for a component with \<open>..\<close>, a backslash or a colon.\<close>

theorem resolve_path_confined:
  assumes "percent_decode p = Some d"
  shows "(\<forall>out. resolve_path is_dir root p = Some out \<longrightarrow>
      (\<exists>segs. out = root @ segs \<and>
         (\<forall>seg\<in>set segs. seg \<notin> {[], ''.'', ''..''} \<and> CHR ''/'' \<notin> set seg \<and> CHR 0x5C \<notin> set seg \<and> CHR '':'' \<notin> set seg) \<and>
         (\<forall>n. fs_walk root (take n segs) = root @ take n segs))) \<and>
    (resolve_path is_dir root p = None \<longrightarrow>
      (\<exists>seg\<in>set (split_char (CHR ''/'') (dropWhile (\<lambda>c. c = CHR ''/'') d)).
         find_window ''..'' seg \<noteq> None \<or> CHR 0x5C \<in> set seg \<or> CHR '':'' \<in> set seg))"
proof -
  have "\<exists>segs. out = root @ segs \<and> (\<forall>seg\<in>set segs. confined seg) \<and> (\<forall>n. fs_walk root (take n segs) = root @ take n segs)"
    if "resolve_path is_dir root p = Some out" for out
    using resolve_path_Some [OF assms that] walk_confined by metis
  moreover have "\<exists>seg\<in>set (split_char (CHR ''/'') (dropWhile (\<lambda>c. c = CHR ''/'') d)).
      find_window ''..'' seg \<noteq> None \<or> CHR 0x5C \<in> set seg \<or> CHR '':'' \<in> set seg"
    if "resolve_path is_dir root p = None"
    using resolve_path_None [OF assms that] unfolding segment_ok_def by blast
  ultimately show ?thesis by blast
qed

theorem resolve_path_confined_witness:
  "percent_decode ''/a%2e%2e/b'' = Some ''/a../b'' \<and> resolve_path (\<lambda>_. False) [''www''] ''/a/./b'' = Some [''www'', ''a'', ''b''] \<and>
   (\<exists>segs. [''www'', ''a'', ''b''] = [''www''] @ segs \<and> (\<forall>n. fs_walk [''www''] (take n segs) = [''www''] @ take n segs)) \<and>
   (\<exists>seg\<in>set (split_char (CHR ''/'') ''a../b''). find_window ''..'' seg \<noteq> None \<or> CHR 0x5C \<in> set seg \<or> CHR '':'' \<in> set seg)"
proof -
  have d: "percent_decode ''/a/./b'' = Some ''/a/./b''" "percent_decode ''/a%2e%2e/b'' = Some ''/a../b''"
    by code_simp+
  have r: "resolve_path (\<lambda>_. False) [''www''] ''/a/./b'' = Some [''www'', ''a'', ''b'']"
    "resolve_path (\<lambda>_. False) [''www''] ''/a%2e%2e/b'' = None"
    by code_simp+
  show ?thesis
    using resolve_path_confined [OF d(1), of "\<lambda>_. False" "[''www'']"] resolve_path_confined [OF d(2), of "\<lambda>_. False" "[''www'']"] d r
    by simp
qed

text \<open>Escaping cannot smuggle a path past the check: however a path is percent-escaped (any choice
  of characters that includes the percent sign and everything outside ASCII), decoding gives
  it back, so it resolves exactly as its plain form does.\<close>

lemma percent_decode_inverts:
  assumes "is_str s" and "escapes_enough esc s"
  shows "percent_decode (url_escape esc s) = Some s \<and>
    (percent_decode s = Some s \<longrightarrow> resolve_path is_dir root (url_escape esc s) = resolve_path is_dir root s)"
  using percent_decode_escape [OF assms] by (simp add: resolve_path_def)

end
