(* ===== verification/Server_Frontdoor.thy ===== *)
theory Server_Frontdoor
  imports Server_Http Crypto_Prims
begin

text \<open>
  \<open>kanrin-server/src/frontdoor.rs\<close>: the request that enters the tunnel, the authenticator it
  carries in a cookie, the admitter that validates it and lets it be used once, and the timer
  that holds every response back to a common floor. Entropy and clock are arguments.
\<close>

definition AUTH_COOKIE :: string where "AUTH_COOKIE = ''sid''"

definition RESPONSE_FLOOR :: duration where "RESPONSE_FLOOR = from_millis 25"

definition RESPONSE_JITTER :: duration where "RESPONSE_JITTER = from_millis 15"

datatype admission = Web | Tunnel

definition USER_AGENT :: string where
  "USER_AGENT = ''User-Agent: Mozilla/5.0 (Windows NT 10.0; Win64; x64) AppleWebKit/537.36 '' @
     ''(KHTML, like Gecko) Chrome/131.0.0.0 Safari/537.36''"

definition admission_request :: "string \<Rightarrow> string \<Rightarrow> string \<Rightarrow> bytes" where
  "admission_request host target token = as_bytes (
     ''GET '' @ target @ '' HTTP/1.1'' @ CRLF @
     ''Host: '' @ host @ CRLF @
     USER_AGENT @ CRLF @
     ''Accept: text/html,application/xhtml+xml,application/xml;q=0.9,*/*;q=0.8'' @ CRLF @
     ''Accept-Language: en-US,en;q=0.9'' @ CRLF @
     ''Accept-Encoding: gzip, deflate, br'' @ CRLF @
     ''Cookie: '' @ AUTH_COOKIE @ ''='' @ token @ CRLF @
     ''Connection: keep-alive'' @ CRLF @
     CRLF)"

section \<open>Base 16\<close>

definition hex :: "bytes \<Rightarrow> string" where
  "hex bs = concat (map hex02 bs)"

definition unhex :: "nat \<Rightarrow> string \<Rightarrow> bytes option" where
  "unhex n s =
     (if length s \<noteq> n * 2 then None
      else those (map (\<lambda>i. Option.bind (str_get (i * 2) (i * 2 + 2) s) (from_str_radix 16)) [0..<n]))"

section \<open>Cookies\<close>

fun find_cookie :: "string \<Rightarrow> string list \<Rightarrow> string option" where
  "find_cookie name [] = None"
| "find_cookie name (pair # pairs) =
     (case split_once (CHR ''='') pair of
        None \<Rightarrow> find_cookie name pairs
      | Some (k, v) \<Rightarrow> if str_trim k = name then Some (str_trim v) else find_cookie name pairs)"

definition cookie_value :: "string \<Rightarrow> string \<Rightarrow> string option" where
  "cookie_value header name = find_cookie name (split_char (CHR '';'') header)"

section \<open>The admitter\<close>

record admitter =
  ad_key :: bytes
  ad_max_age :: duration
  ad_seen :: "(u64 \<times> bytes) list"

definition admitter_new :: "crypto_ops \<Rightarrow> string \<Rightarrow> admitter" where
  "admitter_new C password =
     \<lparr>ad_key = mac_sha256 C (replicate 32 0) [as_bytes ''kanrin-frontdoor'', as_bytes password],
      ad_max_age = from_secs 120, ad_seen = []\<rparr>"

definition compute :: "crypto_ops \<Rightarrow> admitter \<Rightarrow> u64 \<Rightarrow> bytes \<Rightarrow> bytes" where
  "compute C ad timestamp nonce = mac_sha256 C (ad_key ad) [as_bytes ''kanrin-admit'', be64 timestamp, nonce]"

definition mint :: "crypto_ops \<Rightarrow> entropy \<Rightarrow> u64 \<Rightarrow> admitter \<Rightarrow> string" where
  "mint C rnd now_secs ad =
     (let nonce = random_bytes_vec rnd 16; mac = compute C ad now_secs nonce
      in lower_hex (unat now_secs) @ '':'' @ hex nonce @ '':'' @ hex mac)"

definition as_secs :: "duration \<Rightarrow> nat" where
  "as_secs d = d div 1000000000"

text \<open>The authenticator a request carries, if it carries one at all.\<close>

definition request_token :: "request_head \<Rightarrow> (u64 \<times> bytes \<times> bytes) option" where
  "request_token head =
     (case cookie_value (case rh_header head ''cookie'' of None \<Rightarrow> [] | Some v \<Rightarrow> v) AUTH_COOKIE of
        None \<Rightarrow> None
      | Some token \<Rightarrow>
          (case split_char (CHR '':'') token of
             [ts, nonce, mac] \<Rightarrow>
               (case (from_str_radix 16 ts, unhex 16 nonce, unhex 32 mac) of
                  (Some timestamp, Some n, Some m) \<Rightarrow> Some (timestamp, n, m)
                | _ \<Rightarrow> None)
           | _ \<Rightarrow> None))"

definition admit :: "crypto_ops \<Rightarrow> request_head \<Rightarrow> u64 \<Rightarrow> admitter \<Rightarrow> admission \<times> admitter" where
  "admit C head now_secs ad =
     (case request_token head of
        None \<Rightarrow> (Web, ad)
      | Some (timestamp, nonce, mac) \<Rightarrow>
          if unat (abs_diff now_secs timestamp) > as_secs (ad_max_age ad) then (Web, ad)
          else if \<not> constant_time_eq (compute C ad timestamp nonce) mac then (Web, ad)
          else
            let seen = filter (\<lambda>(t, _). unat (abs_diff now_secs t) \<le> as_secs (ad_max_age ad)) (ad_seen ad) in
            if list_ex (\<lambda>(_, n). n = nonce) seen then (Web, ad\<lparr>ad_seen := seen\<rparr>)
            else (Tunnel, ad\<lparr>ad_seen := seen @ [(timestamp, nonce)]\<rparr>))"

section \<open>The response timer\<close>

record response_timer =
  rt_started :: instant
  rt_target :: duration

definition with_floor :: "instant \<Rightarrow> u64 \<Rightarrow> duration \<Rightarrow> duration \<Rightarrow> response_timer" where
  "with_floor now random floor_d jitter =
     (let extra = (if jitter = 0 then 0 else unat random mod max jitter 1)
      in \<lparr>rt_started = now, rt_target = floor_d + extra\<rparr>)"

definition timer_start :: "instant \<Rightarrow> u64 \<Rightarrow> response_timer" where
  "timer_start now random = with_floor now random RESPONSE_FLOOR RESPONSE_JITTER"

definition timer_remaining :: "instant \<Rightarrow> response_timer \<Rightarrow> duration" where
  "timer_remaining now t = rt_target t - elapsed now (rt_started t)"

text \<open>The instant at which \<open>wait\<close>, called at \<open>now\<close>, returns; a sleep never ends early.\<close>

definition timer_wait :: "instant \<Rightarrow> duration \<Rightarrow> response_timer \<Rightarrow> instant" where
  "timer_wait now oversleep t =
     (let remaining = timer_remaining now t in if remaining \<noteq> 0 then now + remaining + oversleep else now)"

section \<open>Base-16 round trips\<close>

lemma length_hex02 [simp]: "length (hex02 b) = 2"
  by (simp add: hex02_def)

lemma length_hex [simp]: "length (hex bs) = 2 * length bs"
  by (induction bs) (simp_all add: hex_def)

lemma hex_simps: "hex [] = []" "hex (b # bs) = hex02 b @ hex bs"
  by (simp_all add: hex_def)

lemma set_hex: "set (hex bs) \<subseteq> set ''0123456789abcdef''"
proof (induction bs)
  case (Cons b bs)
  have "unat b div 16 < 16" "unat b mod 16 < 16" using unat_lt [of b] by simp_all
  then have "set (hex02 b) \<subseteq> set ''0123456789abcdef''"
    unfolding hex02_def using hex_digit_cases by (simp del: list.set add: list.set(1,2))
  then show ?case using Cons by (simp only: hex_simps set_append Un_subset_iff)
qed (simp add: hex_def)

lemma slice_hex: "i < length bs \<Longrightarrow> slice (i * 2) (i * 2 + 2) (hex bs) = hex02 (bs ! i)"
proof (induction bs arbitrary: i)
  case (Cons b bs)
  show ?case
  proof (cases i)
    case 0
    then show ?thesis by (simp add: slice_def hex_simps)
  next
    case (Suc j)
    then have "slice (i * 2) (i * 2 + 2) (hex (b # bs)) = slice (j * 2) (j * 2 + 2) (hex bs)"
      by (simp add: slice_def hex_simps hex02_def)
    then show ?thesis using Cons Suc by simp
  qed
qed simp

lemma hex_char_not_cont: "c \<in> set ''0123456789abcdef'' \<Longrightarrow> \<not> utf8_cont (byte_of c)"
  by (auto simp: byte_of_def utf8_cont_def)

lemma hex_boundary: "is_char_boundary i (hex bs) \<longleftrightarrow> i \<le> length (hex bs)"
proof (cases "i < length (hex bs)")
  case True
  then have "\<not> utf8_cont (byte_of (hex bs ! i))"
    using set_hex [of bs] nth_mem [OF True] hex_char_not_cont by blast
  with True show ?thesis by (simp add: is_char_boundary_def)
qed (auto simp: is_char_boundary_def)

lemma those_map_Some: "(\<And>x. x \<in> set xs \<Longrightarrow> f x = Some (g x)) \<Longrightarrow> those (map f xs) = Some (map g xs)"
  by (induction xs) auto

lemma unhex_hex: "unhex (length bs) (hex bs) = Some bs"
proof -
  have "those (map (\<lambda>i. Option.bind (str_get (i * 2) (i * 2 + 2) (hex bs)) (from_str_radix 16)) [0..<length bs]) =
      Some (map (\<lambda>i. bs ! i) [0..<length bs])"
  proof (rule those_map_Some)
    fix i assume "i \<in> set [0..<length bs]"
    then have i: "i < length bs" by simp
    then have "str_get (i * 2) (i * 2 + 2) (hex bs) = Some (hex02 (bs ! i))"
      using slice_hex [OF i] by (simp only: str_get_def hex_boundary) simp
    then show "Option.bind (str_get (i * 2) (i * 2 + 2) (hex bs)) (from_str_radix 16) = Some (bs ! i)"
      by (simp add: from_str_radix_hex02)
  qed
  then show ?thesis by (simp add: unhex_def map_nth)
qed

lemma set_lower_hex: "set (lower_hex n) \<subseteq> set ''0123456789abcdef''"
proof (induction n rule: lower_hex.induct)
  case (1 n)
  have "hex_digit (n mod 16) \<in> set ''0123456789abcdef''" by (rule hex_digit_cases) simp
  moreover have "n < 16 \<Longrightarrow> hex_digit n \<in> set ''0123456789abcdef''" by (rule hex_digit_cases)
  ultimately show ?case using 1 by (subst lower_hex.simps) auto
qed

lemma lower_hex_not_Nil [simp]: "lower_hex n \<noteq> []"
  by (subst lower_hex.simps) simp

lemma from_str_radix_lower_hex: "from_str_radix 16 (lower_hex (unat w)) = Some (w :: 'a::len word)"
proof -
  have "hd (lower_hex (unat w)) \<in> set ''0123456789abcdef''"
    using set_lower_hex hd_in_set [OF lower_hex_not_Nil] by blast
  then have "hd (lower_hex (unat w)) \<noteq> CHR ''+''" by auto
  then show ?thesis using unat_lt [of w] by (simp add: from_str_radix_def digits_value_lower_hex)
qed

section \<open>Single use\<close>

definition max_age_secs :: "admitter \<Rightarrow> nat" where
  "max_age_secs ad = as_secs (ad_max_age ad)"

lemma admit_Tunnel_iff:
  "fst (admit C head now ad) = Tunnel \<longleftrightarrow>
     (\<exists>t n. request_token head = Some (t, n, compute C ad t n) \<and> unat (abs_diff now t) \<le> max_age_secs ad \<and>
        (\<forall>t'. (t', n) \<in> set (ad_seen ad) \<longrightarrow> \<not> unat (abs_diff now t') \<le> max_age_secs ad))"
  unfolding admit_def max_age_secs_def by (auto simp: Let_def list_ex_iff split: option.splits)

lemma admit_keeps: "ad_key (snd (admit C head now ad)) = ad_key ad" "ad_max_age (snd (admit C head now ad)) = ad_max_age ad"
  by (auto simp: admit_def Let_def split: option.splits)

lemma admit_compute [simp]: "compute C (snd (admit C head now ad)) = compute C ad"
  by (simp add: compute_def [abs_def] admit_keeps)

text \<open>An entry is dropped only when its timestamp is out of the window.\<close>

lemma admit_seen:
  assumes "(t, n) \<in> set (ad_seen ad)" and "unat (abs_diff now t) \<le> max_age_secs ad"
  shows "(t, n) \<in> set (ad_seen (snd (admit C head now ad)))"
  using assms by (auto simp: admit_def max_age_secs_def Let_def split: option.splits)

lemma admit_Tunnel_seen:
  assumes "fst (admit C head now ad) = Tunnel" and "request_token head = Some (t, n, m)"
  shows "(t, n) \<in> set (ad_seen (snd (admit C head now ad)))"
  using assms by (auto simp: admit_def Let_def split: if_splits)

text \<open>A run of requests, each with the time at which it is examined.\<close>

primrec admit_run :: "crypto_ops \<Rightarrow> (request_head \<times> u64) list \<Rightarrow> admitter \<Rightarrow> admitter" where
  "admit_run C [] ad = ad"
| "admit_run C (e # es) ad = admit_run C es (snd (admit C (fst e) (snd e) ad))"

lemma admit_run_keeps:
  "ad_max_age (admit_run C es ad) = ad_max_age ad" "compute C (admit_run C es ad) = compute C ad"
  by (induction es arbitrary: ad) (simp_all add: admit_keeps)

text \<open>What keeps a spent authenticator out: its nonce is remembered, or its time has passed.\<close>

definition spent :: "u64 \<Rightarrow> bytes \<Rightarrow> u64 \<Rightarrow> admitter \<Rightarrow> bool" where
  "spent t n now ad \<longleftrightarrow> (t, n) \<in> set (ad_seen ad) \<or> unat t + max_age_secs ad < unat now"

lemma spent_later:
  assumes "spent t n now ad" and "now \<le> now'" and "unat t \<le> unat now + max_age_secs ad"
  shows "spent t n now' (snd (admit C head now' ad))"
proof (cases "unat t + max_age_secs ad < unat now'")
  case True
  then show ?thesis by (simp add: spent_def max_age_secs_def admit_keeps)
next
  case False
  have "(t, n) \<in> set (ad_seen ad)" using assms(1,2) False by (auto simp: spent_def word_le_nat_alt)
  moreover have "unat (abs_diff now' t) \<le> max_age_secs ad"
    using False assms(2,3) by (auto simp: unat_abs_diff word_le_nat_alt)
  ultimately show ?thesis using admit_seen by (simp add: spent_def)
qed

lemma spent_run:
  "spent t n now ad \<Longrightarrow> unat t \<le> unat now + max_age_secs ad \<Longrightarrow> sorted (now # map snd es) \<Longrightarrow>
   spent t n (last (now # map snd es)) (admit_run C es ad)"
proof (induction es arbitrary: now ad)
  case (Cons e es)
  have le: "now \<le> snd e" "sorted (snd e # map snd es)" using Cons.prems(3) by simp_all
  have "spent t n (snd e) (snd (admit C (fst e) (snd e) ad))" using Cons.prems(1) le(1) Cons.prems(2) by (rule spent_later)
  moreover have "unat t \<le> unat (snd e) + max_age_secs (snd (admit C (fst e) (snd e) ad))"
    using Cons.prems(2) le(1) by (simp add: max_age_secs_def admit_keeps word_le_nat_alt)
  ultimately show ?case using Cons.IH le(2) by simp
qed simp

lemma spent_rejected:
  assumes "spent t n now ad" and "now \<le> now'" and "unat t \<le> unat now + max_age_secs ad"
    and "request_token head = Some (t, n, m)"
  shows "fst (admit C head now' ad) = Web"
proof -
  have "fst (admit C head now' ad) \<noteq> Tunnel"
  proof
    assume "fst (admit C head now' ad) = Tunnel"
    then have a: "unat (abs_diff now' t) \<le> max_age_secs ad"
      "\<forall>t'. (t', n) \<in> set (ad_seen ad) \<longrightarrow> \<not> unat (abs_diff now' t') \<le> max_age_secs ad"
      using assms(4) unfolding admit_Tunnel_iff by auto
    then have "unat t + max_age_secs ad < unat now" using assms(1) by (auto simp: spent_def)
    then show False using a(1) assms(2) by (auto simp: unat_abs_diff word_le_nat_alt split: if_splits)
  qed
  then show ?thesis by (cases "fst (admit C head now' ad)") auto
qed

section \<open>The admission request\<close>

definition admission_lines :: "string \<Rightarrow> string \<Rightarrow> string list" where
  "admission_lines host token =
     [''Host: '' @ host, USER_AGENT,
      ''Accept: text/html,application/xhtml+xml,application/xml;q=0.9,*/*;q=0.8'',
      ''Accept-Language: en-US,en;q=0.9'', ''Accept-Encoding: gzip, deflate, br'',
      ''Cookie: '' @ AUTH_COOKIE @ ''='' @ token, ''Connection: keep-alive'']"

lemma admission_request_lines:
  "admission_request host target token =
     as_bytes (join_lines ((''GET'' @ '' '' @ target @ '' '' @ ''HTTP/1.1'') # admission_lines host token)) @ blank_line"
  by (simp add: admission_request_def admission_lines_def byte_of_crlf)

text \<open>The characters of a token: base 16 and the colon.\<close>

definition token_chars :: "string \<Rightarrow> bool" where
  "token_chars s \<longleftrightarrow> set s \<subseteq> set ''0123456789abcdef:''"

lemma token_chars_plain: "c \<in> set ''0123456789abcdef:'' \<Longrightarrow> plain_byte (byte_of c) \<and> byte_of c < 0x80"
  by (auto simp: byte_of_def plain_byte_def)

lemma token_chars_not: "token_chars s \<Longrightarrow> CR \<notin> set s \<and> CHR '';'' \<notin> set s \<and> CHR ''='' \<notin> set s \<and> CHR '' '' \<notin> set s"
  by (auto simp: token_chars_def)

lemma token_chars_ends:
  assumes "token_chars s" and "s \<noteq> []"
  shows "plain_byte (byte_of (hd s))" and "plain_byte (byte_of (last s))"
proof -
  have "hd s \<in> set ''0123456789abcdef:''" "last s \<in> set ''0123456789abcdef:''"
    using assms hd_in_set [of s] last_in_set [of s] unfolding token_chars_def by blast+
  then show "plain_byte (byte_of (hd s))" "plain_byte (byte_of (last s))"
    using token_chars_plain by blast+
qed

lemma token_chars_trim: "token_chars s \<Longrightarrow> s \<noteq> [] \<Longrightarrow> str_trim s = s"
  using token_chars_ends by (intro str_trim_plain)

lemma token_chars_is_str: "token_chars s \<Longrightarrow> is_str s"
  using token_chars_plain by (intro is_str_ascii) (auto simp: token_chars_def simp del: insert_iff list.set)

lemma parse_headers_line:
  assumes "CHR '':'' \<notin> set name" and "CHR '' '' \<notin> set name" and "name \<noteq> []"
  shows "parse_headers ((name @ '': '' @ val) # ls) m = parse_headers ls (hm_insert (to_ascii_lowercase name) (str_trim val) m)"
proof -
  have "split_once (CHR '':'') (name @ CHR '':'' # CHR '' '' # val) = Some (name, CHR '' '' # val)"
    using assms(1) by (rule split_once_prefix)
  then show ?thesis using assms(2,3) by simp
qed

lemma lowercase_literals:
  "to_ascii_lowercase ''Host'' = ''host''" "to_ascii_lowercase ''User-Agent'' = ''user-agent''"
  "to_ascii_lowercase ''Accept'' = ''accept''" "to_ascii_lowercase ''Accept-Language'' = ''accept-language''"
  "to_ascii_lowercase ''Accept-Encoding'' = ''accept-encoding''" "to_ascii_lowercase ''Cookie'' = ''cookie''"
  "to_ascii_lowercase ''Connection'' = ''connection''"
  by code_simp+

lemma admission_headers:
  assumes "token_chars token" and "token \<noteq> []"
  obtains m where "parse_headers (admission_lines host token) [] = Ok m" and "hm_wf m"
    and "hm_get m ''cookie'' = Some (''sid='' @ token)" and "hm_get m ''content-length'' = None"
proof -
  let ?ua = "''Mozilla/5.0 (Windows NT 10.0; Win64; x64) AppleWebKit/537.36 (KHTML, like Gecko) Chrome/131.0.0.0 Safari/537.36''"
  let ?acc = "''text/html,application/xhtml+xml,application/xml;q=0.9,*/*;q=0.8''"
  define m6 where "m6 = hm_insert ''accept-encoding'' (str_trim ''gzip, deflate, br'')
    (hm_insert ''accept-language'' (str_trim ''en-US,en;q=0.9'') (hm_insert ''accept'' (str_trim ?acc)
    (hm_insert ''user-agent'' (str_trim ?ua) (hm_insert ''host'' (str_trim host) []))))"
  define m where "m = hm_insert ''connection'' (str_trim ''keep-alive'') (hm_insert ''cookie'' (str_trim (''sid='' @ token)) m6)"
  have lines: "admission_lines host token = [''Host'' @ '': '' @ host, ''User-Agent'' @ '': '' @ ?ua,
    ''Accept'' @ '': '' @ ?acc, ''Accept-Language'' @ '': '' @ ''en-US,en;q=0.9'',
    ''Accept-Encoding'' @ '': '' @ ''gzip, deflate, br'', ''Cookie'' @ '': '' @ ''sid='' @ token,
    ''Connection'' @ '': '' @ ''keep-alive'']"
    by (simp add: admission_lines_def USER_AGENT_def AUTH_COOKIE_def)
  have "parse_headers (admission_lines host token) [] = parse_headers [] m"
    unfolding lines m_def m6_def
    by (subst parse_headers_line, simp, simp, simp)+ (simp only: lowercase_literals)
  then have p: "parse_headers (admission_lines host token) [] = Ok m" by simp
  have wf6: "hm_wf m6" unfolding m6_def by (intro hmap.invar_insert hm_wf_Nil)
  then have wf: "hm_wf m" unfolding m_def by (intro hmap.invar_insert)
  have "str_trim (''sid='' @ token) = ''sid='' @ token"
  proof (rule str_trim_plain)
    show "plain_byte (byte_of (hd (''sid='' @ token)))" by (simp add: plain_byte_def byte_of_def)
    show "plain_byte (byte_of (last (''sid='' @ token)))" using assms token_chars_ends(2) by simp
  qed simp
  then have "hm_get m ''cookie'' = Some (''sid='' @ token)"
    unfolding m_def using wf6 by (simp add: hmap.lookup_insert hmap.invar_insert)
  moreover have "hm_get m ''content-length'' = None"
    unfolding m_def m6_def by (simp add: hmap.lookup_insert hmap.invar_insert)
  ultimately show thesis by (rule that [OF p wf])
qed

definition head_text :: "string \<Rightarrow> string \<Rightarrow> bool" where
  "head_text host target \<longleftrightarrow>
     is_str host \<and> is_str target \<and> CR \<notin> set host \<and> CR \<notin> set target \<and> CHR '' '' \<notin> set target \<and> target \<noteq> []"

lemma admission_request_parse:
  assumes h: "head_text host target" and tok: "token_chars token" "token \<noteq> []"
    and len: "length (admission_request host target token) \<le> MAX_HEAD_BYTES"
  obtains head where "request_head_parse (admission_request host target token) = Ok head"
    and "rh_method head = ''GET''" and "rh_target head = target" and "rh_raw head = admission_request host target token"
    and "rh_header head ''cookie'' = Some (''sid='' @ token)" and "content_length head = None"
proof -
  obtain m where m: "parse_headers (admission_lines host token) [] = Ok m" "hm_get m ''cookie'' = Some (''sid='' @ token)"
    "hm_get m ''content-length'' = None"
    by (rule admission_headers [OF tok])
  let ?ls = "admission_lines host token"
  have ok: "\<forall>l\<in>set ?ls. line_ok l"
    using h token_chars_not [OF tok(1)] by (simp add: admission_lines_def line_ok_def USER_AGENT_def AUTH_COOKIE_def head_text_def)
  have ascii: "is_str ''Host: ''" "is_str USER_AGENT" "is_str ''Cookie: sid=''" "is_str ''GET ''" "is_str '' HTTP/1.1''"
    "is_str ''Accept: text/html,application/xhtml+xml,application/xml;q=0.9,*/*;q=0.8''" "is_str ''Connection: keep-alive''"
    "is_str ''Accept-Language: en-US,en;q=0.9''" "is_str ''Accept-Encoding: gzip, deflate, br''"
    by (rule is_str_ascii, code_simp)+
  have "is_str l" if "l \<in> set ?ls" for l
  proof -
    have "is_str (''Host: '' @ host)" "is_str (''Cookie: sid='' @ token)"
      using h ascii(1,3) token_chars_is_str [OF tok(1)] by (auto simp only: head_text_def intro!: is_str_append)
    then show ?thesis using that ascii unfolding admission_lines_def AUTH_COOKIE_def by auto
  qed
  moreover have "is_str (''GET '' @ target @ '' HTTP/1.1'')"
    using h ascii(4,5) by (auto simp only: head_text_def intro!: is_str_append)
  ultimately have str: "is_str (join_lines ((''GET'' @ '' '' @ target @ '' '' @ ''HTTP/1.1'') # ?ls))"
    by (intro is_str_join) simp
  have l: "line_ok (''GET'' @ '' '' @ target @ '' '' @ ''HTTP/1.1'')" using h by (simp add: line_ok_def head_text_def)
  have len': "length (join_lines ((''GET'' @ '' '' @ target @ '' '' @ ''HTTP/1.1'') # ?ls)) + 4 \<le> MAX_HEAD_BYTES"
    using len unfolding admission_request_lines length_append length_as_bytes by (simp only: list.size)
  have "request_head_parse (admission_request host target token) =
    Ok \<lparr>rh_method = ''GET'', rh_target = target, rh_version = ''HTTP/1.1'', rh_headers = m,
        rh_head_len = length (join_lines ((''GET'' @ '' '' @ target @ '' '' @ ''HTTP/1.1'') # ?ls)) + 4,
        rh_raw = admission_request host target token\<rparr>"
    unfolding admission_request_lines
    by (rule parse_lines [OF l ok _ _ _ _ _ _ str m(1) len']) (use h in \<open>simp_all add: head_text_def\<close>)
  then show thesis using m(2,3) by (intro that) (auto simp: rh_header_def content_length_def)
qed

lemma length_compute: "hmac_lawful C \<Longrightarrow> length (compute C ad t n) = 32"
  by (simp add: compute_def mac_sha256_def hmac_lawful_def)

lemma set_sep_subset: "set a \<subseteq> H \<Longrightarrow> c \<in> H \<Longrightarrow> set b \<subseteq> H \<Longrightarrow> set d \<subseteq> H \<Longrightarrow> set (a @ c # b @ c # d) \<subseteq> H"
  by simp

lemma mint_token:
  assumes "hmac_lawful C"
  shows "token_chars (mint C rnd t ad)" and "mint C rnd t ad \<noteq> []"
    and "\<And>head. rh_header head ''cookie'' = Some (''sid='' @ mint C rnd t ad) \<Longrightarrow>
      request_token head = Some (t, random_bytes_vec rnd 16, compute C ad t (random_bytes_vec rnd 16))"
proof -
  let ?n = "random_bytes_vec rnd 16" and ?ts = "lower_hex (unat t)"
  let ?m = "compute C ad t ?n"
  have sub: "set ?ts \<subseteq> set ''0123456789abcdef''" "set (hex ?n) \<subseteq> set ''0123456789abcdef''" "set (hex ?m) \<subseteq> set ''0123456789abcdef''"
    using set_lower_hex set_hex by blast+
  have mint: "mint C rnd t ad = ?ts @ CHR '':'' # hex ?n @ CHR '':'' # hex ?m" by (simp add: mint_def Let_def)
  have big: "set ''0123456789abcdef'' \<subseteq> set ''0123456789abcdef:''" "CHR '':'' \<in> set ''0123456789abcdef:''" by simp_all
  have nocolon: "CHR '':'' \<notin> set ''0123456789abcdef''" by simp
  show tc: "token_chars (mint C rnd t ad)"
    unfolding mint token_chars_def
    by (rule set_sep_subset [OF order_trans [OF sub(1) big(1)] big(2) order_trans [OF sub(2) big(1)] order_trans [OF sub(3) big(1)]])
  show ne: "mint C rnd t ad \<noteq> []" by (simp add: mint)
  have no: "CHR '':'' \<notin> set ?ts" "CHR '':'' \<notin> set (hex ?n)" "CHR '':'' \<notin> set (hex ?m)"
    using contra_subsetD [OF sub(1) nocolon] contra_subsetD [OF sub(2) nocolon] contra_subsetD [OF sub(3) nocolon] .
  have parts: "split_char (CHR '':'') (mint C rnd t ad) = [?ts, hex ?n, hex ?m]"
    unfolding mint using split_char_prefix [OF no(1)] split_char_prefix [OF no(2)] split_char_single [OF no(3)] by simp
  have un: "unhex 16 (hex ?n) = Some ?n" "unhex 32 (hex ?m) = Some ?m"
    using unhex_hex [of ?n] unhex_hex [of ?m] length_compute [OF assms] by simp_all
  fix head assume c: "rh_header head ''cookie'' = Some (''sid='' @ mint C rnd t ad)"
  have "CHR '';'' \<notin> set (''sid='' @ mint C rnd t ad)" using token_chars_not [OF tc] by simp
  then have sc: "split_char (CHR '';'') (''sid='' @ mint C rnd t ad) = [''sid='' @ mint C rnd t ad]"
    by (rule split_char_single)
  have so: "split_once (CHR ''='') (''sid='' @ mint C rnd t ad) = Some (''sid'', mint C rnd t ad)"
    using split_once_prefix [of "CHR ''=''" "''sid''" "mint C rnd t ad"] by simp
  have "str_trim ''sid'' = ''sid''" by code_simp
  then have "cookie_value (''sid='' @ mint C rnd t ad) AUTH_COOKIE = Some (mint C rnd t ad)"
    unfolding cookie_value_def sc AUTH_COOKIE_def
    by (simp only: find_cookie.simps so option.case prod.case token_chars_trim [OF tc ne]) simp
  then show "request_token head = Some (t, ?n, ?m)"
    unfolding request_token_def c option.case by (simp add: parts un from_str_radix_lower_hex)
qed

section \<open>Properties\<close>

definition demo_admitter :: admitter where
  "demo_admitter = admitter_new demo_crypto ''pw''"

lemma demo_admitter_simps: "max_age_secs demo_admitter = 120" "ad_seen demo_admitter = []"
  by (simp_all add: demo_admitter_def admitter_new_def max_age_secs_def as_secs_def from_secs_def)

definition demo_request :: bytes where
  "demo_request = admission_request ''a.b'' ''/'' (mint demo_crypto (\<lambda>_. 7) 1000 demo_admitter)"

text \<open>The client's entry request opens the tunnel. Whatever host and target it names, as long as
  they fit a request line, the server's parser reads it as the GET it is, byte for byte, and
  the admitter recognises the minted authenticator if it comes within the accepted clock skew
  and its nonce has not been used.\<close>

lemma admission_request_admits:
  assumes "hmac_lawful C" and "head_text host target"
    and "length (admission_request host target (mint C rnd t ad)) \<le> MAX_HEAD_BYTES"
    and "unat (abs_diff now t) \<le> max_age_secs ad" and "\<forall>t'. (t', random_bytes_vec rnd 16) \<notin> set (ad_seen ad)"
  shows "\<exists>head. request_head_parse (admission_request host target (mint C rnd t ad)) = Ok head \<and>
    rh_method head = ''GET'' \<and> rh_target head = target \<and>
    rh_raw head = admission_request host target (mint C rnd t ad) \<and> fst (admit C head now ad) = Tunnel"
proof -
  note tok = mint_token [OF assms(1)]
  obtain head where h: "request_head_parse (admission_request host target (mint C rnd t ad)) = Ok head"
    "rh_method head = ''GET''" "rh_target head = target" "rh_raw head = admission_request host target (mint C rnd t ad)"
    "rh_header head ''cookie'' = Some (''sid='' @ mint C rnd t ad)"
    by (rule admission_request_parse [OF assms(2) tok(1,2) assms(3)])
  have "fst (admit C head now ad) = Tunnel"
    using tok(3) [OF h(5)] assms(4,5) by (auto simp: admit_Tunnel_iff)
  with h show ?thesis by blast
qed

lemma demo_head_text: "head_text ''a.b'' ''/''"
proof -
  have "is_str ''a.b''" "is_str ''/''" by code_simp+
  then show ?thesis by (simp add: head_text_def)
qed

lemma demo_request_length: "length demo_request \<le> MAX_HEAD_BYTES"
proof -
  have h: "lower_hex (unat (1000 :: u64)) = ''3e8''" by code_simp
  have "length (mint demo_crypto (\<lambda>_. 7) 1000 demo_admitter) = 101"
    unfolding mint_def Let_def h length_append length_hex length_compute [OF demo_hmac_lawful] by simp
  then show ?thesis
    unfolding demo_request_def admission_request_def length_as_bytes length_append
    by (simp add: USER_AGENT_def AUTH_COOKIE_def MAX_HEAD_BYTES_def)
qed

text \<open>C10. An authenticator opens the tunnel at most once. After a request that was admitted, and
  whatever requests follow, as long as the server's clock does not run backwards, no request
  presenting the same authenticator is admitted again, however its cookie spells it.\<close>

theorem admit_single_use:
  assumes "fst (admit C head now ad) = Tunnel" and "request_token again = request_token head"
    and "sorted (now # map snd es @ [now'])"
  shows "fst (admit C again now' (admit_run C es (snd (admit C head now ad)))) = Web"
proof -
  obtain t n where tok: "request_token head = Some (t, n, compute C ad t n)" "unat (abs_diff now t) \<le> max_age_secs ad"
    using assms(1) unfolding admit_Tunnel_iff by blast
  let ?ad1 = "snd (admit C head now ad)"
  have age: "max_age_secs ?ad1 = max_age_secs ad" "max_age_secs (admit_run C es ?ad1) = max_age_secs ad"
    by (simp_all add: max_age_secs_def admit_keeps admit_run_keeps)
  have near: "unat t \<le> unat now + max_age_secs ad" using tok(2) by (auto simp: unat_abs_diff split: if_splits)
  have "spent t n now ?ad1" using admit_Tunnel_seen [OF assms(1) tok(1)] by (simp add: spent_def)
  moreover have "sorted (now # map snd es)" using assms(3) by (simp add: sorted_append)
  ultimately have sp: "spent t n (last (now # map snd es)) (admit_run C es ?ad1)"
    using near age(1) by (intro spent_run) simp_all
  have mem: "last (now # map snd es) \<in> set (now # map snd es)" by (rule last_in_set) simp
  have le: "last (now # map snd es) \<le> now'" "now \<le> last (now # map snd es)"
    using assms(3) mem by (auto simp: sorted_append simp del: last.simps)
  have "unat t \<le> unat (last (now # map snd es)) + max_age_secs (admit_run C es ?ad1)"
    using near age(2) le(2) by (simp add: word_le_nat_alt)
  from spent_rejected [OF sp le(1) this] show ?thesis using assms(2) tok(1) by simp
qed

lemma demo_admission:
  "\<exists>head. request_head_parse demo_request = Ok head \<and> fst (admit demo_crypto head 1000 demo_admitter) = Tunnel"
proof -
  let ?tok = "mint demo_crypto (\<lambda>_. 7) 1000 demo_admitter"
  note tok = mint_token [OF demo_hmac_lawful, where rnd = "\<lambda>_. 7" and t = 1000 and ad = demo_admitter]
  obtain head where h: "request_head_parse demo_request = Ok head" "rh_header head ''cookie'' = Some (''sid='' @ ?tok)"
    using admission_request_parse [OF demo_head_text tok(1,2) demo_request_length [unfolded demo_request_def]]
    unfolding demo_request_def by blast
  have "fst (admit demo_crypto head 1000 demo_admitter) = Tunnel"
    using tok(3) [OF h(2)] by (auto simp: admit_Tunnel_iff demo_admitter_simps unat_abs_diff)
  with h(1) show ?thesis by blast
qed

theorem admit_single_use_witness:
  "\<exists>head. request_head_parse demo_request = Ok head \<and>
     fst (admit demo_crypto head 1005 (snd (admit demo_crypto head 1000 demo_admitter))) = Web"
proof -
  obtain head where "request_head_parse demo_request = Ok head" "fst (admit demo_crypto head 1000 demo_admitter) = Tunnel"
    using demo_admission by blast
  with admit_single_use [of demo_crypto head 1000 demo_admitter head "[]" 1005] show ?thesis by auto
qed

text \<open>What the admitter checks, exactly: a request is admitted if and only if its cookie parses to
  a timestamp, a nonce and a tag such that the tag is the keyed digest of the other two, the
  timestamp is within the clock skew, and no remembered use of the nonce is still inside it.
  In every other case the answer is the one an ordinary visitor gets.\<close>

lemma admit_exact:
  "fst (admit C head now ad) =
     (if \<exists>t n. request_token head = Some (t, n, mac_sha256 C (ad_key ad) [as_bytes ''kanrin-admit'', be64 t, n]) \<and>
          unat (abs_diff now t) \<le> as_secs (ad_max_age ad) \<and>
          (\<forall>t'. (t', n) \<in> set (ad_seen ad) \<longrightarrow> as_secs (ad_max_age ad) < unat (abs_diff now t'))
      then Tunnel else Web)"
  using admit_Tunnel_iff [of C head now ad]
  by (cases "fst (admit C head now ad)") (auto simp: compute_def max_age_secs_def not_le)

text \<open>Every response keeps to the floor: a response started at \<open>start\<close> and waited for at any later
  time goes out no earlier than 25 ms after \<open>start\<close>; if the work took less than that, the
  delay is below 40 ms up to what the sleep overruns, independent of the work.\<close>

lemma response_floor:
  assumes "start \<le> now"
  shows "start + RESPONSE_FLOOR \<le> timer_wait now oversleep (timer_start start random) \<and>
    (now < start + RESPONSE_FLOOR \<longrightarrow>
       timer_wait now oversleep (timer_start start random) = start + rt_target (timer_start start random) + oversleep \<and>
       rt_target (timer_start start random) < RESPONSE_FLOOR + RESPONSE_JITTER)"
proof -
  have "unat random mod RESPONSE_JITTER < RESPONSE_JITTER"
    by (simp add: RESPONSE_JITTER_def from_millis_def)
  then show ?thesis using assms
    by (auto simp: timer_wait_def timer_remaining_def timer_start_def with_floor_def elapsed_def Let_def max_def
        RESPONSE_JITTER_def from_millis_def)
qed

end
