(* ===== verification/Server_Origin.thy ===== *)
theory Server_Origin
  imports Server_Http
begin

text \<open>
  \<open>kanrin-server/src/origin.rs\<close> and the part of \<open>config.rs\<close> that selects the origin: where the
  front door's content comes from. The upstream server is a function from the bytes it is
  sent to the results of the reads that follow within the timeout (or the connection error);
  the file system is the pair of arguments \<open>files\<close> and \<open>is_dir\<close>.
\<close>

definition MAX_UPSTREAM_BYTES :: nat where "MAX_UPSTREAM_BYTES = 8 * 1024 * 1024"

datatype origin = Upstream string | Static path string | Empty

record server_config =
  sc_listen :: string
  sc_password :: string
  sc_tls_cert :: path
  sc_tls_key :: path
  sc_max_clients :: nat
  sc_log_level :: string
  sc_subnet :: string
  sc_dns :: "string list"
  sc_upstream :: "string option"
  sc_site_root :: "path option"
  sc_server_banner :: string

text \<open>The values of the fields that a configuration file leaves out; the two paths of the origin
  default to \<open>None\<close>.\<close>

definition default_listen :: string where "default_listen = ''0.0.0.0:443''"

definition default_max_clients :: nat where "default_max_clients = 256"

definition default_log_level :: string where "default_log_level = ''info''"

definition default_subnet :: string where "default_subnet = ''10.10.0.0/24''"

definition default_dns :: "string list" where "default_dns = [''1.1.1.1'', ''8.8.8.8'']"

definition default_server_banner :: string where "default_server_banner = ''nginx''"

definition config_origin :: "server_config \<Rightarrow> origin" where
  "config_origin c =
     (case (sc_upstream c, sc_site_root c) of
        (Some addr, _) \<Rightarrow> Upstream addr
      | (None, Some root) \<Rightarrow> Static root (sc_server_banner c)
      | (None, None) \<Rightarrow> Empty)"

section \<open>Framing of an upstream response\<close>

fun find_content_length :: "string list \<Rightarrow> nat option" where
  "find_content_length [] = None"
| "find_content_length (line # lines) =
     (case split_once (CHR '':'') line of
        None \<Rightarrow> find_content_length lines
      | Some (name, val) \<Rightarrow>
          if eq_ignore_ascii_case name ''content-length''
          then (case parse_usize (str_trim val) of None \<Rightarrow> find_content_length lines | Some n \<Rightarrow> Some n)
          else find_content_length lines)"

text \<open>The sum of the two lengths is one of \<open>usize\<close>, and the second is the upstream's: it wraps (a build with
  overflow checks panics there).\<close>

definition usize_add :: "nat \<Rightarrow> nat \<Rightarrow> nat" where
  "usize_add m n = unat (word_of_nat m + word_of_nat n :: u64)"

definition complete_response_len :: "bytes \<Rightarrow> nat option" where
  "complete_response_len buf =
     Option.bind (map_option (\<lambda>p. p + 4) (find_window blank_line buf)) (\<lambda>head_end.
     Option.bind (from_utf8 (take head_end buf)) (\<lambda>head.
     Option.bind (find_content_length (split_crlf head)) (\<lambda>len.
       if length buf \<ge> usize_add head_end len then Some (usize_add head_end len) else None)))"

datatype read_result = ReadOk bytes | ReadErr string

text \<open>The read loop. A read of no bytes is the end of the stream; when no further read completes
  in time, the whole fetch times out.\<close>

fun fetch_loop :: "read_result list \<Rightarrow> bytes \<Rightarrow> string + bytes" where
  "fetch_loop [] response = Err ''upstream timed out''"
| "fetch_loop (ReadErr e # reads) response = Err e"
| "fetch_loop (ReadOk buf # reads) response =
     (if buf = [] then Ok response
      else let response' = response @ buf in
        if length response' \<ge> MAX_UPSTREAM_BYTES then Ok response'
        else case complete_response_len response' of
          Some n \<Rightarrow> Ok (take n response')
        | None \<Rightarrow> fetch_loop reads response')"

definition fetch_upstream ::
  "(string \<Rightarrow> bytes \<Rightarrow> string + read_result list) \<Rightarrow> string \<Rightarrow> request_head \<Rightarrow> bytes \<Rightarrow> string + bytes" where
  "fetch_upstream upstream addr head body =
     and_then (upstream addr (rh_raw head @ (if body \<noteq> [] then body else []))) (\<lambda>reads. fetch_loop reads [])"

section \<open>Responses\<close>

fun path_string :: "path \<Rightarrow> string" where
  "path_string [] = []"
| "path_string [c] = c"
| "path_string (c # cs) = c @ ''/'' @ path_string cs"

definition serve_static ::
  "(path \<Rightarrow> bytes option) \<Rightarrow> (path \<Rightarrow> bool) \<Rightarrow> path \<Rightarrow> request_head \<Rightarrow> string \<Rightarrow> bytes" where
  "serve_static files is_dir root head banner =
     (let not_found = response_encode (rs_header ''Content-Type'' ''text/html'' (rs_header ''Server'' banner response_not_found)) in
      case resolve_path is_dir root (rh_path head) of
        None \<Rightarrow> not_found
      | Some path \<Rightarrow>
          (case files path of
             Some contents \<Rightarrow>
               response_encode (rs_with_body contents
                 (rs_header ''Content-Type'' (content_type_for (path_string path))
                    (rs_header ''Server'' banner (response_new 200 ''OK''))))
           | None \<Rightarrow> not_found))"

fun respond ::
  "(string \<Rightarrow> bytes \<Rightarrow> string + read_result list) \<Rightarrow> (path \<Rightarrow> bytes option) \<Rightarrow> (path \<Rightarrow> bool) \<Rightarrow>
     origin \<Rightarrow> request_head \<Rightarrow> bytes \<Rightarrow> bytes" where
  "respond upstream files is_dir (Upstream addr) head body =
     (case fetch_upstream upstream addr head body of
        Inr bs \<Rightarrow> bs
      | Inl _ \<Rightarrow> response_encode (response_new 502 ''Bad Gateway''))"
| "respond upstream files is_dir (Static root banner) head body = serve_static files is_dir root head banner"
| "respond upstream files is_dir Empty head body =
     response_encode (rs_header ''Content-Type'' ''text/html'' (rs_header ''Server'' ''nginx'' (response_new 404 ''Not Found'')))"

section \<open>Lemmas on framing\<close>

lemma usize_add_mod: "usize_add m n = (m + n) mod 2 ^ 64"
  by (simp add: usize_add_def unat_word_ariths unat_of_nat mod_simps)

text \<open>Where the first response in a buffer says it ends: its head is complete and names a length.\<close>

definition response_ends :: "bytes \<Rightarrow> nat \<Rightarrow> bool" where
  "response_ends buf n \<longleftrightarrow>
     (\<exists>p h len. find_window blank_line buf = Some p \<and> from_utf8 (take (p + 4) buf) = Some h \<and>
        find_content_length (split_crlf h) = Some len \<and> n = p + 4 + len)"

lemma complete_iff:
  "complete_response_len buf = Some m \<longleftrightarrow> (\<exists>n. response_ends buf n \<and> m = n mod 2 ^ 64 \<and> m \<le> length buf)"
  unfolding complete_response_len_def response_ends_def by (auto simp: bind_eq_Some_conv usize_add_mod split: if_splits)

text \<open>What the head says does not depend on what follows it.\<close>

lemma response_ends_append:
  assumes "response_ends buf n"
  shows "response_ends (buf @ rest) n"
proof -
  obtain p h len where c: "find_window blank_line buf = Some p" "from_utf8 (take (p + 4) buf) = Some h"
    "find_content_length (split_crlf h) = Some len" "n = p + 4 + len"
    using assms by (auto simp: response_ends_def)
  have "p + 4 \<le> length buf" using find_window_Some [OF c(1)] by simp
  then have "take (p + 4) (buf @ rest) = take (p + 4) buf" by (rule take_app_le)
  then show ?thesis unfolding response_ends_def using find_window_append [OF c(1), of rest] c by auto
qed

lemma response_ends_unique: "response_ends buf n \<Longrightarrow> response_ends buf m \<Longrightarrow> m = n"
  by (auto simp: response_ends_def)

lemma complete_append:
  assumes "complete_response_len buf = Some n"
  shows "complete_response_len (buf @ rest) = Some n"
  using assms response_ends_append unfolding complete_iff by fastforce

lemma find_content_length_small: "find_content_length ls = Some n \<Longrightarrow> n < 2 ^ 64"
proof (induction ls)
  case (Cons l ls)
  then show ?case
    using unat_lt [where 'a = 64] by (auto simp: parse_usize_def split: option.splits prod.splits if_splits)
qed simp

text \<open>A length that takes the end over \<open>2 ^ 64\<close> leaves an end inside the head.\<close>

lemma response_ends_overflow:
  assumes "response_ends buf n" and "2 ^ 64 \<le> n" and "length buf < 2 ^ 64"
  shows "complete_response_len buf = Some (n - 2 ^ 64)"
proof -
  obtain p h len where c: "find_window blank_line buf = Some p" "find_content_length (split_crlf h) = Some len" "n = p + 4 + len"
    using assms(1) by (auto simp: response_ends_def)
  have "p + 4 \<le> length buf" using find_window_Some [OF c(1)] by simp
  moreover from this have "n - 2 ^ 64 < p + 4" using find_content_length_small [OF c(2)] c(3) assms(2) by linarith
  ultimately have "n mod 2 ^ 64 = n - 2 ^ 64" "n - 2 ^ 64 \<le> length buf"
    using assms(2,3) by (simp_all add: le_mod_geq)
  then show ?thesis unfolding complete_iff using assms(1) by metis
qed

lemma response_ends_complete:
  assumes "response_ends buf n" and "n \<le> length buf" and "length buf < 2 ^ 64"
  shows "complete_response_len buf = Some n"
  unfolding complete_iff using assms by (intro exI [of _ n]) simp

lemma fetch_loop_complete:
  assumes "complete_response_len (got @ concat chunks) = Some n" and "complete_response_len got = None"
    and "\<forall>c\<in>set chunks. c \<noteq> []" and "length (got @ concat chunks) < MAX_UPSTREAM_BYTES"
  shows "fetch_loop (map ReadOk chunks @ reads) got = Ok (take n (got @ concat chunks))"
  using assms
proof (induction chunks arbitrary: got)
  case Nil
  then show ?case by simp
next
  case (Cons c chunks)
  let ?got = "got @ c"
  have small: "\<not> length ?got \<ge> MAX_UPSTREAM_BYTES" and ne: "c \<noteq> []" using Cons.prems(3,4) by simp_all
  show ?case
  proof (cases "complete_response_len ?got")
    case None
    then have "fetch_loop (map ReadOk chunks @ reads) ?got = Ok (take n (?got @ concat chunks))"
      using Cons.prems by (intro Cons.IH) simp_all
    then show ?thesis using None small ne by (simp add: Let_def)
  next
    case (Some m)
    from complete_append [OF Some, of "concat chunks"] have "m = n" using Cons.prems(1) by simp
    moreover have "m \<le> length ?got" using Some by (auto simp: complete_iff)
    ultimately show ?thesis using Some small ne by (simp add: Let_def)
  qed
qed

section \<open>Responses frame themselves\<close>

definition header_ok :: "string \<times> string \<Rightarrow> bool" where
  "header_ok h \<longleftrightarrow> is_str (fst h) \<and> is_str (snd h) \<and> CR \<notin> set (fst h) \<and> CR \<notin> set (snd h) \<and>
     CHR '':'' \<notin> set (fst h) \<and> \<not> eq_ignore_ascii_case (fst h) ''content-length''"

definition response_ok :: "response \<Rightarrow> bool" where
  "response_ok r \<longleftrightarrow> is_str (rs_reason r) \<and> CR \<notin> set (rs_reason r) \<and> (\<forall>h\<in>set (rs_headers r). header_ok h) \<and>
     length (rs_body r) < 2 ^ 64"

definition response_lines :: "response \<Rightarrow> string list" where
  "response_lines r =
     [''HTTP/1.1 '' @ decimal (unat (rs_status r)) @ '' '' @ rs_reason r] @
     map (\<lambda>(name, val). name @ '': '' @ val) (rs_headers r) @
     [''Content-Length: '' @ decimal (length (rs_body r))]"

lemma join_lines_append:
  "ls \<noteq> [] \<Longrightarrow> join_lines (ls @ [l]) = concat (map (\<lambda>l. l @ CRLF) ls) @ l"
  by (induction ls rule: join_lines.induct) auto

lemma response_encode_lines:
  "response_encode r = as_bytes (join_lines (response_lines r)) @ blank_line @ rs_body r"
proof -
  have h: "concat (map (\<lambda>l. l @ CRLF) (map (\<lambda>(name, val). name @ '': '' @ val) hs)) = concat (map header_line hs)" for hs
    by (induction hs) (auto simp: header_line_def)
  let ?init = "(''HTTP/1.1 '' @ decimal (unat (rs_status r)) @ '' '' @ rs_reason r) #
     map (\<lambda>(name, val). name @ '': '' @ val) (rs_headers r)"
  have "join_lines (response_lines r) =
      concat (map (\<lambda>l. l @ CRLF) ?init) @ ''Content-Length: '' @ decimal (length (rs_body r))"
    using join_lines_append [of ?init] by (simp add: response_lines_def)
  then have "join_lines (response_lines r) @ CRLF @ CRLF = response_head r"
    by (simp only: list.map(2) concat.simps(2) h response_head_def append_assoc)
  then have "as_bytes (response_head r) = as_bytes (join_lines (response_lines r) @ CRLF @ CRLF)" by (simp only:)
  also have "\<dots> = as_bytes (join_lines (response_lines r)) @ blank_line" by (simp add: byte_of_crlf)
  finally show ?thesis by (simp only: response_encode_def append_assoc)
qed

lemma decimal_range: "set (decimal n) \<subseteq> char_of ` {48..57 :: nat}"
proof (induction n rule: decimal.induct)
  case (1 n)
  have "char_of (48 + n mod 10) \<in> char_of ` {48..57 :: nat}" by (intro imageI) simp
  moreover have "n < 10 \<Longrightarrow> char_of (48 + n) \<in> char_of ` {48..57 :: nat}" by (intro imageI) simp
  ultimately show ?case using 1 by (subst decimal.simps) auto
qed

lemma decimal_char:
  assumes "c \<in> set (decimal n)"
  shows "plain_byte (byte_of c)" and "byte_of c < 0x80" and "c \<noteq> CR" and "c \<noteq> CHR '':''" and "c \<noteq> CHR ''+''"
proof -
  obtain k where k: "c = char_of (k :: nat)" "48 \<le> k" "k \<le> 57" using assms decimal_range by force
  then have b: "unat (byte_of c) = k" by (simp add: byte_of_def unat_of_nat)
  with k show "plain_byte (byte_of c)" "byte_of c < 0x80"
    by (simp_all add: plain_byte_def word_less_nat_alt)
  have "of_char c = k" using k by simp
  then show "c \<noteq> CR" "c \<noteq> CHR '':''" "c \<noteq> CHR ''+''" using k(2,3) by auto
qed

lemma decimal_is_str: "is_str (decimal n)"
  by (rule is_str_ascii) (auto dest: decimal_char(2))

lemma parse_usize_decimal:
  assumes "n < 2 ^ 64"
  shows "parse_usize (str_trim (CHR '' '' # decimal n)) = Some n"
proof -
  have ends: "plain_byte (byte_of (hd (decimal n)))" "plain_byte (byte_of (last (decimal n)))"
    using decimal_char(1) hd_in_set last_in_set decimal_not_Nil by blast+
  have t: "str_trim (decimal n) = decimal n" using ends by (simp add: str_trim_plain)
  have "hd (decimal n) \<noteq> CHR ''+''" using decimal_char(5) hd_in_set [OF decimal_not_Nil] by blast
  then show ?thesis using assms
    by (simp add: t parse_usize_def from_str_radix_def Let_def digits_value_decimal unat_of_nat)
qed

lemma split_crlf_head: "ls \<noteq> [] \<Longrightarrow> \<forall>l\<in>set ls. line_ok l \<Longrightarrow> split_crlf (join_lines ls @ CRLF @ CRLF) = ls @ [[], []]"
proof (induction ls rule: join_lines.induct)
  case (2 l)
  then show ?case using split_crlf_prefix [of l "CRLF"] split_crlf_prefix [of "[]" "[]"] by (simp add: line_ok_def)
next
  case (3 l k ls)
  then show ?case using split_crlf_prefix [of l "join_lines (k # ls) @ CRLF @ CRLF"] by (simp add: line_ok_def)
qed simp

lemma find_content_length_skip:
  "CHR '':'' \<notin> set name \<Longrightarrow> \<not> eq_ignore_ascii_case name ''content-length'' \<Longrightarrow>
   find_content_length ((name @ '': '' @ val) # lines) = find_content_length lines"
  using split_once_prefix [of "CHR '':''" name "CHR '' '' # val"] by simp

lemma status_line_skip:
  "find_content_length ((''HTTP/1.1 '' @ rest) # lines) = find_content_length lines"
proof (cases "CHR '':'' \<in> set (''HTTP/1.1 '' @ rest)")
  case True
  then obtain name val where s: "split_once (CHR '':'') (''HTTP/1.1 '' @ rest) = Some (CHR ''H'' # name, val)"
    by (auto simp: split_once_def)
  have "\<not> eq_ignore_ascii_case (CHR ''H'' # name) ''content-length''"
  proof -
    have "to_ascii_lower CHR ''H'' = CHR ''h''" "to_ascii_lower CHR ''c'' = CHR ''c''" by code_simp+
    then show ?thesis by (simp add: eq_ignore_ascii_case_def to_ascii_lowercase_def)
  qed
  with s show ?thesis by simp
next
  case False
  then have "split_once (CHR '':'') (''HTTP/1.1 '' @ rest) = None" by (rule split_once_None)
  then show ?thesis by simp
qed

lemma find_content_length_response:
  assumes "response_ok r"
  shows "find_content_length (response_lines r @ [[], []]) = Some (length (rs_body r))"
proof -
  let ?last = "''Content-Length: '' @ decimal (length (rs_body r))"
  have l: "find_content_length (?last # rest) = Some (length (rs_body r))" for rest
  proof -
    have "split_once (CHR '':'') (''Content-Length'' @ CHR '':'' # CHR '' '' # decimal (length (rs_body r))) =
        Some (''Content-Length'', CHR '' '' # decimal (length (rs_body r)))"
      by (rule split_once_prefix) simp
    moreover have "eq_ignore_ascii_case ''Content-Length'' ''content-length''" by code_simp
    moreover have "parse_usize (str_trim (CHR '' '' # decimal (length (rs_body r)))) = Some (length (rs_body r))"
      using assms by (intro parse_usize_decimal) (simp add: response_ok_def)
    ultimately show ?thesis by simp
  qed
  have hs: "\<forall>h\<in>set hs. header_ok h \<Longrightarrow>
    find_content_length (map (\<lambda>(name, val). name @ '': '' @ val) hs @ ?last # rest) = Some (length (rs_body r))" for hs rest
  proof (induction hs)
    case Nil
    then show ?case using l by simp
  next
    case (Cons h hs)
    then show ?case using find_content_length_skip [of "fst h"] by (cases h) (simp add: header_ok_def)
  qed
  have "response_lines r @ [[], []] = (''HTTP/1.1 '' @ decimal (unat (rs_status r)) @ '' '' @ rs_reason r) #
      (map (\<lambda>(name, val). name @ '': '' @ val) (rs_headers r) @ ?last # [[], []])"
    by (simp add: response_lines_def)
  moreover have "\<forall>h\<in>set (rs_headers r). header_ok h" using assms by (simp add: response_ok_def)
  ultimately show ?thesis using hs by (simp only: status_line_skip)
qed

lemma response_lines_ok:
  assumes "response_ok r"
  shows "\<forall>l\<in>set (response_lines r). line_ok l \<and> is_str l"
proof -
  have "is_str ''HTTP/1.1 ''" "is_str '' ''" "is_str '': ''" "is_str ''Content-Length: ''"
    by (rule is_str_ascii, code_simp)+
  then have "is_str (''HTTP/1.1 '' @ decimal (unat (rs_status r)) @ '' '' @ rs_reason r)"
    "is_str (''Content-Length: '' @ decimal (length (rs_body r)))"
    "\<And>n v. is_str n \<Longrightarrow> is_str v \<Longrightarrow> is_str (n @ '': '' @ v)"
    using assms by (auto simp only: response_ok_def intro!: is_str_append decimal_is_str)
  then show ?thesis using assms decimal_char(3)
    unfolding response_lines_def response_ok_def header_ok_def line_ok_def by fastforce
qed

section \<open>Properties\<close>

text \<open>The front door's own responses are self-delimiting: in whatever byte stream an encoded
  response is followed by, the length computed for the first complete response is exactly the
  length of that encoding, for any status, headers without a line break and body.\<close>

lemma response_framing:
  assumes "response_ok r" and "length (response_encode r @ rest) < 2 ^ 64"
  shows "complete_response_len (response_encode r @ rest) = Some (length (response_encode r))"
proof -
  note ok = response_lines_ok [OF assms(1)]
  let ?j = "join_lines (response_lines r)"
  have ne: "response_lines r \<noteq> []" by (simp add: response_lines_def)
  have enc: "response_encode r @ rest = as_bytes ?j @ blank_line @ rs_body r @ rest"
    by (simp add: response_encode_lines)
  have fw: "find_window blank_line (response_encode r @ rest) = Some (length ?j)"
    unfolding enc using ok by (intro find_head_end_lines ne) blast
  have "take (length ?j + 4) (response_encode r @ rest) = as_bytes (?j @ CRLF @ CRLF)"
    unfolding enc by (simp add: byte_of_crlf)
  moreover have "is_str (?j @ CRLF @ CRLF)"
    using ok by (intro is_str_append is_str_join is_str_ascii) (auto simp: byte_of_def)
  ultimately have u: "from_utf8 (take (length ?j + 4) (response_encode r @ rest)) = Some (?j @ CRLF @ CRLF)"
    by (simp only: from_utf8_as_bytes)
  have "find_content_length (split_crlf (?j @ CRLF @ CRLF)) = Some (length (rs_body r))"
    using ok ne find_content_length_response [OF assms(1)] by (subst split_crlf_head) auto
  moreover have "length (response_encode r) = length ?j + 4 + length (rs_body r)"
    by (simp add: response_encode_lines)
  ultimately have "response_ends (response_encode r @ rest) (length (response_encode r))"
    using fw u by (auto simp: response_ends_def)
  then show ?thesis using assms(2) by (intro response_ends_complete) simp_all
qed

definition demo_response :: response where
  "demo_response = rs_with_body [104, 105] (rs_header ''Server'' ''nginx'' (response_new 200 ''OK''))"

lemma demo_response_ok: "response_ok demo_response"
proof -
  have "is_str ''OK''" "is_str ''Server''" "is_str ''nginx''" "\<not> eq_ignore_ascii_case ''Server'' ''content-length''"
    by code_simp+
  then show ?thesis
    by (simp add: response_ok_def demo_response_def header_ok_def rs_with_body_def rs_header_def response_new_def)
qed

text \<open>C27. Fetching from the upstream does not depend on how the network cuts its response into reads: if what
  arrives begins with a head that names the length of its body, and stays below the cap, the fetch
  returns exactly that response once it is complete, whatever the reads are and whatever follows. If
  the named length is so large that the end of the response overflows, it returns a
  part of the head instead, as soon as the head is there.\<close>

theorem fetch_upstream_framing:
  assumes "response_ends (concat chunks) n"
    and "\<forall>c\<in>set chunks. c \<noteq> []" and "length (concat chunks) < MAX_UPSTREAM_BYTES"
    and "upstream addr (rh_raw head @ body) = Inr (map ReadOk chunks @ reads)"
  shows "(n \<le> length (concat chunks) \<longrightarrow> fetch_upstream upstream addr head body = Ok (take n (concat chunks))) \<and>
    (2 ^ 64 \<le> n \<longrightarrow> fetch_upstream upstream addr head body = Ok (take (n - 2 ^ 64) (concat chunks)) \<and>
      (\<exists>p. find_window blank_line (concat chunks) = Some p \<and> n - 2 ^ 64 < p + 4))"
proof -
  have small: "length (concat chunks) < 2 ^ 64" using assms(3) by (simp add: MAX_UPSTREAM_BYTES_def)
  have none: "complete_response_len [] = None" by (simp add: complete_response_len_def)
  have fetch: "fetch_upstream upstream addr head body = Ok (take m (concat chunks))"
    if "complete_response_len (concat chunks) = Some m" for m
    using fetch_loop_complete [of "[]" chunks m reads] that none assms(2-4)
    by (cases "body = []") (simp_all add: fetch_upstream_def)
  have "\<exists>p. find_window blank_line (concat chunks) = Some p \<and> n - 2 ^ 64 < p + 4"
    using assms(1) find_content_length_small by (force simp: response_ends_def)
  then show ?thesis
    using fetch response_ends_complete [OF assms(1) _ small] response_ends_overflow [OF assms(1) _ small] by blast
qed

definition demo_head :: request_head where
  "demo_head = \<lparr>rh_method = ''GET'', rh_target = ''/'', rh_version = ''HTTP/1.1'', rh_headers = [],
     rh_head_len = 18, rh_raw = as_bytes (''GET / HTTP/1.1'' @ CRLF @ CRLF)\<rparr>"

theorem fetch_upstream_framing_witness:
  "fetch_upstream (\<lambda>_ _. Inr [ReadOk (take 9 (response_encode demo_response)),
      ReadOk (drop 9 (response_encode demo_response) @ [7, 7])]) ''origin:80'' demo_head [] = Ok (response_encode demo_response)"
proof -
  let ?e = "response_encode demo_response"
  have len: "length ?e = 55" by code_simp
  have c: "concat [take 9 ?e, drop 9 ?e @ [7, 7]] = ?e @ [7, 7]" by simp
  have w: "find_window blank_line ?e = Some 49"
    and u: "from_utf8 (take 53 ?e) = Some (response_head demo_response)"
    and l: "split_crlf (response_head demo_response) = response_lines demo_response @ [[], []]"
    and b: "length (rs_body demo_response) = 2"
    by code_simp+
  have "find_content_length (response_lines demo_response @ [[], []]) = Some 2"
    using find_content_length_response [OF demo_response_ok] b by simp
  then have "response_ends ?e (length ?e)" using w u l len by (simp add: response_ends_def)
  then have f: "response_ends (?e @ [7, 7]) (length ?e)" by (rule response_ends_append)
  have "take 9 ?e \<noteq> []" using len by (intro notI) simp
  then have ne: "\<forall>c\<in>set [take 9 ?e, drop 9 ?e @ [7, 7]]. c \<noteq> []" by simp
  have "fetch_upstream (\<lambda>_ _. Inr (map ReadOk [take 9 ?e, drop 9 ?e @ [7, 7]] @ [])) ''origin:80'' demo_head [] =
      Ok (take (length ?e) (concat [take 9 ?e, drop 9 ?e @ [7, 7]]))"
    by (intro fetch_upstream_framing [OF _ ne, THEN conjunct1, THEN mp])
      (simp_all only: c f, simp_all add: len MAX_UPSTREAM_BYTES_def)
  then show ?thesis by (simp only: c) simp
qed

end
