(* ===== verification/Handshake_Msgs.thy ===== *)
theory Handshake_Msgs
  imports Wire_Chunk
begin

text \<open>The four messages of \<open>kanrin-protocol/src/handshake.rs\<close> and their codecs. A \<open>[u8; 32]\<close>
  is a byte list of length 32, which the well-formedness predicates state.\<close>

datatype handshake_phase = Initial | HelloSent | HelloReceived | Finished

datatype auth_status = AuthOk | InvalidCredentials | RateLimited_status | ServerFull

fun auth_status_byte :: "auth_status \<Rightarrow> u8" where
  "auth_status_byte AuthOk = 0x00"
| "auth_status_byte InvalidCredentials = 0x01"
| "auth_status_byte RateLimited_status = 0x02"
| "auth_status_byte ServerFull = 0x03"

definition auth_status_from_byte :: "u8 \<Rightarrow> protocol_error + auth_status" where
  "auth_status_from_byte b =
     (if b = 0x00 then Ok AuthOk
      else if b = 0x01 then Ok InvalidCredentials
      else if b = 0x02 then Ok RateLimited_status
      else if b = 0x03 then Ok ServerFull
      else Err (HandshakeFailed (''unknown auth status: 0x'' @ hex02 b)))"

section \<open>Client hello\<close>

record client_hello =
  ch_protocol_version :: u8
  ch_ephemeral_public :: bytes
  ch_timestamp :: u64
  ch_random :: bytes

definition client_hello_encode :: "client_hello \<Rightarrow> bytes" where
  "client_hello_encode h =
     [ch_protocol_version h] @ ch_ephemeral_public h @ be64 (ch_timestamp h) @ ch_random h"

definition client_hello_decode :: "bytes \<Rightarrow> protocol_error + client_hello" where
  "client_hello_decode data =
     (if length data < 73 then Err (BufferTooShort 73 (length data))
      else Ok \<lparr>ch_protocol_version = data ! 0, ch_ephemeral_public = slice 1 33 data,
               ch_timestamp = from_be (slice 33 41 data), ch_random = slice 41 73 data\<rparr>)"

definition client_hello_wf :: "client_hello \<Rightarrow> bool" where
  "client_hello_wf h \<longleftrightarrow> length (ch_ephemeral_public h) = 32 \<and> length (ch_random h) = 32"

section \<open>Server hello\<close>

record server_hello =
  sh_ephemeral_public :: bytes
  sh_encrypted_session_token :: bytes
  sh_server_random :: bytes

definition server_hello_encode :: "server_hello \<Rightarrow> bytes" where
  "server_hello_encode h =
     sh_ephemeral_public h @ be16 (word_of_nat (length (sh_encrypted_session_token h)))
       @ sh_encrypted_session_token h @ sh_server_random h"

definition server_hello_decode :: "bytes \<Rightarrow> protocol_error + server_hello" where
  "server_hello_decode data =
     (if length data < 66 then Err (BufferTooShort 66 (length data))
      else let token_len = unat (from_be [data ! 32, data ! 33] :: u16) in
        if length data < 34 + token_len + 32 then Err (BufferTooShort (34 + token_len + 32) (length data))
        else Ok \<lparr>sh_ephemeral_public = slice 0 32 data,
                 sh_encrypted_session_token = slice 34 (34 + token_len) data,
                 sh_server_random = slice (34 + token_len) (66 + token_len) data\<rparr>)"

definition server_hello_wf :: "server_hello \<Rightarrow> bool" where
  "server_hello_wf h \<longleftrightarrow> length (sh_ephemeral_public h) = 32 \<and> length (sh_server_random h) = 32 \<and>
     length (sh_encrypted_session_token h) < 65536"

section \<open>Finished messages\<close>

record client_finished =
  encrypted_auth :: bytes

definition client_finished_encode :: "client_finished \<Rightarrow> bytes" where
  "client_finished_encode f = be16 (word_of_nat (length (encrypted_auth f))) @ encrypted_auth f"

definition client_finished_decode :: "bytes \<Rightarrow> protocol_error + client_finished" where
  "client_finished_decode data =
     (if length data < 2 then Err (BufferTooShort 2 (length data))
      else let auth_len = unat (from_be [data ! 0, data ! 1] :: u16) in
        if length data < 2 + auth_len then Err (BufferTooShort (2 + auth_len) (length data))
        else Ok \<lparr>encrypted_auth = slice 2 (2 + auth_len) data\<rparr>)"

record server_finished =
  sf_status :: auth_status
  sf_session_token :: "bytes option"

definition server_finished_encode :: "server_finished \<Rightarrow> bytes" where
  "server_finished_encode f =
     [auth_status_byte (sf_status f)] @
     (case sf_session_token f of
        Some token \<Rightarrow> be16 (word_of_nat (length token)) @ token
      | None \<Rightarrow> be16 0)"

definition server_finished_decode :: "bytes \<Rightarrow> protocol_error + server_finished" where
  "server_finished_decode data =
     (if length data < 3 then Err (BufferTooShort 3 (length data))
      else and_then (auth_status_from_byte (data ! 0)) (\<lambda>status.
        let token_len = unat (from_be [data ! 1, data ! 2] :: u16) in
        and_then
          (if token_len > 0 then
             (if length data < 3 + token_len then Err (BufferTooShort (3 + token_len) (length data))
              else Ok (Some (slice 3 (3 + token_len) data)))
           else Ok None)
          (\<lambda>session_token. Ok \<lparr>sf_status = status, sf_session_token = session_token\<rparr>)))"

definition server_finished_wf :: "server_finished \<Rightarrow> bool" where
  "server_finished_wf f \<longleftrightarrow> (\<forall>t. sf_session_token f = Some t \<longrightarrow> t \<noteq> [] \<and> length t < 65536)"

section \<open>Round trips\<close>

lemma auth_status_roundtrip [simp]: "auth_status_from_byte (auth_status_byte s) = Ok s"
  by (cases s) (simp_all add: auth_status_from_byte_def)

lemma auth_status_from_byte_Inr: "auth_status_from_byte b = Ok s \<Longrightarrow> b = auth_status_byte s"
  by (auto simp: auth_status_from_byte_def split: if_splits)

lemma take_append_exact: "length xs = n \<Longrightarrow> take n (xs @ ys) = xs"
  and drop_append_exact: "length xs = n \<Longrightarrow> drop n (xs @ ys) = ys"
  by simp_all

lemma pair_slice: "n + 1 < length bs \<Longrightarrow> m = n + 1 \<Longrightarrow> [bs ! n, bs ! m] = slice n (n + 2) bs"
  by (simp add: slice_def take_Suc_conv_app_nth hd_drop_conv_nth numeral_2_eq_2)

lemma pair_slice2: "k \<le> length bs \<Longrightarrow> m = n + 1 \<Longrightarrow> k = n + 2 \<Longrightarrow> [bs ! n, bs ! m] = slice n k bs"
  using pair_slice [of n bs m] by simp

lemma be16_len: "length bs = 2 \<Longrightarrow> be16 (word_of_nat (unat (from_be bs :: u16))) = bs"
  by simp

interpretation client_hello_codec: exact_codec client_hello_encode client_hello_decode client_hello_wf
proof unfold_locales
  fix h :: client_hello and rest
  assume wf: "client_hello_wf h"
  let ?d = "client_hello_encode h @ rest"
  have "?d ! 0 = ch_protocol_version h" "slice 1 33 ?d = ch_ephemeral_public h"
    "slice 33 41 ?d = be64 (ch_timestamp h)" "slice 41 73 ?d = ch_random h"
    using wf by (simp_all add: client_hello_encode_def client_hello_wf_def slice_def drop_Cons')
  then show "client_hello_decode ?d = Inr h"
    using wf by (simp add: client_hello_decode_def client_hello_encode_def client_hello_wf_def)
next
  fix data h
  assume d: "client_hello_decode data = Inr h"
  then have l: "73 \<le> length data" by (auto simp: client_hello_decode_def split: if_splits)
  with d have h: "h = \<lparr>ch_protocol_version = data ! 0, ch_ephemeral_public = slice 1 33 data,
               ch_timestamp = from_be (slice 33 41 data), ch_random = slice 41 73 data\<rparr>"
    by (simp add: client_hello_decode_def)
  have "slice 0 1 data = [data ! 0]" using l by (intro nth_slice) auto
  then have "client_hello_encode h = slice 0 1 data @ slice 1 33 data @ slice 33 41 data @ slice 41 73 data"
    using h l by (simp add: client_hello_encode_def)
  also have "\<dots> = slice 0 73 data" by (simp add: slice_cat)
  finally have "data = client_hello_encode h @ drop 73 data" by (simp add: slice_0)
  moreover have "client_hello_wf h" using h l by (simp add: client_hello_wf_def)
  ultimately show "client_hello_wf h \<and> (\<exists>rest. data = client_hello_encode h @ rest)" by blast
qed

interpretation server_hello_codec: exact_codec server_hello_encode server_hello_decode server_hello_wf
proof unfold_locales
  fix h :: server_hello and rest
  assume wf: "server_hello_wf h"
  let ?d = "server_hello_encode h @ rest" and ?n = "length (sh_encrypted_session_token h)"
  have len: "length ?d = 66 + ?n + length rest"
    using wf by (simp add: server_hello_encode_def server_hello_wf_def)
  have t: "slice 32 34 ?d = be16 (word_of_nat ?n)"
    using wf by (simp add: server_hello_encode_def server_hello_wf_def slice_def)
  have "[?d ! 32, ?d ! 33] = slice 32 34 ?d"
  proof -
    have "32 + 1 < length ?d" unfolding len by simp
    then have "[?d ! 32, ?d ! 33] = slice 32 (32 + 2) ?d" by (rule pair_slice) simp
    then show ?thesis by simp
  qed
  moreover have "unat (word_of_nat ?n :: u16) = ?n"
    using wf by (simp add: server_hello_wf_def codec_simps)
  ultimately have n: "unat (from_be [?d ! 32, ?d ! 33] :: u16) = ?n"
    by (simp only: t from_be16)
  have f: "slice 0 32 ?d = sh_ephemeral_public h"
    "slice 34 (34 + ?n) ?d = sh_encrypted_session_token h"
    "slice (34 + ?n) (66 + ?n) ?d = sh_server_random h"
    using wf by (simp_all add: server_hello_encode_def server_hello_wf_def slice_def)
  have "\<not> length ?d < 66" "\<not> length ?d < 34 + ?n + 32" unfolding len by simp_all
  then show "server_hello_decode ?d = Inr h"
    unfolding server_hello_decode_def Let_def n f by (simp only: if_False) (cases h, simp)
next
  fix data h
  assume d: "server_hello_decode data = Inr h"
  let ?n = "unat (from_be [data ! 32, data ! 33] :: u16)"
  from d have l: "66 + ?n \<le> length data"
    and h: "h = \<lparr>sh_ephemeral_public = slice 0 32 data, sh_encrypted_session_token = slice 34 (34 + ?n) data,
                 sh_server_random = slice (34 + ?n) (66 + ?n) data\<rparr>"
    by (auto simp: server_hello_decode_def Let_def split: if_splits)
  have l34: "34 \<le> length data" using l by linarith
  have p: "[data ! 32, data ! 33] = slice 32 34 data"
    by (rule pair_slice2) (use l34 in simp_all)
  have n: "length (sh_encrypted_session_token h) = ?n" using h l by simp
  have b: "be16 (word_of_nat ?n) = slice 32 34 data" unfolding p by (rule be16_len) (use l34 in simp)
  have "server_hello_encode h = slice 0 32 data @ slice 32 34 data @ slice 34 (34 + ?n) data @ slice (34 + ?n) (66 + ?n) data"
    unfolding server_hello_encode_def n b unfolding h by simp
  also have "\<dots> = slice 0 (66 + ?n) data" by (simp add: slice_cat)
  finally have "data = server_hello_encode h @ drop (66 + ?n) data" by (simp add: slice_0)
  moreover have "server_hello_wf h"
    using h l n unat_lt [of "from_be [data ! 32, data ! 33] :: u16"] by (simp add: server_hello_wf_def)
  ultimately show "server_hello_wf h \<and> (\<exists>rest. data = server_hello_encode h @ rest)" by blast
qed

interpretation client_finished_codec: exact_codec client_finished_encode client_finished_decode
    "\<lambda>f. length (encrypted_auth f) < 65536"
proof unfold_locales
  fix f :: client_finished and rest
  assume wf: "length (encrypted_auth f) < 65536"
  let ?d = "client_finished_encode f @ rest" and ?n = "length (encrypted_auth f)"
  have len: "length ?d = 2 + ?n + length rest" by (simp add: client_finished_encode_def)
  have "slice 0 2 ?d = be16 (word_of_nat ?n)" "slice 2 (2 + ?n) ?d = encrypted_auth f"
    by (simp_all add: client_finished_encode_def slice_def)
  moreover have "[?d ! 0, ?d ! 1] = slice 0 2 ?d"
    using pair_slice [of 0 ?d 1] len by (simp add: numeral_2_eq_2)
  moreover have "unat (word_of_nat ?n :: u16) = ?n" using wf by (simp add: codec_simps)
  ultimately show "client_finished_decode ?d = Inr f"
    unfolding client_finished_decode_def Let_def len by simp
next
  fix data f
  assume d: "client_finished_decode data = Inr f"
  let ?n = "unat (from_be [data ! 0, data ! 1] :: u16)"
  from d have l: "2 + ?n \<le> length data" and f: "f = \<lparr>encrypted_auth = slice 2 (2 + ?n) data\<rparr>"
    by (auto simp: client_finished_decode_def Let_def split: if_splits)
  have p: "[data ! 0, data ! 1] = slice 0 2 data"
    using pair_slice [of 0 data 1] l by (simp add: numeral_2_eq_2)
  have n: "length (encrypted_auth f) = ?n" using f l by simp
  have "client_finished_encode f = slice 0 2 data @ slice 2 (2 + ?n) data"
    unfolding client_finished_encode_def n using f p l by simp
  also have "\<dots> = slice 0 (2 + ?n) data" by (simp add: slice_cat)
  finally have "data = client_finished_encode f @ drop (2 + ?n) data" by (simp add: slice_0)
  moreover have "length (encrypted_auth f) < 65536"
    using n unat_lt [of "from_be [data ! 0, data ! 1] :: u16"] by simp
  ultimately show "length (encrypted_auth f) < 65536 \<and> (\<exists>rest. data = client_finished_encode f @ rest)"
    by blast
qed

lemma server_finished_decode_encode:
  assumes "server_finished_wf f"
  shows "server_finished_decode (server_finished_encode f @ rest) = Ok f"
proof -
  let ?d = "server_finished_encode f @ rest"
  obtain w tl where d: "?d = auth_status_byte (sf_status f) # be16 w @ tl"
    and w: "unat w = (case sf_session_token f of None \<Rightarrow> 0 | Some t \<Rightarrow> length t)"
    and tl: "tl = (case sf_session_token f of None \<Rightarrow> rest | Some t \<Rightarrow> t @ rest)"
    using assms by (cases "sf_session_token f")
      (simp_all add: server_finished_encode_def server_finished_wf_def codec_simps)
  have "[?d ! 1, ?d ! 2] = be16 w"
    using pair_slice [of 1 ?d 2] unfolding d by (simp add: slice_def numeral_2_eq_2)
  moreover have "3 \<le> length ?d" unfolding d by simp
  moreover have "slice 3 (3 + unat w) ?d = take (unat w) tl"
    unfolding d by (simp add: slice_def drop_Cons')
  moreover have "length ?d = 3 + length tl" unfolding d by simp
  ultimately show ?thesis
    unfolding server_finished_decode_def Let_def
    using assms w tl d by (cases "sf_session_token f") (simp_all add: server_finished_wf_def)
qed

lemma server_finished_decode_sound:
  assumes "server_finished_decode data = Ok f"
  shows "server_finished_wf f \<and> (\<exists>rest. data = server_finished_encode f @ rest)"
proof -
  let ?n = "unat (from_be [data ! 1, data ! 2] :: u16)"
  from assms have l3: "3 \<le> length data"
    by (auto simp: server_finished_decode_def split: if_splits)
  from assms obtain st where st: "auth_status_from_byte (data ! 0) = Ok st"
    and l: "0 < ?n \<Longrightarrow> 3 + ?n \<le> length data"
    and f: "f = \<lparr>sf_status = st, sf_session_token = (if 0 < ?n then Some (slice 3 (3 + ?n) data) else None)\<rparr>"
    by (auto simp: server_finished_decode_def Let_def and_then_Inr_iff split: if_splits)
  have p: "[data ! 1, data ! 2] = slice 1 3 data"
    using pair_slice [of 1 data 2] l3 by (simp add: eval_nat_numeral)
  have s0: "slice 0 1 data = [data ! 0]" using l3 by (intro nth_slice) auto
  have "server_finished_encode f = slice 0 1 data @ slice 1 3 data @ slice 3 (3 + ?n) data"
  proof (cases "0 < ?n")
    case True
    then show ?thesis
      using f l p s0 l3 auth_status_from_byte_Inr [OF st] by (simp add: server_finished_encode_def)
  next
    case False
    then have "from_be (slice 1 3 data) = (0 :: u16)" using p by (simp add: unat_eq_0)
    then have "be16 0 = slice 1 3 data" using l3 be16_from_be [of "slice 1 3 data"] by simp
    with False show ?thesis
      using f s0 auth_status_from_byte_Inr [OF st] by (simp add: server_finished_encode_def slice_def)
  qed
  also have "\<dots> = slice 0 (3 + ?n) data" by (simp add: slice_cat)
  finally have "data = server_finished_encode f @ drop (3 + ?n) data" by (simp add: slice_0)
  moreover have "server_finished_wf f"
    using f l unat_lt [of "from_be [data ! 1, data ! 2] :: u16"]
    by (auto simp: server_finished_wf_def slice_def)
  ultimately show ?thesis by blast
qed

interpretation server_finished_codec: exact_codec server_finished_encode server_finished_decode server_finished_wf
  by unfold_locales (simp_all add: server_finished_decode_encode server_finished_decode_sound)

end
