(* ===== verification/Handshake.thy ===== *)
theory Handshake
  imports Handshake_Msgs
begin

text \<open>
  The two handshake state machines of \<open>kanrin-protocol/src/handshake.rs\<close>. A key pair that was
  used is taken out of its \<open>Option\<close>, so each handshake object agrees on keys once. The clock
  is the argument \<open>now\<close> (Unix seconds); each random draw has its own entropy argument.
\<close>

definition MAX_TIMESTAMP_DRIFT_SECS :: u64 where "MAX_TIMESTAMP_DRIFT_SECS = 30"

record client_handshake =
  chs_phase :: handshake_phase
  chs_keypair :: "key_pair option"
  chs_shared_secret :: "bytes option"
  chs_session_token :: "bytes option"

definition client_handshake_new :: "crypto_ops \<Rightarrow> entropy \<Rightarrow> client_handshake" where
  "client_handshake_new C rnd =
     \<lparr>chs_phase = Initial, chs_keypair = Some (key_pair_generate C rnd),
      chs_shared_secret = None, chs_session_token = None\<rparr>"

definition create_client_hello :: "u64 \<Rightarrow> entropy \<Rightarrow> client_handshake \<Rightarrow> protocol_error + client_hello" where
  "create_client_hello now rnd st =
     (case chs_keypair st of
        None \<Rightarrow> Err (HandshakeFailed ''keypair consumed'')
      | Some kp \<Rightarrow>
          Ok \<lparr>ch_protocol_version = PROTOCOL_VERSION, ch_ephemeral_public = kp_public kp,
              ch_timestamp = now, ch_random = random_bytes_vec rnd 32\<rparr>)"

definition process_server_hello ::
  "crypto_ops \<Rightarrow> server_hello \<Rightarrow> client_handshake \<Rightarrow> (protocol_error + session_keys) \<times> client_handshake" where
  "process_server_hello C hello st =
     (case chs_keypair st of
        None \<Rightarrow> (Err (HandshakeFailed ''keypair already consumed''), st)
      | Some kp \<Rightarrow>
          let st1 = st\<lparr>chs_keypair := None\<rparr>;
              shared_secret = diffie_hellman C kp (sh_ephemeral_public hello);
              salt = concat [sh_server_random hello]
          in case derive_session_keys C shared_secret salt of
               Inl e \<Rightarrow> (Err e, st1)
             | Inr keys \<Rightarrow>
                 (Ok keys, st1\<lparr>chs_shared_secret := Some shared_secret,
                               chs_session_token := Some (sh_encrypted_session_token hello),
                               chs_phase := HelloReceived\<rparr>))"

definition create_client_finished ::
  "crypto_ops \<Rightarrow> entropy \<Rightarrow> string \<Rightarrow> session_keys \<Rightarrow> protocol_error + client_finished" where
  "create_client_finished C rnd password keys =
     (let nonce = random_bytes_vec rnd 12 in
      and_then (encrypt C (client_write_key keys) nonce (as_bytes password) (as_bytes ''kanrin-auth''))
        (\<lambda>encrypted. Ok \<lparr>encrypted_auth = nonce @ encrypted\<rparr>))"

record server_handshake =
  shs_phase :: handshake_phase
  shs_keypair :: "key_pair option"
  shs_shared_secret :: "bytes option"
  shs_server_random :: bytes

definition server_handshake_new :: "crypto_ops \<Rightarrow> entropy \<Rightarrow> entropy \<Rightarrow> server_handshake" where
  "server_handshake_new C rnd1 rnd2 =
     \<lparr>shs_phase = Initial, shs_keypair = Some (key_pair_generate C rnd1),
      shs_shared_secret = None, shs_server_random = random_bytes_vec rnd2 32\<rparr>"

definition process_client_hello ::
  "crypto_ops \<Rightarrow> u64 \<Rightarrow> entropy \<Rightarrow> client_hello \<Rightarrow> server_handshake \<Rightarrow>
     (protocol_error + server_hello \<times> session_keys) \<times> server_handshake" where
  "process_client_hello C now rnd hello st =
     (let drift = (if now > ch_timestamp hello then now - ch_timestamp hello else ch_timestamp hello - now) in
      if drift > MAX_TIMESTAMP_DRIFT_SECS then (Err ReplayDetected, st)
      else if ch_protocol_version hello \<noteq> PROTOCOL_VERSION
        then (Err (UnsupportedVersion (ch_protocol_version hello)), st)
      else case shs_keypair st of
        None \<Rightarrow> (Err (HandshakeFailed ''keypair consumed''), st)
      | Some kp \<Rightarrow>
          let st1 = st\<lparr>shs_keypair := None\<rparr>;
              shared_secret = diffie_hellman C kp (ch_ephemeral_public hello);
              session_token = random_bytes_vec rnd 32;
              salt = concat [shs_server_random st]
          in case derive_session_keys C shared_secret salt of
               Inl e \<Rightarrow> (Err e, st1)
             | Inr keys \<Rightarrow>
                 (Ok (\<lparr>sh_ephemeral_public = kp_public kp, sh_encrypted_session_token = session_token,
                       sh_server_random = shs_server_random st\<rparr>, keys),
                  st1\<lparr>shs_shared_secret := Some shared_secret, shs_phase := HelloReceived\<rparr>))"

definition verify_auth ::
  "crypto_ops \<Rightarrow> client_finished \<Rightarrow> session_keys \<Rightarrow> string \<Rightarrow> protocol_error + auth_status" where
  "verify_auth C finished keys expected_password =
     (if length (encrypted_auth finished) < 12 then Ok InvalidCredentials
      else let nonce = take 12 (encrypted_auth finished);
               ciphertext = drop 12 (encrypted_auth finished)
      in case decrypt C (client_write_key keys) nonce ciphertext (as_bytes ''kanrin-auth'') of
           Inl _ \<Rightarrow> Ok InvalidCredentials
         | Inr plaintext \<Rightarrow>
             if constant_time_eq plaintext (as_bytes expected_password) then Ok AuthOk
             else Ok InvalidCredentials)"

section \<open>Lemmas\<close>

text \<open>The drift computation is the absolute difference of the two clocks.\<close>

lemma drift_abs_diff: "(if now > ts then now - ts else ts - now) = abs_diff now (ts :: u64)"
  by (auto simp: abs_diff_def)

lemma drift_le: "\<not> abs_diff a b > (30 :: u64) \<longleftrightarrow> unat a \<le> unat b + 30 \<and> unat b \<le> unat a + 30"
  by (auto simp: word_less_nat_alt unat_abs_diff)

lemma process_client_hello_ok:
  assumes "unat now \<le> unat (ch_timestamp h) + 30" and "unat (ch_timestamp h) \<le> unat now + 30"
    and "ch_protocol_version h = PROTOCOL_VERSION" and "shs_keypair st = Some kp"
    and "derive_session_keys C (diffie_hellman C kp (ch_ephemeral_public h)) (shs_server_random st) = Ok keys"
  shows "process_client_hello C now rnd h st =
    (Ok (\<lparr>sh_ephemeral_public = kp_public kp, sh_encrypted_session_token = random_bytes_vec rnd 32,
          sh_server_random = shs_server_random st\<rparr>, keys),
     st\<lparr>shs_keypair := None,
        shs_shared_secret := Some (diffie_hellman C kp (ch_ephemeral_public h)), shs_phase := HelloReceived\<rparr>)"
  using assms drift_le [of now "ch_timestamp h"]
  by (simp add: process_client_hello_def drift_abs_diff MAX_TIMESTAMP_DRIFT_SECS_def)

lemma process_client_hello_stale:
  assumes "unat (ch_timestamp h) + 30 < unat now \<or> unat now + 30 < unat (ch_timestamp h)"
  shows "process_client_hello C now rnd h st = (Err ReplayDetected, st)"
proof -
  have "abs_diff now (ch_timestamp h) > 30" using assms drift_le [of now "ch_timestamp h"] by auto
  then show ?thesis
    by (simp add: process_client_hello_def drift_abs_diff MAX_TIMESTAMP_DRIFT_SECS_def)
qed

text \<open>Whatever it answers, an attempt that gets past the two checks uses the key pair up.\<close>

lemma process_client_hello_once:
  assumes "shs_keypair st = None"
  shows "\<exists>e. process_client_hello C now rnd h st = (Err e, st)"
  using assms by (auto simp: process_client_hello_def Let_def)

lemma process_client_hello_consumes:
  assumes "process_client_hello C now rnd h st = (Ok r, st')"
  shows "shs_keypair st \<noteq> None" and "shs_keypair st' = None" and "shs_phase st' = HelloReceived"
  using assms
  by (auto simp: process_client_hello_def Let_def split: if_splits option.splits sum.splits)

lemma process_server_hello_consumes:
  "shs_keypair st = None \<or> chs_keypair (snd (process_server_hello C h cst)) = None"
  by (auto simp: process_server_hello_def Let_def split: option.splits sum.splits)

lemma verify_auth_iff:
  assumes "aead_tight C" and "cipher_init C (client_write_key keys) = Inr ()"
  shows "verify_auth C f keys pw = Ok AuthOk \<longleftrightarrow>
    12 \<le> length (encrypted_auth f) \<and>
    aead_open C (client_write_key keys) (take 12 (encrypted_auth f)) (drop 12 (encrypted_auth f))
      (as_bytes ''kanrin-auth'') = Inr (as_bytes pw)"
  using assms(2)
  by (cases "aead_open C (client_write_key keys) (take 12 (encrypted_auth f)) (drop 12 (encrypted_auth f))
      (as_bytes ''kanrin-auth'')") (auto simp: verify_auth_def decrypt_def Let_def)

lemma verify_auth_total: "\<exists>s. verify_auth C f keys pw = Ok s \<and> (s = AuthOk \<or> s = InvalidCredentials)"
  by (auto simp: verify_auth_def Let_def split: sum.splits)

lemma verify_auth_client_finished:
  assumes "aead_lawful C" and "length (client_write_key keys) = KEY_SIZE" and "length p < 2 ^ 32"
  obtains f where "create_client_finished C rnd p keys = Ok f"
    and "length (encrypted_auth f) = 28 + length p"
    and "\<And>q. verify_auth C f keys q = Ok (if p = q then AuthOk else InvalidCredentials)"
proof -
  let ?nonce = "random_bytes_vec rnd 12" and ?aad = "as_bytes ''kanrin-auth''"
  have n: "length ?nonce = NONCE_SIZE" by (simp add: NONCE_SIZE_def)
  have "length (as_bytes p) < 2 ^ 32" using assms(3) by simp
  from encrypt_decrypt [OF assms(1,2) n this]
  obtain c where c: "encrypt C (client_write_key keys) ?nonce (as_bytes p) ?aad = Ok c"
    "length c = length p + TAG_SIZE" "decrypt C (client_write_key keys) ?nonce c ?aad = Ok (as_bytes p)"
    by (metis length_as_bytes)
  show thesis
  proof (rule that [of "\<lparr>encrypted_auth = ?nonce @ c\<rparr>"])
    show "create_client_finished C rnd p keys = Ok \<lparr>encrypted_auth = ?nonce @ c\<rparr>"
      using c(1) by (simp add: create_client_finished_def)
    show "length (encrypted_auth \<lparr>encrypted_auth = ?nonce @ c\<rparr>) = 28 + length p"
      using c(2) by (simp add: TAG_SIZE_def)
    show "verify_auth C \<lparr>encrypted_auth = ?nonce @ c\<rparr> keys q = Ok (if p = q then AuthOk else InvalidCredentials)" for q
      using c(3) by (simp add: verify_auth_def)
  qed
qed

lemma key_pair_generate_wf:
  assumes "dh_lawful C"
  shows "length (kp_public (key_pair_generate C rnd)) = 32"
    and "length (kp_secret (key_pair_generate C rnd)) = 32"
  using assms by (simp_all add: key_pair_generate_def dh_lawful_def Let_def)

lemma diffie_hellman_agree:
  assumes "dh_lawful C"
  shows "diffie_hellman C (key_pair_generate C r) (kp_public (key_pair_generate C s)) =
    diffie_hellman C (key_pair_generate C s) (kp_public (key_pair_generate C r))"
  using assms by (simp add: diffie_hellman_def key_pair_generate_def dh_lawful_def Let_def)

text \<open>The whole exchange, with every message going over the wire: both sides end up with the same
  keys, and the password check succeeds exactly for the right password.\<close>

lemma handshake_agreement:
  assumes "dh_lawful C" and "hkdf_lawful C"
    and "unat now_s \<le> unat now_c + 30" and "unat now_c \<le> unat now_s + 30"
  shows "\<exists>hello shello keys st' cst'.
    create_client_hello now_c r2 (client_handshake_new C r1) = Ok hello \<and>
    client_hello_decode (client_hello_encode hello) = Ok hello \<and>
    process_client_hello C now_s r5 hello (server_handshake_new C r3 r4) = (Ok (shello, keys), st') \<and>
    server_hello_decode (server_hello_encode shello) = Ok shello \<and>
    process_server_hello C shello (client_handshake_new C r1) = (Ok keys, cst') \<and>
    session_keys_wf keys \<and> shs_phase st' = HelloReceived \<and> chs_phase cst' = HelloReceived"
proof -
  let ?ck = "key_pair_generate C r1" and ?sk = "key_pair_generate C r3"
  let ?hello = "\<lparr>ch_protocol_version = PROTOCOL_VERSION, ch_ephemeral_public = kp_public ?ck,
              ch_timestamp = now_c, ch_random = random_bytes_vec r2 32\<rparr>"
  let ?shello = "\<lparr>sh_ephemeral_public = kp_public ?sk, sh_encrypted_session_token = random_bytes_vec r5 32,
       sh_server_random = random_bytes_vec r4 32\<rparr>"
  have "client_hello_wf ?hello" "server_hello_wf ?shello"
    using key_pair_generate_wf [OF assms(1)] by (simp_all add: client_hello_wf_def server_hello_wf_def)
  then have w: "client_hello_decode (client_hello_encode ?hello) = Ok ?hello"
    "server_hello_decode (server_hello_encode ?shello) = Ok ?shello"
    by (simp_all only: client_hello_codec.roundtrip server_hello_codec.roundtrip)
  obtain keys where keys: "derive_session_keys C (diffie_hellman C ?sk (kp_public ?ck)) (random_bytes_vec r4 32) = Ok keys"
    "session_keys_wf keys"
    by (rule derive_session_keys_ok [OF assms(2)])
  have "process_client_hello C now_s r5 ?hello (server_handshake_new C r3 r4) =
    (Ok (?shello, keys), (server_handshake_new C r3 r4)\<lparr>shs_keypair := None,
        shs_shared_secret := Some (diffie_hellman C ?sk (kp_public ?ck)), shs_phase := HelloReceived\<rparr>)"
    using process_client_hello_ok [of now_s ?hello "server_handshake_new C r3 r4" ?sk C keys r5] assms(3,4) keys(1)
    by (simp add: server_handshake_new_def)
  moreover have "process_server_hello C ?shello (client_handshake_new C r1) =
    (Ok keys, \<lparr>chs_phase = HelloReceived, chs_keypair = None,
       chs_shared_secret = Some (diffie_hellman C ?sk (kp_public ?ck)),
       chs_session_token = Some (random_bytes_vec r5 32)\<rparr>)"
    using keys(1) diffie_hellman_agree [OF assms(1), of r1 r3]
    by (simp add: process_server_hello_def client_handshake_new_def)
  moreover have "create_client_hello now_c r2 (client_handshake_new C r1) = Ok ?hello"
    by (simp add: create_client_hello_def client_handshake_new_def)
  ultimately show ?thesis using w keys(2)
    by (intro exI [of _ ?hello] exI [of _ ?shello] exI [of _ keys] exI conjI) (assumption | simp)+
qed

section \<open>Properties\<close>

text \<open>Key agreement over the wire: when the two clocks differ by at most 30 seconds, a client and a
  server that exchange their encoded hellos derive the same well-formed session keys, whatever
  randomness both used.\<close>

lemma handshake_key_agreement:
  assumes "dh_lawful C" and "hkdf_lawful C"
    and "unat now_s \<le> unat now_c + 30" and "unat now_c \<le> unat now_s + 30"
  shows "\<exists>hello shello keys st' cst'.
    create_client_hello now_c r2 (client_handshake_new C r1) = Ok hello \<and>
    client_hello_decode (client_hello_encode hello) = Ok hello \<and>
    process_client_hello C now_s r5 hello (server_handshake_new C r3 r4) = (Ok (shello, keys), st') \<and>
    server_hello_decode (server_hello_encode shello) = Ok shello \<and>
    process_server_hello C shello (client_handshake_new C r1) = (Ok keys, cst') \<and>
    session_keys_wf keys \<and> shs_phase st' = HelloReceived \<and> chs_phase cst' = HelloReceived"
  using assms by (rule handshake_agreement)

text \<open>The server's checks on a hello: one whose timestamp is more than 30 seconds off is a replay and
  leaves the handshake untouched; a fresh one of another protocol version is refused and leaves it
  untouched; an accepted one uses the key pair up, after which no hello is accepted any more.\<close>

lemma client_hello_guards:
  "(unat (ch_timestamp h) + 30 < unat now \<or> unat now + 30 < unat (ch_timestamp h) \<longrightarrow>
      process_client_hello C now rnd h st = (Err ReplayDetected, st)) \<and>
   (unat (ch_timestamp h) \<le> unat now + 30 \<and> unat now \<le> unat (ch_timestamp h) + 30 \<and>
      ch_protocol_version h \<noteq> PROTOCOL_VERSION \<longrightarrow>
      process_client_hello C now rnd h st = (Err (UnsupportedVersion (ch_protocol_version h)), st)) \<and>
   (\<forall>r st1. process_client_hello C now rnd h st = (Ok r, st1) \<longrightarrow>
      (\<forall>C' now' rnd' h'. \<exists>e. process_client_hello C' now' rnd' h' st1 = (Err e, st1)))"
proof (intro conjI allI impI)
  assume "unat (ch_timestamp h) + 30 < unat now \<or> unat now + 30 < unat (ch_timestamp h)"
  then show "process_client_hello C now rnd h st = (Err ReplayDetected, st)"
    by (rule process_client_hello_stale)
next
  assume a: "unat (ch_timestamp h) \<le> unat now + 30 \<and> unat now \<le> unat (ch_timestamp h) + 30 \<and>
      ch_protocol_version h \<noteq> PROTOCOL_VERSION"
  then have "\<not> abs_diff now (ch_timestamp h) > 30" using drift_le [of now "ch_timestamp h"] by blast
  with a show "process_client_hello C now rnd h st = (Err (UnsupportedVersion (ch_protocol_version h)), st)"
    by (simp add: process_client_hello_def drift_abs_diff MAX_TIMESTAMP_DRIFT_SECS_def)
next
  fix r st1 C' now' rnd' h'
  assume "process_client_hello C now rnd h st = (Ok r, st1)"
  then show "\<exists>e. process_client_hello C' now' rnd' h' st1 = (Err e, st1)"
    by (intro process_client_hello_once process_client_hello_consumes(2))
qed

text \<open>Password authentication: the server answers Ok to a client's message exactly when the
  client sealed the expected password, and answers InvalidCredentials otherwise; no input makes
  it fail.\<close>

lemma verify_auth_correct:
  assumes "aead_lawful C" and "length (client_write_key keys) = KEY_SIZE" and "length p < 2 ^ 32"
  shows "\<exists>f. create_client_finished C rnd p keys = Ok f \<and>
    verify_auth C f keys q = Ok (if p = q then AuthOk else InvalidCredentials) \<and>
    (\<forall>g. verify_auth C g keys q = Ok AuthOk \<or> verify_auth C g keys q = Ok InvalidCredentials)"
proof -
  obtain f where "create_client_finished C rnd p keys = Ok f"
    "\<And>q. verify_auth C f keys q = Ok (if p = q then AuthOk else InvalidCredentials)"
    using verify_auth_client_finished [OF assms] by metis
  then show ?thesis using verify_auth_total by metis
qed

end
