(* ===== verification/Resumption.thy ===== *)
theory Resumption
  imports Session Handshake
begin

text \<open>
  The resumption handshake of \<open>kanrin-protocol/src/resume.rs\<close>: the request by which a client
  claims an existing session on a new transport, the server's answer, the proofs that bind
  them to the session keys, and their fixed-width encodings.
\<close>

definition MAX_RESUME_DRIFT_SECS :: u64 where "MAX_RESUME_DRIFT_SECS = 30"

definition RESUME_REQUEST_SIZE :: nat where "RESUME_REQUEST_SIZE = 96"

definition RESUME_RESPONSE_SIZE :: nat where "RESUME_RESPONSE_SIZE = 73"

datatype resume_status = ResumeOk | UnknownSession | ProofInvalid | Stale | NotResumable

fun resume_status_byte :: "resume_status \<Rightarrow> u8" where
  "resume_status_byte ResumeOk = 0x00"
| "resume_status_byte UnknownSession = 0x01"
| "resume_status_byte ProofInvalid = 0x02"
| "resume_status_byte Stale = 0x03"
| "resume_status_byte NotResumable = 0x04"

definition resume_status_from_byte :: "u8 \<Rightarrow> protocol_error + resume_status" where
  "resume_status_from_byte b =
     (if b = 0x00 then Ok ResumeOk
      else if b = 0x01 then Ok UnknownSession
      else if b = 0x02 then Ok ProofInvalid
      else if b = 0x03 then Ok Stale
      else if b = 0x04 then Ok NotResumable
      else Err (HandshakeFailed (''unknown resume status: 0x'' @ hex02 b)))"

section \<open>Requests\<close>

record resume_request =
  rq_session_id :: session_id
  rq_timestamp :: u64
  rq_client_random :: bytes
  rq_next_expected :: u64
  rq_proof :: bytes

definition request_compute_proof :: "crypto_ops \<Rightarrow> bytes \<Rightarrow> resume_request \<Rightarrow> bytes" where
  "request_compute_proof C resumption_key r =
     mac_sha256 C resumption_key
       [as_bytes ''kanrin-resume-request'', rq_session_id r, be64 (rq_timestamp r), rq_client_random r,
        be64 (rq_next_expected r)]"

definition resume_request_new ::
  "crypto_ops \<Rightarrow> u64 \<Rightarrow> entropy \<Rightarrow> session_id \<Rightarrow> u64 \<Rightarrow> session_keys \<Rightarrow> protocol_error + resume_request" where
  "resume_request_new C now rnd sid ne keys =
     (let req = \<lparr>rq_session_id = sid, rq_timestamp = now, rq_client_random = random_bytes_vec rnd 32,
                 rq_next_expected = ne, rq_proof = replicate 32 0\<rparr> in
      and_then (derive_resumption_key C keys) (\<lambda>key.
        Ok (req\<lparr>rq_proof := request_compute_proof C key req\<rparr>)))"

definition resume_request_verify ::
  "crypto_ops \<Rightarrow> u64 \<Rightarrow> session_keys \<Rightarrow> resume_request \<Rightarrow> protocol_error + resume_status" where
  "resume_request_verify C now keys r =
     (if abs_diff now (rq_timestamp r) > MAX_RESUME_DRIFT_SECS then Ok Stale
      else and_then (derive_resumption_key C keys) (\<lambda>key.
        let expected = request_compute_proof C key r in
        if constant_time_eq expected (rq_proof r) then Ok ResumeOk else Ok ProofInvalid))"

definition resume_request_encode :: "resume_request \<Rightarrow> bytes" where
  "resume_request_encode r =
     rq_session_id r @ be64 (rq_timestamp r) @ rq_client_random r @ be64 (rq_next_expected r) @ rq_proof r"

definition resume_request_decode :: "bytes \<Rightarrow> protocol_error + resume_request" where
  "resume_request_decode data =
     (if length data < RESUME_REQUEST_SIZE then Err (BufferTooShort RESUME_REQUEST_SIZE (length data))
      else Ok \<lparr>rq_session_id = slice 0 16 data, rq_timestamp = from_be (slice 16 24 data),
               rq_client_random = slice 24 56 data, rq_next_expected = from_be (slice 56 64 data),
               rq_proof = slice 64 96 data\<rparr>)"

definition resume_request_wf :: "resume_request \<Rightarrow> bool" where
  "resume_request_wf r \<longleftrightarrow> length (rq_session_id r) = 16 \<and> length (rq_client_random r) = 32 \<and> length (rq_proof r) = 32"

section \<open>Responses\<close>

record resume_response =
  rp_status :: resume_status
  rp_server_random :: bytes
  rp_next_expected :: u64
  rp_proof :: bytes

definition response_compute_proof :: "crypto_ops \<Rightarrow> bytes \<Rightarrow> resume_request \<Rightarrow> resume_response \<Rightarrow> bytes" where
  "response_compute_proof C resumption_key request r =
     mac_sha256 C resumption_key
       [as_bytes ''kanrin-resume-response'', rq_client_random request, [resume_status_byte (rp_status r)],
        rp_server_random r, be64 (rp_next_expected r)]"

definition resume_response_new ::
  "crypto_ops \<Rightarrow> entropy \<Rightarrow> resume_status \<Rightarrow> u64 \<Rightarrow> resume_request \<Rightarrow> session_keys \<Rightarrow> protocol_error + resume_response" where
  "resume_response_new C rnd status ne request keys =
     (let resp = \<lparr>rp_status = status, rp_server_random = random_bytes_vec rnd 32, rp_next_expected = ne,
                  rp_proof = replicate 32 0\<rparr> in
      and_then (derive_resumption_key C keys) (\<lambda>key.
        Ok (resp\<lparr>rp_proof := response_compute_proof C key request resp\<rparr>)))"

definition resume_response_verify ::
  "crypto_ops \<Rightarrow> resume_request \<Rightarrow> session_keys \<Rightarrow> resume_response \<Rightarrow> protocol_error + bool" where
  "resume_response_verify C request keys r =
     and_then (derive_resumption_key C keys) (\<lambda>key.
       let expected = response_compute_proof C key request r in
       Ok (constant_time_eq expected (rp_proof r)))"

definition resume_response_encode :: "resume_response \<Rightarrow> bytes" where
  "resume_response_encode r =
     [resume_status_byte (rp_status r)] @ rp_server_random r @ be64 (rp_next_expected r) @ rp_proof r"

definition resume_response_decode :: "bytes \<Rightarrow> protocol_error + resume_response" where
  "resume_response_decode data =
     (if length data < RESUME_RESPONSE_SIZE then Err (BufferTooShort RESUME_RESPONSE_SIZE (length data))
      else and_then (resume_status_from_byte (data ! 0)) (\<lambda>status.
        Ok \<lparr>rp_status = status, rp_server_random = slice 1 33 data,
            rp_next_expected = from_be (slice 33 41 data), rp_proof = slice 41 73 data\<rparr>))"

definition resume_response_wf :: "resume_response \<Rightarrow> bool" where
  "resume_response_wf r \<longleftrightarrow> length (rp_server_random r) = 32 \<and> length (rp_proof r) = 32"

section \<open>Sent in clear\<close>

text \<open>The handshake and resumption frames use the all-zero key and nonce, on both sides. The two
  \<open>debug\<close> texts are what \<open>{:?}\<close> prints.\<close>

definition zero_key :: bytes where "zero_key = replicate 32 0"

definition zero_nonce :: bytes where "zero_nonce = replicate 12 0"

fun debug_chunk_type :: "chunk_type \<Rightarrow> string" where
  "debug_chunk_type Handshake = ''Handshake''"
| "debug_chunk_type Data = ''Data''"
| "debug_chunk_type Control = ''Control''"
| "debug_chunk_type Padding = ''Padding''"
| "debug_chunk_type Resume = ''Resume''"

fun debug_resume_status :: "resume_status \<Rightarrow> string" where
  "debug_resume_status ResumeOk = ''Ok''"
| "debug_resume_status UnknownSession = ''UnknownSession''"
| "debug_resume_status ProofInvalid = ''ProofInvalid''"
| "debug_resume_status Stale = ''Stale''"
| "debug_resume_status NotResumable = ''NotResumable''"

section \<open>Codecs\<close>

lemma resume_status_roundtrip [simp]: "resume_status_from_byte (resume_status_byte s) = Ok s"
  by (cases s) (simp_all add: resume_status_from_byte_def)

lemma resume_status_from_byte_Inr: "resume_status_from_byte b = Ok s \<Longrightarrow> b = resume_status_byte s"
  by (auto simp: resume_status_from_byte_def split: if_splits)

lemma resume_status_byte_inject [simp]: "resume_status_byte s = resume_status_byte t \<longleftrightarrow> s = t"
  by (cases s; cases t) simp_all

interpretation resume_request_codec: exact_codec resume_request_encode resume_request_decode resume_request_wf
proof unfold_locales
  fix r :: resume_request and rest
  assume wf: "resume_request_wf r"
  let ?d = "resume_request_encode r @ rest"
  have f: "slice 0 16 ?d = rq_session_id r" "slice 16 24 ?d = be64 (rq_timestamp r)"
    "slice 24 56 ?d = rq_client_random r" "slice 56 64 ?d = be64 (rq_next_expected r)" "slice 64 96 ?d = rq_proof r"
    using wf by (simp_all add: resume_request_encode_def resume_request_wf_def slice_def)
  have "length ?d = 96 + length rest"
    using wf by (simp add: resume_request_encode_def resume_request_wf_def)
  then have "\<not> length ?d < RESUME_REQUEST_SIZE" unfolding RESUME_REQUEST_SIZE_def by linarith
  then show "resume_request_decode ?d = Inr r"
    unfolding resume_request_decode_def f by (simp only: if_False from_be64) (cases r, simp)
next
  fix data r
  assume d: "resume_request_decode data = Inr r"
  then have l: "96 \<le> length data"
    by (auto simp: resume_request_decode_def RESUME_REQUEST_SIZE_def split: if_splits)
  with d have r: "r = \<lparr>rq_session_id = slice 0 16 data, rq_timestamp = from_be (slice 16 24 data),
               rq_client_random = slice 24 56 data, rq_next_expected = from_be (slice 56 64 data),
               rq_proof = slice 64 96 data\<rparr>"
    by (simp add: resume_request_decode_def RESUME_REQUEST_SIZE_def)
  have "resume_request_encode r =
      slice 0 16 data @ slice 16 24 data @ slice 24 56 data @ slice 56 64 data @ slice 64 96 data"
    using r l by (simp add: resume_request_encode_def)
  also have "\<dots> = slice 0 96 data" by (simp add: slice_cat)
  finally have "data = resume_request_encode r @ drop 96 data" by (simp add: slice_0)
  moreover have "resume_request_wf r" using r l by (simp add: resume_request_wf_def)
  ultimately show "resume_request_wf r \<and> (\<exists>rest. data = resume_request_encode r @ rest)" by blast
qed

interpretation resume_response_codec: exact_codec resume_response_encode resume_response_decode resume_response_wf
proof unfold_locales
  fix r :: resume_response and rest
  assume wf: "resume_response_wf r"
  let ?d = "resume_response_encode r @ rest"
  have f: "?d ! 0 = resume_status_byte (rp_status r)" "slice 1 33 ?d = rp_server_random r"
    "slice 33 41 ?d = be64 (rp_next_expected r)" "slice 41 73 ?d = rp_proof r"
    using wf by (simp_all add: resume_response_encode_def resume_response_wf_def slice_def drop_Cons')
  have "length ?d = 73 + length rest"
    using wf by (simp add: resume_response_encode_def resume_response_wf_def)
  then have "\<not> length ?d < RESUME_RESPONSE_SIZE" unfolding RESUME_RESPONSE_SIZE_def by linarith
  then show "resume_response_decode ?d = Inr r"
    unfolding resume_response_decode_def f resume_status_roundtrip and_then_simps
    by (simp only: if_False from_be64) (cases r, simp)
next
  fix data r
  assume d: "resume_response_decode data = Inr r"
  then have l: "73 \<le> length data"
    by (auto simp: resume_response_decode_def RESUME_RESPONSE_SIZE_def split: if_splits)
  with d obtain st where st: "resume_status_from_byte (data ! 0) = Ok st"
    and r: "r = \<lparr>rp_status = st, rp_server_random = slice 1 33 data,
            rp_next_expected = from_be (slice 33 41 data), rp_proof = slice 41 73 data\<rparr>"
    by (auto simp: resume_response_decode_def RESUME_RESPONSE_SIZE_def and_then_Inr_iff)
  have "slice 0 1 data = [data ! 0]" using l by (intro nth_slice) auto
  then have "resume_response_encode r = slice 0 1 data @ slice 1 33 data @ slice 33 41 data @ slice 41 73 data"
    using r l resume_status_from_byte_Inr [OF st] by (simp add: resume_response_encode_def)
  also have "\<dots> = slice 0 73 data" by (simp add: slice_cat)
  finally have "data = resume_response_encode r @ drop 73 data" by (simp add: slice_0)
  moreover have "resume_response_wf r" using r l by (simp add: resume_response_wf_def)
  ultimately show "resume_response_wf r \<and> (\<exists>rest. data = resume_response_encode r @ rest)" by blast
qed

section \<open>Verification\<close>

text \<open>The transcript is unambiguous: its fields have fixed widths.\<close>

definition request_transcript :: "resume_request \<Rightarrow> bytes" where
  "request_transcript r = as_bytes ''kanrin-resume-request'' @ rq_session_id r @ be64 (rq_timestamp r)
     @ rq_client_random r @ be64 (rq_next_expected r)"

definition response_transcript :: "resume_request \<Rightarrow> resume_response \<Rightarrow> bytes" where
  "response_transcript q r = as_bytes ''kanrin-resume-response'' @ rq_client_random q
     @ [resume_status_byte (rp_status r)] @ rp_server_random r @ be64 (rp_next_expected r)"

lemma request_compute_proof_alt:
  "request_compute_proof C key r = hmac C key (request_transcript r)"
  by (simp add: request_compute_proof_def mac_sha256_def request_transcript_def)

lemma response_compute_proof_alt:
  "response_compute_proof C key q r = hmac C key (response_transcript q r)"
  by (simp add: response_compute_proof_def mac_sha256_def response_transcript_def)

lemma request_transcript_inject:
  assumes "resume_request_wf r" and "resume_request_wf q" and "request_transcript r = request_transcript q"
  shows "rq_session_id r = rq_session_id q \<and> rq_timestamp r = rq_timestamp q \<and>
    rq_client_random r = rq_client_random q \<and> rq_next_expected r = rq_next_expected q"
  using assms by (auto simp: request_transcript_def resume_request_wf_def)

lemma response_transcript_inject:
  assumes "resume_response_wf r" and "resume_response_wf r'" and "resume_request_wf q" and "resume_request_wf q'"
    and "response_transcript q r = response_transcript q' r'"
  shows "rq_client_random q = rq_client_random q' \<and> rp_status r = rp_status r' \<and>
    rp_server_random r = rp_server_random r' \<and> rp_next_expected r = rp_next_expected r'"
  using assms by (auto simp: response_transcript_def resume_response_wf_def resume_request_wf_def)

text \<open>Requests and responses never share a transcript, so a proof of one is not a proof of the
  other.\<close>

lemma transcripts_disjoint: "request_transcript r \<noteq> response_transcript q p"
proof
  assume "request_transcript r = response_transcript q p"
  then have "request_transcript r ! 16 = response_transcript q p ! 16" by simp
  then show False
    by (simp add: request_transcript_def response_transcript_def byte_of_def)
qed

lemma resume_request_verify_cases:
  assumes "derive_resumption_key C keys = Ok key"
  shows "resume_request_verify C now keys r =
    (if unat (rq_timestamp r) + 30 < unat now \<or> unat now + 30 < unat (rq_timestamp r) then Ok Stale
     else if rq_proof r = hmac C key (request_transcript r) then Ok ResumeOk else Ok ProofInvalid)"
  using assms drift_le [of now "rq_timestamp r"]
  by (auto simp: resume_request_verify_def MAX_RESUME_DRIFT_SECS_def request_compute_proof_alt Let_def)

lemma resume_request_new_ok:
  assumes "derive_resumption_key C keys = Ok key" and "hmac_lawful C" and "length sid = 16"
  obtains r where "resume_request_new C now rnd sid ne keys = Ok r" and "resume_request_wf r"
    and "rq_session_id r = sid" and "rq_timestamp r = now" and "rq_next_expected r = ne"
    and "rq_proof r = hmac C key (request_transcript r)"
proof -
  define req where "req = \<lparr>rq_session_id = sid, rq_timestamp = now, rq_client_random = random_bytes_vec rnd 32,
                 rq_next_expected = ne, rq_proof = replicate 32 0\<rparr>"
  define r where "r = req\<lparr>rq_proof := request_compute_proof C key req\<rparr>"
  have "resume_request_new C now rnd sid ne keys = Ok r"
    using assms(1) by (simp add: resume_request_new_def r_def req_def)
  moreover have "request_transcript r = request_transcript req"
    by (simp add: request_transcript_def r_def)
  moreover have "resume_request_wf r"
    using assms(2,3) by (simp add: resume_request_wf_def r_def req_def request_compute_proof_alt hmac_lawful_def)
  ultimately show thesis
    by (intro that [of r]) (simp_all add: r_def req_def request_compute_proof_alt)
qed

lemma resume_response_new_ok:
  assumes "derive_resumption_key C keys = Ok key" and "hmac_lawful C"
  obtains r where "resume_response_new C rnd st ne q keys = Ok r" and "resume_response_wf r"
    and "rp_status r = st" and "rp_next_expected r = ne"
    and "rp_proof r = hmac C key (response_transcript q r)"
proof -
  define resp where "resp = \<lparr>rp_status = st, rp_server_random = random_bytes_vec rnd 32, rp_next_expected = ne,
                  rp_proof = replicate 32 0\<rparr>"
  define r where "r = resp\<lparr>rp_proof := response_compute_proof C key q resp\<rparr>"
  have "resume_response_new C rnd st ne q keys = Ok r"
    using assms(1) by (simp add: resume_response_new_def r_def resp_def)
  moreover have "response_transcript q r = response_transcript q resp"
    by (simp add: response_transcript_def r_def)
  moreover have "resume_response_wf r"
    using assms(2) by (simp add: resume_response_wf_def r_def resp_def response_compute_proof_alt hmac_lawful_def)
  ultimately show thesis
    by (intro that [of r]) (simp_all add: r_def resp_def response_compute_proof_alt)
qed

lemma resume_response_verify_iff:
  assumes "derive_resumption_key C keys = Ok key"
  shows "resume_response_verify C q keys r = Ok (rp_proof r = hmac C key (response_transcript q r))"
  using assms by (auto simp: resume_response_verify_def response_compute_proof_alt Let_def)

section \<open>Properties\<close>

text \<open>Resumption end to end: a request built with the session keys and decoded from its encoding is
  accepted when the clocks differ by at most 30 seconds and is stale otherwise; the server's answer
  built for it, decoded from its encoding, verifies at the client with the position it reported.\<close>

lemma resumption_roundtrip:
  assumes "hkdf_lawful C" and "hmac_lawful C" and "length sid = 16"
  shows "\<exists>q p. resume_request_new C now rnd sid ne keys = Ok q \<and>
    resume_request_decode (resume_request_encode q) = Ok q \<and> rq_session_id q = sid \<and> rq_next_expected q = ne \<and>
    resume_request_verify C now' keys q =
      Ok (if unat now + 30 < unat now' \<or> unat now' + 30 < unat now then Stale else ResumeOk) \<and>
    resume_response_new C rnd' st ne' q keys = Ok p \<and>
    resume_response_decode (resume_response_encode p) = Ok p \<and> rp_status p = st \<and> rp_next_expected p = ne' \<and>
    resume_response_verify C q keys p = Ok True"
proof -
  obtain key where key: "derive_resumption_key C keys = Ok key"
    using derive_resumption_key_ok [OF assms(1)] by metis
  obtain q where q: "resume_request_new C now rnd sid ne keys = Ok q" "resume_request_wf q"
    "rq_session_id q = sid" "rq_timestamp q = now" "rq_next_expected q = ne"
    "rq_proof q = hmac C key (request_transcript q)"
    by (rule resume_request_new_ok [OF key assms(2,3)])
  obtain p where p: "resume_response_new C rnd' st ne' q keys = Ok p" "resume_response_wf p"
    "rp_status p = st" "rp_next_expected p = ne'" "rp_proof p = hmac C key (response_transcript q p)"
    by (rule resume_response_new_ok [OF key assms(2)])
  show ?thesis
    using q p resume_request_verify_cases [OF key, of now' q] resume_response_verify_iff [OF key, of q p]
      resume_request_codec.roundtrip [OF q(2)] resume_response_codec.roundtrip [OF p(2)]
    by (intro exI [of _ q] exI [of _ p]) simp
qed

text \<open>C24. A resume request is accepted only with the right proof: the server answers Ok exactly when the
  request is fresh and its proof is the HMAC, under the key derived from the session keys, of the
  request's own fields; requests that differ in any field have different transcripts, and no
  response transcript is a request transcript.\<close>

theorem resume_accept_iff:
  assumes "derive_resumption_key C keys = Ok key"
  shows "(resume_request_verify C now keys q = Ok ResumeOk \<longleftrightarrow>
      unat (rq_timestamp q) \<le> unat now + 30 \<and> unat now \<le> unat (rq_timestamp q) + 30 \<and>
      rq_proof q = hmac C key (request_transcript q)) \<and>
    (resume_request_wf q \<and> resume_request_wf q' \<and> request_transcript q = request_transcript q' \<longrightarrow>
      q\<lparr>rq_proof := []\<rparr> = q'\<lparr>rq_proof := []\<rparr>) \<and>
    request_transcript q \<noteq> response_transcript q' p"
  using resume_request_verify_cases [OF assms, of now q] request_transcript_inject [of q q'] transcripts_disjoint
  by (cases q; cases q') auto

theorem resume_accept_iff_witness:
  "resume_request_verify demo_crypto 50 \<lparr>client_write_key = replicate 32 1, server_write_key = replicate 32 2\<rparr>
     \<lparr>rq_session_id = replicate 16 0, rq_timestamp = 40, rq_client_random = replicate 32 0,
      rq_next_expected = 3, rq_proof = replicate 32 0\<rparr> \<noteq> Ok ResumeOk"
proof -
  let ?k = "\<lparr>client_write_key = replicate 32 (1 :: u8), server_write_key = replicate 32 2\<rparr>"
  let ?q = "\<lparr>rq_session_id = replicate 16 0, rq_timestamp = 40, rq_client_random = replicate 32 0,
      rq_next_expected = 3, rq_proof = replicate 32 0\<rparr>"
  have key: "derive_resumption_key demo_crypto ?k = Ok (replicate 32 1)"
    by (simp add: derive_resumption_key_def KEY_SIZE_def)
  have "hmac demo_crypto (replicate 32 1) (request_transcript ?q) ! 0 = 1" by simp
  then have "rq_proof ?q \<noteq> hmac demo_crypto (replicate 32 1) (request_transcript ?q)" by auto
  with resume_accept_iff [OF key, of 50 ?q] show ?thesis by blast
qed

end
