(* ===== verification/Server_Session.thy ===== *)
theory Server_Session
  imports Server_Lifecycle Server_Frontdoor Server_Origin Resumption
begin

text \<open>
  A connection of the server up to the point where it carries data, \<open>kanrin-server/src/session.rs\<close>:
  the front door that every connection is served by first, then the resumption or the full
  handshake of an admitted one. The TLS stream is a tape: the bytes the peer sends before it
  closes, the bytes written to it, and how many more writes succeed. Clock readings and random
  bytes are arguments (\<open>rnd i\<close> is the \<open>i\<close>-th draw). Errors are the texts of \<open>anyhow\<close>.
\<close>

definition ACK_EVERY_N_CHUNKS :: nat where "ACK_EVERY_N_CHUNKS = 32"

definition ACK_MAX_DELAY :: duration where "ACK_MAX_DELAY = from_millis 200"

definition MAX_REQUEST_BODY :: nat where "MAX_REQUEST_BODY = 1024 * 1024"

section \<open>The stream\<close>

record tape =
  tp_in :: bytes
  tp_out :: bytes
  tp_room :: nat

definition read_exact :: "nat \<Rightarrow> tape \<Rightarrow> (string + bytes) \<times> tape" where
  "read_exact n t =
     (if length (tp_in t) < n then (Err ''early eof'', t\<lparr>tp_in := []\<rparr>)
      else (Ok (take n (tp_in t)), t\<lparr>tp_in := drop n (tp_in t)\<rparr>))"

definition write_all :: "bytes \<Rightarrow> tape \<Rightarrow> (string + unit) \<times> tape" where
  "write_all data t =
     (if tp_room t = 0 then (Err ''broken pipe'', t)
      else (Ok (), t\<lparr>tp_out := tp_out t @ data, tp_room := tp_room t - 1\<rparr>))"

definition recv_frame :: "tape \<Rightarrow> (string + bytes) \<times> tape" where
  "recv_frame t =
     (case read_exact 4 t of
        (Inl e, t1) \<Rightarrow> (Err e, t1)
      | (Inr len_buf, t1) \<Rightarrow>
          let len = unat (from_be len_buf :: u32) in
          if len > 1024 * 1024 then (Err (''frame too large: '' @ decimal len @ '' bytes''), t1)
          else read_exact len t1)"

definition send_frame :: "bytes \<Rightarrow> tape \<Rightarrow> (string + unit) \<times> tape" where
  "send_frame data t =
     (case write_all (be32 (word_of_nat (length data))) t of
        (Inl e, t1) \<Rightarrow> (Err e, t1)
      | (Inr _, t1) \<Rightarrow> write_all data t1)"

text \<open>The same two on a stream half, as \<open>serve\<close> uses them.\<close>

definition read_frame :: "tape \<Rightarrow> (string + bytes) \<times> tape" where
  "read_frame t =
     (case read_exact 4 t of
        (Inl e, t1) \<Rightarrow> (Err e, t1)
      | (Inr len_buf, t1) \<Rightarrow>
          let len = unat (from_be len_buf :: u32) in
          if len > 1024 * 1024 then (Err (''frame too large: '' @ decimal len @ '' bytes''), t1)
          else read_exact len t1)"

definition write_frame :: "bytes \<Rightarrow> tape \<Rightarrow> (string + unit) \<times> tape" where
  "write_frame data t =
     (case write_all (be32 (word_of_nat (length data))) t of
        (Inl e, t1) \<Rightarrow> (Err e, t1)
      | (Inr _, t1) \<Rightarrow> write_all data t1)"

definition send_raw :: "bytes \<Rightarrow> tape \<Rightarrow> (string + unit) \<times> tape" where
  "send_raw data t = write_all data t"

lemma read_exact_in: "read_exact n t = (r, t') \<Longrightarrow> length (tp_in t') \<le> length (tp_in t)"
  by (auto simp: read_exact_def split: if_splits)

lemma write_all_in [simp]: "tp_in (snd (write_all d t)) = tp_in t"
  by (simp add: write_all_def)

section \<open>The front door\<close>

function read_head_from :: "bytes \<Rightarrow> tape \<Rightarrow> (string + request_head) \<times> tape" where
  "read_head_from buf t =
     (case read_exact 1 t of
        (Inl e, t1) \<Rightarrow> (Err e, t1)
      | (Inr byte, t1) \<Rightarrow>
          (case request_head_parse (buf @ byte) of
             Inr head \<Rightarrow> (Ok head, t1)
           | Inl Incomplete \<Rightarrow> read_head_from (buf @ byte) t1
           | Inl _ \<Rightarrow> (Err ''bad request'', t1)))"
  by pat_completeness auto

termination
  by (relation "measure (\<lambda>(buf, t). length (tp_in t))") (auto simp: read_exact_def split: if_splits)

declare read_head_from.simps [simp del]

definition read_request_head :: "tape \<Rightarrow> (string + request_head) \<times> tape" where
  "read_request_head t = read_head_from [] t"

definition read_body :: "request_head \<Rightarrow> tape \<Rightarrow> (string + bytes) \<times> tape" where
  "read_body head t =
     (let len = (case content_length head of Some n \<Rightarrow> n | None \<Rightarrow> 0) in
      if len = 0 then (Ok [], t)
      else if len > MAX_REQUEST_BODY then (Err ''bad request'', t)
      else read_exact len t)"

text \<open>What the origin is served from, as in \<open>respond\<close>.\<close>

record site =
  site_upstream :: "string \<Rightarrow> bytes \<Rightarrow> string + read_result list"
  site_files :: "path \<Rightarrow> bytes option"
  site_is_dir :: "path \<Rightarrow> bool"

definition origin_respond :: "site \<Rightarrow> server_config \<Rightarrow> request_head \<Rightarrow> bytes \<Rightarrow> bytes" where
  "origin_respond site config head body =
     respond (site_upstream site) (site_files site) (site_is_dir site) (config_origin config) head body"

lemma read_head_from_in: "read_head_from buf t = (Inr head, t') \<Longrightarrow> length (tp_in t') < length (tp_in t)"
proof (induction buf t rule: read_head_from.induct)
  case (1 buf t)
  obtain r t1 where r: "read_exact 1 t = (r, t1)" by fastforce
  show ?case
  proof (cases r)
    case (Inl e)
    then show ?thesis using 1(2) r by (simp add: read_head_from.simps [of buf t])
  next
    case (Inr byte)
    then have lt: "length (tp_in t1) < length (tp_in t)"
      using r by (auto simp: read_exact_def split: if_splits)
    show ?thesis
      using 1(2) 1(1) [OF r [symmetric] Inr] r Inr lt
      by (auto simp: read_head_from.simps [of buf t] split: sum.splits parse_error.splits)
  qed
qed

lemma read_body_in: "length (tp_in (snd (read_body head t))) \<le> length (tp_in t)"
  by (auto simp: read_body_def read_exact_def Let_def)

lemma serve_web_shrinks:
  assumes "(Inr head, t1) = read_request_head t" and "(r, t3) = write_all response (snd (read_body head t1))"
  shows "length (tp_in t3) < length (tp_in t)"
proof -
  have "length (tp_in t1) < length (tp_in t)"
    using assms(1) read_head_from_in [of "[]" t head t1] by (simp add: read_request_head_def)
  moreover have "tp_in t3 = tp_in (snd (read_body head t1))"
    using assms(2) write_all_in [of response "snd (read_body head t1)"] by (metis snd_conv)
  ultimately show ?thesis using read_body_in [of head t1] by simp
qed

text \<open>The keep-alive loop of an ordinary visitor; \<open>ts n\<close> is the clock at its \<open>n\<close>-th request. The
  response timer does not touch the stream.\<close>

function serve_web ::
  "crypto_ops \<Rightarrow> site \<Rightarrow> server_config \<Rightarrow> (nat \<Rightarrow> u64) \<Rightarrow> nat \<Rightarrow> admitter \<Rightarrow> tape \<Rightarrow>
     (string + connection_outcome) \<times> admitter \<times> tape" where
  "serve_web C site config ts n ad t =
     (case read_request_head t of
        (Inl _, t1) \<Rightarrow> (Ok AddressUnused, ad, t1)
      | (Inr head, t1) \<Rightarrow>
          let body = (case fst (read_body head t1) of Inr b \<Rightarrow> b | Inl _ \<Rightarrow> []);
              t2 = snd (read_body head t1);
              response = origin_respond site config head body;
              admission = fst (admit C head (ts n) ad);
              ad1 = snd (admit C head (ts n) ad)
          in (case write_all response t2 of
                (Inl e, t3) \<Rightarrow> (Err e, ad1, t3)
              | (Inr _, t3) \<Rightarrow>
                  if admission = Tunnel
                  then (Err ''tunnel upgrade on a keep-alive connection is not yet wired'', ad1, t3)
                  else if \<not> wants_keep_alive head then (Ok AddressUnused, ad1, t3)
                  else serve_web C site config ts (Suc n) ad1 t3))"
  by pat_completeness auto

termination
  by (relation "measure (\<lambda>(C, site, config, ts, n, ad, t). length (tp_in t))") (auto intro: serve_web_shrinks)

declare serve_web.simps [simp del]

text \<open>\<open>run\<close> up to the decision between web and tunnel.\<close>

definition run_front ::
  "crypto_ops \<Rightarrow> site \<Rightarrow> server_config \<Rightarrow> u64 \<Rightarrow> admitter \<Rightarrow> tape \<Rightarrow> (string + admission) \<times> admitter \<times> tape" where
  "run_front C site config now ad t =
     (case read_request_head t of
        (Inl e, t1) \<Rightarrow> (Err e, ad, t1)
      | (Inr head, t1) \<Rightarrow>
          (case read_body head t1 of
             (Inl e, t2) \<Rightarrow> (Err e, ad, t2)
           | (Inr body, t2) \<Rightarrow>
               let response = origin_respond site config head body in
               (case admit C head now ad of (admission, ad1) \<Rightarrow>
                 (case send_raw response t2 of
                    (Inl e, t3) \<Rightarrow> (Err e, ad1, t3)
                  | (Inr _, t3) \<Rightarrow> (Ok admission, ad1, t3)))))"

section \<open>The tunnel\<close>

definition context_err :: "string \<Rightarrow> ('e \<Rightarrow> string) \<Rightarrow> 'e + 'a \<Rightarrow> string + 'a" where
  "context_err what display r = map_err (\<lambda>e. what @ '': '' @ display e) r"

text \<open>The checks of \<open>accept_resume\<close>: the request and the entry it names.\<close>

definition resume_claim :: "crypto_ops \<Rightarrow> u64 \<Rightarrow> bytes \<Rightarrow> registry \<Rightarrow> string + resume_request \<times> session_entry" where
  "resume_claim C now first reg =
     and_then (context_err ''decode resume chunk'' display_protocol_error (decode_encrypted C first zero_key zero_nonce))
       (\<lambda>chunk.
     and_then (context_err ''parse resume request'' display_protocol_error (resume_request_decode (payload chunk)))
       (\<lambda>request.
     case registry_get reg (rq_session_id request) of
       None \<Rightarrow> Err ''resume names an unknown session''
     | Some entry \<Rightarrow>
         and_then (context_err ''verify resume'' display_protocol_error (resume_request_verify C now (e_keys entry) request))
           (\<lambda>status.
         if status \<noteq> ResumeOk then Err (''resume rejected: '' @ debug_resume_status status)
         else Ok (request, entry))))"

text \<open>The frame that answers an accepted request.\<close>

definition resume_answer ::
  "crypto_ops \<Rightarrow> entropy \<Rightarrow> entropy \<Rightarrow> resume_request \<Rightarrow> session_entry \<Rightarrow> string + bytes" where
  "resume_answer C rnd pad request entry =
     and_then (context_err ''sign resume response'' display_protocol_error
         (resume_response_new C rnd ResumeOk (rb_next_expected (e_recv_buffer entry)) request (e_keys entry)))
       (\<lambda>response.
     context_err ''encode resume response'' display_protocol_error
       (encode_encrypted C pad (new_resume (resume_response_encode response)) zero_key zero_nonce))"

definition accept_resume ::
  "crypto_ops \<Rightarrow> u64 \<Rightarrow> (nat \<Rightarrow> entropy) \<Rightarrow> bytes \<Rightarrow> server \<Rightarrow> tape \<Rightarrow> (string + session_entry) \<times> server \<times> tape" where
  "accept_resume C now rnd first s t =
     (case resume_claim C now first (sv_registry s) of
        Inl e \<Rightarrow> (Err e, s, t)
      | Inr (request, entry) \<Rightarrow>
          let entry1 = entry\<lparr>e_send_buffer := snd (apply_ack (rq_next_expected request) [] (e_send_buffer entry))\<rparr>;
              s1 = s\<lparr>sv_registry := hm_insert (rq_session_id request) entry1 (sv_registry s)\<rparr>
          in (case resume_answer C (rnd 0) (rnd 1) request entry1 of
                Inl e \<Rightarrow> (Err e, s1, t)
              | Inr encoded \<Rightarrow>
                  (case send_frame encoded t of
                     (Inl e, t1) \<Rightarrow> (Err e, s1, t1)
                   | (Inr _, t1) \<Rightarrow> (Ok entry1, s1, t1))))"

text \<open>The octets of an address.\<close>

definition octets :: "ipv4 \<Rightarrow> bytes" where "octets ip = be32 ip"

text \<open>\<open>accept_new\<close> up to the server's hello: the frame to send, the session keys and the handshake.\<close>

definition accept_hello ::
  "crypto_ops \<Rightarrow> u64 \<Rightarrow> (nat \<Rightarrow> entropy) \<Rightarrow> bytes \<Rightarrow> string + bytes \<times> session_keys" where
  "accept_hello C now rnd first =
     and_then (context_err ''decode client hello'' display_protocol_error (decode_encrypted C first zero_key zero_nonce))
       (\<lambda>chunk.
     and_then (context_err ''parse client hello'' display_protocol_error (client_hello_decode (payload chunk)))
       (\<lambda>client_hello.
     and_then (context_err ''process client hello'' display_protocol_error
         (fst (process_client_hello C now (rnd 2) client_hello (server_handshake_new C (rnd 0) (rnd 1)))))
       (\<lambda>(server_hello, session_keys).
     and_then (context_err ''encode server hello'' display_protocol_error
         (encode_encrypted C (rnd 3) (new_handshake (server_hello_encode server_hello)) zero_key zero_nonce))
       (\<lambda>encoded. Ok (encoded, session_keys)))))"

text \<open>The server's verdict on the client's \<open>ClientFinished\<close>, and the frame that carries it.\<close>

definition accept_auth :: "crypto_ops \<Rightarrow> string \<Rightarrow> session_keys \<Rightarrow> bytes \<Rightarrow> string + auth_status" where
  "accept_auth C password session_keys auth_data =
     and_then (context_err ''decode auth'' display_protocol_error
         (decode_encrypted C auth_data (client_write_key session_keys) zero_nonce))
       (\<lambda>auth_chunk.
     and_then (context_err ''parse auth'' display_protocol_error (client_finished_decode (payload auth_chunk)))
       (\<lambda>client_finished.
     context_err ''verify auth'' display_protocol_error (verify_auth C client_finished session_keys password)))"

definition server_finished_for :: "ipv4 \<Rightarrow> session_id \<Rightarrow> auth_status \<Rightarrow> server_finished" where
  "server_finished_for assigned_ip sid status =
     \<lparr>sf_status = status, sf_session_token = (if status = AuthOk then Some (octets assigned_ip @ sid) else None)\<rparr>"

definition finished_frame ::
  "crypto_ops \<Rightarrow> entropy \<Rightarrow> session_keys \<Rightarrow> server_finished \<Rightarrow> string + bytes" where
  "finished_frame C pad session_keys finished =
     context_err ''encode server finished'' display_protocol_error
       (encode_encrypted C pad (new_handshake (server_finished_encode finished)) (server_write_key session_keys) zero_nonce)"

definition accept_new ::
  "crypto_ops \<Rightarrow> u64 \<Rightarrow> instant \<Rightarrow> (nat \<Rightarrow> entropy) \<Rightarrow> string \<Rightarrow> ipv4 \<Rightarrow> bytes \<Rightarrow> server \<Rightarrow> tape \<Rightarrow>
     (string + session_entry option) \<times> server \<times> tape" where
  "accept_new C now clock rnd password assigned_ip first s t =
     (case accept_hello C now rnd first of
        Inl e \<Rightarrow> (Err e, s, t)
      | Inr (encoded, session_keys) \<Rightarrow>
     (case send_frame encoded t of
        (Inl e, t1) \<Rightarrow> (Err e, s, t1)
      | (Inr _, t1) \<Rightarrow>
     (case recv_frame t1 of
        (Inl e, t2) \<Rightarrow> (Err e, s, t2)
      | (Inr auth_data, t2) \<Rightarrow>
     (case accept_auth C password session_keys auth_data of
        Inl e \<Rightarrow> (Err e, s, t2)
      | Inr auth_status \<Rightarrow>
     (let sid = session_id_generate (rnd 4) in
      case finished_frame C (rnd 5) session_keys (server_finished_for assigned_ip sid auth_status) of
        Inl e \<Rightarrow> (Err e, s, t2)
      | Inr finished \<Rightarrow>
     (case send_frame finished t2 of
        (Inl e, t3) \<Rightarrow> (Err e, s, t3)
      | (Inr _, t3) \<Rightarrow>
          if auth_status \<noteq> AuthOk then (Ok None, s, t3)
          else let s1 = commit_session clock sid session_keys assigned_ip s in
            (Ok (registry_get (sv_registry s1) sid), s1, t3)))))))"

text \<open>\<open>run_tunnel\<close>: the outcome for the reserved address, and the session the connection then serves.\<close>

definition run_tunnel ::
  "crypto_ops \<Rightarrow> u64 \<Rightarrow> instant \<Rightarrow> (nat \<Rightarrow> entropy) \<Rightarrow> string \<Rightarrow> ipv4 \<Rightarrow> server \<Rightarrow> tape \<Rightarrow>
     (string + connection_outcome \<times> session_entry option) \<times> server \<times> tape" where
  "run_tunnel C now clock rnd password assigned_ip s t =
     (case recv_frame t of
        (Inl e, t1) \<Rightarrow> (Err e, s, t1)
      | (Inr first, t1) \<Rightarrow>
          if length first < HEADER_SIZE then (Err ''first frame is shorter than a chunk header'', s, t1)
          else case header_decode (take HEADER_SIZE first) of
            Inl e \<Rightarrow> (Err (display_protocol_error e), s, t1)
          | Inr (h, _) \<Rightarrow>
              (case chunk_type h of
                 Resume \<Rightarrow>
                   (case accept_resume C now rnd first s t1 of
                      (Inl e, s1, t2) \<Rightarrow> (Err e, s1, t2)
                    | (Inr entry, s1, t2) \<Rightarrow> (Ok (AddressUnused, Some entry), s1, t2))
               | Handshake \<Rightarrow>
                   (case accept_new C now clock rnd password assigned_ip first s t1 of
                      (Inl e, s1, t2) \<Rightarrow> (Err e, s1, t2)
                    | (Inr None, s1, t2) \<Rightarrow> (Ok (AddressUnused, None), s1, t2)
                    | (Inr (Some entry), s1, t2) \<Rightarrow> (Ok (AddressTaken, Some entry), s1, t2))
               | other \<Rightarrow> (Err (''unexpected first chunk type: '' @ debug_chunk_type other), s, t1)))"

text \<open>\<open>run\<close>.\<close>

definition run ::
  "crypto_ops \<Rightarrow> site \<Rightarrow> server_config \<Rightarrow> (nat \<Rightarrow> u64) \<Rightarrow> instant \<Rightarrow> (nat \<Rightarrow> entropy) \<Rightarrow> ipv4 \<Rightarrow>
     admitter \<Rightarrow> server \<Rightarrow> tape \<Rightarrow>
     (string + connection_outcome \<times> session_entry option) \<times> admitter \<times> server \<times> tape" where
  "run C site config now clock rnd assigned_ip ad s t =
     (case run_front C site config (now 0) ad t of
        (Inl e, ad1, t1) \<Rightarrow> (Err e, ad1, s, t1)
      | (Inr Web, ad1, t1) \<Rightarrow>
          (case serve_web C site config (\<lambda>n. now (Suc n)) 0 ad1 t1 of
             (Inl e, ad2, t2) \<Rightarrow> (Err e, ad2, s, t2)
           | (Inr outcome, ad2, t2) \<Rightarrow> (Ok (outcome, None), ad2, s, t2))
      | (Inr Tunnel, ad1, t1) \<Rightarrow>
          (case run_tunnel C (now 1) clock rnd (sc_password config) assigned_ip s t1 of
             (r, s1, t2) \<Rightarrow> (r, ad1, s1, t2)))"

section \<open>Reading a request head byte by byte\<close>

lemma find_window_take_ge:
  "find_window pat bs = Some k \<Longrightarrow> k + length pat \<le> n \<Longrightarrow> find_window pat (take n bs) = Some k"
proof (induction pat bs arbitrary: k n rule: find_window.induct)
  case (1 pat)
  then show ?case by simp
next
  case (2 pat b bs)
  show ?case
  proof (cases "take (length pat) (b # bs) = pat")
    case True
    then have "k = 0" using 2 by simp
    moreover have "take (length pat) (take n (b # bs)) = pat" using True 2(3) calculation by (simp add: min_absorb1)
    ultimately show ?thesis using True by (cases "take n (b # bs)") auto
  next
    case False
    then obtain j where j: "find_window pat bs = Some j" "k = Suc j" using 2 by auto
    then obtain m where n: "n = Suc m" using 2(3) by (cases n) auto
    have "take (length pat) (take n (b # bs)) = take (length pat) (b # bs)"
      using 2(3) by (simp add: min_absorb1)
    then show ?thesis using False 2(1) [OF False j(1), of m] 2(3) j n by simp
  qed
qed

lemma read_exact_1: "n < length I \<Longrightarrow> read_exact 1 (t\<lparr>tp_in := drop n I\<rparr>) = (Ok [I ! n], t\<lparr>tp_in := drop (Suc n) I\<rparr>)"
  by (simp add: read_exact_def take_Suc hd_drop_conv_nth drop_Suc tl_drop)

lemma read_head_from_step:
  assumes "n < length I"
  shows "read_head_from (take n I) (t\<lparr>tp_in := drop n I\<rparr>) =
    (case request_head_parse (take (Suc n) I) of
       Inr head \<Rightarrow> (Ok head, t\<lparr>tp_in := drop (Suc n) I\<rparr>)
     | Inl Incomplete \<Rightarrow> read_head_from (take (Suc n) I) (t\<lparr>tp_in := drop (Suc n) I\<rparr>)
     | Inl _ \<Rightarrow> (Err ''bad request'', t\<lparr>tp_in := drop (Suc n) I\<rparr>))"
  using assms by (subst read_head_from.simps) (simp only: read_exact_1 take_Suc_conv_app_nth prod.case sum.case)

lemma read_head_from_decides:
  assumes "n < N" and "N \<le> length I" and "\<And>m. m < N \<Longrightarrow> request_head_parse (take m I) = Err Incomplete"
    and "request_head_parse (take N I) \<noteq> Err Incomplete"
  shows "read_head_from (take n I) (t\<lparr>tp_in := drop n I\<rparr>) =
    (case request_head_parse (take N I) of Inr head \<Rightarrow> Ok head | Inl _ \<Rightarrow> Err ''bad request'', t\<lparr>tp_in := drop N I\<rparr>)"
  using assms
proof (induction "N - n" arbitrary: n)
  case 0
  then show ?case by simp
next
  case (Suc d)
  show ?case
  proof (cases "Suc n = N")
    case True
    then show ?thesis using Suc.prems by (simp add: read_head_from_step split: sum.split parse_error.split)
  next
    case False
    then show ?thesis using Suc by (simp add: read_head_from_step)
  qed
qed

lemma read_head_from_eof:
  assumes "n \<le> length I" and "\<And>m. m \<le> length I \<Longrightarrow> request_head_parse (take m I) = Err Incomplete"
  shows "read_head_from (take n I) (t\<lparr>tp_in := drop n I\<rparr>) = (Err ''early eof'', t\<lparr>tp_in := []\<rparr>)"
  using assms
proof (induction "length I - n" arbitrary: n)
  case 0
  then show ?case by (subst read_head_from.simps) (simp add: read_exact_def)
next
  case (Suc d)
  then have n: "n < length I" by simp
  have "request_head_parse (take (Suc n) I) = Err Incomplete" using Suc.prems(2) [of "Suc n"] n by simp
  then show ?case using Suc n by (simp add: read_head_from_step)
qed

lemma parse_take_head:
  assumes "find_head_end buf = Some k" and "length buf \<le> MAX_HEAD_BYTES"
  shows "request_head_parse (take (k + 4) buf) = request_head_parse buf"
proof -
  have le: "k + 4 \<le> length buf" by (rule find_head_end_Some(2) [OF assms(1)])
  have fe: "find_head_end (take (k + 4) buf) = Some k"
    using assms(1) unfolding find_head_end_def by (rule find_window_take_ge) simp
  have t: "take k (take (k + 4) buf) = take k buf" "take (k + 4) (take (k + 4) buf) = take (k + 4) buf" by simp_all
  have c: "\<not> length (take (k + 4) buf) > MAX_HEAD_BYTES" "\<not> length buf > MAX_HEAD_BYTES" using assms(2) by simp_all
  show ?thesis unfolding request_head_parse_def by (simp only: c if_False fe assms(1) option.case t)
qed

lemma take_incomplete:
  assumes "find_head_end (take M I) = None \<or> find_head_end (take M I) = Some k \<and> m < k + 4"
    and "m \<le> M" and "M = MAX_HEAD_BYTES"
  shows "request_head_parse (take m I) = Err Incomplete"
proof -
  have t: "take m I = take m (take M I)" using assms(2) by simp
  have "find_head_end (take m I) = None"
  proof (cases "find_head_end (take M I)")
    case None
    show ?thesis
    proof (cases "find_head_end (take m I)")
      case (Some j)
      then have "find_head_end (take m I @ drop m (take M I)) = Some j"
        unfolding find_head_end_def by (rule find_window_append)
      moreover have "take m I @ drop m (take M I) = take M I" unfolding t by (rule append_take_drop_id)
      ultimately show ?thesis using None by simp
    qed simp
  next
    case (Some j)
    then have "j = k" "m < k + 4" using assms(1) by simp_all
    then show ?thesis
      using Some unfolding t find_head_end_def by (intro find_window_take [of _ _ k]) simp_all
  qed
  then show ?thesis using assms(2,3) by (simp add: parse_Incomplete_iff)
qed

lemma read_head_found:
  assumes "find_head_end (take MAX_HEAD_BYTES I) = Some k"
  shows "read_head_from [] (t\<lparr>tp_in := I\<rparr>) =
    (case request_head_parse (take MAX_HEAD_BYTES I) of Inr head \<Rightarrow> Ok head | Inl _ \<Rightarrow> Err ''bad request'',
     t\<lparr>tp_in := drop (k + 4) I\<rparr>)"
proof -
  let ?buf = "take MAX_HEAD_BYTES I"
  have le: "k + 4 \<le> length ?buf" by (rule find_head_end_Some(2) [OF assms])
  have "k + 4 \<le> MAX_HEAD_BYTES" using le by simp
  then have tk: "take (k + 4) I = take (k + 4) ?buf" by (simp add: min_def)
  have p: "request_head_parse (take (k + 4) I) = request_head_parse ?buf"
    unfolding tk by (rule parse_take_head [OF assms]) simp
  have "request_head_parse (take m I) = Err Incomplete" if "m < k + 4" for m
    using take_incomplete [of MAX_HEAD_BYTES I k m] assms that le by simp
  moreover have "request_head_parse (take (k + 4) I) \<noteq> Err Incomplete"
    unfolding p using assms by (simp add: parse_Incomplete_iff)
  ultimately show ?thesis using read_head_from_decides [of 0 "k + 4" I t] le p by simp
qed

lemma read_head_missing:
  assumes "find_head_end (take MAX_HEAD_BYTES I) = None"
  shows "read_head_from [] (t\<lparr>tp_in := I\<rparr>) =
    (if length I \<le> MAX_HEAD_BYTES then (Err ''early eof'', t\<lparr>tp_in := []\<rparr>)
     else (Err ''bad request'', t\<lparr>tp_in := drop (Suc MAX_HEAD_BYTES) I\<rparr>))"
proof -
  have inc: "request_head_parse (take m I) = Err Incomplete" if "m \<le> MAX_HEAD_BYTES" for m
    using take_incomplete [of MAX_HEAD_BYTES I 0 m] assms that by simp
  show ?thesis
  proof (cases "length I \<le> MAX_HEAD_BYTES")
    case True
    then show ?thesis using read_head_from_eof [of 0 I t] inc by simp
  next
    case False
    then have big: "request_head_parse (take (Suc MAX_HEAD_BYTES) I) = Err TooLarge"
      by (simp add: request_head_parse_def)
    then show ?thesis using read_head_from_decides [of 0 "Suc MAX_HEAD_BYTES" I t] False inc by simp
  qed
qed

text \<open>Reading the head a byte at a time is parsing the first \<open>MAX_HEAD_BYTES\<close> of what the peer sends
  as a whole: the connection has consumed exactly the head, whether it parsed or not; without the
  blank line it waits for more, and gives up one byte past the bound.\<close>

lemma read_request_head_exact:
  "read_request_head t =
     (let I = tp_in t; buf = take MAX_HEAD_BYTES I in
      case find_head_end buf of
        Some k \<Rightarrow>
          (case request_head_parse buf of Inr head \<Rightarrow> Ok head | Inl _ \<Rightarrow> Err ''bad request'', t\<lparr>tp_in := drop (k + 4) I\<rparr>)
      | None \<Rightarrow>
          if length I \<le> MAX_HEAD_BYTES then (Err ''early eof'', t\<lparr>tp_in := []\<rparr>)
          else (Err ''bad request'', t\<lparr>tp_in := drop (Suc MAX_HEAD_BYTES) I\<rparr>))"
  using read_head_found [of "tp_in t" _ t] read_head_missing [of "tp_in t" t]
  by (simp add: read_request_head_def Let_def split: option.split)

section \<open>The tunnel entry is a run of the server's steps\<close>

text \<open>How the connection is listed once \<open>run_tunnel\<close> has returned \<open>r\<close>.\<close>

fun conn_after :: "ipv4 \<Rightarrow> string + connection_outcome \<times> session_entry option \<Rightarrow> conn" where
  "conn_after ip (Inr (AddressTaken, _)) = Established ip"
| "conn_after ip (Inr (AddressUnused, Some entry)) = Resumed ip entry"
| "conn_after ip _ = Reserved ip"

lemma resume_claim_entry:
  "resume_claim C now first reg = Inr (request, entry) \<Longrightarrow> registry_get reg (rq_session_id request) = Some entry"
  by (auto simp: resume_claim_def and_then_Inr_iff split: option.splits if_splits)

lemma hm_get_update [simp]: "hm_get (hm_insert k v m) k = Some v"
  by (simp add: hm_get_def hm_insert_def update_conv')

lemma conns_self: "sv_conns s = cs \<Longrightarrow> server_step\<^sup>*\<^sup>* s (s\<lparr>sv_conns := cs\<rparr>)"
  by (cases s) auto

lemma accept_resume_steps:
  assumes "accept_resume C now rnd first s t = (r, s', t')" and "sv_conns s = xs @ Reserved ip # ys"
  shows "server_step\<^sup>*\<^sup>* s (s'\<lparr>sv_conns := xs @ (case r of Inr e \<Rightarrow> Resumed ip e | Inl _ \<Rightarrow> Reserved ip) # ys\<rparr>)"
proof (cases "resume_claim C now first (sv_registry s)")
  case (Inl e)
  then have "r = Inl e" "s' = s" using assms(1) by (simp_all add: accept_resume_def)
  then show ?thesis using conns_self [OF assms(2)] by simp
next
  case (Inr claim)
  then obtain request entry where c: "resume_claim C now first (sv_registry s) = Inr (request, entry)"
    by (cases claim) simp
  define entry1 where "entry1 = entry\<lparr>e_send_buffer := snd (apply_ack (rq_next_expected request) [] (e_send_buffer entry))\<rparr>"
  define s1 where "s1 = s\<lparr>sv_registry := hm_insert (rq_session_id request) entry1 (sv_registry s)\<rparr>"
  have s': "s' = s1" and r: "\<And>e. r = Inr e \<Longrightarrow> e = entry1"
    using assms(1) c by (auto simp: accept_resume_def Let_def entry1_def s1_def split: sum.splits prod.splits)
  have st1: "server_step s s1"
    unfolding s1_def by (rule st_entry [OF resume_claim_entry [OF c]]) (simp_all add: entry1_def)
  have c1: "sv_conns s1 = xs @ Reserved ip # ys" using assms(2) by (simp add: s1_def)
  show ?thesis
  proof (cases r)
    case (Inl e)
    then show ?thesis using rtranclp_trans [OF r_into_rtranclp [of server_step, OF st1] conns_self [OF c1]] s' by simp
  next
    case (Inr e)
    have "registry_get (sv_registry s1) (rq_session_id request) = Some entry1"
      by (simp add: s1_def registry_get_def)
    from st_resume [OF c1 this] st1 Inr r s' show ?thesis by auto
  qed
qed

lemma accept_new_steps:
  assumes "accept_new C now clock rnd password ip first s t = (r, s', t')" and "sv_conns s = xs @ Reserved ip # ys"
    and "registry_get (sv_registry s) (session_id_generate (rnd 4)) = None"
  shows "server_step\<^sup>*\<^sup>* s (s'\<lparr>sv_conns := xs @ (case r of Inr (Some e) \<Rightarrow> Established ip | _ \<Rightarrow> Reserved ip) # ys\<rparr>)
    \<and> (r = Inr None \<longrightarrow> s' = s)"
proof -
  consider (kept) "s' = s" "\<And>e. r \<noteq> Inr (Some e)"
    | (new) keys where "s' = commit_session clock (session_id_generate (rnd 4)) keys ip s"
        "r = Inr (registry_get (sv_registry s') (session_id_generate (rnd 4)))"
    using assms(1) by (auto simp: accept_new_def Let_def split: sum.splits prod.splits if_splits)
  then show ?thesis
  proof cases
    case kept
    then show ?thesis using conns_self [OF assms(2)] by (cases r) (auto split: option.split)
  next
    case new
    have "registry_get (sv_registry s') (session_id_generate (rnd 4)) \<noteq> None"
      unfolding new(1) by (simp add: commit_session_def registry_insert_def registry_get_def Let_def split: prod.split)
    then show ?thesis using st_commit [OF assms(2,3), of clock keys] new by auto
  qed
qed

text \<open>C11. Whatever the peer sends, what \<open>run_tunnel\<close> does to the registry, the forwarder and the address
  pool is a run of the server's steps that leaves the connection listed as its outcome says: so every
  invariant of the reachable server states holds across resumptions, new sessions and failed ones.\<close>

theorem run_tunnel_refines:
  assumes "run_tunnel C now clock rnd password ip s t = (r, s', t')"
    and "sv_conns s = xs @ Reserved ip # ys"
    and "registry_get (sv_registry s) (session_id_generate (rnd 4)) = None"
  shows "server_step\<^sup>*\<^sup>* s (s'\<lparr>sv_conns := xs @ conn_after ip r # ys\<rparr>)"
proof -
  consider (err) e where "r = Inl e" "s' = s"
    | (resume) first t1 q where "accept_resume C now rnd first s t1 = (q, s', t')"
        "r = map_sum id (\<lambda>e. (AddressUnused, Some e)) q"
    | (new) first t1 q where "accept_new C now clock rnd password ip first s t1 = (q, s', t')"
        "r = map_sum id (\<lambda>e. (case e of None \<Rightarrow> AddressUnused | Some _ \<Rightarrow> AddressTaken, e)) q"
    using assms(1)
    by (auto simp: run_tunnel_def split: sum.splits prod.splits if_splits chunk_type.splits option.splits)
  then show ?thesis
  proof cases
    case err
    then show ?thesis using conns_self [OF assms(2)] by simp
  next
    case resume
    then show ?thesis using accept_resume_steps [OF resume(1) assms(2)] by (cases q) auto
  next
    case new
    then show ?thesis using accept_new_steps [OF new(1) assms(2,3)] by (auto split: sum.splits option.splits)
  qed
qed

end
