(* ===== verification/Server_Serve.thy ===== *)
theory Server_Serve
  imports Server_Session Continuity_Replay
begin

text \<open>
  \<open>serve\<close> of \<open>kanrin-server/src/session.rs\<close>: the replay a connection starts with, its reader and
  its writer. The two run as separate tasks over one session entry, so a run is a list of events
  in the order they happen: a frame read, a packet or an acknowledgement written, the end of the
  stream. The locks of the entry are held within one event only. \<open>sg_forwarded\<close> is what has
  reached the TUN device.
\<close>

section \<open>The connection while it is served\<close>

record serving =
  sg_entry :: session_entry
  sg_tape :: tape
  sg_unacked :: nat
  sg_last_ack :: instant
  sg_acks :: "control_message list"
  sg_forwarded :: "bytes list"
  sg_reading :: bool
  sg_writing :: bool

text \<open>Anything unacknowledged goes out first; a failed write ends the replay, nothing else.\<close>

definition serve_replay :: "session_entry \<Rightarrow> tape \<Rightarrow> tape" where
  "serve_replay entry t = snd (replay_onto write_frame (e_send_buffer entry) t)"

text \<open>\<open>serve\<close> up to its loops: the handles of the previous connection's tasks are aborted.\<close>

definition serve_begin :: "instant \<Rightarrow> nat \<Rightarrow> session_entry \<Rightarrow> tape \<Rightarrow> nat list \<times> serving" where
  "serve_begin now handle entry t =
     (case entry_attach now [handle] entry of
        (aborted, entry') \<Rightarrow>
          (aborted, \<lparr>sg_entry = entry', sg_tape = serve_replay entry t, sg_unacked = 0, sg_last_ack = now,
                     sg_acks = [], sg_forwarded = [], sg_reading = True, sg_writing = True\<rparr>))"

text \<open>The end of the reader's loop: the writer is aborted and the entry touched.\<close>

definition serve_end :: "instant \<Rightarrow> serving \<Rightarrow> serving" where
  "serve_end now sg = sg\<lparr>sg_entry := entry_touch now (sg_entry sg), sg_reading := False, sg_writing := False\<rparr>"

text \<open>\<open>ack_tx.send\<close>, which fails once the writer is gone.\<close>

definition send_ack :: "instant \<Rightarrow> control_message \<Rightarrow> serving \<Rightarrow> serving" where
  "send_ack now ack sg =
     (if sg_writing sg then sg\<lparr>sg_acks := sg_acks sg @ [ack]\<rparr> else serve_end now sg)"

definition read_data :: "instant \<Rightarrow> u64 \<Rightarrow> bytes \<Rightarrow> serving \<Rightarrow> serving" where
  "read_data now sq pl sg =
     (let e = sg_entry sg in
      case accept sq pl (e_recv_buffer e) of
        (Inl _, rb) \<Rightarrow> sg\<lparr>sg_entry := e\<lparr>e_recv_buffer := rb\<rparr>\<rparr>
      | (Inr received, rb) \<Rightarrow>
          if received = Duplicate then sg\<lparr>sg_entry := e\<lparr>e_recv_buffer := rb\<rparr>\<rparr>
          else case drain_ready rb of
            (ready, rb') \<Rightarrow>
              let sg1 = sg\<lparr>sg_entry := e\<lparr>e_recv_buffer := rb'\<rparr>,
                           sg_forwarded := sg_forwarded sg @ concat (map send_to_internet ready),
                           sg_unacked := sg_unacked sg + 1\<rparr>
              in if sg_unacked sg1 \<ge> ACK_EVERY_N_CHUNKS \<or> elapsed now (sg_last_ack sg1) \<ge> ACK_MAX_DELAY
                 then send_ack now (build_ack rb') (sg1\<lparr>sg_unacked := 0, sg_last_ack := now\<rparr>)
                 else sg1)"

definition read_control :: "instant \<Rightarrow> bytes \<Rightarrow> serving \<Rightarrow> serving" where
  "read_control now pl sg =
     (case control_decode pl of
        Inr (Ack ne ranges) \<Rightarrow>
          sg\<lparr>sg_entry := (sg_entry sg)\<lparr>e_send_buffer := snd (apply_ack ne ranges (e_send_buffer (sg_entry sg)))\<rparr>\<rparr>
      | Inr (Ping timestamp) \<Rightarrow> send_ack now (Pong timestamp) sg
      | _ \<Rightarrow> sg)"

definition read_step :: "crypto_ops \<Rightarrow> instant \<Rightarrow> bytes \<Rightarrow> serving \<Rightarrow> serving" where
  "read_step C now data sg =
     (let e = entry_touch now (sg_entry sg) in
      case decrypt_incoming C now data False (e_session e) of
        (Inl _, s) \<Rightarrow> serve_end now (sg\<lparr>sg_entry := e\<lparr>e_session := s\<rparr>\<rparr>)
      | (Inr chunk, s) \<Rightarrow>
          let sg1 = sg\<lparr>sg_entry := e\<lparr>e_session := s\<rparr>\<rparr> in
          (case chunk_type (header chunk) of
             Data \<Rightarrow> read_data now (sequence (header chunk)) (payload chunk) sg1
           | Control \<Rightarrow> read_control now (payload chunk) sg1
           | _ \<Rightarrow> sg1))"

text \<open>One turn of the writer's loop for the chunk \<open>c\<close> the \<open>select!\<close> chose.\<close>

definition write_chunk :: "crypto_ops \<Rightarrow> entropy \<Rightarrow> instant \<Rightarrow> chunk \<Rightarrow> serving \<Rightarrow> serving" where
  "write_chunk C pad now c sg =
     (let e = sg_entry sg; is_data = (chunk_type (header c) = Data); sq = send_seq (e_session e) in
      case encrypt_outgoing C pad now c False (e_session e) of
        (Inl _, s) \<Rightarrow> sg\<lparr>sg_entry := e\<lparr>e_session := s\<rparr>, sg_writing := False\<rparr>
      | (Inr bs, s) \<Rightarrow>
          let e1 = e\<lparr>e_session := s,
                     e_send_buffer := (if is_data then snd (send_push sq bs (e_send_buffer e)) else e_send_buffer e)\<rparr>
          in (case write_frame bs (sg_tape sg) of
                (Inl _, t) \<Rightarrow> sg\<lparr>sg_entry := e1, sg_tape := t, sg_writing := False\<rparr>
              | (Inr _, t) \<Rightarrow> sg\<lparr>sg_entry := e1, sg_tape := t\<rparr>))"

section \<open>Runs\<close>

text \<open>\<open>Inbound\<close>: a frame was read. \<open>Reply\<close>: a packet arrived on the reply queue. \<open>Acknowledge\<close>: the
  writer takes the oldest acknowledgement. \<open>Gone\<close>: reading the next frame failed. \<open>r\<close> is the random byte
  of the padding length.\<close>

datatype serve_event =
    Inbound instant bytes
  | Reply instant u8 entropy bytes
  | Acknowledge instant u8 entropy
  | Gone instant

fun serve_step :: "crypto_ops \<Rightarrow> serve_event \<Rightarrow> serving \<Rightarrow> serving" where
  "serve_step C (Inbound now data) sg = (if sg_reading sg then read_step C now data sg else sg)"
| "serve_step C (Reply now r pad packet) sg =
     (if sg_writing sg then write_chunk C pad now (new_data r packet) sg else sg)"
| "serve_step C (Acknowledge now r pad) sg =
     (case sg_acks sg of
        [] \<Rightarrow> sg
      | ack # acks \<Rightarrow>
          if sg_writing sg then write_chunk C pad now (new_control r (control_encode ack)) (sg\<lparr>sg_acks := acks\<rparr>)
          else sg)"
| "serve_step C (Gone now) sg = (if sg_reading sg then serve_end now sg else sg)"

definition serve_run :: "crypto_ops \<Rightarrow> serve_event list \<Rightarrow> serving \<Rightarrow> serving" where
  "serve_run C evs sg = fold (serve_step C) evs sg"

section \<open>What the client sent\<close>

text \<open>\<open>inbound\<close> are the frames an event list reads; \<open>stream_of\<close> the payload under each sequence.\<close>

fun inbound :: "serve_event list \<Rightarrow> bytes set" where
  "inbound [] = {}"
| "inbound (Inbound now data # evs) = insert data (inbound evs)"
| "inbound (ev # evs) = inbound evs"

definition stream_of :: "chunk list \<Rightarrow> nat \<Rightarrow> bytes" where
  "stream_of cs n = (if n < length cs then payload (cs ! n) else [])"

definition is_data :: "chunk \<Rightarrow> bool" where
  "is_data c \<longleftrightarrow> chunk_type (header c) = Data"

text \<open>A frame of the client: it opens to one of the chunks sent, under that chunk's sequence.\<close>

definition frame_of :: "crypto_ops \<Rightarrow> bytes \<Rightarrow> chunk list \<Rightarrow> bytes \<Rightarrow> bool" where
  "frame_of C key cs data \<longleftrightarrow>
     (\<exists>i < length cs. decode_sequenced C data key =
        Ok ((cs ! i)\<lparr>header := (header (cs ! i))\<lparr>sequence := word_of_nat i\<rparr>\<rparr>))"

section \<open>The receiving invariant\<close>

text \<open>\<open>out\<close> are the payloads handed to the forwarder so far.\<close>

definition serving_inv :: "crypto_ops \<Rightarrow> session_keys \<Rightarrow> chunk list \<Rightarrow> bytes list \<Rightarrow> serving \<Rightarrow> bool" where
  "serving_inv C keys cs out sg \<longleftrightarrow>
     s_keys (e_session (sg_entry sg)) = keys \<and>
     recv_inv (e_recv_buffer (sg_entry sg)) \<and> no_max (e_recv_buffer (sg_entry sg)) \<and>
     recv_stream (stream_of cs) out (e_recv_buffer (sg_entry sg)) \<and>
     rb_ready (e_recv_buffer (sg_entry sg)) = [] \<and>
     recv_set (e_recv_buffer (sg_entry sg)) \<subseteq> {word_of_nat i | i. i < length cs \<and> is_data (cs ! i)} \<and>
     sg_forwarded sg = concat (map send_to_internet out)"

lemma serving_inv_cong:
  assumes "s_keys (e_session (sg_entry sg')) = s_keys (e_session (sg_entry sg))"
    and "e_recv_buffer (sg_entry sg') = e_recv_buffer (sg_entry sg)" and "sg_forwarded sg' = sg_forwarded sg"
  shows "serving_inv C keys cs out sg' = serving_inv C keys cs out sg"
  using assms by (simp add: serving_inv_def)

text \<open>What neither the writer nor an acknowledgement touches.\<close>

lemma serve_end_frame [simp]:
  "e_session (sg_entry (serve_end now sg)) = e_session (sg_entry sg)"
  "e_recv_buffer (sg_entry (serve_end now sg)) = e_recv_buffer (sg_entry sg)"
  "sg_forwarded (serve_end now sg) = sg_forwarded sg"
  by (simp_all add: serve_end_def entry_touch_def)

lemma send_ack_frame [simp]:
  "e_session (sg_entry (send_ack now ack sg)) = e_session (sg_entry sg)"
  "e_recv_buffer (sg_entry (send_ack now ack sg)) = e_recv_buffer (sg_entry sg)"
  "sg_forwarded (send_ack now ack sg) = sg_forwarded sg"
  by (simp_all add: send_ack_def)

lemma read_control_frame [simp]:
  "e_session (sg_entry (read_control now pl sg)) = e_session (sg_entry sg)"
  "e_recv_buffer (sg_entry (read_control now pl sg)) = e_recv_buffer (sg_entry sg)"
  "sg_forwarded (read_control now pl sg) = sg_forwarded sg"
  by (simp_all add: read_control_def split: sum.split control_message.split)

lemma serving_inv_frames [simp]:
  "serving_inv C keys cs out (serve_end now sg) = serving_inv C keys cs out sg"
  "serving_inv C keys cs out (send_ack now ack sg) = serving_inv C keys cs out sg"
  "serving_inv C keys cs out (read_control now pl sg) = serving_inv C keys cs out sg"
  by (rule serving_inv_cong; simp)+

lemma encrypt_outgoing_keys [simp]: "s_keys (snd (encrypt_outgoing C rnd now c b s)) = s_keys s"
  by (cases rule: encrypt_outgoing_cases [of s C rnd now c b]) simp_all

lemma decrypt_incoming_keys [simp]: "s_keys (snd (decrypt_incoming C now data b s)) = s_keys s"
  by (simp add: decrypt_incoming_def Let_def split: sum.split)

lemma write_chunk_inv [simp]: "serving_inv C keys cs out (write_chunk C pad now c sg) = serving_inv C keys cs out sg"
proof (rule serving_inv_cong)
  let ?r = "encrypt_outgoing C pad now c False (e_session (sg_entry sg))"
  obtain r s where r: "?r = (r, s)" by fastforce
  then have s: "s_keys s = s_keys (e_session (sg_entry sg))" using encrypt_outgoing_keys by (metis snd_conv)
  show "s_keys (e_session (sg_entry (write_chunk C pad now c sg))) = s_keys (e_session (sg_entry sg))"
    "e_recv_buffer (sg_entry (write_chunk C pad now c sg)) = e_recv_buffer (sg_entry sg)"
    "sg_forwarded (write_chunk C pad now c sg) = sg_forwarded sg"
    using r s by (cases r; simp add: write_chunk_def Let_def split: sum.split prod.split)+
qed

lemma accept_unchanged:
  "accept sq pl rb = (Inl e, rb') \<Longrightarrow> rb' = rb"
  "accept sq pl rb = (Inr Duplicate, rb') \<Longrightarrow> rb' = rb"
  by (auto simp: accept_def split: if_splits)

lemma read_data_inv:
  assumes inv: "serving_inv C keys cs out sg" and i: "i < length cs" "is_data (cs ! i)" and small: "length cs < 2 ^ 64"
  shows "\<exists>out'. serving_inv C keys cs out' (read_data now (word_of_nat i) (payload (cs ! i)) sg)"
proof -
  let ?sq = "word_of_nat i :: u64" and ?pl = "payload (cs ! i)" and ?rb = "e_recv_buffer (sg_entry sg)"
  let ?f = "stream_of cs" and ?S = "{word_of_nat i | i. i < length cs \<and> is_data (cs ! i)}"
  have u: "unat ?sq = i" using i(1) small by (simp add: unat_of_nat)
  have sq: "?sq \<noteq> word_MAX" "?pl = ?f (unat ?sq)"
    using u i(1) small by (auto simp: stream_of_def unat_max)
  have rb: "recv_inv ?rb" "no_max ?rb" "recv_stream ?f out ?rb" "recv_set ?rb \<subseteq> ?S"
    using inv by (simp_all add: serving_inv_def)
  obtain r rb where a: "accept ?sq ?pl ?rb = (r, rb)" by fastforce
  note p = accept_preserves [OF rb(1,2) sq rb(3), unfolded a snd_conv]
  have S: "recv_set rb \<subseteq> ?S"
    using accept_recv_set [OF rb(1,2) sq(1), of ?pl] rb(4) i by (auto simp: a)
  define rb' where "rb' = snd (drain_ready rb)"
  note d = drain_preserves [where rb = rb, folded rb'_def]
  have out: "recv_stream ?f (out @ rb_ready rb) rb'" "rb_ready rb' = []"
    using d(4) p by (auto simp: rb'_def drain_ready_def)
  consider (same) "rb = ?rb" "(\<exists>e. r = Inl e) \<or> r = Inr Duplicate" | (got) x where "r = Inr x" "x \<noteq> Duplicate"
    using accept_unchanged a by (cases r) blast+
  then show ?thesis
  proof cases
    case same
    then have "serving_inv C keys cs out (read_data now ?sq ?pl sg)"
      using inv a by (auto simp: read_data_def serving_inv_def Let_def)
    then show ?thesis by blast
  next
    case got
    have "drain_ready rb = (rb_ready rb, rb')" by (simp add: drain_ready_def rb'_def)
    then have "serving_inv C keys cs (out @ rb_ready rb) (read_data now ?sq ?pl sg)"
      using inv a got out d(1,2,3) p S by (simp add: read_data_def serving_inv_def Let_def)
    then show ?thesis by blast
  qed
qed

lemma read_step_inv:
  assumes inv: "serving_inv C keys cs out sg" and small: "length cs < 2 ^ 64"
    and data: "frame_of C (client_write_key keys) cs data"
  shows "\<exists>out'. serving_inv C keys cs out' (read_step C now data sg)"
proof -
  let ?e = "entry_touch now (sg_entry sg)"
  obtain i where i: "i < length cs" and dec: "decode_sequenced C data (client_write_key keys) =
      Ok ((cs ! i)\<lparr>header := (header (cs ! i))\<lparr>sequence := word_of_nat i\<rparr>\<rparr>)"
    using data by (auto simp: frame_of_def)
  define c where "c = (cs ! i)\<lparr>header := (header (cs ! i))\<lparr>sequence := word_of_nat i\<rparr>\<rparr>"
  have c: "chunk_type (header c) = chunk_type (header (cs ! i))" "sequence (header c) = word_of_nat i"
    "payload c = payload (cs ! i)" by (simp_all add: c_def)
  have keys: "s_keys (e_session ?e) = keys" using inv by (simp add: serving_inv_def entry_touch_def)
  obtain s where s: "decrypt_incoming C now data False (e_session ?e) = (Ok c, s)" "s_keys s = keys"
    using dec keys by (simp add: decrypt_incoming_def c_def)
  define sg1 where "sg1 = sg\<lparr>sg_entry := ?e\<lparr>e_session := s\<rparr>\<rparr>"
  have inv1: "serving_inv C keys cs out sg1"
    using inv s(2) by (simp add: serving_inv_def sg1_def entry_touch_def)
  have step: "read_step C now data sg =
     (case chunk_type (header (cs ! i)) of
        Data \<Rightarrow> read_data now (word_of_nat i) (payload (cs ! i)) sg1
      | Control \<Rightarrow> read_control now (payload (cs ! i)) sg1 | _ \<Rightarrow> sg1)"
    by (simp only: read_step_def Let_def s(1) prod.case sum.case c sg1_def)
  show ?thesis
    using read_data_inv [OF inv1 i _ small, of now] inv1 step
    by (cases "chunk_type (header (cs ! i))") (auto simp: is_data_def)
qed

lemma serve_step_inv:
  assumes "serving_inv C keys cs out sg" and "length cs < 2 ^ 64"
    and "\<forall>data\<in>inbound [ev]. frame_of C (client_write_key keys) cs data"
  shows "\<exists>out'. serving_inv C keys cs out' (serve_step C ev sg)"
proof (cases ev)
  case (Inbound now data)
  then show ?thesis using assms read_step_inv [OF assms(1,2), of data now] by auto
next
  case (Acknowledge now r pad)
  have "serving_inv C keys cs out (sg\<lparr>sg_acks := a\<rparr>)" for a using assms(1) by (simp add: serving_inv_def)
  then show ?thesis using Acknowledge assms(1) by (auto split: list.split)
qed (use assms(1) in auto)

lemma inbound_Cons: "inbound (ev # evs) = inbound [ev] \<union> inbound evs"
  by (cases ev) simp_all

lemma serve_run_inv:
  assumes "serving_inv C keys cs out sg" and "length cs < 2 ^ 64"
    and "\<forall>data\<in>inbound evs. frame_of C (client_write_key keys) cs data"
  shows "\<exists>out'. serving_inv C keys cs out' (serve_run C evs sg)"
  using assms
proof (induction evs arbitrary: out sg)
  case Nil
  then show ?case by (auto simp: serve_run_def)
next
  case (Cons ev evs)
  have split: "\<forall>data\<in>inbound [ev]. frame_of C (client_write_key keys) cs data"
    "\<forall>data\<in>inbound evs. frame_of C (client_write_key keys) cs data"
    using Cons.prems(3) inbound_Cons [of ev evs] by blast+
  obtain out' where "serving_inv C keys cs out' (serve_step C ev sg)"
    using serve_step_inv [OF Cons.prems(1,2) split(1)] by blast
  from Cons.IH [OF this Cons.prems(2) split(2)] show ?case by (simp add: serve_run_def)
qed

text \<open>The buffer of a new session, and what the invariant says at the end of a run: as long as every
  sequence below \<open>next_expected\<close> was received, none of them is a control chunk.\<close>

lemma serving_inv_begin:
  assumes "s_keys (e_session entry) = keys" and "e_recv_buffer entry = receive_buffer_with_default_capacity"
  shows "serving_inv C keys cs [] (snd (serve_begin now handle entry t))"
  using assms recv_new [where mx = "16 * 1024 * 1024"]
  by (simp add: serving_inv_def serve_begin_def entry_attach_def entry_touch_def no_max_recv_set
      receive_buffer_with_default_capacity_def) (simp add: receive_buffer_new_def)

lemma word_of_nat_less_inj:
  "(word_of_nat i :: u64) = word_of_nat j \<Longrightarrow> i < 2 ^ 64 \<Longrightarrow> j < 2 ^ 64 \<Longrightarrow> i = j"
  by (auto dest!: arg_cong [where f = unat] simp: unat_of_nat)

lemma received_prefix:
  assumes "recv_inv rb" and "recv_set rb \<subseteq> {word_of_nat i | i. i < length cs \<and> P (cs ! i)}"
    and "length cs < 2 ^ 64" and "n < unat (rb_next_expected rb)"
  shows "n < length cs \<and> P (cs ! n)"
proof -
  have n: "n < 2 ^ 64" using assms(4) unat_lt [of "rb_next_expected rb"] by simp
  have "(word_of_nat n :: u64) < rb_next_expected rb"
    using assms(4) n by (simp add: word_less_nat_alt unat_of_nat)
  then have "word_of_nat n \<in> recv_set rb" by (simp add: recv_set_def)
  then obtain i where "word_of_nat n = (word_of_nat i :: u64)" "i < length cs" "P (cs ! i)" using assms(2) by blast
  then show ?thesis using word_of_nat_less_inj [of n i] n assms(3) by auto
qed

section \<open>The frames of the client's session\<close>

lemma send_series_frames:
  assumes C: "aead_lawful C" and key: "length (client_write_key (s_keys s)) = KEY_SIZE"
    and wf: "\<forall>c\<in>set (map fst xs). chunk_wf c"
    and run: "send_series C True xs s = (map Inr frames, s')" and i: "i < length frames"
  shows "i < length xs \<and> decode_sequenced C (frames ! i) (client_write_key (s_keys s)) =
    Ok ((fst (xs ! i))\<lparr>header := (header (fst (xs ! i)))\<lparr>sequence := send_seq s + word_of_nat i\<rparr>\<rparr>)"
  using key wf run i
proof (induction xs arbitrary: s frames i)
  case Nil
  then show ?case by simp
next
  case (Cons x xs)
  obtain c rnd now where x: "x = (c, rnd, now)" by (cases x) auto
  obtain r s1 where r: "encrypt_outgoing C rnd now c True s = (r, s1)" by fastforce
  obtain rs s2 where rs: "send_series C True xs s1 = (rs, s2)" by fastforce
  have "map Inr frames = r # rs" using Cons.prems(3) x r rs by simp
  then obtain bs fs where fs: "frames = bs # fs" "r = Inr bs" "rs = map Inr fs" by (cases frames) auto
  note e = encrypt_outgoing_Ok [OF r [unfolded fs(2)]]
  have cwf: "chunk_wf c" using Cons.prems(2) x by simp
  show ?case
  proof (cases i)
    case 0
    obtain bs' where bs': "encode_sequenced C rnd c (client_write_key (s_keys s)) (send_seq s) = Ok bs'"
      "\<forall>rest. decode_sequenced C (bs' @ rest) (client_write_key (s_keys s)) = Ok (c\<lparr>header := (header c)\<lparr>sequence := send_seq s\<rparr>\<rparr>)"
      using encode_decode_sequenced [OF C Cons.prems(1) cwf] by blast
    have "bs' = bs" using bs'(1) e(4) by simp
    then show ?thesis using bs'(2) [rule_format, of "[]"] 0 fs x by simp
  next
    case (Suc j)
    have "send_series C True xs s1 = (map Inr fs, s')"
      using Cons.prems(3) x r rs fs by simp
    moreover have "length (client_write_key (s_keys s1)) = KEY_SIZE" "\<forall>c\<in>set (map fst xs). chunk_wf c" "j < length fs"
      using Cons.prems e(3) fs Suc by simp_all
    ultimately have "j < length xs \<and> decode_sequenced C (fs ! j) (client_write_key (s_keys s1)) =
        Ok ((fst (xs ! j))\<lparr>header := (header (fst (xs ! j)))\<lparr>sequence := send_seq s1 + word_of_nat j\<rparr>\<rparr>)"
      using Cons.IH by blast
    moreover have "send_seq s1 + word_of_nat j = send_seq s + word_of_nat i" using e(2) Suc by simp
    ultimately show ?thesis using e(3) Suc fs by simp
  qed
qed

lemma send_series_small:
  assumes "send_series C b xs s = (map Inr frames, s')"
  shows "length frames = length xs" and "unat (send_seq s) + length xs < 2 ^ 64"
proof -
  have sent: "sent_frames (map Inr frames) = frames"
    by (induction frames) simp_all
  have "length (fst (send_series C b xs s)) = length xs"
    by (induction xs arbitrary: s) (auto simp: Let_def split: prod.split, metis fst_conv)
  then show l: "length frames = length xs" using assms by simp
  show "unat (send_seq s) + length xs < 2 ^ 64"
    using send_series_sequences(2) [OF assms] sent l unat_lt [of "send_seq s'"] by simp
qed

lemma session_frames:
  assumes "aead_lawful C" and "session_keys_wf keys" and "\<forall>c\<in>set (map fst xs). chunk_wf c"
    and run: "send_series C True xs (session_new t0 sid keys) = (map Inr frames, s')" and "data \<in> set frames"
  shows "frame_of C (client_write_key keys) (map fst xs) data"
proof -
  let ?s = "session_new t0 sid keys"
  have s: "s_keys ?s = keys" "send_seq ?s = 0" by (simp_all add: session_new_def)
  have k: "length (client_write_key (s_keys ?s)) = KEY_SIZE" using assms(2) s by (simp add: session_keys_wf_def)
  obtain i where i: "i < length frames" "data = frames ! i" using assms(5) by (metis in_set_conv_nth)
  from send_series_frames [OF assms(1) k assms(3) run i(1)] show ?thesis
    using i s by (auto simp: frame_of_def intro!: exI [of _ i])
qed

section \<open>Properties\<close>

text \<open>C19. From the client's session to the server's TUN device: whatever frames of a client arrive, in any
  order and however often, and however the server's own sending interleaves, what the server forwards
  are the packets of the client's first chunks, in order and each once. But a control chunk (an
  acknowledgement or a ping) uses up a sequence of the same counter and is never delivered, so
  forwarding never gets past the first control chunk the client sends.\<close>

theorem tunnel_delivers_until_control:
  assumes C: "aead_lawful C" and keys: "session_keys_wf keys" "s_keys (e_session entry) = keys"
    and fresh: "e_recv_buffer entry = receive_buffer_with_default_capacity"
    and wf: "\<forall>c\<in>set (map fst xs). chunk_wf c"
    and sent: "send_series C True xs (session_new t0 sid keys) = (map Inr frames, s')"
    and arrive: "inbound evs \<subseteq> set frames"
    and sg: "sg = serve_run C evs (snd (serve_begin now handle entry t))"
    and n: "n = unat (rb_next_expected (e_recv_buffer (sg_entry sg)))"
  shows "sg_forwarded sg = concat (map (send_to_internet \<circ> payload) (take n (map fst xs))) \<and>
    n \<le> length (takeWhile is_data (map fst xs))"
proof -
  let ?cs = "map fst xs"
  have small: "length ?cs < 2 ^ 64"
    using send_series_small(2) [OF sent] by simp
  have "\<forall>data\<in>inbound evs. frame_of C (client_write_key keys) ?cs data"
    using session_frames [OF C keys(1) wf sent] arrive by blast
  then obtain out where inv: "serving_inv C keys ?cs out sg"
    using serve_run_inv [OF serving_inv_begin [OF keys(2) fresh] small] sg by blast
  have rb: "recv_inv (e_recv_buffer (sg_entry sg))"
    "recv_set (e_recv_buffer (sg_entry sg)) \<subseteq> {word_of_nat i | i. i < length ?cs \<and> is_data (?cs ! i)}"
    using inv unfolding serving_inv_def by blast+
  have pre: "i < length ?cs \<and> is_data (?cs ! i)" if "i < n" for i
    using received_prefix [OF rb small that [unfolded n]] .
  then have le: "n \<le> length ?cs" by (meson not_le less_irrefl)
  have "recv_stream (stream_of ?cs) out (e_recv_buffer (sg_entry sg))" "rb_ready (e_recv_buffer (sg_entry sg)) = []"
    using inv unfolding serving_inv_def by blast+
  then have "out = map (stream_of ?cs) [0..<n]" by (simp add: recv_stream_def n)
  also have "\<dots> = map payload (take n ?cs)"
    using le by (intro nth_equalityI) (auto simp: stream_of_def)
  finally have "sg_forwarded sg = concat (map (send_to_internet \<circ> payload) (take n ?cs))"
    using inv by (simp add: serving_inv_def comp_def)
  moreover have "n \<le> length (takeWhile is_data ?cs)"
    using pre le by (metis length_takeWhile_less_P_nth nth_append_length)
  ultimately show ?thesis by simp
qed

text \<open>A client that sends a packet, a ping and another packet.\<close>

lemma send_series_total:
  assumes C: "aead_lawful C" and "session_keys_wf (s_keys s)" and "\<forall>c\<in>set (map fst xs). chunk_wf c"
    and "unat (send_seq s) + length xs < 2 ^ 64 - 2"
  shows "\<exists>frames s'. send_series C True xs s = (map Inr frames, s')"
  using assms(2-4)
proof (induction xs arbitrary: s)
  case Nil
  then show ?case by (auto intro: exI [of _ "[]"])
next
  case (Cons x xs)
  obtain c rnd now where x: "x = (c, rnd, now)" by (cases x) auto
  have k: "length (client_write_key (s_keys s)) = KEY_SIZE" "chunk_wf c" "send_seq s < MAX_NONCE"
    using Cons.prems x by (simp_all add: session_keys_wf_def word_less_nat_alt MAX_NONCE_nat)
  obtain bs where "encode_sequenced C rnd c (client_write_key (s_keys s)) (send_seq s) = Ok bs"
    using encode_decode_sequenced [OF C k(1,2)] by blast
  then obtain s1 where s1: "encrypt_outgoing C rnd now c True s = (Ok bs, s1)"
    by (cases rule: encrypt_outgoing_cases [of s C rnd now c True]) (use k(3) in auto)
  note e = encrypt_outgoing_Ok [OF s1]
  obtain frames s' where "send_series C True xs s1 = (map Inr frames, s')"
    using Cons.IH [of s1] Cons.prems e(3,5) by auto
  then have "send_series C True (x # xs) s = (map Inr (bs # frames), s')" using x s1 by simp
  then show ?case by blast
qed

definition demo_packet :: "u8 \<Rightarrow> bytes" where "demo_packet b = 0x45 # replicate 19 b"

definition demo_sends :: "(chunk \<times> entropy \<times> instant) list" where
  "demo_sends = [(new_data 0 (demo_packet 1), \<lambda>_. 0, 0), (new_control 0 (control_encode (Ping 9)), \<lambda>_. 0, 1),
     (new_data 0 (demo_packet 2), \<lambda>_. 0, 2)]"

definition demo_fresh :: session_entry where
  "demo_fresh = fst (registry_insert 0 [1] demo_keys 0x0A0A0002 0 [])"

definition demo_served :: "bytes list \<Rightarrow> serving" where
  "demo_served frames = serve_run demo_crypto (map (Inbound 3) frames)
     (snd (serve_begin 2 0 demo_fresh \<lparr>tp_in = [], tp_out = [], tp_room = 0\<rparr>))"

lemma inbound_map: "inbound (map (Inbound now) fs) = set fs"
  by (induction fs) auto

theorem tunnel_delivers_until_control_witness:
  "\<exists>frames s'. send_series demo_crypto True demo_sends (session_new 0 [1] demo_keys) = (map Inr frames, s') \<and>
     sg_forwarded (demo_served frames) \<in> {[], [demo_packet 1]}"
proof -
  have keys: "session_keys_wf demo_keys" by (simp add: demo_keys_def session_keys_wf_def KEY_SIZE_def)
  have wf: "\<forall>c\<in>set (map fst demo_sends). chunk_wf c"
    by (simp add: demo_sends_def demo_packet_def new_data_def new_control_def chunk_wf_new MAX_PAYLOAD_SIZE_def)
  obtain frames s' where sent: "send_series demo_crypto True demo_sends (session_new 0 [1] demo_keys) = (map Inr frames, s')"
    using send_series_total [OF demo_aead_lawful _ wf, of "session_new 0 [1] demo_keys"] keys
    by (auto simp: session_new_def demo_sends_def)
  have entry: "s_keys (e_session demo_fresh) = demo_keys" "e_recv_buffer demo_fresh = receive_buffer_with_default_capacity"
    by (simp_all add: demo_fresh_def registry_insert_def Let_def session_new_def)
  have "takeWhile is_data (map fst demo_sends) = [new_data 0 (demo_packet 1)]"
    by (simp add: demo_sends_def is_data_def new_data_def new_control_def chunk_new_def)
  moreover note tunnel_delivers_until_control [OF demo_aead_lawful keys entry wf sent _ refl refl,
      of "map (Inbound 3) frames" 2 0 "\<lparr>tp_in = [], tp_out = [], tp_room = 0\<rparr>", folded demo_served_def]
  ultimately obtain n where "n \<le> 1"
    "sg_forwarded (demo_served frames) = concat (map (send_to_internet \<circ> payload) (take n (map fst demo_sends)))"
    by (auto simp: inbound_map)
  moreover have "send_to_internet (demo_packet 1) = [demo_packet 1]"
    by (simp add: send_to_internet_def demo_packet_def)
  ultimately have "sg_forwarded (demo_served frames) \<in> {[], [demo_packet 1]}"
    by (cases n) (simp_all add: demo_sends_def new_data_def chunk_new_def)
  then show ?thesis using sent by blast
qed

end
