(* ===== verification/Transport.thy ===== *)
theory Transport
  imports Std_Collections Protocol_Error
begin

text \<open>
  The transport abstraction of \<open>kanrin-transport\<close> (\<open>error.rs\<close>, \<open>traits.rs\<close>) and the contract of
  a registry kept in priority order. A transport is the record of its trait methods, whose
  implementations are parameters, and a connection is a state of some type \<open>'c\<close> together with
  the operations of its trait. The locale \<open>priority_registry\<close> states what registering in order
  of priority guarantees; transports and routing rules interpret it.
\<close>

section \<open>Errors\<close>

datatype transport_error =
    ConnectionRefused string
  | Timeout u64
  | Blocked string
  | Tls string
  | ConnectionClosed
  | DnsFailure string
  | ProbeFailed string
  | Io string
  | Protocol protocol_error

fun display_transport_error :: "transport_error \<Rightarrow> string" where
  "display_transport_error (ConnectionRefused s) = ''connection refused: '' @ s"
| "display_transport_error (Timeout ms) = ''connection timeout after '' @ decimal (unat ms) @ ''ms''"
| "display_transport_error (Blocked s) = ''transport blocked: '' @ s"
| "display_transport_error (Tls s) = ''tls error: '' @ s"
| "display_transport_error ConnectionClosed = ''connection closed''"
| "display_transport_error (DnsFailure s) = ''dns resolution failed: '' @ s"
| "display_transport_error (ProbeFailed s) = ''probe failed: '' @ s"
| "display_transport_error (Io s) = ''io error: '' @ s"
| "display_transport_error (Protocol e) = ''protocol error: '' @ display_protocol_error e"

section \<open>Endpoints, transports and connections\<close>

datatype probe_result = Available u32 | ProbeBlocked string | Unknown

record endpoint =
  ep_host :: string
  ep_port :: u16
  ep_sni :: "string option"
  ep_fingerprint :: "string option"

definition endpoint_new :: "string \<Rightarrow> u16 \<Rightarrow> endpoint" where
  "endpoint_new host port = \<lparr>ep_host = host, ep_port = port, ep_sni = None, ep_fingerprint = None\<rparr>"

definition with_sni :: "string \<Rightarrow> endpoint \<Rightarrow> endpoint" where
  "with_sni sni e = e\<lparr>ep_sni := Some sni\<rparr>"

definition addr_string :: "endpoint \<Rightarrow> string" where
  "addr_string e = ep_host e @ '':'' @ decimal (unat (ep_port e))"

record 'c transport =
  tr_name :: string
  tr_priority :: u8
  tr_probe :: "endpoint \<Rightarrow> probe_result"
  tr_connect :: "endpoint \<Rightarrow> transport_error + 'c"
  tr_estimated_latency :: u32
  tr_supports_zero_rtt :: bool

record 'c connection =
  cn_send :: "bytes \<Rightarrow> 'c \<Rightarrow> (transport_error + unit) \<times> 'c"
  cn_recv :: "'c \<Rightarrow> (transport_error + bytes) \<times> 'c"
  cn_close :: "'c \<Rightarrow> 'c"
  cn_is_alive :: "'c \<Rightarrow> bool"

section \<open>The transport registry\<close>

type_synonym 'c transport_registry = "'c transport list"

definition transport_register :: "'c transport \<Rightarrow> 'c transport_registry \<Rightarrow> 'c transport_registry" where
  "transport_register t ts = push_sort_by_key tr_priority t ts"

text \<open>The loop of \<open>auto_connect\<close>, with the last error seen.\<close>

fun auto_connect_from ::
  "'c transport list \<Rightarrow> endpoint \<Rightarrow> transport_error option \<Rightarrow> transport_error + 'c \<times> string" where
  "auto_connect_from [] ep last_error =
     Err (case last_error of Some e \<Rightarrow> e | None \<Rightarrow> Blocked ''no transports available'')"
| "auto_connect_from (t # ts) ep last_error =
     (case tr_connect t ep of
        Inr c \<Rightarrow> Ok (c, tr_name t)
      | Inl e \<Rightarrow> auto_connect_from ts ep (Some e))"

definition auto_connect :: "'c transport_registry \<Rightarrow> endpoint \<Rightarrow> transport_error + 'c \<times> string" where
  "auto_connect ts ep = auto_connect_from ts ep None"

definition probe_all :: "'c transport_registry \<Rightarrow> endpoint \<Rightarrow> (string \<times> probe_result) list" where
  "probe_all ts ep = map (\<lambda>t. (tr_name t, tr_probe t ep)) ts"

section \<open>The contract of a registry in priority order\<close>

lemma find_Some_split:
  assumes "find P xs = Some y"
  obtains us vs where "xs = us @ y # vs" and "P y" and "\<forall>u\<in>set us. \<not> P u"
proof -
  have "\<exists>us vs. xs = us @ y # vs \<and> P y \<and> (\<forall>u\<in>set us. \<not> P u)"
    using assms
  proof (induction xs)
    case (Cons x xs)
    show ?case
    proof (cases "P x")
      case True
      with Cons.prems have "x = y" by simp
      then have "x # xs = [] @ y # xs \<and> P y \<and> (\<forall>u\<in>set []. \<not> P u)" using True by simp
      then show ?thesis by blast
    next
      case False
      then obtain us vs where "xs = us @ y # vs \<and> P y \<and> (\<forall>u\<in>set us. \<not> P u)"
        using Cons by auto
      then have "x # xs = (x # us) @ y # vs \<and> P y \<and> (\<forall>u\<in>set (x # us). \<not> P u)" using False by simp
      then show ?thesis by blast
    qed
  qed simp
  then show ?thesis using that by blast
qed

lemma filter_eq_Cons_find: "filter P xs = y # zs \<Longrightarrow> find P xs = Some y"
  by (induction xs) (auto split: if_splits)

locale priority_registry =
  fixes register :: "'a \<Rightarrow> 'a list \<Rightarrow> 'a list"
    and priority :: "'a \<Rightarrow> 'k::linorder"
  assumes registered: "set (register x xs) = insert x (set xs)"
    and in_order: "sorted (map priority (register x xs))"
    and stable: "filter (\<lambda>y. priority y = k) (register x xs) =
      filter (\<lambda>y. priority y = k) xs @ (if priority x = k then [x] else [])"
begin

definition registered_all :: "'a list \<Rightarrow> 'a list" where
  "registered_all xs = fold register xs []"

lemma registered_all_snoc: "registered_all (xs @ [x]) = register x (registered_all xs)"
  by (simp add: registered_all_def)

lemma set_registered_all: "set (registered_all xs) = set xs"
  by (induction xs rule: rev_induct) (simp_all add: registered_all_def registered)

lemma sorted_registered_all: "sorted (map priority (registered_all xs))"
  by (induction xs rule: rev_induct) (simp_all add: registered_all_def in_order)

lemma stable_registered_all: "filter (\<lambda>y. priority y = k) (registered_all xs) = filter (\<lambda>y. priority y = k) xs"
  by (induction xs rule: rev_induct) (simp_all add: registered_all_def stable)

text \<open>The first registered element with a property is the one of the lowest priority value, and among
  those of that value the one registered first.\<close>

definition best :: "('a \<Rightarrow> bool) \<Rightarrow> 'a list \<Rightarrow> 'a option" where
  "best P xs =
     (if filter P xs = [] then None
      else find (\<lambda>x. P x \<and> priority x = Min (priority ` set (filter P xs))) xs)"

lemma find_first_min:
  assumes "sorted (map priority ys)" and "find P ys = Some y"
  shows "P y" and "priority y = Min (priority ` set (filter P ys))"
    and "\<exists>zs. filter (\<lambda>z. P z \<and> priority z = priority y) ys = y # zs"
proof -
  obtain us vs where ys: "ys = us @ y # vs" and y: "P y" and none: "\<forall>u\<in>set us. \<not> P u"
    using find_Some_split [OF assms(2)] by blast
  show "P y" by fact
  have "priority y \<le> priority z" if "z \<in> set (filter P ys)" for z
    using that assms(1) none by (auto simp: ys sorted_append split: if_splits)
  then show "priority y = Min (priority ` set (filter P ys))"
    using y by (intro Min_eqI [symmetric]) (auto simp: ys)
  show "\<exists>zs. filter (\<lambda>z. P z \<and> priority z = priority y) ys = y # zs"
    using y none by (simp add: ys)
qed

lemma find_registered_all: "find P (registered_all xs) = best P xs"
proof (cases "find P (registered_all xs)")
  case None
  then have "filter P xs = []" using set_registered_all by (auto simp: find_None_iff filter_empty_conv)
  then show ?thesis using None by (simp add: best_def)
next
  case (Some y)
  note m = find_first_min [OF sorted_registered_all Some]
  let ?m = "Min (priority ` set (filter P xs))"
  have set_eq: "set (filter P (registered_all xs)) = set (filter P xs)" using set_registered_all by auto
  have y: "priority y = ?m" using m(2) set_eq by simp
  have "filter (\<lambda>z. P z \<and> priority z = ?m) (registered_all xs) = filter P (filter (\<lambda>z. priority z = ?m) (registered_all xs))"
    by (simp add: conj_commute)
  also have "\<dots> = filter (\<lambda>z. P z \<and> priority z = ?m) xs" unfolding stable_registered_all by (simp add: conj_commute)
  finally obtain zs where "filter (\<lambda>z. P z \<and> priority z = ?m) xs = y # zs" using m(3) y by auto
  then have "find (\<lambda>z. P z \<and> priority z = ?m) xs = Some y"
    by (rule filter_eq_Cons_find)
  moreover have "filter P xs \<noteq> []" using m(1) set_eq Some by (auto simp: filter_empty_conv find_Some_iff)
  ultimately show ?thesis using Some by (simp add: best_def)
qed

end

text \<open>The registry of transports keeps the contract.\<close>

interpretation transports: priority_registry transport_register tr_priority
  by unfold_locales (simp_all add: transport_register_def push_sort_stable)

lemma transport_register_length: "length (transport_register t ts) = Suc (length ts)"
  by (simp add: transport_register_def)

section \<open>Automatic connection\<close>

definition connects :: "endpoint \<Rightarrow> 'c transport \<Rightarrow> bool" where
  "connects ep t = (case tr_connect t ep of Inr _ \<Rightarrow> True | Inl _ \<Rightarrow> False)"

lemma auto_connect_from_find:
  "auto_connect_from ts ep le =
     (case find (connects ep) ts of
        Some t \<Rightarrow> Ok (projr (tr_connect t ep), tr_name t)
      | None \<Rightarrow> Err (if ts = [] then (case le of Some e \<Rightarrow> e | None \<Rightarrow> Blocked ''no transports available'')
                    else projl (tr_connect (last ts) ep)))"
  by (induction ts ep le rule: auto_connect_from.induct)
     (auto simp: connects_def split: sum.splits option.splits)

lemma auto_connect_find:
  "auto_connect ts ep =
     (case find (connects ep) ts of
        Some t \<Rightarrow> Ok (projr (tr_connect t ep), tr_name t)
      | None \<Rightarrow> Err (if ts = [] then Blocked ''no transports available'' else projl (tr_connect (last ts) ep)))"
  by (simp add: auto_connect_def auto_connect_from_find cong: if_cong option.case_cong)

text \<open>The choice among registered elements, without the order of the registry.\<close>

definition lowest :: "('a \<Rightarrow> 'k::linorder) \<Rightarrow> ('a \<Rightarrow> bool) \<Rightarrow> 'a list \<Rightarrow> 'a option" where
  "lowest k P xs = find (\<lambda>x. P x \<and> list_all (\<lambda>y. P y \<longrightarrow> k x \<le> k y) xs) xs"

lemma lowest_best:
  assumes "priority_registry reg k"
  shows "priority_registry.best k P xs = lowest k P xs"
proof (cases "filter P xs = []")
  case True
  then have "find (\<lambda>x. P x \<and> list_all (\<lambda>y. P y \<longrightarrow> k x \<le> k y) xs) xs = None"
    by (auto simp: find_None_iff filter_empty_conv)
  then show ?thesis using True by (simp add: priority_registry.best_def [OF assms] lowest_def)
next
  case False
  have "(P x \<and> k x = Min (k ` set (filter P xs))) = (P x \<and> list_all (\<lambda>y. P y \<longrightarrow> k x \<le> k y) xs)"
    if "x \<in> set xs" for x
    using that False by (auto simp: list_all_iff filter_empty_conv intro!: Min_eqI [symmetric])
  then show ?thesis
    using False by (auto simp: priority_registry.best_def [OF assms] lowest_def intro: find_cong)
qed

text \<open>Whatever order the transports were registered in, \<open>auto_connect\<close> returns the connection of the
  connecting transport with the lowest priority value, the earliest registered among equals; when no
  transport connects it fails with the error of the last one tried.\<close>

lemma auto_connect_best:
  "auto_connect (fold transport_register ts []) ep =
     (case lowest tr_priority (connects ep) ts of
        Some t \<Rightarrow> Ok (projr (tr_connect t ep), tr_name t)
      | None \<Rightarrow> Err (if ts = [] then Blocked ''no transports available''
                    else projl (tr_connect (last (fold transport_register ts [])) ep)))"
proof -
  let ?r = "fold transport_register ts []"
  have "find (connects ep) ?r = lowest tr_priority (connects ep) ts"
    using transports.find_registered_all [of "connects ep" ts] lowest_best [OF transports.priority_registry_axioms]
    by (simp add: transports.registered_all_def)
  moreover have "(?r = []) = (ts = [])"
    using transports.set_registered_all [of ts] by (simp add: transports.registered_all_def flip: set_empty)
  ultimately show ?thesis by (simp only: auto_connect_find)
qed

end
