(* ===== verification/Client_Config.thy ===== *)
theory Client_Config
  imports Kanrin_Prelude
begin

text \<open>
  The client's configuration of \<open>kanrin-client/src/config.rs\<close>: its nested settings with the
  defaults \<open>serde\<close> fills in, and the minimal configuration. A \<open>f64\<close> setting is its IEEE 754 bit
  pattern, and a path is its text. Reading and writing the YAML file is the work of \<open>serde_yaml\<close>.
\<close>

type_synonym f64 = "64 word"

record client_server_config =
  cs_address :: string
  cs_port :: u16
  cs_password :: string
  cs_sni :: "string option"

record quic_settings =
  quic_enable_0rtt :: "bool option"
  quic_idle_timeout_secs :: "u64 option"

record tls_settings =
  tls_alpn :: "string list option"
  tls_fingerprint :: "string option"

record ws_settings =
  ws_path :: "string option"
  ws_host :: "string option"

record transport_config =
  tc_preferred :: "string list"
  tc_auto_switch :: bool
  tc_quic :: quic_settings
  tc_tls :: tls_settings
  tc_websocket :: ws_settings

definition transport_config_default :: transport_config where
  "transport_config_default =
     \<lparr>tc_preferred = [], tc_auto_switch = True,
      tc_quic = \<lparr>quic_enable_0rtt = None, quic_idle_timeout_secs = None\<rparr>,
      tc_tls = \<lparr>tls_alpn = None, tls_fingerprint = None\<rparr>,
      tc_websocket = \<lparr>ws_path = None, ws_host = None\<rparr>\<rparr>"

definition default_tun_name :: string where "default_tun_name = ''kanrin0''"

definition default_tun_address :: string where "default_tun_address = ''10.10.0.2''"

definition default_mtu :: u16 where "default_mtu = 1400"

definition default_proxy :: string where "default_proxy = ''proxy''"

definition default_pattern :: string where "default_pattern = ''adaptive''"

definition default_probe_interval :: u64 where "default_probe_interval = 30"

definition default_threshold :: f64 where "default_threshold = 0x4014000000000000"

definition default_cooldown :: u64 where "default_cooldown = 10"

definition default_client_log_level :: string where "default_client_log_level = ''info''"

record tun_settings =
  ts_name :: string
  ts_address :: string
  ts_mtu :: u16
  ts_kill_switch :: bool
  ts_allow_lan :: bool
  ts_fake_ip :: bool

definition tun_settings_default :: tun_settings where
  "tun_settings_default =
     \<lparr>ts_name = default_tun_name, ts_address = default_tun_address, ts_mtu = default_mtu,
      ts_kill_switch = True, ts_allow_lan = True, ts_fake_ip = False\<rparr>"

record domain_rule_config =
  drc_pattern :: string
  drc_action :: string

record ip_rule_config =
  irc_cidr :: string
  irc_action :: string

record process_rule_config =
  prc_names :: "string list"
  prc_action :: string

record routing_config =
  rc_default_action :: string
  rc_iran_preset :: bool
  rc_domains :: "domain_rule_config list"
  rc_ips :: "ip_rule_config list"
  rc_processes :: "process_rule_config list"

definition routing_config_default :: routing_config where
  "routing_config_default =
     \<lparr>rc_default_action = ''proxy'', rc_iran_preset = True, rc_domains = [], rc_ips = [], rc_processes = []\<rparr>"

record stealth_config =
  sc_traffic_pattern :: string
  sc_fragment :: bool
  sc_fragment_size :: "(nat \<times> nat) option"

definition stealth_config_default :: stealth_config where
  "stealth_config_default = \<lparr>sc_traffic_pattern = ''adaptive'', sc_fragment = True, sc_fragment_size = None\<rparr>"

record engine_config =
  ec_probe_interval_secs :: u64
  ec_switch_threshold :: f64
  ec_switch_cooldown_secs :: u64
  ec_detect_censorship :: bool

definition engine_config_default :: engine_config where
  "engine_config_default =
     \<lparr>ec_probe_interval_secs = 30, ec_switch_threshold = 0x4014000000000000, ec_switch_cooldown_secs = 10,
      ec_detect_censorship = True\<rparr>"

record plugins_config =
  pc_paths :: "string list"
  pc_enabled :: bool

record logging_config =
  lc_level :: string
  lc_file :: "string option"

definition logging_config_default :: logging_config where
  "logging_config_default = \<lparr>lc_level = ''info'', lc_file = None\<rparr>"

record kanrin_config =
  kc_server :: client_server_config
  kc_transport :: transport_config
  kc_tun :: tun_settings
  kc_routing :: routing_config
  kc_stealth :: stealth_config
  kc_engine :: engine_config
  kc_plugins :: plugins_config
  kc_logging :: logging_config

definition minimal :: "string \<Rightarrow> u16 \<Rightarrow> string \<Rightarrow> kanrin_config" where
  "minimal address port password =
     \<lparr>kc_server = \<lparr>cs_address = address, cs_port = port, cs_password = password, cs_sni = None\<rparr>,
      kc_transport = transport_config_default, kc_tun = tun_settings_default,
      kc_routing = routing_config_default, kc_stealth = stealth_config_default,
      kc_engine = engine_config_default, kc_plugins = \<lparr>pc_paths = [], pc_enabled = False\<rparr>,
      kc_logging = logging_config_default\<rparr>"

text \<open>The functions \<open>serde\<close> calls for a missing field give what the \<open>Default\<close> instances give.\<close>

lemma serde_defaults_agree:
  "default_proxy = rc_default_action routing_config_default"
  "default_pattern = sc_traffic_pattern stealth_config_default"
  "default_probe_interval = ec_probe_interval_secs engine_config_default"
  "default_threshold = ec_switch_threshold engine_config_default"
  "default_cooldown = ec_switch_cooldown_secs engine_config_default"
  "default_client_log_level = lc_level logging_config_default"
  by (simp_all add: default_proxy_def routing_config_default_def default_pattern_def stealth_config_default_def
      default_probe_interval_def engine_config_default_def default_threshold_def default_cooldown_def
      default_client_log_level_def logging_config_default_def)

end
