(* ===== verification/Client_Lifecycle.thy ===== *)
theory Client_Lifecycle
  imports Client_Config
begin

text \<open>
  The public face of the client, \<open>kanrin-client/src/lib.rs\<close>, its events (\<open>events.rs\<close>) and its C
  interface (\<open>ffi.rs\<close>). The state cell is shared between the caller's thread and the pipeline
  task, so it is a field that both \<open>start\<close>, \<open>stop\<close> and the task's steps change; \<open>client_step\<close>
  interleaves them. Whether the runtime can be built, and whether the task yields before
  \<open>shutdown_timeout\<close> gives up on it, are arguments.
\<close>

section \<open>States, errors and events\<close>

datatype client_state = Disconnected | Connecting | Connected | Reconnecting | Disconnecting | ErrorState

fun debug_client_state :: "client_state \<Rightarrow> string" where
  "debug_client_state Disconnected = ''Disconnected''"
| "debug_client_state Connecting = ''Connecting''"
| "debug_client_state Connected = ''Connected''"
| "debug_client_state Reconnecting = ''Reconnecting''"
| "debug_client_state Disconnecting = ''Disconnecting''"
| "debug_client_state ErrorState = ''Error''"

datatype client_error =
    InvalidState string
  | ConnectionFailed string
  | Internal string
  | ConfigError string

fun display_client_error :: "client_error \<Rightarrow> string" where
  "display_client_error (InvalidState s) = ''invalid state: '' @ s"
| "display_client_error (ConnectionFailed s) = ''connection failed: '' @ s"
| "display_client_error (Internal s) = ''internal error: '' @ s"
| "display_client_error (ConfigError s) = ''configuration error: '' @ s"

datatype kanrin_event =
    StateChanged client_state
  | ConnectedEvent (transport: string) (endpoint: string) (latency_ms: u32)
  | ReconnectingEvent (reason: string) (attempt: u32)
  | TransportSwitched (from_transport: string) (to_transport: string) (switch_reason: string)
  | PostureChanged (from_posture: string) (to_posture: string) (posture_reason: string)
  | CensorshipDetectedEvent (network_state: string) (suggested_transports: "string list")
  | StatsUpdate (stats_sent: u64) (stats_received: u64) (uptime_secs: u64) (stats_latency_ms: u32)
  | KillSwitchChanged (kill_active: bool)
  | ErrorEvent string
  | Warning string
  | Log (level: string) (message: string)

record connection_stats =
  st_bytes_sent :: u64
  st_bytes_received :: u64
  st_uptime_secs :: u64
  st_current_transport :: string
  st_current_endpoint :: string
  st_latency_ms :: u32
  st_transport_switches :: u32
  st_posture :: string

section \<open>The client\<close>

text \<open>\<open>cl_runtime\<close> and \<open>cl_shutdown\<close> say whether the options hold a value, \<open>cl_signalled\<close> whether
  the receiver of the task sees \<open>true\<close>, and \<open>cl_task\<close> whether a pipeline task still exists.\<close>

record kanrin_client =
  cl_state :: client_state
  cl_config :: kanrin_config
  cl_shutdown :: bool
  cl_event_rx :: bool
  cl_events :: "kanrin_event list"
  cl_runtime :: bool
  cl_task :: bool
  cl_signalled :: bool

definition client_new :: "kanrin_config \<Rightarrow> kanrin_client" where
  "client_new config =
     \<lparr>cl_state = Disconnected, cl_config = config, cl_shutdown = False, cl_event_rx = True,
      cl_events = [], cl_runtime = False, cl_task = False, cl_signalled = False\<rparr>"

definition emit :: "kanrin_event \<Rightarrow> kanrin_client \<Rightarrow> kanrin_client" where
  "emit e c = c\<lparr>cl_events := cl_events c @ [e]\<rparr>"

text \<open>\<open>built\<close> is the outcome of building the runtime. Replacing \<open>runtime\<close> drops the old one, which
  waits for its tasks, so that the only task left is the new one.\<close>

definition start :: "string + unit \<Rightarrow> kanrin_client \<Rightarrow> (client_error + unit) \<times> kanrin_client" where
  "start built c =
     (if cl_state c \<noteq> Disconnected
      then (Err (InvalidState (''cannot start from state '' @ debug_client_state (cl_state c))), c)
      else let c1 = emit (StateChanged Connecting) (c\<lparr>cl_state := Connecting\<rparr>) in
        case built of
          Inl e \<Rightarrow> (Err (Internal (''runtime: '' @ e)), c1)
        | Inr _ \<Rightarrow>
            (Ok (), c1\<lparr>cl_shutdown := True, cl_runtime := True, cl_task := True, cl_signalled := False\<rparr>))"

text \<open>The first half of \<open>stop\<close>, up to the signal, and the second, after the runtime has shut down;
  the task runs in between.\<close>

definition stop_request :: "kanrin_client \<Rightarrow> kanrin_client" where
  "stop_request c =
     (let c1 = emit (StateChanged Disconnecting) (c\<lparr>cl_state := Disconnecting\<rparr>) in
      if cl_shutdown c1 then c1\<lparr>cl_shutdown := False, cl_signalled := True\<rparr> else c1)"

definition stop_finish :: "bool \<Rightarrow> kanrin_client \<Rightarrow> kanrin_client" where
  "stop_finish yielded c =
     (let c1 = (if cl_runtime c then c\<lparr>cl_runtime := False, cl_task := cl_task c \<and> \<not> yielded\<rparr> else c)
      in emit (StateChanged Disconnected) (c1\<lparr>cl_state := Disconnected\<rparr>))"

definition stop :: "(kanrin_client \<Rightarrow> kanrin_client) \<Rightarrow> bool \<Rightarrow> kanrin_client \<Rightarrow> (client_error + unit) \<times> kanrin_client" where
  "stop task yielded c =
     (if cl_state c = Disconnected then (Ok (), c)
      else (Ok (), stop_finish yielded (task (stop_request c))))"

text \<open>What the spawned task does to the shared state: \<open>run_pipeline\<close> reports that it is connected,
  and its result is written down when it returns.\<close>

definition task_connected :: "kanrin_client \<Rightarrow> kanrin_client" where
  "task_connected c = c\<lparr>cl_state := Connected\<rparr>"

definition task_finished :: "client_error + unit \<Rightarrow> kanrin_client \<Rightarrow> kanrin_client" where
  "task_finished r c =
     (case r of
        Inr _ \<Rightarrow> emit (StateChanged Disconnected) (c\<lparr>cl_state := Disconnected, cl_task := False\<rparr>)
      | Inl e \<Rightarrow> emit (ErrorEvent (display_client_error e)) (c\<lparr>cl_state := ErrorState, cl_task := False\<rparr>))"

definition take_events :: "kanrin_client \<Rightarrow> bool \<times> kanrin_client" where
  "take_events c = (cl_event_rx c, c\<lparr>cl_event_rx := False\<rparr>)"

definition update_config :: "kanrin_config \<Rightarrow> kanrin_client \<Rightarrow> kanrin_client" where
  "update_config config c = c\<lparr>cl_config := config\<rparr>"

definition drop_client :: "(kanrin_client \<Rightarrow> kanrin_client) \<Rightarrow> bool \<Rightarrow> kanrin_client \<Rightarrow> kanrin_client" where
  "drop_client task yielded c = (if cl_state c \<noteq> Disconnected then snd (stop task yielded c) else c)"

section \<open>The C interface\<close>

datatype kanrin_result = FfiOk | ErrorConfig | ErrorAlreadyRunning | ErrorNotRunning | ErrorInternal

fun kanrin_result_code :: "kanrin_result \<Rightarrow> int" where
  "kanrin_result_code FfiOk = 0"
| "kanrin_result_code ErrorConfig = - 1"
| "kanrin_result_code ErrorAlreadyRunning = - 2"
| "kanrin_result_code ErrorNotRunning = - 3"
| "kanrin_result_code ErrorInternal = - 4"

text \<open>The argument is the string at the pointer: none for a null pointer, and bytes that may not be
  UTF-8. \<open>from_yaml\<close> is the parser of \<open>serde_yaml\<close> and \<open>to_str\<close> the check of \<open>CStr\<close>.\<close>

definition kanrin_init ::
  "(bytes \<Rightarrow> string option) \<Rightarrow> (string \<Rightarrow> kanrin_config option) \<Rightarrow> bytes option \<Rightarrow>
     kanrin_client option \<Rightarrow> int \<times> kanrin_client option" where
  "kanrin_init to_str from_yaml config_yaml guard =
     (case config_yaml of
        None \<Rightarrow> (kanrin_result_code ErrorConfig, guard)
      | Some bs \<Rightarrow>
          (case to_str bs of
             None \<Rightarrow> (kanrin_result_code ErrorConfig, guard)
           | Some s \<Rightarrow>
               (case from_yaml s of
                  None \<Rightarrow> (kanrin_result_code ErrorConfig, guard)
                | Some config \<Rightarrow> (kanrin_result_code FfiOk, Some (client_new config)))))"

definition kanrin_start :: "string + unit \<Rightarrow> kanrin_client option \<Rightarrow> int \<times> kanrin_client option" where
  "kanrin_start built guard =
     (case guard of
        Some client \<Rightarrow>
          (case start built client of
             (Inr _, client') \<Rightarrow> (kanrin_result_code FfiOk, Some client')
           | (Inl _, client') \<Rightarrow> (kanrin_result_code ErrorInternal, Some client'))
      | None \<Rightarrow> (kanrin_result_code ErrorNotRunning, None))"

definition kanrin_stop ::
  "(kanrin_client \<Rightarrow> kanrin_client) \<Rightarrow> bool \<Rightarrow> kanrin_client option \<Rightarrow> int \<times> kanrin_client option" where
  "kanrin_stop task yielded guard =
     (case guard of
        Some client \<Rightarrow>
          (case stop task yielded client of
             (Inr _, client') \<Rightarrow> (kanrin_result_code FfiOk, Some client')
           | (Inl _, client') \<Rightarrow> (kanrin_result_code ErrorInternal, Some client'))
      | None \<Rightarrow> (kanrin_result_code ErrorNotRunning, None))"

fun client_state_code :: "client_state \<Rightarrow> int" where
  "client_state_code Disconnected = 0"
| "client_state_code Connecting = 1"
| "client_state_code Connected = 2"
| "client_state_code Reconnecting = 3"
| "client_state_code Disconnecting = 4"
| "client_state_code ErrorState = 5"

definition kanrin_state :: "kanrin_client option \<Rightarrow> int" where
  "kanrin_state guard = (case guard of Some client \<Rightarrow> client_state_code (cl_state client) | None \<Rightarrow> 0)"

text \<open>The client taken out of the cell is stopped, and dropped; the cell is left empty.\<close>

definition kanrin_destroy ::
  "(kanrin_client \<Rightarrow> kanrin_client) \<Rightarrow> bool \<Rightarrow> kanrin_client option \<Rightarrow> kanrin_client option \<times> kanrin_client option" where
  "kanrin_destroy task yielded guard =
     (case guard of
        Some client \<Rightarrow> (Some (snd (stop task yielded client)), None)
      | None \<Rightarrow> (None, None))"

section \<open>Reachable states\<close>

text \<open>The second component says whether the caller is inside \<open>stop\<close>, between its two halves.\<close>

inductive client_step :: "kanrin_client \<times> bool \<Rightarrow> kanrin_client \<times> bool \<Rightarrow> bool" where
  cs_start: "client_step (c, False) (snd (start built c), False)"
| cs_stop: "cl_state c \<noteq> Disconnected \<Longrightarrow> client_step (c, False) (stop_request c, True)"
| cs_stopped: "client_step (c, True) (stop_finish True c, False)"
| cs_update: "client_step (c, False) (update_config config c, False)"
| cs_connected: "cl_task c \<Longrightarrow> client_step (c, b) (task_connected c, b)"
| cs_finished: "cl_task c \<Longrightarrow> client_step (c, b) (task_finished r c, b)"

definition client_inv :: "kanrin_client \<times> bool \<Rightarrow> bool" where
  "client_inv s \<longleftrightarrow>
     (case s of (c, stopping) \<Rightarrow>
        (cl_task c \<longrightarrow> cl_runtime c) \<and>
        (cl_state c = Connected \<longrightarrow> cl_task c) \<and>
        (cl_state c \<noteq> Reconnecting) \<and>
        (\<not> stopping \<longrightarrow> cl_state c \<noteq> Disconnecting \<and> (cl_task c \<longrightarrow> cl_shutdown c \<and> \<not> cl_signalled c) \<and>
          (cl_state c = Disconnected \<longrightarrow> \<not> cl_task c) \<and> (cl_state c = ErrorState \<longrightarrow> cl_runtime c)))"

lemma client_inv_new: "client_inv (client_new config, False)"
  by (simp add: client_inv_def client_new_def)

lemma emit_simps [simp]:
  "cl_state (emit e c) = cl_state c" "cl_task (emit e c) = cl_task c" "cl_runtime (emit e c) = cl_runtime c"
  "cl_shutdown (emit e c) = cl_shutdown c" "cl_signalled (emit e c) = cl_signalled c"
  by (simp_all add: emit_def)

lemma client_inv_start: "client_inv (c, False) \<Longrightarrow> client_inv (snd (start built c), False)"
  by (cases "cl_state c = Disconnected"; cases built) (simp_all add: client_inv_def start_def Let_def)

lemma client_inv_finished: "client_inv (c, b) \<Longrightarrow> cl_task c \<Longrightarrow> client_inv (task_finished r c, b)"
  by (cases r) (simp_all add: client_inv_def task_finished_def)

lemma client_inv_stop: "client_inv (c, False) \<Longrightarrow> cl_state c \<noteq> Disconnected \<Longrightarrow> client_inv (stop_request c, True)"
  by (simp add: client_inv_def stop_request_def Let_def)

lemma client_inv_stopped: "client_inv (c, True) \<Longrightarrow> client_inv (stop_finish True c, False)"
  by (cases "cl_runtime c") (simp_all add: client_inv_def stop_finish_def)

lemma client_inv_step: "client_step s t \<Longrightarrow> client_inv s \<Longrightarrow> client_inv t"
proof (induction rule: client_step.induct)
  case (cs_update c config)
  then show ?case by (simp add: client_inv_def update_config_def)
next
  case (cs_connected c b)
  then show ?case by (cases "cl_state c"; cases b) (simp_all add: client_inv_def task_connected_def)
qed (simp_all add: client_inv_start client_inv_finished client_inv_stop client_inv_stopped)

lemma client_reachable_inv: "client_step\<^sup>*\<^sup>* (client_new config, False) s \<Longrightarrow> client_inv s"
  by (induction rule: rtranclp_induct) (auto intro: client_inv_new client_inv_step)

lemma start_ok_iff: "is_ok (fst (start (Inr ()) c)) \<longleftrightarrow> cl_state c = Disconnected"
  by (simp add: start_def Let_def)

lemma stop_ends:
  assumes "client_inv (c, False)"
  shows "is_ok (fst (stop id True c)) \<and> cl_state (snd (stop id True c)) = Disconnected \<and> \<not> cl_task (snd (stop id True c))"
proof (cases "cl_state c = Disconnected")
  case True
  then show ?thesis using assms by (simp add: client_inv_def stop_def)
next
  case False
  then have "client_inv (stop_request c, True)" using assms by (rule client_inv_stop [rotated])
  then show ?thesis
    using False by (cases "cl_runtime (stop_request c)") (simp_all add: client_inv_def stop_def stop_finish_def)
qed

text \<open>When a runtime cannot be built, \<open>start\<close> fails but leaves the state \<open>Connecting\<close>: every later
  \<open>start\<close> is refused until \<open>stop\<close> is called.\<close>

lemma start_failure_sticks:
  assumes "cl_state c = Disconnected"
  shows "fst (start (Inl e) c) = Err (Internal (''runtime: '' @ e)) \<and>
    fst (start built (snd (start (Inl e) c))) = Err (InvalidState ''cannot start from state Connecting'') \<and>
    cl_state (snd (stop task yielded (snd (start (Inl e) c)))) = Disconnected"
  using assms by (simp add: start_def stop_def stop_finish_def emit_def Let_def)

text \<open>C28. In every reachable state, as long as the task yields in time: \<open>Connected\<close> is reported only
  while a pipeline task runs on a live runtime; a client that is not inside \<open>stop\<close> is never left
  \<open>Disconnecting\<close>, is without a task whenever it says \<open>Disconnected\<close>, and \<open>start\<close> then succeeds with a
  runtime that builds; and \<open>stop\<close> always succeeds, leaving no task and the state \<open>Disconnected\<close>.\<close>

theorem client_typestate:
  assumes "client_step\<^sup>*\<^sup>* (client_new config, False) (c, stopping)"
  shows "(cl_state c = Connected \<longrightarrow> cl_task c \<and> cl_runtime c) \<and> cl_state c \<noteq> Reconnecting \<and>
    (\<not> stopping \<longrightarrow> cl_state c \<noteq> Disconnecting \<and>
      (cl_state c = Disconnected \<longleftrightarrow> is_ok (fst (start (Inr ()) c))) \<and>
      (cl_state c = Disconnected \<longrightarrow> \<not> cl_task c) \<and>
      (let r = stop id True c in is_ok (fst r) \<and> cl_state (snd r) = Disconnected \<and> \<not> cl_task (snd r)))"
proof (cases stopping)
  case True
  then show ?thesis using client_reachable_inv [OF assms] by (simp add: client_inv_def)
next
  case False
  then have inv: "client_inv (c, False)" using client_reachable_inv [OF assms] by simp
  show ?thesis
    using stop_ends [OF inv] start_ok_iff [of c] inv False by (simp add: client_inv_def Let_def)
qed

definition demo_client :: kanrin_client where
  "demo_client = task_connected (snd (start (Inr ()) (client_new (minimal ''h'' 443 ''p''))))"

lemma demo_client_reachable: "client_step\<^sup>*\<^sup>* (client_new (minimal ''h'' 443 ''p''), False) (demo_client, False)"
proof -
  let ?c = "client_new (minimal ''h'' 443 ''p'')"
  have "client_step (?c, False) (snd (start (Inr ()) ?c), False)" by (rule cs_start)
  moreover have "client_step (snd (start (Inr ()) ?c), False) (demo_client, False)"
    unfolding demo_client_def by (rule cs_connected) (simp add: start_def client_new_def emit_def Let_def)
  ultimately show ?thesis by (rule converse_rtranclp_into_rtranclp [OF _ r_into_rtranclp])
qed

theorem client_typestate_witness:
  "cl_state demo_client = Connected \<and> cl_task demo_client \<and> cl_runtime demo_client"
  using client_typestate [OF demo_client_reachable] by (simp add: demo_client_def task_connected_def)

end
