(* ===== verification/Client_Switch.thy ===== *)
theory Client_Switch
  imports Transport Resumption Continuity_Replay Continuity Client_Lifecycle
begin

text \<open>
  Transport switching on the client: \<open>kanrin-client/src/switch.rs\<close> (preparing a standby transport,
  the resumption handshake on it, when a link counts as dead, when a switch is allowed) and
  \<open>attempt_switch\<close> of \<open>pipeline.rs\<close>. A connection is a state \<open>'c\<close> with the operations of its trait;
  clock readings and random bytes are arguments, one set of them per transport tried.
\<close>

section \<open>Reasons\<close>

datatype switch_cause = LinkSilent | TransportFailure string | BetterPathAvailable string

fun is_failure :: "switch_cause \<Rightarrow> bool" where
  "is_failure LinkSilent = True"
| "is_failure (TransportFailure _) = True"
| "is_failure (BetterPathAvailable _) = False"

fun describe :: "switch_cause \<Rightarrow> string" where
  "describe LinkSilent = ''link went silent''"
| "describe (TransportFailure e) = ''transport error: '' @ e"
| "describe (BetterPathAvailable to) = ''better path available: '' @ to"

section \<open>Liveness\<close>

definition LIVENESS_TIMEOUT :: duration where "LIVENESS_TIMEOUT = from_millis 750"

definition PROBE_INTERVAL :: duration where "PROBE_INTERVAL = from_millis 250"

record liveness_monitor =
  lm_last_inbound :: instant
  lm_last_probe :: instant
  lm_timeout :: duration
  lm_probe_interval :: duration

definition monitor_with_timing :: "instant \<Rightarrow> duration \<Rightarrow> duration \<Rightarrow> liveness_monitor" where
  "monitor_with_timing now timeout probe_interval =
     \<lparr>lm_last_inbound = now, lm_last_probe = now, lm_timeout = timeout, lm_probe_interval = probe_interval\<rparr>"

definition monitor_new :: "instant \<Rightarrow> liveness_monitor" where
  "monitor_new now = monitor_with_timing now LIVENESS_TIMEOUT PROBE_INTERVAL"

definition record_inbound :: "instant \<Rightarrow> liveness_monitor \<Rightarrow> liveness_monitor" where
  "record_inbound now m = m\<lparr>lm_last_inbound := now\<rparr>"

definition should_probe :: "instant \<Rightarrow> liveness_monitor \<Rightarrow> bool \<times> liveness_monitor" where
  "should_probe now m =
     (let quiet = elapsed now (lm_last_inbound m) \<ge> lm_probe_interval m;
          due = elapsed now (lm_last_probe m) \<ge> lm_probe_interval m
      in if quiet \<and> due then (True, m\<lparr>lm_last_probe := now\<rparr>) else (False, m))"

definition is_dead :: "instant \<Rightarrow> liveness_monitor \<Rightarrow> bool" where
  "is_dead now m \<longleftrightarrow> elapsed now (lm_last_inbound m) \<ge> lm_timeout m"

definition silent_for :: "instant \<Rightarrow> liveness_monitor \<Rightarrow> duration" where
  "silent_for now m = elapsed now (lm_last_inbound m)"

definition monitor_reset :: "instant \<Rightarrow> liveness_monitor \<Rightarrow> liveness_monitor" where
  "monitor_reset now m = m\<lparr>lm_last_inbound := now, lm_last_probe := now\<rparr>"

section \<open>The switch policy\<close>

definition BASE_COOLDOWN :: duration where "BASE_COOLDOWN = from_secs 5"

definition MAX_COOLDOWN :: duration where "MAX_COOLDOWN = from_secs 120"

definition FLAP_WINDOW :: duration where "FLAP_WINDOW = from_secs 60"

record switch_policy =
  sp_last_switch :: "instant option"
  sp_consecutive :: u32
  sp_base_cooldown :: duration
  sp_max_cooldown :: duration
  sp_flap_window :: duration

definition policy_with_timing :: "duration \<Rightarrow> duration \<Rightarrow> duration \<Rightarrow> switch_policy" where
  "policy_with_timing base_cooldown max_cooldown flap_window =
     \<lparr>sp_last_switch = None, sp_consecutive = 0, sp_base_cooldown = base_cooldown,
      sp_max_cooldown = max_cooldown, sp_flap_window = flap_window\<rparr>"

definition policy_new :: switch_policy where
  "policy_new = policy_with_timing BASE_COOLDOWN MAX_COOLDOWN FLAP_WINDOW"

text \<open>\<open>saturating_mul\<close> stops at \<open>Duration::MAX\<close>.\<close>

definition DURATION_MAX :: duration where "DURATION_MAX = (2 ^ 64 - 1) * 1000000000 + 999999999"

definition cooldown :: "switch_policy \<Rightarrow> duration" where
  "cooldown p =
     min (min (sp_base_cooldown p * 2 ^ min (unat (sp_consecutive p)) 16) DURATION_MAX) (sp_max_cooldown p)"

definition allows :: "instant \<Rightarrow> switch_cause \<Rightarrow> switch_policy \<Rightarrow> bool" where
  "allows now r p =
     (if is_failure r then True
      else case sp_last_switch p of None \<Rightarrow> True | Some at \<Rightarrow> elapsed now at \<ge> cooldown p)"

definition record_switch :: "instant \<Rightarrow> switch_policy \<Rightarrow> switch_policy" where
  "record_switch now p =
     (let flapping = (case sp_last_switch p of Some at \<Rightarrow> elapsed now at < sp_flap_window p | None \<Rightarrow> False)
      in p\<lparr>sp_consecutive := (if flapping then sp_consecutive p + 1 else 0), sp_last_switch := Some now\<rparr>)"

definition since_last_switch :: "instant \<Rightarrow> switch_policy \<Rightarrow> duration option" where
  "since_last_switch now p = map_option (elapsed now) (sp_last_switch p)"

section \<open>The resumption handshake\<close>

definition fail_with :: "string \<Rightarrow> ('e \<Rightarrow> string) \<Rightarrow> 'e + 'a \<Rightarrow> client_error + 'a" where
  "fail_with what display r = map_err (\<lambda>e. ConnectionFailed (what @ '': '' @ display e)) r"

text \<open>What \<open>resume_on\<close> does with the frame it received.\<close>

definition check_resume_response ::
  "crypto_ops \<Rightarrow> resume_request \<Rightarrow> session_keys \<Rightarrow> bytes \<Rightarrow> client_error + u64" where
  "check_resume_response C request keys data =
     (if length data < HEADER_SIZE then Err (ConnectionFailed ''resume response too short'')
      else and_then (fail_with ''decode resume header'' display_protocol_error (header_decode (take HEADER_SIZE data)))
        (\<lambda>(h, _).
        if chunk_type h \<noteq> Resume
        then Err (ConnectionFailed (''expected a Resume chunk, got '' @ debug_chunk_type (chunk_type h)))
        else
          and_then (fail_with ''decode resume response'' display_protocol_error (decode_encrypted C data zero_key zero_nonce))
            (\<lambda>chunk.
          and_then (fail_with ''parse resume response'' display_protocol_error (resume_response_decode (payload chunk)))
            (\<lambda>response.
          and_then (fail_with ''verify resume response'' display_protocol_error (resume_response_verify C request keys response))
            (\<lambda>verified.
          if \<not> verified then Err (ConnectionFailed ''resume response failed verification'')
          else if rp_status response \<noteq> ResumeOk
            then Err (ConnectionFailed (''server refused resume: '' @ debug_resume_status (rp_status response)))
          else Ok (rp_next_expected response))))))"

definition resume_on ::
  "crypto_ops \<Rightarrow> 'c connection \<Rightarrow> u64 \<Rightarrow> entropy \<Rightarrow> entropy \<Rightarrow> session_id \<Rightarrow> session_keys \<Rightarrow> u64 \<Rightarrow> 'c \<Rightarrow>
     (client_error + u64) \<times> 'c" where
  "resume_on C io ts rnd pad sid keys ne c =
     (case fail_with ''build resume request'' display_protocol_error (resume_request_new C ts rnd sid ne keys) of
        Inl e \<Rightarrow> (Err e, c)
      | Inr request \<Rightarrow>
     (case fail_with ''encode resume request'' display_protocol_error
             (encode_encrypted C pad (new_resume (resume_request_encode request)) zero_key zero_nonce) of
        Inl e \<Rightarrow> (Err e, c)
      | Inr encoded \<Rightarrow>
     (case cn_send io encoded c of
        (Inl e, c1) \<Rightarrow> (fail_with ''send resume request'' display_transport_error (Err e), c1)
      | (Inr _, c1) \<Rightarrow>
     (case cn_recv io c1 of
        (Inl e, c2) \<Rightarrow> (fail_with ''recv resume response'' display_transport_error (Err e), c2)
      | (Inr data, c2) \<Rightarrow> (check_resume_response C request keys data, c2)))))"

record 'c standby =
  sb_connection :: 'c
  sb_transport :: string
  sb_server_next_expected :: u64

text \<open>Per transport tried: the timestamp and the random bytes of the attempt. A connection that
  failed to resume is closed and dropped.\<close>

type_synonym attempts = "nat \<Rightarrow> u64 \<times> entropy \<times> entropy"

fun prepare_from ::
  "crypto_ops \<Rightarrow> 'c connection \<Rightarrow> attempts \<Rightarrow> 'c transport list \<Rightarrow> endpoint \<Rightarrow> string \<Rightarrow> session_id \<Rightarrow>
     session_keys \<Rightarrow> u64 \<Rightarrow> string option \<Rightarrow> client_error + 'c standby" where
  "prepare_from C io at [] ep exclude sid keys ne last_error =
     Err (ConnectionFailed (case last_error of Some e \<Rightarrow> e | None \<Rightarrow> ''no standby transport available''))"
| "prepare_from C io at (t # ts) ep exclude sid keys ne last_error =
     (let rest = prepare_from C io (\<lambda>n. at (Suc n)) ts ep exclude sid keys ne in
      if tr_name t = exclude then rest last_error
      else case tr_connect t ep of
        Inl e \<Rightarrow> rest (Some (display_transport_error e))
      | Inr c \<Rightarrow>
          (case at 0 of (now, rnd, pad) \<Rightarrow>
            (case resume_on C io now rnd pad sid keys ne c of
               (Inr server_next_expected, c') \<Rightarrow>
                 Ok \<lparr>sb_connection = c', sb_transport = tr_name t, sb_server_next_expected = server_next_expected\<rparr>
             | (Inl e, _) \<Rightarrow> rest (Some (display_client_error e)))))"

definition prepare_standby ::
  "crypto_ops \<Rightarrow> 'c connection \<Rightarrow> attempts \<Rightarrow> 'c transport_registry \<Rightarrow> endpoint \<Rightarrow> string \<Rightarrow> session_id \<Rightarrow>
     session_keys \<Rightarrow> u64 \<Rightarrow> client_error + 'c standby" where
  "prepare_standby C io at registry ep exclude sid keys ne =
     prepare_from C io at registry ep exclude sid keys ne None"

section \<open>A switch\<close>

record 'c link =
  lk_connection :: 'c
  lk_active :: string
  lk_send_buffer :: send_buffer
  lk_policy :: switch_policy
  lk_monitor :: liveness_monitor
  lk_events :: "kanrin_event list"

text \<open>\<open>now\<close> is read before the standby is prepared, \<open>later\<close> after the swap.\<close>

definition attempt_switch ::
  "crypto_ops \<Rightarrow> 'c connection \<Rightarrow> attempts \<Rightarrow> instant \<Rightarrow> instant \<Rightarrow> switch_cause \<Rightarrow> 'c transport_registry \<Rightarrow>
     endpoint \<Rightarrow> session_id \<Rightarrow> session_keys \<Rightarrow> u64 \<Rightarrow> 'c link \<Rightarrow> 'c option \<times> 'c link" where
  "attempt_switch C io at now later cause registry ep sid keys next_expected lk =
     (if \<not> allows now cause (lk_policy lk) then (None, lk)
      else case prepare_standby C io at registry ep (lk_active lk) sid keys next_expected of
        Inl _ \<Rightarrow> (None, lk)
      | Inr standby \<Rightarrow>
          (let sb = snd (apply_ack (sb_server_next_expected standby) [] (lk_send_buffer lk));
               lk1 = lk\<lparr>lk_send_buffer := sb\<rparr>
           in case replay_onto (cn_send io) sb (sb_connection standby) of
                (Inl _, _) \<Rightarrow> (None, lk1)
              | (Inr _, conn) \<Rightarrow>
                  (Some (lk_connection lk1),
                   lk1\<lparr>lk_connection := conn, lk_active := sb_transport standby,
                       lk_policy := record_switch later (lk_policy lk1),
                       lk_monitor := monitor_reset later (lk_monitor lk1),
                       lk_events := lk_events lk1 @
                         [TransportSwitched (lk_active lk1) (sb_transport standby) (describe cause)]\<rparr>)))"

end
