(* ===== verification/Client_Posture.thy ===== *)
theory Client_Posture
  imports Kanrin_Prelude
begin

text \<open>
  The adaptive posture of \<open>kanrin-client/src/posture.rs\<close>: the three postures in their order, the
  shaping each implies, and the controller that escalates at once and relaxes slowly.
\<close>

section \<open>Postures\<close>

datatype posture = Performance | Balanced | Evasion

fun posture_rank :: "posture \<Rightarrow> nat" where
  "posture_rank Performance = 0"
| "posture_rank Balanced = 1"
| "posture_rank Evasion = 2"

lemma posture_rank_inject [simp]: "posture_rank p = posture_rank q \<longleftrightarrow> p = q"
  by (cases p; cases q) simp_all

instantiation posture :: linorder
begin

definition less_eq_posture :: "posture \<Rightarrow> posture \<Rightarrow> bool" where
  "p \<le> q \<longleftrightarrow> posture_rank p \<le> posture_rank q"

definition less_posture :: "posture \<Rightarrow> posture \<Rightarrow> bool" where
  "p < q \<longleftrightarrow> posture_rank p < posture_rank q"

instance
  by standard (auto simp: less_eq_posture_def less_posture_def not_le)

end

lemma Evasion_top [simp]: "p \<le> Evasion"
  by (cases p) (simp_all add: less_eq_posture_def)

lemma max_Evasion [simp]: "max Evasion p = Evasion"
  by (simp add: max_absorb1)

lemma Performance_bot [simp]: "Performance \<le> p"
  by (simp add: less_eq_posture_def)

fun posture_as_str :: "posture \<Rightarrow> string" where
  "posture_as_str Performance = ''performance''"
| "posture_as_str Balanced = ''balanced''"
| "posture_as_str Evasion = ''evasion''"

record shaping_profile =
  sh_max_padding :: u8
  sh_pad_to_uniform_size :: bool
  sh_rhythm_shaping :: bool
  sh_cover_traffic_interval :: "duration option"
  sh_fragment_handshake :: bool
  sh_max_chunk_bytes :: nat

fun posture_profile :: "posture \<Rightarrow> shaping_profile" where
  "posture_profile Performance =
     \<lparr>sh_max_padding = 16, sh_pad_to_uniform_size = False, sh_rhythm_shaping = False,
      sh_cover_traffic_interval = None, sh_fragment_handshake = False, sh_max_chunk_bytes = 65535\<rparr>"
| "posture_profile Balanced =
     \<lparr>sh_max_padding = 64, sh_pad_to_uniform_size = False, sh_rhythm_shaping = False,
      sh_cover_traffic_interval = None, sh_fragment_handshake = True, sh_max_chunk_bytes = 65535\<rparr>"
| "posture_profile Evasion =
     \<lparr>sh_max_padding = 255, sh_pad_to_uniform_size = True, sh_rhythm_shaping = True,
      sh_cover_traffic_interval = Some (from_secs 5), sh_fragment_handshake = True, sh_max_chunk_bytes = 1400\<rparr>"

section \<open>Signals\<close>

datatype signal = HandshakeFailedSignal | SuspiciousReset | SuddenPathLoss | CensorshipDetected | CleanPeriod

definition is_adverse :: "signal \<Rightarrow> bool" where
  "is_adverse sig \<longleftrightarrow> sig \<noteq> CleanPeriod"

fun debug_signal :: "signal \<Rightarrow> string" where
  "debug_signal HandshakeFailedSignal = ''HandshakeFailed''"
| "debug_signal SuspiciousReset = ''SuspiciousReset''"
| "debug_signal SuddenPathLoss = ''SuddenPathLoss''"
| "debug_signal CensorshipDetected = ''CensorshipDetected''"
| "debug_signal CleanPeriod = ''CleanPeriod''"

section \<open>The controller\<close>

definition MIN_TIME_AT_POSTURE :: duration where "MIN_TIME_AT_POSTURE = from_secs 120"

definition CLEAN_PERIODS_TO_RELAX :: u32 where "CLEAN_PERIODS_TO_RELAX = 5"

record posture_controller =
  pc_current :: posture
  pc_floor :: posture
  pc_changed_at :: instant
  pc_clean_streak :: u32
  pc_adverse_total :: u64
  pc_min_time :: duration
  pc_clean_periods :: u32

definition controller_with_floor :: "instant \<Rightarrow> posture \<Rightarrow> posture \<Rightarrow> posture_controller" where
  "controller_with_floor now initial floor_p =
     \<lparr>pc_current = max initial floor_p, pc_floor = floor_p, pc_changed_at = now, pc_clean_streak = 0,
      pc_adverse_total = 0, pc_min_time = MIN_TIME_AT_POSTURE, pc_clean_periods = CLEAN_PERIODS_TO_RELAX\<rparr>"

definition controller_new :: "instant \<Rightarrow> posture \<Rightarrow> posture_controller" where
  "controller_new now initial = controller_with_floor now initial Performance"

definition controller_with_timing :: "duration \<Rightarrow> u32 \<Rightarrow> posture_controller \<Rightarrow> posture_controller" where
  "controller_with_timing min_time clean_periods pc = pc\<lparr>pc_min_time := min_time, pc_clean_periods := clean_periods\<rparr>"

definition time_at_posture :: "instant \<Rightarrow> posture_controller \<Rightarrow> duration" where
  "time_at_posture now pc = elapsed now (pc_changed_at pc)"

definition controller_profile :: "posture_controller \<Rightarrow> shaping_profile" where
  "controller_profile pc = posture_profile (pc_current pc)"

definition set_posture :: "instant \<Rightarrow> posture \<Rightarrow> posture_controller \<Rightarrow> posture option \<times> posture_controller" where
  "set_posture now target pc =
     (let target' = max target (pc_floor pc) in
      if target' = pc_current pc then (None, pc)
      else (Some target', pc\<lparr>pc_current := target', pc_changed_at := now\<rparr>))"

fun relaxed :: "posture \<Rightarrow> posture option" where
  "relaxed Evasion = Some Balanced"
| "relaxed Balanced = Some Performance"
| "relaxed Performance = None"

definition observe :: "instant \<Rightarrow> signal \<Rightarrow> posture_controller \<Rightarrow> posture option \<times> posture_controller" where
  "observe now sig pc =
     (if is_adverse sig
      then set_posture now Evasion (pc\<lparr>pc_adverse_total := pc_adverse_total pc + 1, pc_clean_streak := 0\<rparr>)
      else
        let pc1 = pc\<lparr>pc_clean_streak := pc_clean_streak pc + 1\<rparr> in
        if pc_clean_streak pc1 < pc_clean_periods pc1 then (None, pc1)
        else if time_at_posture now pc1 < pc_min_time pc1 then (None, pc1)
        else case relaxed (pc_current pc1) of
          None \<Rightarrow> (None, pc1)
        | Some target \<Rightarrow> set_posture now target (pc1\<lparr>pc_clean_streak := 0\<rparr>))"

definition force :: "instant \<Rightarrow> posture \<Rightarrow> posture_controller \<Rightarrow> posture option \<times> posture_controller" where
  "force now target pc = set_posture now target (pc\<lparr>pc_clean_streak := 0\<rparr>)"

section \<open>Runs\<close>

text \<open>A history of signals with the time each was observed, oldest first.\<close>

definition observe_all :: "(instant \<times> signal) list \<Rightarrow> posture_controller \<Rightarrow> posture_controller" where
  "observe_all hist pc = fold (\<lambda>(now, sig) pc. snd (observe now sig pc)) hist pc"

text \<open>What a history says by itself: the posture after a part of it, when the posture last changed, and how
  many signals in a row at its end were clean and left the posture as it was.\<close>

definition posture_after :: "posture_controller \<Rightarrow> (instant \<times> signal) list \<Rightarrow> nat \<Rightarrow> posture" where
  "posture_after pc hist k = pc_current (observe_all (take k hist) pc)"

definition changes_at :: "posture_controller \<Rightarrow> (instant \<times> signal) list \<Rightarrow> nat \<Rightarrow> bool" where
  "changes_at pc hist k \<longleftrightarrow> posture_after pc hist (Suc k) \<noteq> posture_after pc hist k"

definition last_change :: "instant \<Rightarrow> posture_controller \<Rightarrow> (instant \<times> signal) list \<Rightarrow> instant" where
  "last_change t0 pc hist =
     (case find (changes_at pc hist) (rev [0..<length hist]) of None \<Rightarrow> t0 | Some k \<Rightarrow> fst (hist ! k))"

definition calm_run :: "posture_controller \<Rightarrow> (instant \<times> signal) list \<Rightarrow> nat" where
  "calm_run pc hist =
     length (takeWhile (\<lambda>k. \<not> is_adverse (snd (hist ! k)) \<and> \<not> changes_at pc hist k) (rev [0..<length hist]))"

lemma observe_all_snoc: "observe_all (hist @ [(now, sig)]) pc = snd (observe now sig (observe_all hist pc))"
  by (simp add: observe_all_def)

lemma posture_after_snoc:
  "k \<le> length hist \<Longrightarrow> posture_after pc (hist @ [x]) k = posture_after pc hist k"
  "posture_after pc (hist @ [x]) (Suc (length hist)) = pc_current (snd (observe (fst x) (snd x) (observe_all hist pc)))"
  "posture_after pc hist (length hist) = pc_current (observe_all hist pc)"
  by (cases x; simp add: posture_after_def observe_all_snoc)+

lemma changes_at_snoc:
  "k < length hist \<Longrightarrow> changes_at pc (hist @ [x]) k = changes_at pc hist k"
  "changes_at pc (hist @ [x]) (length hist) \<longleftrightarrow>
     pc_current (snd (observe (fst x) (snd x) (observe_all hist pc))) \<noteq> pc_current (observe_all hist pc)"
  by (simp_all add: changes_at_def posture_after_snoc)

lemma find_cong_set: "(\<And>x. x \<in> set xs \<Longrightarrow> P x = Q x) \<Longrightarrow> find P xs = find Q xs"
  by (induction xs) auto

lemma last_change_snoc:
  "last_change t0 pc (hist @ [x]) = (if changes_at pc (hist @ [x]) (length hist) then fst x else last_change t0 pc hist)"
proof -
  have "find (changes_at pc (hist @ [x])) (rev [0..<length hist]) = find (changes_at pc hist) (rev [0..<length hist])"
    by (rule find_cong_set) (simp add: changes_at_snoc)
  moreover have "k < length hist" if "find (changes_at pc hist) (rev [0..<length hist]) = Some k" for k
    using that by (auto simp: find_Some_iff rev_nth)
  ultimately show ?thesis by (auto simp: last_change_def nth_append split: option.split)
qed

lemma calm_run_snoc:
  "calm_run pc (hist @ [x]) =
     (if is_adverse (snd x) \<or> changes_at pc (hist @ [x]) (length hist) then 0 else Suc (calm_run pc hist))"
proof -
  have "takeWhile (\<lambda>k. \<not> is_adverse (snd ((hist @ [x]) ! k)) \<and> \<not> changes_at pc (hist @ [x]) k) (rev [0..<length hist]) =
      takeWhile (\<lambda>k. \<not> is_adverse (snd (hist ! k)) \<and> \<not> changes_at pc hist k) (rev [0..<length hist])"
    by (rule takeWhile_cong) (auto simp: changes_at_snoc nth_append)
  then show ?thesis by (simp add: calm_run_def)
qed

lemma set_posture_fields [simp]:
  "pc_floor (snd (set_posture now p pc)) = pc_floor pc" "pc_clean_streak (snd (set_posture now p pc)) = pc_clean_streak pc"
  "pc_min_time (snd (set_posture now p pc)) = pc_min_time pc" "pc_clean_periods (snd (set_posture now p pc)) = pc_clean_periods pc"
  "pc_current (snd (set_posture now p pc)) = max p (pc_floor pc)"
  by (simp_all add: set_posture_def Let_def)

lemma observe_fields [simp]:
  "pc_floor (snd (observe now sig pc)) = pc_floor pc" "pc_min_time (snd (observe now sig pc)) = pc_min_time pc"
  "pc_clean_periods (snd (observe now sig pc)) = pc_clean_periods pc"
  by (simp_all add: observe_def Let_def split: option.split)

lemma observe_floor: "pc_floor pc \<le> pc_current pc \<Longrightarrow> pc_floor pc \<le> pc_current (snd (observe now sig pc))"
  by (simp add: observe_def Let_def split: option.split)

lemma unat_inc_le: "unat (w + 1) \<le> Suc (unat w)" for w :: "'a::len word"
  by (cases "w = word_MAX") (simp_all add: unat_Suc)

text \<open>The streak starts again at an adverse signal and at every change of the posture, and the time of the
  change is written down.\<close>

lemma observe_streak:
  "unat (pc_clean_streak (snd (observe now sig pc))) \<le>
     (if is_adverse sig \<or> pc_current (snd (observe now sig pc)) \<noteq> pc_current pc then 0 else Suc (unat (pc_clean_streak pc)))"
  using unat_inc_le [of "pc_clean_streak pc"]
  by (auto simp: observe_def set_posture_def Let_def split: option.split)

lemma observe_changed_at:
  "pc_changed_at (snd (observe now sig pc)) =
     (if pc_current (snd (observe now sig pc)) \<noteq> pc_current pc then now else pc_changed_at pc)"
  by (auto simp: observe_def set_posture_def Let_def split: option.split)

definition posture_inv ::
  "posture \<Rightarrow> instant \<Rightarrow> posture_controller \<Rightarrow> (instant \<times> signal) list \<Rightarrow> posture_controller \<Rightarrow> bool" where
  "posture_inv floor_p t0 start hist pc \<longleftrightarrow>
     pc_floor pc = floor_p \<and> floor_p \<le> pc_current pc \<and> unat (pc_clean_streak pc) \<le> calm_run start hist \<and>
     pc_changed_at pc = last_change t0 start hist"

lemma posture_inv_all:
  assumes "start = controller_with_timing mt n (controller_with_floor t0 initial floor_p)"
  shows "posture_inv floor_p t0 start hist (observe_all hist start)"
proof (induction hist rule: rev_induct)
  case Nil
  show ?case
    by (simp add: assms posture_inv_def observe_all_def controller_with_floor_def controller_with_timing_def calm_run_def
        last_change_def)
next
  case (snoc x hist)
  obtain t sig where x: "x = (t, sig)" by (cases x)
  let ?prev = "observe_all hist start"
  have "pc_floor ?prev \<le> pc_current ?prev" "pc_floor ?prev = floor_p"
    "unat (pc_clean_streak ?prev) \<le> calm_run start hist" "pc_changed_at ?prev = last_change t0 start hist"
    using snoc.IH by (simp_all add: posture_inv_def)
  then show ?case
    using observe_floor [of ?prev t sig] observe_streak [of t sig ?prev] observe_changed_at [of t sig ?prev]
    by (auto simp: x posture_inv_def observe_all_snoc calm_run_snoc last_change_snoc changes_at_snoc split: if_splits)
qed

lemma observe_timing:
  "pc_min_time (observe_all hist pc) = pc_min_time pc \<and> pc_clean_periods (observe_all hist pc) = pc_clean_periods pc"
proof (induction hist rule: rev_induct)
  case Nil
  then show ?case by (simp add: observe_all_def)
next
  case (snoc x hist)
  then show ?case by (cases x) (simp add: observe_all_snoc)
qed

text \<open>A clean period that changes the posture relaxes it by one step, with both conditions met.\<close>

lemma observe_relaxes:
  assumes "observe now CleanPeriod pc = (Some p, pc')" and "pc_floor pc \<le> pc_current pc"
  shows "relaxed (pc_current pc) = Some p \<and> pc_floor pc \<le> p \<and>
    unat (pc_clean_periods pc) \<le> Suc (unat (pc_clean_streak pc)) \<and> pc_min_time pc \<le> now - pc_changed_at pc"
proof -
  let ?n = "pc_clean_streak pc + 1"
  have n: "\<not> ?n < pc_clean_periods pc" and t: "\<not> now - pc_changed_at pc < pc_min_time pc"
    using assms(1) by (auto simp: observe_def is_adverse_def Let_def time_at_posture_def elapsed_def split: if_splits)
  then obtain q where q: "relaxed (pc_current pc) = Some q"
    and p: "max q (pc_floor pc) \<noteq> pc_current pc" "p = max q (pc_floor pc)"
    using assms(1)
    by (auto simp: observe_def is_adverse_def Let_def time_at_posture_def elapsed_def set_posture_def
        split: option.splits if_splits)
  have "pc_floor pc \<le> q"
    using q p assms(2) by (cases "pc_current pc"; cases "pc_floor pc") (auto simp: less_eq_posture_def max_def)
  moreover have "unat (pc_clean_periods pc) \<le> Suc (unat (pc_clean_streak pc))"
    using n unat_inc_le [of "pc_clean_streak pc"] by (simp add: word_less_nat_alt)
  ultimately show ?thesis using q p t by (simp add: max_def)
qed

section \<open>Properties\<close>

text \<open>C14. After any history of signals the posture is at least the floor; if the last signal was adverse it is
  \<open>Evasion\<close>, at once; and a clean period relaxes it only by one step, never below the floor, after at
  least the required number of clean periods in a row in which the posture did not change, and
  only when at least the required time has passed since the posture last changed (or since the start).\<close>

theorem posture_hysteresis:
  assumes "start = controller_with_timing mt n (controller_with_floor t0 initial floor_p)"
    and "pc = observe_all hist start"
  shows "floor_p \<le> pc_current pc \<and>
    (hist \<noteq> [] \<and> is_adverse (snd (last hist)) \<longrightarrow> pc_current pc = Evasion) \<and>
    (\<forall>now p pc'. observe now CleanPeriod pc = (Some p, pc') \<longrightarrow>
       relaxed (pc_current pc) = Some p \<and> floor_p \<le> p \<and> unat n \<le> Suc (calm_run start hist) \<and>
       mt \<le> now - last_change t0 start hist)"
proof -
  have inv: "pc_floor pc = floor_p" "floor_p \<le> pc_current pc" "unat (pc_clean_streak pc) \<le> calm_run start hist"
    "pc_changed_at pc = last_change t0 start hist"
    using posture_inv_all [OF assms(1), of hist, folded assms(2)] by (simp_all add: posture_inv_def)
  have tm: "pc_min_time pc = mt" "pc_clean_periods pc = n"
    using observe_timing [of hist start] assms by (simp_all add: controller_with_timing_def)
  have "pc_current pc = Evasion" if ne: "hist \<noteq> []" and adv: "is_adverse (snd (last hist))"
  proof -
    obtain h x where "hist = h @ [x]" using ne by (cases hist rule: rev_cases) auto
    moreover obtain t sig where "x = (t, sig)" by (cases x)
    ultimately have "hist = h @ [(t, sig)]" by simp
    then show ?thesis using adv assms by (simp add: observe_all_snoc observe_def)
  qed
  moreover have "relaxed (pc_current pc) = Some p \<and> floor_p \<le> p \<and> unat n \<le> Suc (calm_run start hist) \<and>
      mt \<le> now - last_change t0 start hist" if o: "observe now CleanPeriod pc = (Some p, pc')" for now p pc'
    using observe_relaxes [OF o] inv tm by simp
  ultimately show ?thesis using inv(2) by blast
qed

theorem posture_hysteresis_witness:
  "let start = controller_with_timing 10 1 (controller_with_floor 0 Balanced Performance);
       hist = [(1, SuspiciousReset), (12, CleanPeriod)]
   in pc_current (observe_all hist start) = Balanced \<and> last_change 0 start hist = 12 \<and>
      (\<forall>p pc'. observe 21 CleanPeriod (observe_all hist start) \<noteq> (Some p, pc'))"
proof -
  define start where "start = controller_with_timing 10 1 (controller_with_floor 0 Balanced Performance)"
  let ?hist = "[(1, SuspiciousReset), (12, CleanPeriod)]"
  have one: "observe_all [(1, SuspiciousReset)] start = start\<lparr>pc_current := Evasion, pc_changed_at := 1, pc_adverse_total := 1\<rparr>"
    by (simp add: observe_all_def observe_def is_adverse_def set_posture_def start_def controller_with_timing_def
        controller_with_floor_def max_def less_eq_posture_def)
  have two: "pc_current (observe_all ?hist start) = Balanced"
    using one by (simp add: observe_all_def observe_def is_adverse_def set_posture_def start_def controller_with_timing_def
        controller_with_floor_def time_at_posture_def elapsed_def max_def less_eq_posture_def)
  have last: "last_change 0 start ?hist = 12"
    using last_change_snoc [of 0 start "[(1, SuspiciousReset)]" "(12, CleanPeriod)"] two one
      observe_all_snoc [of "[(1, SuspiciousReset)]" 12 CleanPeriod start]
    by (simp add: changes_at_def posture_after_def)
  have "observe 21 CleanPeriod (observe_all ?hist start) \<noteq> (Some p, pc')" for p pc'
  proof
    assume "observe 21 CleanPeriod (observe_all ?hist start) = (Some p, pc')"
    then have "10 \<le> 21 - last_change 0 start ?hist" using posture_hysteresis [OF start_def refl, of ?hist] by blast
    then show False using last by simp
  qed
  then show ?thesis using two last unfolding start_def Let_def by blast
qed

end
