(* ===== verification/Tun_Packet.thy ===== *)
theory Tun_Packet
  imports Codec Std_Collections
begin

text \<open>
  IP packets read from the TUN device, \<open>kanrin-tun/src/packet.rs\<close>, and the connection table of
  \<open>kanrin-tun/src/nat.rs\<close>. An IPv4 address is its 32-bit value, an IPv6 address its 128-bit value.
\<close>

section \<open>Protocols\<close>

datatype ip_protocol = Tcp | Udp | Icmp | Icmpv6 | OtherProtocol u8

definition ip_protocol_from :: "u8 \<Rightarrow> ip_protocol" where
  "ip_protocol_from v =
     (if v = 1 then Icmp else if v = 6 then Tcp else if v = 17 then Udp else if v = 58 then Icmpv6
      else OtherProtocol v)"

fun ip_protocol_to_u8 :: "ip_protocol \<Rightarrow> u8" where
  "ip_protocol_to_u8 Icmp = 1"
| "ip_protocol_to_u8 Tcp = 6"
| "ip_protocol_to_u8 Udp = 17"
| "ip_protocol_to_u8 Icmpv6 = 58"
| "ip_protocol_to_u8 (OtherProtocol v) = v"

lemma ip_protocol_roundtrip: "ip_protocol_to_u8 (ip_protocol_from v) = v"
  by (simp add: ip_protocol_from_def)

section \<open>IPv4\<close>

record ipv4_packet =
  p4_src :: u32
  p4_dst :: u32
  p4_protocol :: ip_protocol
  p4_ttl :: u8
  p4_header_len :: nat
  p4_total_len :: nat
  p4_raw :: bytes

definition ipv4_parse :: "bytes \<Rightarrow> ipv4_packet option" where
  "ipv4_parse data =
     (if length data < 20 then None
      else let ihl = unat (data ! 0 AND 0x0F) * 4 in
        if length data < ihl then None
        else Some \<lparr>p4_src = from_be (slice 12 16 data), p4_dst = from_be (slice 16 20 data),
                   p4_protocol = ip_protocol_from (data ! 9), p4_ttl = data ! 8, p4_header_len = ihl,
                   p4_total_len = unat (from_be [data ! 2, data ! 3] :: u16), p4_raw = data\<rparr>)"

definition ipv4_payload :: "ipv4_packet \<Rightarrow> bytes" where
  "ipv4_payload p = (if length (p4_raw p) > p4_header_len p then drop (p4_header_len p) (p4_raw p) else [])"

text \<open>The ports of a TCP or UDP payload.\<close>

definition has_ports :: "ip_protocol \<Rightarrow> bool" where
  "has_ports proto \<longleftrightarrow> proto = Tcp \<or> proto = Udp"

definition ipv4_dst_port :: "ipv4_packet \<Rightarrow> u16 option" where
  "ipv4_dst_port p =
     (let pl = ipv4_payload p in
      if has_ports (p4_protocol p) then if length pl \<ge> 4 then Some (from_be [pl ! 2, pl ! 3]) else None else None)"

definition ipv4_src_port :: "ipv4_packet \<Rightarrow> u16 option" where
  "ipv4_src_port p =
     (let pl = ipv4_payload p in
      if has_ports (p4_protocol p) then if length pl \<ge> 2 then Some (from_be [pl ! 0, pl ! 1]) else None else None)"

section \<open>IPv6\<close>

record ipv6_packet =
  p6_src :: "128 word"
  p6_dst :: "128 word"
  p6_next_header :: ip_protocol
  p6_hop_limit :: u8
  p6_payload_len :: nat
  p6_raw :: bytes

definition ipv6_parse :: "bytes \<Rightarrow> ipv6_packet option" where
  "ipv6_parse data =
     (if length data < 40 then None
      else Some \<lparr>p6_src = from_be (slice 8 24 data), p6_dst = from_be (slice 24 40 data),
                 p6_next_header = ip_protocol_from (data ! 6), p6_hop_limit = data ! 7,
                 p6_payload_len = unat (from_be [data ! 4, data ! 5] :: u16), p6_raw = data\<rparr>)"

definition ipv6_payload :: "ipv6_packet \<Rightarrow> bytes" where
  "ipv6_payload p = (if length (p6_raw p) > 40 then drop 40 (p6_raw p) else [])"

definition ipv6_dst_port :: "ipv6_packet \<Rightarrow> u16 option" where
  "ipv6_dst_port p =
     (let pl = ipv6_payload p in
      if has_ports (p6_next_header p) then if length pl \<ge> 4 then Some (from_be [pl ! 2, pl ! 3]) else None else None)"

definition ipv6_src_port :: "ipv6_packet \<Rightarrow> u16 option" where
  "ipv6_src_port p =
     (let pl = ipv6_payload p in
      if has_ports (p6_next_header p) then if length pl \<ge> 2 then Some (from_be [pl ! 0, pl ! 1]) else None else None)"

section \<open>Packets of either version\<close>

datatype ip_packet = V4 ipv4_packet | V6 ipv6_packet

definition ip_parse :: "bytes \<Rightarrow> ip_packet option" where
  "ip_parse data =
     (if data = [] then None
      else let version = drop_bit 4 (data ! 0) AND 0x0F in
        if version = 4 then map_option V4 (ipv4_parse data)
        else if version = 6 then map_option V6 (ipv6_parse data)
        else None)"

fun ip_dst_port :: "ip_packet \<Rightarrow> u16 option" where
  "ip_dst_port (V4 p) = ipv4_dst_port p"
| "ip_dst_port (V6 p) = ipv6_dst_port p"

fun ip_src_port :: "ip_packet \<Rightarrow> u16 option" where
  "ip_src_port (V4 p) = ipv4_src_port p"
| "ip_src_port (V6 p) = ipv6_src_port p"

fun ip_protocol_of :: "ip_packet \<Rightarrow> ip_protocol" where
  "ip_protocol_of (V4 p) = p4_protocol p"
| "ip_protocol_of (V6 p) = p6_next_header p"

fun ip_raw :: "ip_packet \<Rightarrow> bytes" where
  "ip_raw (V4 p) = p4_raw p"
| "ip_raw (V6 p) = p6_raw p"

definition is_dns_query :: "ip_packet \<Rightarrow> bool" where
  "is_dns_query p \<longleftrightarrow> ip_protocol_of p = Udp \<and> ip_dst_port p = Some 53"

text \<open>What a parsed IPv4 packet says about its bytes.\<close>

lemma ip_parse_raw: "ip_parse data = Some p \<Longrightarrow> ip_raw p = data"
  by (auto simp: ip_parse_def ipv4_parse_def ipv6_parse_def Let_def split: if_splits)

lemma from_be_port: "(from_be [a, b] :: u16) = 53 \<longleftrightarrow> a = 0 \<and> b = 53"
proof
  assume "(from_be [a, b] :: u16) = 53"
  then have "be16 (from_be [a, b]) = be16 53" by simp
  then have "[a, b] = be16 53" by simp
  also have "be16 (53 :: u16) = [0, 53]" by code_simp
  finally show "a = 0 \<and> b = 53" by simp
next
  assume "a = 0 \<and> b = 53"
  moreover have "(from_be [0, 53] :: u16) = 53" by code_simp
  ultimately show "(from_be [a, b] :: u16) = 53" by simp
qed

lemma dns_query_bytes:
  assumes "ip_parse data = Some (V4 p)" and "is_dns_query (V4 p)" and "p4_header_len p = 20"
  shows "24 \<le> length data" and "data ! 22 = 0" and "data ! 23 = 53"
proof -
  have raw: "p4_raw p = data" using ip_parse_raw [OF assms(1)] by simp
  have port: "ipv4_dst_port p = Some 53" using assms(2) by (simp add: is_dns_query_def)
  then have pl: "4 \<le> length (ipv4_payload p)" "(from_be [ipv4_payload p ! 2, ipv4_payload p ! 3] :: u16) = 53"
    by (auto simp: ipv4_dst_port_def Let_def split: if_splits)
  have d: "ipv4_payload p = drop 20 data" "24 \<le> length data"
    using pl(1) raw assms(3) by (auto simp: ipv4_payload_def split: if_splits)
  then show "24 \<le> length data" "data ! 22 = 0" "data ! 23 = 53"
    using pl(2) by (simp_all add: from_be_port)
qed

section \<open>The connection table\<close>

text \<open>A socket address is left abstract; the table only compares it. A map is keyed by the local and
  the remote address.\<close>

datatype connection_state = SynSent | Established | Closing | Closed | UdpFlow

record 'a nat_entry =
  ne_local :: 'a
  ne_remote :: 'a
  ne_created_at :: instant
  ne_last_seen :: instant
  ne_bytes_tx :: u64
  ne_bytes_rx :: u64
  ne_state :: connection_state

record 'a nat_table =
  nt_tcp :: "('a \<times> 'a, 'a nat_entry) hmap"
  nt_udp :: "('a \<times> 'a, 'a nat_entry) hmap"
  nt_tcp_timeout :: duration
  nt_udp_timeout :: duration

definition nat_table_new :: "duration \<Rightarrow> duration \<Rightarrow> 'a nat_table" where
  "nat_table_new tcp_timeout udp_timeout =
     \<lparr>nt_tcp = [], nt_udp = [], nt_tcp_timeout = tcp_timeout, nt_udp_timeout = udp_timeout\<rparr>"

definition nat_entry_new :: "instant \<Rightarrow> 'a \<Rightarrow> 'a \<Rightarrow> connection_state \<Rightarrow> 'a nat_entry" where
  "nat_entry_new now local remote state =
     \<lparr>ne_local = local, ne_remote = remote, ne_created_at = now, ne_last_seen = now,
      ne_bytes_tx = 0, ne_bytes_rx = 0, ne_state = state\<rparr>"

definition tcp_outgoing :: "instant \<Rightarrow> 'a \<Rightarrow> 'a \<Rightarrow> 'a nat_table \<Rightarrow> 'a nat_entry \<times> 'a nat_table" where
  "tcp_outgoing now local remote t =
     (case hm_get (nt_tcp t) (local, remote) of
        Some e \<Rightarrow> (e, t)
      | None \<Rightarrow> let e = nat_entry_new now local remote SynSent in
          (e, t\<lparr>nt_tcp := hm_insert (local, remote) e (nt_tcp t)\<rparr>))"

definition udp_outgoing :: "instant \<Rightarrow> 'a \<Rightarrow> 'a \<Rightarrow> 'a nat_table \<Rightarrow> 'a nat_entry \<times> 'a nat_table" where
  "udp_outgoing now local remote t =
     (case hm_get (nt_udp t) (local, remote) of
        Some e \<Rightarrow> (e, t)
      | None \<Rightarrow> let e = nat_entry_new now local remote UdpFlow in
          (e, t\<lparr>nt_udp := hm_insert (local, remote) e (nt_udp t)\<rparr>))"

definition tcp_incoming :: "'a \<Rightarrow> 'a \<Rightarrow> 'a nat_table \<Rightarrow> 'a nat_entry option" where
  "tcp_incoming remote local t = hm_get (nt_tcp t) (local, remote)"

definition udp_incoming :: "'a \<Rightarrow> 'a \<Rightarrow> 'a nat_table \<Rightarrow> 'a nat_entry option" where
  "udp_incoming remote local t = hm_get (nt_udp t) (local, remote)"

definition tcp_activity :: "instant \<Rightarrow> 'a \<Rightarrow> 'a \<Rightarrow> u64 \<Rightarrow> bool \<Rightarrow> 'a nat_table \<Rightarrow> 'a nat_table" where
  "tcp_activity now local remote n is_tx t =
     (case hm_get (nt_tcp t) (local, remote) of
        None \<Rightarrow> t
      | Some e \<Rightarrow>
          let e1 = e\<lparr>ne_last_seen := now\<rparr>;
              e2 = (if is_tx then e1\<lparr>ne_bytes_tx := ne_bytes_tx e1 + n\<rparr> else e1\<lparr>ne_bytes_rx := ne_bytes_rx e1 + n\<rparr>)
          in t\<lparr>nt_tcp := hm_insert (local, remote) e2 (nt_tcp t)\<rparr>)"

definition tcp_set_state :: "'a \<Rightarrow> 'a \<Rightarrow> connection_state \<Rightarrow> 'a nat_table \<Rightarrow> 'a nat_table" where
  "tcp_set_state local remote state t =
     (case hm_get (nt_tcp t) (local, remote) of
        None \<Rightarrow> t
      | Some e \<Rightarrow> t\<lparr>nt_tcp := hm_insert (local, remote) (e\<lparr>ne_state := state\<rparr>) (nt_tcp t)\<rparr>)"

definition nat_cleanup :: "instant \<Rightarrow> 'a nat_table \<Rightarrow> 'a nat_table" where
  "nat_cleanup now t =
     t\<lparr>nt_tcp := hm_retain (\<lambda>_ e. ne_state e \<noteq> Closed \<and> elapsed now (ne_last_seen e) < nt_tcp_timeout t) (nt_tcp t),
       nt_udp := hm_retain (\<lambda>_ e. elapsed now (ne_last_seen e) < nt_udp_timeout t) (nt_udp t)\<rparr>"

definition connection_count :: "'a nat_table \<Rightarrow> nat" where
  "connection_count t = length (nt_tcp t) + length (nt_udp t)"

definition tcp_established_count :: "'a nat_table \<Rightarrow> nat" where
  "tcp_established_count t = length (filter (\<lambda>(_, e). ne_state e = Established) (nt_tcp t))"

text \<open>Every entry is stored under its own addresses, and outgoing traffic finds or makes the entry
  the reply is looked up by.\<close>

definition nat_inv :: "'a nat_table \<Rightarrow> bool" where
  "nat_inv t \<longleftrightarrow> hm_wf (nt_tcp t) \<and> hm_wf (nt_udp t) \<and>
     (\<forall>k e. hm_get (nt_tcp t) k = Some e \<longrightarrow> k = (ne_local e, ne_remote e)) \<and>
     (\<forall>k e. hm_get (nt_udp t) k = Some e \<longrightarrow> k = (ne_local e, ne_remote e))"

lemma hm_get_upd: "hm_get (hm_insert k v m) j = (if j = k then Some v else hm_get m j)"
  by (simp add: hm_get_def hm_insert_def update_conv')

lemma nat_inv_outgoing:
  assumes "nat_inv t"
  shows "nat_inv (snd (tcp_outgoing now l r t))" "tcp_incoming r l (snd (tcp_outgoing now l r t)) = Some (fst (tcp_outgoing now l r t))"
    "nat_inv (snd (udp_outgoing now l r t))" "udp_incoming r l (snd (udp_outgoing now l r t)) = Some (fst (udp_outgoing now l r t))"
  using assms
  by (auto simp: nat_inv_def tcp_outgoing_def udp_outgoing_def tcp_incoming_def udp_incoming_def Let_def
      nat_entry_new_def hm_get_upd hmap.invar_insert split: option.split)

lemma nat_inv_updates:
  assumes "nat_inv t"
  shows "nat_inv (tcp_activity now l r n b t)" "nat_inv (tcp_set_state l r st t)" "nat_inv (nat_cleanup now t)"
  using assms
  by (auto simp: nat_inv_def tcp_activity_def tcp_set_state_def nat_cleanup_def Let_def hm_get_upd
      hmap.invar_insert hm_get_retain split: option.splits if_splits)

end
