(* ===== verification/Std_Net.thy ===== *)
theory Std_Net
  imports Std_Strings
begin

text \<open>
  Addresses as Rust's \<open>std::net\<close> has them, with the text form \<open>Display\<close> writes and \<open>FromStr\<close> reads,
  and the string methods the parsers of command output use: \<open>lines\<close>, \<open>split_whitespace\<close>,
  \<open>contains\<close>.
\<close>

datatype ip_addr = IPv4 u32 | IPv6 "128 word"

fun join :: "string \<Rightarrow> string list \<Rightarrow> string" where
  "join sep [] = []"
| "join sep [s] = s"
| "join sep (s # t # ss) = s @ sep @ join sep (t # ss)"

section \<open>Words and lines\<close>

text \<open>The bytes up to the next white-space character, and the rest.\<close>

fun take_word :: "bytes \<Rightarrow> bytes \<times> bytes" where
  "take_word [] = ([], [])"
| "take_word (b # bs) =
     (if ws_len (b # bs) \<noteq> 0 then ([], b # bs) else let (w, rest) = take_word bs in (b # w, rest))"

lemma take_word_length: "length (snd (take_word bs)) \<le> length bs"
  by (induction bs) (auto simp: Let_def split: prod.splits)

lemma trim_start_length: "length (trim_start_bytes bs) \<le> length bs"
proof (induction bs rule: trim_start_bytes.induct)
  case (1 bs)
  then show ?case by (subst trim_start_bytes.simps) (cases "ws_len bs = 0"; simp)
qed

lemma trim_start_ws: "ws_len (trim_start_bytes bs) = 0"
proof (induction bs rule: trim_start_bytes.induct)
  case (1 bs)
  then show ?case by (cases "ws_len bs = 0") (subst trim_start_bytes.simps; simp)+
qed

lemma take_word_progress:
  assumes "ws_len bs = 0" and "bs \<noteq> []"
  shows "length (snd (take_word bs)) < length bs"
proof -
  obtain b cs where "bs = b # cs" using assms(2) by (cases bs) auto
  then show ?thesis using assms(1) take_word_length [of cs] by (auto split: prod.splits)
qed

function split_whitespace_bytes :: "bytes \<Rightarrow> bytes list" where
  "split_whitespace_bytes bs =
     (let rest = trim_start_bytes bs in
      if rest = [] then [] else fst (take_word rest) # split_whitespace_bytes (snd (take_word rest)))"
  by pat_completeness auto

termination
proof (relation "measure length", goal_cases)
  case (2 bs rest)
  then show ?case
    using take_word_progress [OF trim_start_ws, of bs] trim_start_length [of bs] by simp
qed simp

declare split_whitespace_bytes.simps [simp del]

definition split_whitespace :: "string \<Rightarrow> string list" where
  "split_whitespace s = map of_bytes (split_whitespace_bytes (as_bytes s))"

text \<open>Words of printable ASCII characters.\<close>

definition plain_word :: "string \<Rightarrow> bool" where
  "plain_word w \<longleftrightarrow> w \<noteq> [] \<and> (\<forall>c\<in>set w. plain_byte (byte_of c))"

lemma take_word_plain:
  "\<forall>b\<in>set w. plain_byte b \<Longrightarrow> rest = [] \<or> hd rest = 0x20 \<Longrightarrow> take_word (w @ rest) = (w, rest)"
proof (induction w)
  case Nil
  then show ?case by (cases rest) (auto simp: ws_len_def is_ascii_ws_def)
qed (simp add: ws_len_plain)

lemma trim_start_plain: "plain_byte b \<Longrightarrow> trim_start_bytes (b # bs) = b # bs"
  by (subst trim_start_bytes.simps) (simp add: ws_len_plain)

lemma split_whitespace_words:
  assumes "\<forall>w\<in>set ws. plain_word w"
  shows "split_whitespace (join '' '' ws) = ws"
  using assms
proof (induction ws)
  case Nil
  then show ?case
    by (simp add: split_whitespace_def split_whitespace_bytes.simps trim_start_bytes.simps ws_len_def as_bytes_def)
next
  case (Cons w ws)
  define rest where "rest = (if ws = [] then [] else CHR '' '' # join '' '' ws)"
  have j: "join '' '' (w # ws) = w @ rest" by (cases ws) (simp_all add: rest_def)
  obtain c cs where w: "w = c # cs" "\<forall>c\<in>set w. plain_byte (byte_of c)"
    using Cons.prems by (cases w) (auto simp: plain_word_def)
  have space: "as_bytes rest = [] \<or> hd (as_bytes rest) = 0x20"
    by (simp add: rest_def as_bytes_def byte_of_def)
  have trim: "trim_start_bytes (as_bytes (w @ rest)) = as_bytes w @ as_bytes rest"
    using w by (simp add: trim_start_plain)
  have taken: "take_word (as_bytes w @ as_bytes rest) = (as_bytes w, as_bytes rest)"
    by (rule take_word_plain) (use w space in \<open>auto simp: as_bytes_def\<close>)
  have "split_whitespace_bytes (as_bytes rest) = split_whitespace_bytes (as_bytes (join '' '' ws))"
    by (cases "ws = []") (simp_all add: rest_def byte_of_def trim_start_space split_whitespace_bytes.simps)
  moreover have "split_whitespace_bytes (as_bytes (w @ rest)) = as_bytes w # split_whitespace_bytes (as_bytes rest)"
    using trim taken w(1) by (subst split_whitespace_bytes.simps) simp
  ultimately have "split_whitespace (w @ rest) = w # split_whitespace (join '' '' ws)"
    by (simp add: split_whitespace_def)
  then show ?case using Cons j by simp
qed

text \<open>\<open>lines()\<close>: separated by line feeds, a carriage return in front of one removed, no empty line at the
  end.\<close>

definition strip_cr :: "string \<Rightarrow> string" where
  "strip_cr l = (if l \<noteq> [] \<and> last l = CR then butlast l else l)"

definition str_lines :: "string \<Rightarrow> string list" where
  "str_lines s =
     (let parts = split_char LF s;
          body = (if last parts = [] then butlast parts else parts)
      in if last parts = [] then map strip_cr body else map strip_cr (butlast body) @ [last body])"

fun str_contains :: "string \<Rightarrow> string \<Rightarrow> bool" where
  "str_contains pat [] \<longleftrightarrow> pat = []"
| "str_contains pat (c # s) \<longleftrightarrow> take (length pat) (c # s) = pat \<or> str_contains pat s"

section \<open>Displaying addresses\<close>

definition display_ipv4 :: "u32 \<Rightarrow> string" where
  "display_ipv4 a = join ''.'' (map (\<lambda>b. decimal (unat b)) (be32 a))"

definition segments :: "128 word \<Rightarrow> nat list" where
  "segments a = (let bs = to_be 16 a in map (\<lambda>i. be_nat (slice (2 * i) (2 * i + 2) bs)) [0..<8])"

text \<open>The first of the longest runs of zero groups, as start and length.\<close>

fun zero_span :: "nat \<Rightarrow> nat list \<Rightarrow> nat \<times> nat \<Rightarrow> nat \<times> nat \<Rightarrow> nat \<times> nat" where
  "zero_span i [] current longest = longest"
| "zero_span i (g # gs) current longest =
     (if g = 0 then
        let current' = (if snd current = 0 then i else fst current, snd current + 1)
        in zero_span (i + 1) gs current' (if snd current' > snd longest then current' else longest)
      else zero_span (i + 1) gs (0, 0) longest)"

definition display_ipv6 :: "128 word \<Rightarrow> string" where
  "display_ipv6 a =
     (let gs = segments a; groups = (\<lambda>ns. join '':'' (map lower_hex ns)); (start, len) = zero_span 0 gs (0, 0) (0, 0) in
      if take 6 gs = [0, 0, 0, 0, 0, 0xFFFF] then ''::ffff:'' @ display_ipv4 (ucast a)
      else if len > 1 then groups (take start gs) @ ''::'' @ groups (drop (start + len) gs)
      else groups gs)"

fun display_ip :: "ip_addr \<Rightarrow> string" where
  "display_ip (IPv4 a) = display_ipv4 a"
| "display_ip (IPv6 a) = display_ipv6 a"

section \<open>Reading addresses\<close>

text \<open>A reader takes the remaining text and gives a value with what is left, or fails and reads nothing.\<close>

definition read_number :: "nat \<Rightarrow> nat \<Rightarrow> nat \<Rightarrow> bool \<Rightarrow> string \<Rightarrow> (nat \<times> string) option" where
  "read_number radix max_digits bound allow_zero_prefix s =
     (let ds = takeWhile (\<lambda>c. digit_value radix c \<noteq> None) s in
      if ds = [] \<or> length ds > max_digits then None
      else if \<not> allow_zero_prefix \<and> hd ds = CHR ''0'' \<and> length ds > 1 then None
      else case digits_value radix 0 ds of
        None \<Rightarrow> None
      | Some n \<Rightarrow> if n < bound then Some (n, dropWhile (\<lambda>c. digit_value radix c \<noteq> None) s) else None)"

definition read_given_char :: "char \<Rightarrow> string \<Rightarrow> string option" where
  "read_given_char c s = (case s of [] \<Rightarrow> None | d # rest \<Rightarrow> if d = c then Some rest else None)"

definition read_separator :: "char \<Rightarrow> nat \<Rightarrow> (string \<Rightarrow> ('a \<times> string) option) \<Rightarrow> string \<Rightarrow> ('a \<times> string) option" where
  "read_separator sep i inner s =
     (if i > 0 then Option.bind (read_given_char sep s) inner else inner s)"

fun read_octets :: "nat \<Rightarrow> nat \<Rightarrow> string \<Rightarrow> (nat list \<times> string) option" where
  "read_octets i 0 s = Some ([], s)"
| "read_octets i (Suc n) s =
     (case read_separator CHR ''.'' i (read_number 10 3 256 False) s of
        None \<Rightarrow> None
      | Some (octet, rest) \<Rightarrow> map_option (\<lambda>(octets, rest'). (octet # octets, rest')) (read_octets (i + 1) n rest))"

definition read_ipv4 :: "string \<Rightarrow> (u32 \<times> string) option" where
  "read_ipv4 s =
     map_option (\<lambda>(octets, rest). (from_be (map word_of_nat octets), rest)) (read_octets 0 4 s)"

text \<open>The groups of an IPv6 address: at most \<open>limit\<close> of them, the last two possibly written as an
  IPv4 address.\<close>

function read_groups :: "nat \<Rightarrow> nat \<Rightarrow> string \<Rightarrow> nat list \<times> bool \<times> string" where
  "read_groups i limit s =
     (if i \<ge> limit then ([], False, s)
      else case (if i < limit - 1 then read_separator CHR '':'' i read_ipv4 s else None) of
        Some (a, rest) \<Rightarrow> ([unat a div 65536, unat a mod 65536], True, rest)
      | None \<Rightarrow>
          (case read_separator CHR '':'' i (read_number 16 4 65536 True) s of
             None \<Rightarrow> ([], False, s)
           | Some (g, rest) \<Rightarrow> let (gs, v4, rest') = read_groups (i + 1) limit rest in (g # gs, v4, rest')))"
  by pat_completeness auto

termination
  by (relation "measure (\<lambda>(i, limit, s). limit - i)") auto

declare read_groups.simps [simp del]

definition ipv6_of_groups :: "nat list \<Rightarrow> 128 word" where
  "ipv6_of_groups gs = from_be (concat (map (\<lambda>g. be16 (word_of_nat g)) gs))"

definition read_ipv6 :: "string \<Rightarrow> (128 word \<times> string) option" where
  "read_ipv6 s =
     (let (head, head_v4, rest) = read_groups 0 8 s in
      if length head = 8 then Some (ipv6_of_groups head, rest)
      else if head_v4 then None
      else Option.bind (read_given_char CHR '':'' rest) (\<lambda>rest1.
           Option.bind (read_given_char CHR '':'' rest1) (\<lambda>rest2.
             let (tail, _, rest3) = read_groups 0 (8 - (length head + 1)) rest2
             in Some (ipv6_of_groups (head @ replicate (8 - length tail - length head) 0 @ tail), rest3))))"

definition read_ip :: "string \<Rightarrow> (ip_addr \<times> string) option" where
  "read_ip s =
     (case read_ipv4 s of
        Some (a, rest) \<Rightarrow> Some (IPv4 a, rest)
      | None \<Rightarrow> map_option (\<lambda>(a, rest). (IPv6 a, rest)) (read_ipv6 s))"

text \<open>\<open>s.parse::<IpAddr>()\<close>\<close>

definition ip_from_str :: "string \<Rightarrow> ip_addr option" where
  "ip_from_str s = (case read_ip s of Some (a, []) \<Rightarrow> Some a | _ \<Rightarrow> None)"

section \<open>Reading what was displayed\<close>

lemma decimal_digits: "c \<in> set (decimal n) \<Longrightarrow> digit_value 10 c \<noteq> None"
proof (induction n rule: decimal.induct)
  case (1 n)
  show ?case
  proof (cases "n < 10")
    case True
    then show ?thesis using 1 by (subst (asm) (2) decimal.simps) (simp add: digit_value_dec)
  next
    case False
    then have "c \<in> set (decimal (n div 10)) \<or> c = char_of (48 + n mod 10)"
      using 1 by (subst (asm) (2) decimal.simps) auto
    then show ?thesis using 1 False digit_value_dec [of "n mod 10"] by auto
  qed
qed

lemma decimal_length: "n < 10 ^ k \<Longrightarrow> 0 < k \<Longrightarrow> length (decimal n) \<le> k"
proof (induction k arbitrary: n)
  case (Suc k)
  show ?case
  proof (cases "n < 10")
    case True
    then show ?thesis by (subst decimal.simps) simp
  next
    case False
    then have "0 < k" using Suc.prems by (cases k) auto
    then show ?thesis using Suc False by (subst decimal.simps) (simp add: less_mult_imp_div_less)
  qed
qed simp

lemma decimal_head: "0 < n \<Longrightarrow> hd (decimal n) \<noteq> CHR ''0''"
proof (induction n rule: decimal.induct)
  case (1 n)
  show ?case
  proof (cases "n < 10")
    case True
    have "digit_value 10 CHR ''0'' = Some 0" by code_simp
    then have "char_of (48 + n) \<noteq> CHR ''0''" using digit_value_dec [OF True] 1(2) by auto
    then show ?thesis using True by (subst decimal.simps) simp
  next
    case False
    then show ?thesis using 1 by (subst decimal.simps) simp
  qed
qed

lemma decimal_0 [simp]: "decimal 0 = ''0''"
  by code_simp

lemma read_octet:
  assumes "n < 256" and "rest = [] \<or> hd rest = CHR ''.''"
  shows "read_number 10 3 256 False (decimal n @ rest) = Some (n, rest)"
proof -
  have r: "rest = [] \<or> digit_value 10 (hd rest) = None" using assms(2) by (auto simp: digit_value_def)
  have t: "takeWhile (\<lambda>c. digit_value 10 c \<noteq> None) (decimal n @ rest) = decimal n"
    using r decimal_digits by (subst takeWhile_append2) (auto simp: takeWhile_eq_Nil_iff)
  have d: "dropWhile (\<lambda>c. digit_value 10 c \<noteq> None) (decimal n @ rest) = rest"
    using r decimal_digits by (subst dropWhile_append2) (auto simp: dropWhile_eq_self_iff)
  have "length (decimal n) \<le> 3" using decimal_length [of n 3] assms(1) by simp
  moreover have "length (decimal n) > 1 \<Longrightarrow> hd (decimal n) \<noteq> CHR ''0''"
    using decimal_head [of n] by (cases "n = 0") auto
  ultimately show ?thesis
    unfolding read_number_def t d Let_def using assms(1) digits_value_decimal [of n] by auto
qed

lemma read_separator_0 [simp]: "read_separator c 0 f s = f s"
  by (simp add: read_separator_def)

lemma read_separator_Suc [simp]: "read_separator c (Suc i) f (c # s) = f s"
  by (simp add: read_separator_def read_given_char_def)

lemma read_octets_join:
  assumes "\<forall>n\<in>set ns. n < 256" and "ns \<noteq> []" and "i = 0"
  shows "read_octets i (length ns) (join ''.'' (map decimal ns)) = Some (ns, [])"
proof -
  have tail: "read_octets (Suc i) (length ns) (concat (map (\<lambda>n. CHR ''.'' # decimal n) ns)) = Some (ns, [])"
    if "\<forall>n\<in>set ns. n < 256" for i ns
    using that
  proof (induction ns arbitrary: i)
    case (Cons n ns)
    have "concat (map (\<lambda>n. CHR ''.'' # decimal n) ns) = [] \<or> hd (concat (map (\<lambda>n. CHR ''.'' # decimal n) ns)) = CHR ''.''"
      by (cases ns) auto
    then show ?case using Cons by (simp add: read_octet del: decimal.simps)
  qed simp
  obtain n ms where n: "ns = n # ms" using assms(2) by (cases ns) auto
  have "join ''.'' (map decimal (n # ms)) = decimal n @ concat (map (\<lambda>n. CHR ''.'' # decimal n) ms)"
    by (induction ms arbitrary: n) (simp_all del: decimal.simps)
  moreover have "concat (map (\<lambda>n. CHR ''.'' # decimal n) ms) = [] \<or> hd (concat (map (\<lambda>n. CHR ''.'' # decimal n) ms)) = CHR ''.''"
    by (cases ms) auto
  ultimately show ?thesis using assms tail [of ms 0] n by (simp add: read_octet del: decimal.simps)
qed

lemma read_octets_bytes:
  assumes "bs \<noteq> []"
  shows "read_octets 0 (length bs) (join ''.'' (map (\<lambda>b. decimal (unat b)) bs)) = Some (map unat (bs :: bytes), [])"
proof -
  have "unat x < 256" for x :: u8 using unat_lt [of x] by simp
  then show ?thesis
    using read_octets_join [of "map unat bs" 0] assms by (simp add: comp_def del: decimal.simps)
qed

lemma ipv4_display_parse [simp]: "ip_from_str (display_ipv4 w) = Some (IPv4 w)"
proof -
  have l: "length (be32 w) = 4" by (rule length_to_be)
  then have "be32 w \<noteq> []" by (metis list.size(3) zero_neq_numeral)
  from read_octets_bytes [OF this] have "read_octets 0 4 (display_ipv4 w) = Some (map unat (be32 w), [])"
    unfolding l display_ipv4_def .
  then show ?thesis using from_be_to_be [where n = 4 and w = w]
    by (simp add: ip_from_str_def read_ip_def read_ipv4_def comp_def del: to_be.simps)
qed

lemma digit_plain: "digit_value 10 c \<noteq> None \<Longrightarrow> plain_byte (byte_of c)"
proof -
  assume "digit_value 10 c \<noteq> None"
  then have n: "48 \<le> (of_char c :: nat)" "(of_char c :: nat) \<le> 57"
    by (auto simp: digit_value_def Let_def split: if_splits)
  then have "unat (byte_of c) = of_char c" by (simp add: byte_of_def unat_of_nat)
  then show ?thesis using n by (simp add: plain_byte_def word_less_nat_alt)
qed

lemma display_ipv4_plain [simp]: "plain_word (display_ipv4 a)"
proof -
  have j: "\<forall>c\<in>set (join ''.'' ws). plain_byte (byte_of c)" if "\<forall>w\<in>set ws. \<forall>c\<in>set w. plain_byte (byte_of c)" for ws
  proof -
    have "plain_byte (byte_of CHR ''.'')" by (simp add: plain_byte_def byte_of_def)
    then show ?thesis using that by (induction "''.''" ws rule: join.induct) auto
  qed
  have "length (be32 a) = 4" by (rule length_to_be)
  then obtain b bs where "be32 a = b # bs" by (cases "be32 a") auto
  then have "display_ipv4 a \<noteq> []" by (cases bs) (simp_all add: display_ipv4_def del: to_be.simps)
  then show ?thesis
    using j [of "map (\<lambda>b. decimal (unat b)) (be32 a)"] decimal_digits digit_plain
    by (auto simp: plain_word_def display_ipv4_def simp del: to_be.simps decimal.simps)
qed

lemma plain_ascii: "plain_byte b \<Longrightarrow> b < 0x80"
  by (auto simp: plain_byte_def word_less_nat_alt)

lemma words_is_str: "\<forall>w\<in>set ws. plain_word w \<Longrightarrow> is_str (join '' '' ws)"
proof (rule is_str_ascii)
  assume w: "\<forall>w\<in>set ws. plain_word w"
  have "byte_of CHR '' '' < 0x80" by (simp add: byte_of_def)
  then show "\<forall>c\<in>set (join '' '' ws). byte_of c < 0x80"
    using w by (induction "'' ''" ws rule: join.induct) (auto simp: plain_word_def dest: plain_ascii)
qed

end
