(* ===== verification/Tun_Dns.thy ===== *)
theory Tun_Dns
  imports Tun_Packet Std_Net
begin

text \<open>
  The DNS interceptor of \<open>kanrin-tun/src/dns.rs\<close>: the question it reads out of a query, the answer
  it builds, its cache and its pool of fake addresses. Clock readings are arguments.
\<close>

section \<open>Queries and responses\<close>

text \<open>The loop of \<open>parse_dns_query_domain\<close> from position \<open>pos\<close>: the labels up to the empty one.\<close>

function domain_labels :: "bytes \<Rightarrow> nat \<Rightarrow> string list option" where
  "domain_labels packet pos =
     (if pos \<ge> length packet then None
      else let label_len = unat (packet ! pos) in
        if label_len = 0 then Some []
        else if pos + 1 + label_len > length packet then None
        else case from_utf8 (slice (pos + 1) (pos + 1 + label_len) packet) of
          None \<Rightarrow> None
        | Some label \<Rightarrow> map_option ((#) label) (domain_labels packet (pos + 1 + label_len)))"
  by pat_completeness auto

termination
  by (relation "measure (\<lambda>(packet, pos). length packet - pos)") auto

declare domain_labels.simps [simp del]

fun join_dots :: "string list \<Rightarrow> string" where
  "join_dots [] = []"
| "join_dots [l] = l"
| "join_dots (l # ls) = l @ ''.'' @ join_dots ls"

definition parse_dns_query_domain :: "bytes \<Rightarrow> string option" where
  "parse_dns_query_domain packet =
     (if length packet < 12 then None
      else case domain_labels packet 12 of
        None \<Rightarrow> None
      | Some parts \<Rightarrow> if parts = [] then None else Some (join_dots parts))"

definition a_record :: "u32 \<Rightarrow> bytes" where
  "a_record ip = [0xC0, 0x0C, 0x00, 0x01, 0x00, 0x01, 0x00, 0x00, 0x00, 0x3C, 0x00, 0x04] @ be32 ip"

fun ipv4_addrs :: "ip_addr list \<Rightarrow> u32 list" where
  "ipv4_addrs [] = []"
| "ipv4_addrs (IPv4 ip # as) = ip # ipv4_addrs as"
| "ipv4_addrs (IPv6 _ # as) = ipv4_addrs as"

text \<open>The position the code computes after the question is not used; it only moves a local variable.\<close>

definition build_dns_response :: "bytes \<Rightarrow> ip_addr list \<Rightarrow> bytes" where
  "build_dns_response query addresses =
     (if length query < 12 then []
      else let answer_count = word_of_nat (length (ipv4_addrs addresses)) :: u16;
               response = query[2 := 0x81, 3 := 0x80, 6 := ucast (drop_bit 8 answer_count), 7 := ucast (answer_count AND 0xFF)]
        in response @ concat (map a_record (ipv4_addrs addresses)))"

section \<open>Fake addresses\<close>

record fake_ip_pool =
  fp_domain_to_ip :: "(string, u32) hmap"
  fp_ip_to_domain :: "(u32, string) hmap"
  fp_next_ip :: u32
  fp_pool_start :: u32
  fp_pool_end :: u32

definition fake_ip_pool_new :: fake_ip_pool where
  "fake_ip_pool_new =
     \<lparr>fp_domain_to_ip = [], fp_ip_to_domain = [], fp_next_ip = 0xC6120001,
      fp_pool_start = 0xC6120001, fp_pool_end = 0xC613FFFE\<rparr>"

definition fake_allocate :: "string \<Rightarrow> fake_ip_pool \<Rightarrow> u32 \<times> fake_ip_pool" where
  "fake_allocate domain p =
     (case hm_get (fp_domain_to_ip p) domain of
        Some ip \<Rightarrow> (ip, p)
      | None \<Rightarrow>
          let ip = fp_next_ip p; nxt = fp_next_ip p + 1 in
          (ip, p\<lparr>fp_domain_to_ip := hm_insert domain ip (fp_domain_to_ip p),
                 fp_ip_to_domain := hm_insert ip domain (fp_ip_to_domain p),
                 fp_next_ip := (if nxt > fp_pool_end p then fp_pool_start p else nxt)\<rparr>))"

definition fake_lookup :: "u32 \<Rightarrow> fake_ip_pool \<Rightarrow> string option" where
  "fake_lookup ip p = hm_get (fp_ip_to_domain p) ip"

section \<open>The interceptor\<close>

record dns_cache_entry =
  ce_addresses :: "ip_addr list"
  ce_expires_at :: instant

record dns_interceptor =
  di_cache :: "(string, dns_cache_entry) hmap"
  di_pool :: fake_ip_pool
  di_fake_ip_enabled :: bool
  di_max_cache_size :: nat

definition interceptor_new :: "bool \<Rightarrow> dns_interceptor" where
  "interceptor_new fake_ip_enabled =
     \<lparr>di_cache = [], di_pool = fake_ip_pool_new, di_fake_ip_enabled = fake_ip_enabled, di_max_cache_size = 4096\<rparr>"

definition intercept_query :: "instant \<Rightarrow> bytes \<Rightarrow> dns_interceptor \<Rightarrow> bytes option \<times> dns_interceptor" where
  "intercept_query now query d =
     (case parse_dns_query_domain query of
        None \<Rightarrow> (None, d)
      | Some domain \<Rightarrow>
          let fake = (if di_fake_ip_enabled d
                      then (case fake_allocate domain (di_pool d) of
                              (ip, pool) \<Rightarrow> (Some (build_dns_response query [IPv4 ip]), d\<lparr>di_pool := pool\<rparr>))
                      else (None, d))
          in (case hm_get (di_cache d) domain of
                Some entry \<Rightarrow>
                  if ce_expires_at entry > now then (Some (build_dns_response query (ce_addresses entry)), d) else fake
              | None \<Rightarrow> fake))"

definition evict_expired :: "instant \<Rightarrow> dns_interceptor \<Rightarrow> dns_interceptor" where
  "evict_expired now d = d\<lparr>di_cache := hm_retain (\<lambda>_ e. ce_expires_at e > now) (di_cache d)\<rparr>"

definition cache_response :: "instant \<Rightarrow> string \<Rightarrow> ip_addr list \<Rightarrow> u32 \<Rightarrow> dns_interceptor \<Rightarrow> dns_interceptor" where
  "cache_response now domain addresses ttl_secs d =
     (let d1 = (if length (di_cache d) \<ge> di_max_cache_size d then evict_expired now d else d)
      in d1\<lparr>di_cache := hm_insert domain
               \<lparr>ce_addresses = addresses, ce_expires_at = now + from_secs (unat ttl_secs)\<rparr> (di_cache d1)\<rparr>)"

definition resolve_fake_ip :: "u32 \<Rightarrow> dns_interceptor \<Rightarrow> string option" where
  "resolve_fake_ip ip d = fake_lookup ip (di_pool d)"

definition cache_size :: "dns_interceptor \<Rightarrow> nat" where
  "cache_size d = length (di_cache d)"

section \<open>The pool\<close>

text \<open>The addresses of the pool in order, and what it looks like after the first \<open>k\<close> domains.\<close>

definition pool_size :: nat where "pool_size = 131070"

definition pool_ip :: "nat \<Rightarrow> u32" where "pool_ip k = 0xC6120001 + word_of_nat k"

definition pool_holds :: "string list \<Rightarrow> fake_ip_pool \<Rightarrow> bool" where
  "pool_holds ds p \<longleftrightarrow>
     distinct ds \<and> length ds \<le> pool_size \<and>
     fp_pool_start p = 0xC6120001 \<and> fp_pool_end p = 0xC613FFFE \<and>
     fp_next_ip p = pool_ip (length ds mod pool_size) \<and>
     (\<forall>i < length ds. hm_get (fp_domain_to_ip p) (ds ! i) = Some (pool_ip i)) \<and>
     (\<forall>d. d \<notin> set ds \<longrightarrow> hm_get (fp_domain_to_ip p) d = None) \<and>
     (\<forall>i < length ds. hm_get (fp_ip_to_domain p) (pool_ip i) = Some (ds ! i))"

lemma unat_pool_ip: "k < 2 ^ 20 \<Longrightarrow> unat (pool_ip k) = 0xC6120001 + k"
  by (simp add: pool_ip_def unat_word_ariths unat_of_nat)

lemma pool_ip_inject: "i < 2 ^ 20 \<Longrightarrow> j < 2 ^ 20 \<Longrightarrow> pool_ip i = pool_ip j \<longleftrightarrow> i = j"
  using unat_pool_ip by (metis add_left_cancel)

lemma pool_holds_new: "pool_holds [] fake_ip_pool_new"
  by (simp add: pool_holds_def fake_ip_pool_new_def pool_ip_def pool_size_def hm_get_def)

lemma pool_ip_end: "k < pool_size \<Longrightarrow> (pool_ip k + 1 > 0xC613FFFE) = (Suc k = pool_size)"
  by (auto simp: word_less_nat_alt pool_size_def pool_ip_def unat_word_ariths unat_of_nat)

lemma pool_ip_Suc: "pool_ip (Suc k) = pool_ip k + 1"
  by (simp add: pool_ip_def)

lemma pool_holds_known:
  assumes "pool_holds ds p" and "i < length ds"
  shows "fake_allocate (ds ! i) p = (pool_ip i, p)" and "fake_lookup (pool_ip i) p = Some (ds ! i)"
  using assms by (simp_all add: pool_holds_def fake_allocate_def fake_lookup_def)

lemma pool_holds_fresh:
  assumes p: "pool_holds ds p" and d: "d \<notin> set ds" and room: "length ds < pool_size"
  shows "pool_holds (ds @ [d]) (snd (fake_allocate d p))" and "fst (fake_allocate d p) = pool_ip (length ds)"
proof -
  let ?k = "length ds"
  have none: "hm_get (fp_domain_to_ip p) d = None" using p d by (simp add: pool_holds_def)
  have nxt: "fp_next_ip p = pool_ip ?k" using p room by (simp add: pool_holds_def)
  then show "fst (fake_allocate d p) = pool_ip ?k" using none by (simp add: fake_allocate_def Let_def)
  have neq: "pool_ip i \<noteq> pool_ip ?k" if "i < ?k" for i
    using that room pool_ip_inject [of i ?k] by (simp add: pool_size_def)
  have dneq: "ds ! i \<noteq> d" if "i < ?k" for i using that d by (metis nth_mem)
  have wrap: "(if fp_next_ip p + 1 > fp_pool_end p then fp_pool_start p else fp_next_ip p + 1) = pool_ip (Suc ?k mod pool_size)"
  proof (cases "Suc ?k = pool_size")
    case True
    then show ?thesis using p nxt pool_ip_end [OF room] by (simp add: pool_holds_def pool_ip_def)
  next
    case False
    then have "Suc ?k mod pool_size = Suc ?k" using room by simp
    then show ?thesis using False p nxt pool_ip_end [OF room] by (simp add: pool_holds_def pool_ip_Suc)
  qed
  show "pool_holds (ds @ [d]) (snd (fake_allocate d p))"
    using p d room none nxt neq dneq wrap
    by (auto simp: pool_holds_def fake_allocate_def Let_def hm_get_upd nth_append less_Suc_eq)
qed

text \<open>The domains asked for, each once, in the order of their first request.\<close>

definition requested :: "string list \<Rightarrow> string list" where
  "requested xs = fold (\<lambda>d ds. if d \<in> set ds then ds else ds @ [d]) xs []"

definition allocate_all :: "string list \<Rightarrow> fake_ip_pool" where
  "allocate_all xs = fold (\<lambda>d p. snd (fake_allocate d p)) xs fake_ip_pool_new"

lemma requested_snoc: "requested (xs @ [d]) = (if d \<in> set (requested xs) then requested xs else requested xs @ [d])"
  by (simp add: requested_def)

lemma requested_set: "set (requested xs) = set xs" "distinct (requested xs)"
  by (induction xs rule: rev_induct) (auto simp: requested_snoc, simp_all add: requested_def)

lemma length_requested: "length (requested xs) = card (set xs)"
  using requested_set [of xs] by (metis distinct_card)

lemma pool_holds_all: "card (set xs) \<le> pool_size \<Longrightarrow> pool_holds (requested xs) (allocate_all xs)"
proof (induction xs rule: rev_induct)
  case Nil
  show ?case by (simp add: requested_def allocate_all_def pool_holds_new)
next
  case (snoc d xs)
  have "card (set xs) \<le> card (set (xs @ [d]))" by (intro card_mono) auto
  then have p: "pool_holds (requested xs) (allocate_all xs)" using snoc by simp
  have step: "allocate_all (xs @ [d]) = snd (fake_allocate d (allocate_all xs))" by (simp add: allocate_all_def)
  show ?case
  proof (cases "d \<in> set (requested xs)")
    case True
    then obtain i where "i < length (requested xs)" "d = requested xs ! i" by (metis in_set_conv_nth)
    then have "fake_allocate d (allocate_all xs) = (pool_ip i, allocate_all xs)" using pool_holds_known(1) [OF p] by simp
    then have "allocate_all (xs @ [d]) = allocate_all xs" unfolding step by simp
    then show ?thesis using p True by (simp add: requested_snoc)
  next
    case False
    then have "length (requested xs) < pool_size"
      using snoc.prems requested_set(1) [of xs] by (simp add: length_requested)
    then show ?thesis using pool_holds_fresh(1) [OF p False] False by (simp add: step requested_snoc)
  qed
qed

section \<open>Queries inside IP packets\<close>

text \<open>The client hands the interceptor the whole IP packet, so what it takes for the question starts
  in the source address of the IPv4 header.\<close>

lemma slice_utf8_None: "domain_labels packet pos = None" if "pos < length packet" "pos + unat (packet ! pos) \<ge> length packet"
    "unat (packet ! pos) \<noteq> 0"
  using that by (subst domain_labels.simps) (simp add: Let_def)

lemma tunnel_query_unparsed:
  assumes "24 \<le> length data" and "length data < 77" and "data ! 12 = 10" and "data ! 23 = 53"
  shows "parse_dns_query_domain data = None"
proof -
  have "domain_labels data 23 = None"
    using assms by (intro slice_utf8_None) simp_all
  then have "domain_labels data 12 = None"
    using assms by (subst domain_labels.simps) (simp add: Let_def split: option.split)
  then show ?thesis using assms by (simp add: parse_dns_query_domain_def)
qed

section \<open>Properties\<close>

text \<open>Until the pool is used up, each domain keeps the address it was first given, addresses of different
  domains differ, and every address resolves back to its domain. The domain after that gets the first
  address again: the domain it was first given to still maps to it, but it no longer resolves to that
  domain.\<close>

lemma fake_ip_faithful:
  assumes "card (set xs) \<le> pool_size"
  shows "(\<forall>d\<in>set xs. fake_lookup (fst (fake_allocate d (allocate_all xs))) (allocate_all xs) = Some d \<and>
      0xC6120001 \<le> fst (fake_allocate d (allocate_all xs)) \<and> fst (fake_allocate d (allocate_all xs)) \<le> 0xC613FFFE) \<and>
    (\<forall>d. card (set xs) = pool_size \<and> d \<notin> set xs \<longrightarrow>
      (let (ip, p) = fake_allocate d (allocate_all xs) in
       fake_lookup ip p = Some d \<and> (\<exists>d0\<in>set xs. fst (fake_allocate d0 p) = ip)))"
proof -
  let ?p = "allocate_all xs" and ?ds = "requested xs"
  have p: "pool_holds ?ds ?p" by (rule pool_holds_all [OF assms])
  have len: "length ?ds \<le> pool_size" using p by (simp add: pool_holds_def)
  have known: "fake_lookup (fst (fake_allocate d ?p)) ?p = Some d \<and>
      0xC6120001 \<le> fst (fake_allocate d ?p) \<and> fst (fake_allocate d ?p) \<le> 0xC613FFFE" if d: "d \<in> set xs" for d
  proof -
    obtain i where i: "i < length ?ds" "d = ?ds ! i" using d requested_set(1) [of xs] by (metis in_set_conv_nth)
    then have "unat (pool_ip i) = 0xC6120001 + i" using len by (intro unat_pool_ip) (simp add: pool_size_def)
    then show ?thesis using pool_holds_known [OF p i(1)] i len by (simp add: word_le_nat_alt pool_size_def)
  qed
  have wrap: "fake_lookup (fst (fake_allocate d ?p)) (snd (fake_allocate d ?p)) = Some d \<and>
      fst (fake_allocate (?ds ! 0) (snd (fake_allocate d ?p))) = fst (fake_allocate d ?p) \<and> ?ds ! 0 \<in> set xs"
    if "card (set xs) = pool_size" "d \<notin> set xs" for d
  proof -
    have l: "length ?ds = pool_size" using that(1) by (simp add: length_requested)
    have none: "hm_get (fp_domain_to_ip ?p) d = None" using p that(2) requested_set(1) by (auto simp: pool_holds_def)
    have first: "hm_get (fp_domain_to_ip ?p) (?ds ! 0) = Some (pool_ip 0)" "?ds ! 0 \<in> set ?ds"
      using p l by (auto simp: pool_holds_def pool_size_def)
    have "fp_next_ip ?p = pool_ip 0" using p l by (simp add: pool_holds_def)
    then show ?thesis
      using none first that(2) requested_set(1) [of xs]
      by (auto simp: fake_allocate_def fake_lookup_def hm_get_upd Let_def)
  qed
  show ?thesis using known wrap by (fastforce simp: case_prod_beta Let_def)
qed

text \<open>A DNS query read from the tunnel is never answered locally: with an IPv4 header of 20 bytes, a
  source address in 10.0.0.0/8 (which is where tunnel addresses are) and fewer than 77 bytes in all, the
  question cannot be parsed, whatever is cached and although fake addresses are enabled.\<close>

lemma tunnel_dns_never_intercepted:
  assumes "ip_parse data = Some (V4 p)" and "is_dns_query (V4 p)" and "p4_header_len p = 20"
    and "data ! 12 = 10" and "length data < 77"
  shows "intercept_query now data d = (None, d)"
  using tunnel_query_unparsed [OF dns_query_bytes(1) [OF assms(1-3)] assms(5,4) dns_query_bytes(3) [OF assms(1-3)]]
  by (simp add: intercept_query_def)

definition demo_query :: bytes where
  "demo_query = [0x45, 0, 0, 52, 0, 1, 0, 0, 0x40, 17, 0, 0, 10, 10, 0, 2, 8, 8, 8, 8,
     0xAB, 0xCD, 0, 53, 0, 32, 0, 0,
     0x12, 0x34, 1, 0, 0, 1, 0, 0, 0, 0, 0, 0, 6, 103, 111, 111, 103, 108, 101, 0, 0, 1, 0, 1]"

end
