(* ===== verification/Client_Pipeline.thy ===== *)
theory Client_Pipeline
  imports Client_Switch Client_Posture Tun_Dns
begin

text \<open>
  The client's tunnel, \<open>kanrin-client/src/pipeline.rs\<close>: the handshake over a new connection, and the
  turns of its main loop, one definition per branch of the \<open>select!\<close>. The state the loop threads
  through is the record \<open>tunnel\<close>; \<open>tn_written\<close> is what it has written to the TUN device and
  \<open>tn_running\<close> turns false where the code breaks out of the loop. Connections, clock readings and
  random bytes are arguments.
\<close>

definition TUN_QUEUE_DEPTH :: nat where "TUN_QUEUE_DEPTH = 256"

definition CLIENT_ACK_EVERY_N_CHUNKS :: nat where "CLIENT_ACK_EVERY_N_CHUNKS = 32"

definition CLIENT_ACK_MAX_DELAY :: duration where "CLIENT_ACK_MAX_DELAY = from_millis 200"

definition MAX_FAILED_SWITCHES :: u32 where "MAX_FAILED_SWITCHES = 5"

section \<open>The handshake\<close>

fun debug_auth_status :: "auth_status \<Rightarrow> string" where
  "debug_auth_status AuthOk = ''Ok''"
| "debug_auth_status InvalidCredentials = ''InvalidCredentials''"
| "debug_auth_status RateLimited_status = ''RateLimited''"
| "debug_auth_status ServerFull = ''ServerFull''"

text \<open>The first frame, with the handshake state it came from.\<close>

definition client_hello_frame ::
  "crypto_ops \<Rightarrow> u64 \<Rightarrow> (nat \<Rightarrow> entropy) \<Rightarrow> client_error + bytes \<times> client_handshake" where
  "client_hello_frame C ts rnd =
     (let handshake = client_handshake_new C (rnd 0) in
      and_then (fail_with ''handshake'' display_protocol_error (create_client_hello ts (rnd 1) handshake)) (\<lambda>hello.
      and_then (fail_with ''encode hello'' display_protocol_error
          (encode_encrypted C (rnd 2) (new_handshake (client_hello_encode hello)) zero_key zero_nonce)) (\<lambda>encoded.
      Ok (encoded, handshake))))"

text \<open>What follows the server's hello: the session keys and the frame that authenticates.\<close>

definition client_auth_frame ::
  "crypto_ops \<Rightarrow> (nat \<Rightarrow> entropy) \<Rightarrow> string \<Rightarrow> client_handshake \<Rightarrow> bytes \<Rightarrow> client_error + session_keys \<times> bytes" where
  "client_auth_frame C rnd password handshake server_data =
     and_then (fail_with ''decode server hello'' display_protocol_error
         (decode_encrypted C server_data zero_key zero_nonce)) (\<lambda>server_chunk.
     and_then (fail_with ''parse server hello'' display_protocol_error (server_hello_decode (payload server_chunk)))
       (\<lambda>server_hello.
     and_then (fail_with ''process server hello'' display_protocol_error
         (fst (process_server_hello C server_hello handshake))) (\<lambda>session_keys.
     and_then (fail_with ''auth'' display_protocol_error (create_client_finished C (rnd 3) password session_keys))
       (\<lambda>finished.
     and_then (fail_with ''encode auth'' display_protocol_error
         (encode_encrypted C (rnd 4) (new_handshake (client_finished_encode finished))
            (client_write_key session_keys) zero_nonce)) (\<lambda>encoded.
     Ok (session_keys, encoded))))))"

text \<open>The token: the tunnel address and the session identifier.\<close>

definition parse_token :: "bytes option \<Rightarrow> u32 option \<times> session_id option" where
  "parse_token token =
     (case token of
        Some t \<Rightarrow> if length t \<ge> 20 then (Some (from_be (take 4 t)), Some (slice 4 20 t)) else (None, None)
      | None \<Rightarrow> (None, None))"

definition client_finish ::
  "crypto_ops \<Rightarrow> session_keys \<Rightarrow> bytes \<Rightarrow> client_error + u32 option \<times> session_id option" where
  "client_finish C session_keys finished_data =
     and_then (fail_with ''decode server finished'' display_protocol_error
         (decode_encrypted C finished_data (server_write_key session_keys) zero_nonce)) (\<lambda>finished_chunk.
     and_then (fail_with ''parse server finished'' display_protocol_error
         (server_finished_decode (payload finished_chunk))) (\<lambda>server_finished.
     if sf_status server_finished \<noteq> AuthOk
     then Err (ConnectionFailed (''authentication failed: '' @ debug_auth_status (sf_status server_finished)))
     else Ok (parse_token (sf_session_token server_finished))))"

text \<open>The exchange over a connection. \<open>parse_ip\<close> reads the address of the configuration, used when the
  server assigned none.\<close>

record established =
  es_keys :: session_keys
  es_tun_address :: ip_addr
  es_session_id :: session_id
  es_session :: session

definition client_establish ::
  "crypto_ops \<Rightarrow> 'c connection \<Rightarrow> u64 \<Rightarrow> instant \<Rightarrow> (nat \<Rightarrow> entropy) \<Rightarrow> (string \<Rightarrow> ip_addr option) \<Rightarrow>
     kanrin_config \<Rightarrow> 'c \<Rightarrow> (client_error + established) \<times> 'c" where
  "client_establish C io ts now rnd parse_ip cfg c =
     (case client_hello_frame C ts rnd of
        Inl e \<Rightarrow> (Err e, c)
      | Inr (hello, handshake) \<Rightarrow>
     (case cn_send io hello c of
        (Inl e, c1) \<Rightarrow> (fail_with ''send hello'' display_transport_error (Err e), c1)
      | (Inr _, c1) \<Rightarrow>
     (case cn_recv io c1 of
        (Inl e, c2) \<Rightarrow> (fail_with ''recv server hello'' display_transport_error (Err e), c2)
      | (Inr server_data, c2) \<Rightarrow>
     (case client_auth_frame C rnd (cs_password (kc_server cfg)) handshake server_data of
        Inl e \<Rightarrow> (Err e, c2)
      | Inr (session_keys, auth) \<Rightarrow>
     (case cn_send io auth c2 of
        (Inl e, c3) \<Rightarrow> (fail_with ''send auth'' display_transport_error (Err e), c3)
      | (Inr _, c3) \<Rightarrow>
     (case cn_recv io c3 of
        (Inl e, c4) \<Rightarrow> (fail_with ''recv server finished'' display_transport_error (Err e), c4)
      | (Inr finished_data, c4) \<Rightarrow>
     (case client_finish C session_keys finished_data of
        Inl e \<Rightarrow> (Err e, c4)
      | Inr (assigned_ip, session_id) \<Rightarrow>
          let tun_address = (case assigned_ip of
                Some ip \<Rightarrow> IPv4 ip
              | None \<Rightarrow> (case parse_ip (ts_address (kc_tun cfg)) of Some a \<Rightarrow> a | None \<Rightarrow> IPv4 0x0A0A0002));
              sid = (case session_id of Some i \<Rightarrow> i | None \<Rightarrow> session_id_generate (rnd 5))
          in (Ok \<lparr>es_keys = session_keys, es_tun_address = tun_address, es_session_id = sid,
                  es_session = session_new now sid session_keys\<rparr>, c4))))))))"

section \<open>The state of the main loop\<close>

record 'c tunnel =
  tn_link :: "'c link"
  tn_session :: session
  tn_recv_buffer :: receive_buffer
  tn_unacked :: nat
  tn_last_ack :: instant
  tn_posture :: posture_controller
  tn_dns :: dns_interceptor
  tn_draining :: "'c option"
  tn_failed_switches :: u32
  tn_written :: "bytes list"
  tn_running :: bool

definition tunnel_begin ::
  "instant \<Rightarrow> bool \<Rightarrow> string \<Rightarrow> session \<Rightarrow> 'c \<Rightarrow> kanrin_event list \<Rightarrow> 'c tunnel" where
  "tunnel_begin now fake_ip transport_name s c events =
     \<lparr>tn_link = \<lparr>lk_connection = c, lk_active = transport_name, lk_send_buffer = send_buffer_with_default_capacity,
                lk_policy = policy_new, lk_monitor = monitor_new now, lk_events = events\<rparr>,
      tn_session = s, tn_recv_buffer = receive_buffer_with_default_capacity, tn_unacked = 0, tn_last_ack = now,
      tn_posture = controller_new now Balanced, tn_dns = interceptor_new fake_ip, tn_draining = None,
      tn_failed_switches = 0, tn_written = [], tn_running = True\<rparr>"

text \<open>What a switch needs besides the loop's own state.\<close>

record 'c switch_env =
  sw_attempts :: attempts
  sw_later :: instant
  sw_registry :: "'c transport_registry"
  sw_endpoint :: endpoint
  sw_session_id :: session_id
  sw_keys :: session_keys

text \<open>The macro \<open>switch_or_give_up\<close>. A stale draining connection is closed and dropped.\<close>

definition switch_or_give_up ::
  "crypto_ops \<Rightarrow> 'c connection \<Rightarrow> 'c switch_env \<Rightarrow> instant \<Rightarrow> switch_cause \<Rightarrow> 'c tunnel \<Rightarrow> 'c tunnel" where
  "switch_or_give_up C io env now cause t =
     (case attempt_switch C io (sw_attempts env) now (sw_later env) cause (sw_registry env) (sw_endpoint env)
             (sw_session_id env) (sw_keys env) (rb_next_expected (tn_recv_buffer t)) (tn_link t) of
        (Some old, lk) \<Rightarrow> t\<lparr>tn_link := lk, tn_failed_switches := 0, tn_draining := Some old\<rparr>
      | (None, lk) \<Rightarrow>
          let t1 = t\<lparr>tn_link := lk, tn_failed_switches := tn_failed_switches t + 1\<rparr> in
          if tn_failed_switches t1 \<ge> MAX_FAILED_SWITCHES then t1\<lparr>tn_running := False\<rparr> else t1)"

text \<open>The macro \<open>observe_signal\<close>.\<close>

definition observe_signal :: "instant \<Rightarrow> signal \<Rightarrow> 'c tunnel \<Rightarrow> 'c tunnel" where
  "observe_signal now sig t =
     (case observe now sig (tn_posture t) of
        (None, pc) \<Rightarrow> t\<lparr>tn_posture := pc\<rparr>
      | (Some after, pc) \<Rightarrow>
          t\<lparr>tn_posture := pc,
            tn_link := (tn_link t)\<lparr>lk_events := lk_events (tn_link t) @
              [PostureChanged (posture_as_str (pc_current (tn_posture t))) (posture_as_str after) (debug_signal sig)]\<rparr>\<rparr>)"

section \<open>Outgoing packets\<close>

definition send_packet ::
  "crypto_ops \<Rightarrow> 'c connection \<Rightarrow> 'c switch_env \<Rightarrow> instant \<Rightarrow> u8 \<Rightarrow> entropy \<Rightarrow> bytes \<Rightarrow> 'c tunnel \<Rightarrow> 'c tunnel" where
  "send_packet C io env now r pad raw t =
     (let sq = send_seq (tn_session t) in
      case encrypt_outgoing C pad now (new_data r raw) True (tn_session t) of
        (Inl _, s) \<Rightarrow> t\<lparr>tn_session := s, tn_running := False\<rparr>
      | (Inr encrypted, s) \<Rightarrow>
          (case cn_send io encrypted (lk_connection (tn_link t)) of
             (sent, c) \<Rightarrow>
               let t1 = t\<lparr>tn_session := s,
                          tn_link := (tn_link t)\<lparr>lk_connection := c,
                            lk_send_buffer := snd (send_push sq encrypted (lk_send_buffer (tn_link t)))\<rparr>\<rparr>
               in (case sent of
                     Inl e \<Rightarrow> switch_or_give_up C io env now (TransportFailure (display_transport_error e)) t1
                   | Inr _ \<Rightarrow> t1)))"

text \<open>The branch that reads from the TUN queue; \<open>None\<close> is a closed queue. It is disabled while the send
  buffer is full.\<close>

definition tun_branch_enabled :: "'c tunnel \<Rightarrow> bool" where
  "tun_branch_enabled t \<longleftrightarrow> tn_running t \<and> \<not> send_is_full (lk_send_buffer (tn_link t))"

definition on_tun_packet ::
  "crypto_ops \<Rightarrow> 'c connection \<Rightarrow> 'c switch_env \<Rightarrow> instant \<Rightarrow> u8 \<Rightarrow> entropy \<Rightarrow> bytes option \<Rightarrow> 'c tunnel \<Rightarrow> 'c tunnel" where
  "on_tun_packet C io env now r pad packet t =
     (case packet of
        None \<Rightarrow> t\<lparr>tn_running := False\<rparr>
      | Some raw \<Rightarrow>
          (case ip_parse raw of
             None \<Rightarrow> t
           | Some ip \<Rightarrow>
               if is_dns_query ip
               then (case intercept_query now raw (tn_dns t) of
                       (Some response, d) \<Rightarrow> t\<lparr>tn_dns := d, tn_written := tn_written t @ [response]\<rparr>
                     | (None, d) \<Rightarrow> send_packet C io env now r pad raw (t\<lparr>tn_dns := d\<rparr>))
               else send_packet C io env now r pad raw t))"

section \<open>Incoming frames\<close>

definition send_client_ack ::
  "crypto_ops \<Rightarrow> 'c connection \<Rightarrow> 'c switch_env \<Rightarrow> instant \<Rightarrow> u8 \<Rightarrow> entropy \<Rightarrow> 'c tunnel \<Rightarrow> 'c tunnel" where
  "send_client_ack C io env now r pad t =
     (case encrypt_outgoing C pad now (new_control r (control_encode (build_ack (tn_recv_buffer t)))) True (tn_session t) of
        (Inl _, s) \<Rightarrow> t\<lparr>tn_session := s\<rparr>
      | (Inr bs, s) \<Rightarrow>
          (case cn_send io bs (lk_connection (tn_link t)) of
             (sent, c) \<Rightarrow>
               let t1 = t\<lparr>tn_session := s, tn_link := (tn_link t)\<lparr>lk_connection := c\<rparr>\<rparr>
               in (case sent of
                     Inl e \<Rightarrow> switch_or_give_up C io env now (TransportFailure (display_transport_error e)) t1
                   | Inr _ \<Rightarrow> t1)))"

text \<open>A duplicate counts towards the next acknowledgement; a refused chunk does not.\<close>

definition receive_data ::
  "crypto_ops \<Rightarrow> 'c connection \<Rightarrow> 'c switch_env \<Rightarrow> instant \<Rightarrow> u8 \<Rightarrow> entropy \<Rightarrow> u64 \<Rightarrow> bytes \<Rightarrow> 'c tunnel \<Rightarrow> 'c tunnel" where
  "receive_data C io env now r pad sq pl t =
     (case accept sq pl (tn_recv_buffer t) of
        (Inl _, rb) \<Rightarrow> t\<lparr>tn_recv_buffer := rb\<rparr>
      | (Inr received, rb) \<Rightarrow>
          let t1 = (if received = Duplicate then t\<lparr>tn_recv_buffer := rb\<rparr>
                    else case drain_ready rb of
                      (ready, rb') \<Rightarrow> t\<lparr>tn_recv_buffer := rb', tn_written := tn_written t @ ready\<rparr>);
              t2 = t1\<lparr>tn_unacked := tn_unacked t1 + 1\<rparr>
          in if tn_unacked t2 \<ge> CLIENT_ACK_EVERY_N_CHUNKS \<or> elapsed now (tn_last_ack t2) \<ge> CLIENT_ACK_MAX_DELAY
             then send_client_ack C io env now r pad (t2\<lparr>tn_unacked := 0, tn_last_ack := now\<rparr>)
             else t2)"

definition receive_control :: "bytes \<Rightarrow> 'c tunnel \<Rightarrow> 'c tunnel" where
  "receive_control pl t =
     (case control_decode pl of
        Inr (Ack ne ranges) \<Rightarrow>
          t\<lparr>tn_link := (tn_link t)\<lparr>lk_send_buffer := snd (apply_ack ne ranges (lk_send_buffer (tn_link t)))\<rparr>\<rparr>
      | _ \<Rightarrow> t)"

text \<open>The branch for \<open>connection.recv()\<close>, with the connection left after it.\<close>

definition on_frame ::
  "crypto_ops \<Rightarrow> 'c connection \<Rightarrow> 'c switch_env \<Rightarrow> instant \<Rightarrow> u8 \<Rightarrow> entropy \<Rightarrow> transport_error + bytes \<Rightarrow>
     'c tunnel \<Rightarrow> 'c tunnel" where
  "on_frame C io env now r pad data t =
     (case data of
        Inl e \<Rightarrow>
          switch_or_give_up C io env now (TransportFailure (display_transport_error e)) (observe_signal now SuspiciousReset t)
      | Inr encrypted \<Rightarrow>
          let t1 = t\<lparr>tn_link := (tn_link t)\<lparr>lk_monitor := record_inbound now (lk_monitor (tn_link t))\<rparr>, tn_draining := None\<rparr>
          in (case decrypt_incoming C now encrypted True (tn_session t1) of
                (Inl _, s) \<Rightarrow> t1\<lparr>tn_session := s\<rparr>
              | (Inr chunk, s) \<Rightarrow>
                  let t2 = t1\<lparr>tn_session := s\<rparr> in
                  (case chunk_type (header chunk) of
                     Control \<Rightarrow> receive_control (payload chunk) t2
                   | Data \<Rightarrow> receive_data C io env now r pad (sequence (header chunk)) (payload chunk) t2
                   | _ \<Rightarrow> t2)))"

definition client_recv ::
  "crypto_ops \<Rightarrow> 'c connection \<Rightarrow> 'c switch_env \<Rightarrow> instant \<Rightarrow> u8 \<Rightarrow> entropy \<Rightarrow> 'c tunnel \<Rightarrow> 'c tunnel" where
  "client_recv C io env now r pad t =
     (case cn_recv io (lk_connection (tn_link t)) of
        (data, c) \<Rightarrow> on_frame C io env now r pad data (t\<lparr>tn_link := (tn_link t)\<lparr>lk_connection := c\<rparr>\<rparr>))"

section \<open>Ticks\<close>

text \<open>\<open>timestamp\<close> is the wall clock in seconds.\<close>

definition on_liveness_tick ::
  "crypto_ops \<Rightarrow> 'c connection \<Rightarrow> 'c switch_env \<Rightarrow> instant \<Rightarrow> u64 \<Rightarrow> u8 \<Rightarrow> entropy \<Rightarrow> 'c tunnel \<Rightarrow> 'c tunnel" where
  "on_liveness_tick C io env now timestamp r pad t =
     (if is_dead now (lk_monitor (tn_link t))
      then switch_or_give_up C io env now LinkSilent (observe_signal now SuddenPathLoss t)
      else case should_probe now (lk_monitor (tn_link t)) of
        (False, m) \<Rightarrow> t\<lparr>tn_link := (tn_link t)\<lparr>lk_monitor := m\<rparr>\<rparr>
      | (True, m) \<Rightarrow>
          let t1 = t\<lparr>tn_link := (tn_link t)\<lparr>lk_monitor := m\<rparr>\<rparr> in
          (case encrypt_outgoing C pad now (new_control r (control_encode (Ping timestamp))) True (tn_session t1) of
             (Inl _, s) \<Rightarrow> t1\<lparr>tn_session := s\<rparr>
           | (Inr bs, s) \<Rightarrow>
               t1\<lparr>tn_session := s,
                  tn_link := (tn_link t1)\<lparr>lk_connection := snd (cn_send io bs (lk_connection (tn_link t1)))\<rparr>\<rparr>))"

definition on_posture_tick :: "instant \<Rightarrow> 'c tunnel \<Rightarrow> 'c tunnel" where
  "on_posture_tick now t = observe_signal now CleanPeriod t"

definition as_secs_u64 :: "duration \<Rightarrow> u64" where
  "as_secs_u64 d = word_of_nat (d div 1000000000)"

definition on_stats_tick :: "instant \<Rightarrow> 'c tunnel \<Rightarrow> 'c tunnel" where
  "on_stats_tick now t =
     t\<lparr>tn_link := (tn_link t)\<lparr>lk_events := lk_events (tn_link t) @
         [StatsUpdate (bytes_sent (tn_session t)) (bytes_received (tn_session t))
            (as_secs_u64 (session_age now (tn_session t))) 0]\<rparr>\<rparr>"

definition on_shutdown :: "'c tunnel \<Rightarrow> 'c tunnel" where
  "on_shutdown t = t\<lparr>tn_running := False\<rparr>"

end
