(* ===== verification/Tunnel_Resume.thy ===== *)
theory Tunnel_Resume
  imports Client_Switch Server_Session
begin

text \<open>
  The two sides of a resumption put together: the frame \<open>resume_on\<close> of the client sends, handled by
  \<open>run_tunnel\<close> of the server, and the answer checked by the client again; and what the reaper
  can do to the resumed session before its replay is over.
\<close>

section \<open>Frames on the tape\<close>

lemma recv_frame_frame:
  assumes "tp_in t = frame_chunk bs @ rest" and "length bs \<le> 1024 * 1024"
  shows "recv_frame t = (Ok bs, t\<lparr>tp_in := rest\<rparr>)"
proof -
  have l: "unat (word_of_nat (length bs) :: u32) = length bs"
    using assms(2) by (simp add: codec_simps)
  have "read_exact 4 t = (Ok (be32 (word_of_nat (length bs))), t\<lparr>tp_in := bs @ rest\<rparr>)"
    using assms(1) by (simp add: read_exact_def frame_chunk_def)
  then show ?thesis
    using assms(2) l by (simp add: recv_frame_def Let_def read_exact_def)
qed

lemma send_frame_frame:
  assumes "2 \<le> tp_room t"
  shows "send_frame bs t = (Ok (), t\<lparr>tp_out := tp_out t @ frame_chunk bs, tp_room := tp_room t - 2\<rparr>)"
  using assms by (simp add: send_frame_def write_all_def frame_chunk_def numeral_2_eq_2)

text \<open>A chunk sealed outside a session, under a key and a nonce of the right sizes, is read back,
  whatever the padding bytes; a chunk sent in clear is the case of the zero key.\<close>

lemma sealed_chunk:
  assumes "aead_lawful C" and "length key = KEY_SIZE" and "length pl \<le> MAX_PAYLOAD_SIZE"
  obtains bs where "encode_encrypted C rnd (chunk_new ct pl 0) key zero_nonce = Ok bs"
    and "length bs = HEADER_SIZE + length pl + TAG_SIZE"
    and "header_decode (take HEADER_SIZE bs) = Ok (header (chunk_new ct pl 0), [])"
    and "decode_encrypted C bs key zero_nonce = Ok (chunk_new ct pl 0)"
proof -
  let ?c = "chunk_new ct pl 0"
  have wf: "chunk_wf ?c" using assms(3) by (rule chunk_wf_new)
  have n: "length zero_nonce = NONCE_SIZE" by (simp add: zero_nonce_def NONCE_SIZE_def)
  obtain bs where bs: "encode_encrypted C rnd ?c key zero_nonce = Ok bs" "length bs = wire_size ?c"
    "take HEADER_SIZE bs = header_encode (header ?c)" "\<forall>rest. decode_encrypted C (bs @ rest) key zero_nonce = Ok ?c"
    using encode_decode_encrypted [OF assms(1,2) n wf] by blast
  have "header_decode (take HEADER_SIZE bs) = Ok (header ?c, [])"
    using header_decode_encode [of "header ?c" "[]"] wf bs(3) by (simp add: chunk_wf_def)
  moreover have "length bs = HEADER_SIZE + length pl + TAG_SIZE"
    using bs(2) by (simp add: wire_size_def chunk_new_def)
  moreover have "decode_encrypted C bs key zero_nonce = Ok ?c" using bs(4) [rule_format, of "[]"] by simp
  ultimately show thesis using bs(1) that by blast
qed

lemma length_zero_key: "length zero_key = KEY_SIZE"
  by (simp add: zero_key_def KEY_SIZE_def)

lemmas clear_chunk = sealed_chunk [OF _ length_zero_key]

lemma resume_sizes:
  "resume_request_wf q \<Longrightarrow> length (resume_request_encode q) \<le> MAX_PAYLOAD_SIZE"
  "resume_response_wf p \<Longrightarrow> length (resume_response_encode p) \<le> MAX_PAYLOAD_SIZE"
  by (simp_all add: resume_request_wf_def resume_request_encode_def resume_response_wf_def
      resume_response_encode_def MAX_PAYLOAD_SIZE_def)

section \<open>Each side\<close>

lemma server_claims:
  assumes key: "derive_resumption_key C (e_keys entry) = Ok key"
    and q: "resume_request_wf q" "rq_proof q = hmac C key (request_transcript q)"
    and clock: "unat (rq_timestamp q) \<le> unat now + 30" "unat now \<le> unat (rq_timestamp q) + 30"
    and entry: "registry_get reg (rq_session_id q) = Some entry"
    and first: "decode_encrypted C first zero_key zero_nonce = Ok (new_resume (resume_request_encode q))"
  shows "resume_claim C now first reg = Ok (q, entry)"
  using resume_request_codec.roundtrip [OF q(1)] resume_request_verify_cases [OF key, of now q] entry first q(2) clock
  by (simp add: resume_claim_def context_err_def new_resume_def chunk_new_def)

lemma client_checks:
  assumes key: "derive_resumption_key C keys = Ok key"
    and p: "resume_response_wf p" "rp_status p = ResumeOk" "rp_proof p = hmac C key (response_transcript q p)"
    and answer: "header_decode (take HEADER_SIZE answer) = Ok (header (new_resume (resume_response_encode p)), [])"
      "decode_encrypted C answer zero_key zero_nonce = Ok (new_resume (resume_response_encode p))"
      "HEADER_SIZE \<le> length answer"
  shows "check_resume_response C q keys answer = Ok (rp_next_expected p)"
  using resume_response_codec.roundtrip [OF p(1)] resume_response_verify_iff [OF key, of q p] p answer
  by (simp add: check_resume_response_def fail_with_def new_resume_def chunk_new_def)

lemma server_answers:
  assumes C: "aead_lawful C" "hmac_lawful C" and key: "derive_resumption_key C (e_keys entry) = Ok key"
  obtains answer where "resume_answer C rnd pad q entry = Ok answer"
    and "check_resume_response C q (e_keys entry) answer = Ok (rb_next_expected (e_recv_buffer entry))"
    and "length answer = HEADER_SIZE + RESUME_RESPONSE_SIZE + TAG_SIZE"
proof -
  obtain p where p: "resume_response_new C rnd ResumeOk (rb_next_expected (e_recv_buffer entry)) q (e_keys entry) = Ok p"
    "resume_response_wf p" "rp_status p = ResumeOk" "rp_next_expected p = rb_next_expected (e_recv_buffer entry)"
    "rp_proof p = hmac C key (response_transcript q p)"
    by (rule resume_response_new_ok [OF key C(2)])
  obtain bs where bs: "encode_encrypted C pad (chunk_new Resume (resume_response_encode p) 0) zero_key zero_nonce = Ok bs"
    "length bs = HEADER_SIZE + length (resume_response_encode p) + TAG_SIZE"
    "header_decode (take HEADER_SIZE bs) = Ok (header (chunk_new Resume (resume_response_encode p) 0), [])"
    "decode_encrypted C bs zero_key zero_nonce = Ok (chunk_new Resume (resume_response_encode p) 0)"
    by (rule clear_chunk [OF C(1) resume_sizes(2) [OF p(2)], of pad Resume])
  have "resume_answer C rnd pad q entry = Ok bs"
    using p(1) bs(1) by (simp add: resume_answer_def context_err_def new_resume_def)
  moreover have "check_resume_response C q (e_keys entry) bs = Ok (rp_next_expected p)"
    using bs by (intro client_checks [OF key p(2,3,5)]) (simp_all add: new_resume_def)
  moreover have "length (resume_response_encode p) = RESUME_RESPONSE_SIZE"
    using p(2) by (simp add: resume_response_encode_def resume_response_wf_def RESUME_RESPONSE_SIZE_def)
  ultimately show thesis using that bs(2) p(4) by simp
qed

lemma resume_across:
  assumes C: "aead_lawful C" "hkdf_lawful C" "hmac_lawful C"
    and entry: "registry_get (sv_registry s) sid = Some entry" and sid: "length sid = 16"
    and clock: "unat ts \<le> unat now + 30" "unat now \<le> unat ts + 30"
    and input: "tp_in t = frame_chunk first @ rest" and room: "2 \<le> tp_room t"
    and request: "resume_request_new C ts rnd sid ne (e_keys entry) = Ok q"
      "encode_encrypted C pad (new_resume (resume_request_encode q)) zero_key zero_nonce = Ok first"
  shows "\<exists>answer entry'. entry' = entry\<lparr>e_send_buffer := snd (apply_ack ne [] (e_send_buffer entry))\<rparr> \<and>
    run_tunnel C now clk rnd' password ip s t =
      (Ok (AddressUnused, Some entry'), s\<lparr>sv_registry := hm_insert sid entry' (sv_registry s)\<rparr>,
       t\<lparr>tp_in := rest, tp_out := tp_out t @ frame_chunk answer, tp_room := tp_room t - 2\<rparr>) \<and>
    check_resume_response C q (e_keys entry) answer = Ok (rb_next_expected (e_recv_buffer entry))"
proof -
  obtain key where key: "derive_resumption_key C (e_keys entry) = Ok key"
    using derive_resumption_key_ok [OF C(2)] by metis
  have q: "resume_request_wf q" "rq_session_id q = sid" "rq_timestamp q = ts" "rq_next_expected q = ne"
    "rq_proof q = hmac C key (request_transcript q)"
    using resume_request_new_ok [OF key C(3) sid, of ts rnd ne] request(1) by force+
  obtain bs where bs: "encode_encrypted C pad (chunk_new Resume (resume_request_encode q) 0) zero_key zero_nonce = Ok bs"
    "length bs = HEADER_SIZE + length (resume_request_encode q) + TAG_SIZE"
    "header_decode (take HEADER_SIZE bs) = Ok (header (chunk_new Resume (resume_request_encode q) 0), [])"
    "decode_encrypted C bs zero_key zero_nonce = Ok (chunk_new Resume (resume_request_encode q) 0)"
    by (rule clear_chunk [OF C(1) resume_sizes(1) [OF q(1)], of pad Resume])
  have first: "bs = first" using bs(1) request(2) by (simp add: new_resume_def)
  have size: "length first = 125"
    using bs(2) q(1) first by (simp add: resume_request_encode_def resume_request_wf_def HEADER_SIZE_def TAG_SIZE_def)
  define entry' where "entry' = entry\<lparr>e_send_buffer := snd (apply_ack ne [] (e_send_buffer entry))\<rparr>"
  have "derive_resumption_key C (e_keys entry') = Ok key" using key by (simp add: entry'_def)
  then obtain answer where answer: "resume_answer C (rnd' 0) (rnd' 1) q entry' = Ok answer"
    "check_resume_response C q (e_keys entry') answer = Ok (rb_next_expected (e_recv_buffer entry'))"
    by (rule server_answers [OF C(1,3)])
  have claim: "resume_claim C now first (sv_registry s) = Ok (q, entry)"
    using bs(4) first entry q clock by (intro server_claims [OF key]) (simp_all add: new_resume_def)
  have frame: "recv_frame t = (Ok first, t\<lparr>tp_in := rest\<rparr>)"
    using input size by (intro recv_frame_frame) simp_all
  have "accept_resume C now rnd' first s (t\<lparr>tp_in := rest\<rparr>) =
      (Ok entry', s\<lparr>sv_registry := hm_insert sid entry' (sv_registry s)\<rparr>,
       t\<lparr>tp_in := rest, tp_out := tp_out t @ frame_chunk answer, tp_room := tp_room t - 2\<rparr>)"
    using claim answer(1) q room by (simp add: accept_resume_def Let_def send_frame_frame flip: entry'_def)
  then have "run_tunnel C now clk rnd' password ip s t =
      (Ok (AddressUnused, Some entry'), s\<lparr>sv_registry := hm_insert sid entry' (sv_registry s)\<rparr>,
       t\<lparr>tp_in := rest, tp_out := tp_out t @ frame_chunk answer, tp_room := tp_room t - 2\<rparr>)"
    using frame bs(3) first size by (simp add: run_tunnel_def chunk_new_def HEADER_SIZE_def)
  then show ?thesis using answer(2) unfolding entry'_def by auto
qed

text \<open>A session both sides hold, and a server whose second connection waits for its first frame.\<close>

definition demo_sid :: session_id where "demo_sid = replicate 16 4"

definition demo_held :: session_entry where
  "demo_held = fst (registry_insert 0 demo_sid demo_keys 0x0A0A0002 0 [])"

definition demo_holding :: server where
  "demo_holding = (server_init 8)\<lparr>sv_registry := [(demo_sid, demo_held)], sv_conns := [Reserved 0x0A0A0003]\<rparr>"

definition demo_tape :: "bytes \<Rightarrow> tape" where
  "demo_tape first = \<lparr>tp_in = frame_chunk first @ [7], tp_out = [], tp_room = 2\<rparr>"

lemma demo_request:
  obtains q first where "resume_request_new demo_crypto 1000 (\<lambda>_. 1) demo_sid 0 (e_keys demo_held) = Ok q"
    and "encode_encrypted demo_crypto (\<lambda>_. 0) (new_resume (resume_request_encode q)) zero_key zero_nonce = Ok first"
proof -
  obtain key where key: "derive_resumption_key demo_crypto (e_keys demo_held) = Ok key"
    using derive_resumption_key_ok [OF demo_hkdf_lawful] by metis
  obtain q where q: "resume_request_new demo_crypto 1000 (\<lambda>_. 1) demo_sid 0 (e_keys demo_held) = Ok q" "resume_request_wf q"
    by (rule resume_request_new_ok [OF key demo_hmac_lawful, of demo_sid 1000 "\<lambda>_. 1" 0]) (simp_all add: demo_sid_def)
  show thesis
    using q(1) that clear_chunk [OF demo_aead_lawful resume_sizes(1) [OF q(2)], of "\<lambda>_. 0" Resume]
    by (metis new_resume_def)
qed

lemma demo_holding_simps:
  "registry_get (sv_registry demo_holding) demo_sid = Some demo_held" "length demo_sid = 16"
  "sv_conns demo_holding = [] @ Reserved 0x0A0A0003 # []"
  by (simp_all add: demo_holding_def demo_sid_def registry_get_def hm_get_def)

section \<open>Properties\<close>

text \<open>C3. Resumption across the wire: for a session both sides hold, with clocks at most 30 seconds
  apart, the frame the client sends for it attaches the connection to the session, releases exactly
  what the client reports to have received from the server's send buffer, changes nothing else of the
  server, and the answer makes the client accept the server's own receive position.\<close>

theorem resume_end_to_end:
  assumes C: "aead_lawful C" "hkdf_lawful C" "hmac_lawful C"
    and entry: "registry_get (sv_registry s) sid = Some entry" and sid: "length sid = 16"
    and clock: "unat ts \<le> unat now + 30" "unat now \<le> unat ts + 30"
    and input: "tp_in t = frame_chunk first @ rest" and room: "2 \<le> tp_room t"
    and request: "resume_request_new C ts rnd sid ne (e_keys entry) = Ok q"
      "encode_encrypted C pad (new_resume (resume_request_encode q)) zero_key zero_nonce = Ok first"
  shows "\<exists>answer entry'. entry' = entry\<lparr>e_send_buffer := snd (apply_ack ne [] (e_send_buffer entry))\<rparr> \<and>
    run_tunnel C now clk rnd' password ip s t =
      (Ok (AddressUnused, Some entry'), s\<lparr>sv_registry := hm_insert sid entry' (sv_registry s)\<rparr>,
       t\<lparr>tp_in := rest, tp_out := tp_out t @ frame_chunk answer, tp_room := tp_room t - 2\<rparr>) \<and>
    check_resume_response C q (e_keys entry) answer = Ok (rb_next_expected (e_recv_buffer entry))"
  by (rule resume_across [OF assms])

theorem resume_end_to_end_witness:
  "\<exists>q first answer s' t'.
     run_tunnel demo_crypto 1020 5 (\<lambda>_ _. 3) ''pw'' 0x0A0A0003 demo_holding (demo_tape first) =
       (Ok (AddressUnused, Some (demo_held\<lparr>e_send_buffer := snd (apply_ack 0 [] (e_send_buffer demo_held))\<rparr>)), s', t') \<and>
     tp_in t' = [7] \<and> tp_out t' = frame_chunk answer \<and>
     check_resume_response demo_crypto q (e_keys demo_held) answer = Ok (rb_next_expected (e_recv_buffer demo_held))"
proof -
  obtain q first where q: "resume_request_new demo_crypto 1000 (\<lambda>_. 1) demo_sid 0 (e_keys demo_held) = Ok q"
    "encode_encrypted demo_crypto (\<lambda>_. 0) (new_resume (resume_request_encode q)) zero_key zero_nonce = Ok first"
    by (rule demo_request)
  show ?thesis
    using resume_end_to_end [OF demo_aead_lawful demo_hkdf_lawful demo_hmac_lawful demo_holding_simps(1,2) _ _ _ _ q,
        of 1020 "demo_tape first" "[7]" 5 "\<lambda>_ _. 3" "''pw''" "0x0A0A0003"]
    by - (rule exI [of _ q], rule exI [of _ first], auto simp: demo_tape_def)
qed

text \<open>The run of the refinement of \<open>run_tunnel\<close> on the same resumption.\<close>

theorem run_tunnel_refines_witness:
  "\<exists>entry s'. server_step\<^sup>*\<^sup>* demo_holding (s'\<lparr>sv_conns := [Resumed 0x0A0A0003 entry]\<rparr>)"
proof -
  obtain q first where q: "resume_request_new demo_crypto 1000 (\<lambda>_. 1) demo_sid 0 (e_keys demo_held) = Ok q"
    "encode_encrypted demo_crypto (\<lambda>_. 0) (new_resume (resume_request_encode q)) zero_key zero_nonce = Ok first"
    by (rule demo_request)
  obtain entry s' t' where "run_tunnel demo_crypto 1020 5 (\<lambda>_ _. 3) ''pw'' 0x0A0A0003 demo_holding (demo_tape first) =
      (Ok (AddressUnused, Some entry), s', t')"
    using resume_across [OF demo_aead_lawful demo_hkdf_lawful demo_hmac_lawful demo_holding_simps(1,2) _ _ _ _ q,
        of 1020 "demo_tape first" "[7]" 5 "\<lambda>_ _. 3" "''pw''" "0x0A0A0003"]
    by (auto simp: demo_tape_def)
  moreover have "registry_get (sv_registry demo_holding) (session_id_generate (\<lambda>_. 3)) = None"
    by (simp add: demo_holding_def registry_get_def hm_get_def demo_sid_def session_id_generate_def random_bytes_vec_def upt_rec numeral_eq_Suc)
  ultimately show ?thesis
    using run_tunnel_refines [OF _ demo_holding_simps(3)] by fastforce
qed

text \<open>C23. The reaper can overtake a resumption. Accepting the client's resumption changes neither the time the
  entry was last seen nor the tasks attached to it: an entry whose old tasks have ended stays unattached
  until its replay is over. So once 120 seconds have passed since the session was last seen before the
  resumption, the next tick of the reaper removes it under the connection that has just resumed it, and a
  client accepted right after its address is released is given that address, while the resumed
  connection still uses it.\<close>

theorem resume_reap_race:
  assumes C: "aead_lawful C" "hkdf_lawful C" "hmac_lawful C"
    and reach: "server_step\<^sup>*\<^sup>* (server_init n) s" and quiet: "sv_reaping s = []"
    and conns: "sv_conns s = xs @ Reserved ip # ys" and free: "sv_active s < sv_max_clients s"
    and entry: "registry_get (sv_registry s) sid = Some entry" and sid: "length sid = 16"
    and clock: "unat ts \<le> unat now + 30" "unat now \<le> unat ts + 30"
    and input: "tp_in t = frame_chunk first @ rest" and room: "2 \<le> tp_room t"
    and request: "resume_request_new C ts rnd sid ne (e_keys entry) = Ok q"
      "encode_encrypted C pad (new_resume (resume_request_encode q)) zero_key zero_nonce = Ok first"
    and ended: "\<forall>h\<in>set (e_attached entry). finished h"
    and idle: "from_secs 120 < elapsed later (e_last_seen entry)"
  shows "\<exists>entry' s' t' k final. run_tunnel C now clk rnd' password ip s t = (Ok (AddressUnused, Some entry'), s', t') \<and>
    registry_get (sv_registry s') sid = Some entry' \<and> e_assigned_ip entry' = e_assigned_ip entry \<and>
    e_last_seen entry' = e_last_seen entry \<and> e_attached entry' = e_attached entry \<and>
    final = accept_connection ((reap_address ^^ Suc k)
      (reap_tick finished later (s'\<lparr>sv_conns := xs @ Resumed ip entry' # ys\<rparr>))) \<and>
    server_step\<^sup>*\<^sup>* (server_init n) final \<and> registry_get (sv_registry final) sid = None \<and>
    sv_conns final = xs @ Resumed ip entry' # ys @ [Reserved (e_assigned_ip entry)]"
proof -
  define entry' where "entry' = entry\<lparr>e_send_buffer := snd (apply_ack ne [] (e_send_buffer entry))\<rparr>"
  have same: "e_id entry' = e_id entry" "e_assigned_ip entry' = e_assigned_ip entry" "e_reply_rx entry' = e_reply_rx entry"
    "e_last_seen entry' = e_last_seen entry" "e_attached entry' = e_attached entry"
    by (simp_all add: entry'_def)
  let ?s = "s\<lparr>sv_registry := hm_insert sid entry' (sv_registry s)\<rparr>"
  obtain t' where run: "run_tunnel C now clk rnd' password ip s t = (Ok (AddressUnused, Some entry'), ?s, t')"
    using resume_across [OF C entry sid clock input room request, of clk rnd' password ip] by (auto simp: entry'_def)
  have wf: "hm_wf (sv_registry s)" using server_invD(3) server_reachable_inv reach by blast
  have get: "registry_get (sv_registry ?s) sid = Some entry'"
    using hmap.lookup_insert [OF wf] by (simp add: registry_get_def)
  let ?r = "?s\<lparr>sv_conns := xs @ Resumed ip entry' # ys\<rparr>"
  have "server_step s ?s" by (rule st_entry [OF entry same(1-3)])
  moreover have "server_step ?s ?r" by (rule st_resume [OF _ get]) (simp add: conns)
  ultimately have r: "server_step\<^sup>*\<^sup>* (server_init n) ?r" using reach by (meson rtranclp.rtrancl_into_rtrancl)
  let ?g = "reap_tick finished later ?r"
  have "server_step ?r ?g" by (rule st_reap) (simp add: quiet)
  with r have g: "server_step\<^sup>*\<^sup>* (server_init n) ?g" by (rule rtranclp.rtrancl_into_rtrancl)
  have wf': "hm_wf (sv_registry ?r)" using server_invD(3) [OF server_reachable_inv [OF r]] .
  have ex: "entry_expired finished later entry'"
    using ended idle same by (simp add: entry_expired_def entry_is_attached_def entry_idle_for_def SESSION_LINGER_def list_ex_iff)
  have get': "registry_get (sv_registry ?r) sid = Some entry'" using get by simp
  note gone = reap_tick_expired [OF wf' get' ex]
  have "e_assigned_ip entry \<in> set (sv_reaping ?g)" using gone(2) same(2) by simp
  moreover have "sv_active ?g < sv_max_clients ?g" "sv_conns ?g = xs @ Resumed ip entry' # ys" using free by simp_all
  ultimately obtain k where final: "server_step\<^sup>*\<^sup>* (server_init n) (accept_connection ((reap_address ^^ Suc k) ?g))"
    "sv_conns (accept_connection ((reap_address ^^ Suc k) ?g)) = (xs @ Resumed ip entry' # ys) @ [Reserved (e_assigned_ip entry)]"
    "sv_registry (accept_connection ((reap_address ^^ Suc k) ?g)) = sv_registry ?g"
    using reaped_address_reused [OF g] by metis
  show ?thesis
  proof (intro exI conjI)
    show "registry_get (sv_registry (accept_connection ((reap_address ^^ Suc k) ?g))) sid = None"
      unfolding final(3) by (rule gone(1))
    show "sv_conns (accept_connection ((reap_address ^^ Suc k) ?g)) =
        xs @ Resumed ip entry' # ys @ [Reserved (e_assigned_ip entry)]"
      unfolding final(2) by simp
  qed (fact run get same final(1) refl)+
qed

text \<open>A server with an idle session of 16-byte identifier and a second connection just accepted.\<close>

definition demo_idle :: server where
  "demo_idle = accept_connection ((commit_session 0 demo_sid demo_keys 0x0A0A0002 (accept_connection (server_init 8)))
     \<lparr>sv_conns := [] @ Established 0x0A0A0002 # []\<rparr>)"

lemma demo_idle_reachable: "server_step\<^sup>*\<^sup>* (server_init 8) demo_idle"
proof -
  have "server_step (server_init 8) (accept_connection (server_init 8))" by (rule st_accept)
  moreover have "server_step (accept_connection (server_init 8))
    ((commit_session 0 demo_sid demo_keys 0x0A0A0002 (accept_connection (server_init 8)))
      \<lparr>sv_conns := [] @ Established 0x0A0A0002 # []\<rparr>)"
    by (rule st_commit [OF demo_accept]) (simp add: demo_accept_registry registry_get_def)
  ultimately show ?thesis
    unfolding demo_idle_def by (meson st_accept r_into_rtranclp rtranclp.rtrancl_into_rtrancl)
qed

lemma demo_idle_simps:
  "sv_registry demo_idle = [(demo_sid, demo_held)]" "sv_conns demo_idle = [Established 0x0A0A0002] @ Reserved 0x0A0A0003 # []"
  "sv_reaping demo_idle = []" "sv_active demo_idle < sv_max_clients demo_idle"
  by (simp_all add: demo_idle_def demo_held_def commit_session_def registry_insert_def Let_def register_client_def
      unbounded_channel_def accept_connection_def server_init_def allocate_def allocator_new_def channels_new_def
      hm_insert_def word_le_nat_alt)

theorem resume_reap_race_witness:
  "\<exists>first entry s' t' final. run_tunnel demo_crypto 1020 0 (\<lambda>_ _. 3) ''pw'' 0x0A0A0003 demo_idle (demo_tape first) =
       (Ok (AddressUnused, Some entry), s', t') \<and> server_step\<^sup>*\<^sup>* (server_init 8) final \<and>
     sv_conns final = [Established 0x0A0A0002, Resumed 0x0A0A0003 entry, Reserved 0x0A0A0002] \<and> e_assigned_ip entry = 0x0A0A0002"
proof -
  obtain q first where q: "resume_request_new demo_crypto 1000 (\<lambda>_. 1) demo_sid 0 (e_keys demo_held) = Ok q"
    "encode_encrypted demo_crypto (\<lambda>_. 0) (new_resume (resume_request_encode q)) zero_key zero_nonce = Ok first"
    by (rule demo_request)
  have held: "registry_get (sv_registry demo_idle) demo_sid = Some demo_held" "e_attached demo_held = []"
    "e_last_seen demo_held = 0" "e_assigned_ip demo_held = 0x0A0A0002"
    by (simp_all add: demo_idle_simps registry_get_def hm_get_def demo_held_def registry_insert_def Let_def)
  have side: "unat (1000 :: u64) \<le> unat (1020 :: u64) + 30" "unat (1020 :: u64) \<le> unat (1000 :: u64) + 30"
    "tp_in (demo_tape first) = frame_chunk first @ [7]" "2 \<le> tp_room (demo_tape first)"
    "\<forall>h\<in>set (e_attached demo_held). True" "from_secs 120 < elapsed (from_secs 121) (e_last_seen demo_held)"
    using held by (simp_all add: demo_tape_def elapsed_def from_secs_def)
  from resume_reap_race [OF demo_aead_lawful demo_hkdf_lawful demo_hmac_lawful demo_idle_reachable demo_idle_simps(3,2,4) held(1)
      demo_holding_simps(2) side(1-4) q side(5,6), of 0 "\<lambda>_ _. 3" "''pw''"] held(4)
  show ?thesis by fastforce
qed

end
