(* ===== verification/Tunnel_Handshake.thy ===== *)
theory Tunnel_Handshake
  imports Client_Pipeline Tunnel_Resume
begin

text \<open>
  The two sides of a new session put together: \<open>client_establish\<close> of the client and \<open>run_tunnel\<close> of the
  server, each run on the frames the other one sends.
\<close>

section \<open>A connection that replays what was received\<close>

text \<open>The frames sent so far, and the frames still to be received.\<close>

definition scripted :: "(bytes list \<times> bytes list) connection" where
  "scripted =
     \<lparr>cn_send = (\<lambda>bs (out, inp). (Ok (), (out @ [bs], inp))),
      cn_recv = (\<lambda>(out, inp). case inp of [] \<Rightarrow> (Err ConnectionClosed, (out, [])) | bs # rest \<Rightarrow> (Ok bs, (out, rest))),
      cn_close = id,
      cn_is_alive = (\<lambda>(out, inp). inp \<noteq> [])\<rparr>"

lemma scripted_simps [simp]:
  "cn_send scripted bs (out, inp) = (Ok (), (out @ [bs], inp))"
  "cn_recv scripted (out, bs # inp) = (Ok bs, (out, inp))"
  by (simp_all add: scripted_def)

section \<open>The hellos\<close>

lemma hello_sizes:
  assumes "dh_lawful C"
  shows "create_client_hello ts r2 (client_handshake_new C r1) = Ok hello \<Longrightarrow> length (client_hello_encode hello) = 73"
    and "process_client_hello C now r5 h (server_handshake_new C r3 r4) = (Ok (shello, keys), st) \<Longrightarrow>
      length (server_hello_encode shello) = 98"
  using key_pair_generate_wf [OF assms]
  by (auto simp: create_client_hello_def client_handshake_new_def client_hello_encode_def process_client_hello_def
      server_handshake_new_def server_hello_encode_def Let_def and_then_def split: if_splits sum.splits)

text \<open>The first frame of the client, the reply of the server and the keys both take from them.\<close>

lemma hello_exchange:
  assumes C: "aead_lawful C" "dh_lawful C" "hkdf_lawful C"
    and clock: "unat now \<le> unat ts + 30" "unat ts \<le> unat now + 30"
  obtains hello handshake reply keys server_hello h where "client_hello_frame C ts crnd = Ok (hello, handshake)"
    and "length hello = 102" and "header_decode (take HEADER_SIZE hello) = Ok (h, [])" and "chunk_type h = Handshake"
    and "accept_hello C now rnd hello = Ok (reply, keys)" and "length reply = 127"
    and "decode_encrypted C reply zero_key zero_nonce = Ok (new_handshake (server_hello_encode server_hello))"
    and "server_hello_decode (server_hello_encode server_hello) = Ok server_hello"
    and "fst (process_server_hello C server_hello handshake) = Ok keys" and "session_keys_wf keys"
proof -
  obtain ch sh keys st cst where agree:
    "create_client_hello ts (crnd 1) (client_handshake_new C (crnd 0)) = Ok ch"
    "client_hello_decode (client_hello_encode ch) = Ok ch"
    "process_client_hello C now (rnd 2) ch (server_handshake_new C (rnd 0) (rnd 1)) = (Ok (sh, keys), st)"
    "server_hello_decode (server_hello_encode sh) = Ok sh"
    "process_server_hello C sh (client_handshake_new C (crnd 0)) = (Ok keys, cst)" "session_keys_wf keys"
    using handshake_agreement [OF C(2,3) clock, of "crnd 1" "crnd 0" "rnd 2" "rnd 0" "rnd 1"] by blast
  note len = hello_sizes(1) [OF C(2) agree(1)] hello_sizes(2) [OF C(2) agree(3)]
  have small: "length (client_hello_encode ch) \<le> MAX_PAYLOAD_SIZE" "length (server_hello_encode sh) \<le> MAX_PAYLOAD_SIZE"
    using len by (simp_all add: MAX_PAYLOAD_SIZE_def)
  obtain hello where hello: "encode_encrypted C (crnd 2) (chunk_new Handshake (client_hello_encode ch) 0) zero_key zero_nonce = Ok hello"
    "length hello = 102" "header_decode (take HEADER_SIZE hello) = Ok (header (chunk_new Handshake (client_hello_encode ch) 0), [])"
    "decode_encrypted C hello zero_key zero_nonce = Ok (chunk_new Handshake (client_hello_encode ch) 0)"
    by (rule clear_chunk [OF C(1) small(1)]) (auto simp: len HEADER_SIZE_def TAG_SIZE_def)
  obtain reply where reply: "encode_encrypted C (rnd 3) (chunk_new Handshake (server_hello_encode sh) 0) zero_key zero_nonce = Ok reply"
    "length reply = 127" "decode_encrypted C reply zero_key zero_nonce = Ok (chunk_new Handshake (server_hello_encode sh) 0)"
    by (rule clear_chunk [OF C(1) small(2)]) (auto simp: len HEADER_SIZE_def TAG_SIZE_def)
  show thesis
  proof (rule that)
    show "client_hello_frame C ts crnd = Ok (hello, client_handshake_new C (crnd 0))"
      using agree(1) hello(1) by (simp add: client_hello_frame_def fail_with_def new_handshake_def)
    show "header_decode (take HEADER_SIZE hello) = Ok (header (chunk_new Handshake (client_hello_encode ch) 0), [])" by fact
    show "accept_hello C now rnd hello = Ok (reply, keys)"
      using hello(4) agree(2,3) reply(1) by (simp add: accept_hello_def context_err_def new_handshake_def chunk_new_def)
    show "decode_encrypted C reply zero_key zero_nonce = Ok (new_handshake (server_hello_encode sh))"
      using reply(3) by (simp add: new_handshake_def)
  qed (use agree hello(2) reply(2) in \<open>simp_all add: chunk_new_def\<close>)
qed

text \<open>The message that authenticates, and the verdict it gets.\<close>

definition verdict :: "bool \<Rightarrow> auth_status" where
  "verdict ok = (if ok then AuthOk else InvalidCredentials)"

lemma auth_exchange:
  assumes C: "aead_lawful C" and keys: "session_keys_wf keys" and p: "length p \<le> 65505"
    and reply: "decode_encrypted C reply zero_key zero_nonce = Ok (new_handshake (server_hello_encode server_hello))"
      "server_hello_decode (server_hello_encode server_hello) = Ok server_hello"
      "fst (process_server_hello C server_hello handshake) = Ok keys"
  obtains auth where "client_auth_frame C crnd p handshake reply = Ok (keys, auth)" and "length auth = 59 + length p"
    and "\<forall>q. accept_auth C q keys auth = Ok (verdict (p = q))"
proof -
  have k: "length (client_write_key keys) = KEY_SIZE" using keys by (simp add: session_keys_wf_def)
  have bound: "length p < 2 ^ 32" using p by simp
  obtain f where f: "create_client_finished C (crnd 3) p keys = Ok f" "length (encrypted_auth f) = 28 + length p"
    "\<And>q. verify_auth C f keys q = Ok (if p = q then AuthOk else InvalidCredentials)"
    using verify_auth_client_finished [OF C k bound, of "crnd 3"] by metis
  have small: "length (client_finished_encode f) = 30 + length p" using f(2) by (simp add: client_finished_encode_def)
  obtain auth where auth: "encode_encrypted C (crnd 4) (chunk_new Handshake (client_finished_encode f) 0) (client_write_key keys) zero_nonce = Ok auth"
    "length auth = 59 + length p"
    "decode_encrypted C auth (client_write_key keys) zero_nonce = Ok (chunk_new Handshake (client_finished_encode f) 0)"
    by (rule sealed_chunk [OF C k, of "client_finished_encode f"])
       (use p in \<open>auto simp: small MAX_PAYLOAD_SIZE_def HEADER_SIZE_def TAG_SIZE_def\<close>)
  have "client_finished_decode (client_finished_encode f) = Ok f"
    using client_finished_codec.roundtrip [of f] f(2) p by simp
  then have "accept_auth C q keys auth = Ok (verdict (p = q))" for q
    using auth(3) f(3) by (simp add: accept_auth_def context_err_def chunk_new_def verdict_def)
  moreover have "client_auth_frame C crnd p handshake reply = Ok (keys, auth)"
    using reply f(1) auth(1) by (simp add: client_auth_frame_def fail_with_def new_handshake_def chunk_new_def)
  ultimately show thesis using that auth(2) by blast
qed

text \<open>The server's last message and what the client makes of it.\<close>

lemma finished_exchange:
  assumes C: "aead_lawful C" and keys: "session_keys_wf keys" and sid: "length sid = 16"
  obtains fin where "finished_frame C pad keys (server_finished_for ip sid (verdict ok)) = Ok fin"
    and "client_finish C keys fin =
      (if ok then Ok (Some ip, Some sid) else Err (ConnectionFailed ''authentication failed: InvalidCredentials''))"
proof -
  let ?f = "server_finished_for ip sid (verdict ok)"
  have k: "length (server_write_key keys) = KEY_SIZE" using keys by (simp add: session_keys_wf_def)
  have wf: "server_finished_wf ?f" using sid by (auto simp: server_finished_for_def server_finished_wf_def octets_def)
  have small: "length (server_finished_encode ?f) \<le> MAX_PAYLOAD_SIZE"
    using sid by (simp add: server_finished_for_def server_finished_encode_def octets_def MAX_PAYLOAD_SIZE_def)
  obtain fin where fin: "encode_encrypted C pad (chunk_new Handshake (server_finished_encode ?f) 0) (server_write_key keys) zero_nonce = Ok fin"
    "decode_encrypted C fin (server_write_key keys) zero_nonce = Ok (chunk_new Handshake (server_finished_encode ?f) 0)"
    by (rule sealed_chunk [OF C k small])
  have "server_finished_decode (server_finished_encode ?f) = Ok ?f"
    using server_finished_decode_encode [OF wf, of "[]"] by simp
  then have "client_finish C keys fin =
      (if ok then Ok (Some ip, Some sid) else Err (ConnectionFailed ''authentication failed: InvalidCredentials''))"
    using fin(2) sid
    by (simp add: client_finish_def fail_with_def chunk_new_def server_finished_for_def verdict_def parse_token_def
        octets_def slice_def)
  moreover have "finished_frame C pad keys ?f = Ok fin"
    using fin(1) by (simp add: finished_frame_def context_err_def new_handshake_def)
  ultimately show thesis using that by blast
qed

lemma committed_entry:
  "\<exists>e. registry_get (sv_registry (commit_session clk sid keys ip s)) sid = Some e \<and> e_keys e = keys"
  by (simp add: commit_session_def registry_insert_def registry_get_def hm_get_upd Let_def split: prod.split)

text \<open>The server's run on the two frames of the client.\<close>

lemma run_tunnel_new:
  assumes h: "header_decode (take HEADER_SIZE hello) = Ok (h, [])" "chunk_type h = Handshake" "HEADER_SIZE \<le> length hello"
    and size: "length hello \<le> 1024 * 1024" "length auth \<le> 1024 * 1024"
    and room: "4 \<le> tp_room t" and input: "tp_in t = frame_chunk hello @ frame_chunk auth @ rest"
    and steps: "accept_hello C now rnd hello = Ok (reply, keys)" "accept_auth C password keys auth = Ok (verdict ok)"
      "finished_frame C (rnd 5) keys (server_finished_for ip (session_id_generate (rnd 4)) (verdict ok)) = Ok fin"
    and s': "s' = (if ok then commit_session clk (session_id_generate (rnd 4)) keys ip s else s)"
    and e: "registry_get (sv_registry s') (session_id_generate (rnd 4)) = Some e \<or> \<not> ok"
  shows "run_tunnel C now clk rnd password ip s t =
    (Ok (if ok then (AddressTaken, Some e) else (AddressUnused, None)), s',
     t\<lparr>tp_in := rest, tp_out := tp_out t @ frame_chunk reply @ frame_chunk fin, tp_room := tp_room t - 4\<rparr>)"
proof -
  let ?t1 = "t\<lparr>tp_in := frame_chunk auth @ rest\<rparr>"
  let ?t2 = "?t1\<lparr>tp_out := tp_out t @ frame_chunk reply, tp_room := tp_room t - 2\<rparr>"
  have "recv_frame t = (Ok hello, ?t1)" using input size(1) by (rule recv_frame_frame)
  moreover have "send_frame reply ?t1 = (Ok (), ?t2)" using room by (simp add: send_frame_frame)
  moreover have "recv_frame ?t2 = (Ok auth, ?t2\<lparr>tp_in := rest\<rparr>)" using size(2) by (intro recv_frame_frame) simp_all
  moreover have "send_frame fin (?t2\<lparr>tp_in := rest\<rparr>) =
      (Ok (), t\<lparr>tp_in := rest, tp_out := tp_out t @ frame_chunk reply @ frame_chunk fin, tp_room := tp_room t - 4\<rparr>)"
    using room by (simp add: send_frame_frame)
  ultimately show ?thesis
    using h steps e by (auto simp: run_tunnel_def accept_new_def Let_def s' verdict_def)
qed

text \<open>What is on the wire is the header, which is also the associated data, and the sealed body.\<close>

lemma encode_encrypted_parts:
  assumes "encode_encrypted C rnd c key nonce = Ok bs"
  obtains cipher where "bs = header_encode (header c) @ cipher"
    and "encrypt C key nonce (payload c @ random_bytes_vec rnd (unat (padding_length (header c)))) (header_encode (header c)) = Ok cipher"
  using assms by (auto simp: encode_encrypted_def Let_def and_then_Inr_iff)

lemma nonce_of_first_chunk: "nonce_from_sequence 0 = zero_nonce"
  by (simp add: nonce_from_sequence_def zero_nonce_def NONCE_SIZE_def codec_simps numeral_eq_Suc)

section \<open>Properties\<close>

text \<open>C2. A new session, both sides run on each other's frames: with clocks at most 30 seconds apart, a
  client whose password is the server's gets the address and the session identifier the server
  committed, under the same session keys, and its connection takes the reserved address; with any
  other password the client fails, and the server commits nothing and keeps its state.\<close>

theorem handshake_end_to_end:
  assumes C: "aead_lawful C" "dh_lawful C" "hkdf_lawful C"
    and clock: "unat now \<le> unat ts + 30" "unat ts \<le> unat now + 30"
    and p: "length (cs_password (kc_server cfg)) \<le> 65505"
    and room: "4 \<le> tp_room t"
  shows "\<exists>hello auth reply fin keys.
    let ok = cs_password (kc_server cfg) = password;
        sid = session_id_generate (rnd 4);
        s' = (if ok then commit_session clk sid keys ip s else s)
    in client_establish C scripted ts cnow crnd parse_ip cfg ([], [reply, fin]) =
         (if ok then Ok \<lparr>es_keys = keys, es_tun_address = IPv4 ip, es_session_id = sid,
                        es_session = session_new cnow sid keys\<rparr>
          else Err (ConnectionFailed ''authentication failed: InvalidCredentials''), ([hello, auth], [])) \<and>
       run_tunnel C now clk rnd password ip s (t\<lparr>tp_in := frame_chunk hello @ frame_chunk auth @ rest\<rparr>) =
         (Ok (if ok then (AddressTaken, registry_get (sv_registry s') sid) else (AddressUnused, None)), s',
          t\<lparr>tp_in := rest, tp_out := tp_out t @ frame_chunk reply @ frame_chunk fin, tp_room := tp_room t - 4\<rparr>) \<and>
       map_option e_keys (registry_get (sv_registry s') sid) =
         (if ok then Some keys else map_option e_keys (registry_get (sv_registry s) sid))"
proof -
  let ?pw = "cs_password (kc_server cfg)" and ?sid = "session_id_generate (rnd 4)"
  let ?ok = "?pw = password"
  obtain hello handshake reply keys server_hello h where hello: "client_hello_frame C ts crnd = Ok (hello, handshake)"
    "length hello = 102" "header_decode (take HEADER_SIZE hello) = Ok (h, [])" "chunk_type h = Handshake"
    "accept_hello C now rnd hello = Ok (reply, keys)" "length reply = 127"
    and parsed: "decode_encrypted C reply zero_key zero_nonce = Ok (new_handshake (server_hello_encode server_hello))"
    "server_hello_decode (server_hello_encode server_hello) = Ok server_hello"
    "fst (process_server_hello C server_hello handshake) = Ok keys" and wf: "session_keys_wf keys"
    by (rule hello_exchange [OF C clock, of crnd rnd])
  obtain auth where auth: "client_auth_frame C crnd ?pw handshake reply = Ok (keys, auth)" "length auth = 59 + length ?pw"
    "\<forall>q. accept_auth C q keys auth = Ok (verdict (?pw = q))"
    by (rule auth_exchange [OF C(1) wf p parsed, of crnd])
  have sid: "length ?sid = 16" by (simp add: session_id_generate_def)
  obtain fin where fin: "finished_frame C (rnd 5) keys (server_finished_for ip ?sid (verdict ?ok)) = Ok fin"
    "client_finish C keys fin =
      (if ?ok then Ok (Some ip, Some ?sid) else Err (ConnectionFailed ''authentication failed: InvalidCredentials''))"
    by (rule finished_exchange [OF C(1) wf sid])
  define s' where "s' = (if ?ok then commit_session clk ?sid keys ip s else s)"
  let ?t = "t\<lparr>tp_in := frame_chunk hello @ frame_chunk auth @ rest\<rparr>"
  have client: "client_establish C scripted ts cnow crnd parse_ip cfg ([], [reply, fin]) =
      (if ?ok then Ok \<lparr>es_keys = keys, es_tun_address = IPv4 ip, es_session_id = ?sid,
                      es_session = session_new cnow ?sid keys\<rparr>
       else Err (ConnectionFailed ''authentication failed: InvalidCredentials''), ([hello, auth], []))"
    using hello(1) auth(1) fin(2) by (simp add: client_establish_def Let_def)
  obtain e where e: "?ok \<Longrightarrow> registry_get (sv_registry s') ?sid = Some e \<and> e_keys e = keys"
    using committed_entry [of clk ?sid keys ip s] by (metis s'_def)
  have "run_tunnel C now clk rnd password ip s ?t =
      (Ok (if ?ok then (AddressTaken, Some e) else (AddressUnused, None)), s',
       ?t\<lparr>tp_in := rest, tp_out := tp_out ?t @ frame_chunk reply @ frame_chunk fin, tp_room := tp_room ?t - 4\<rparr>)"
    by (rule run_tunnel_new [OF hello(3,4) _ _ _ _ _ hello(5) _ fin(1) s'_def])
       (use hello(2) auth(2,3) p room e in \<open>auto simp: HEADER_SIZE_def\<close>)
  then show ?thesis
    using client e s'_def
    by (intro exI [of _ hello] exI [of _ auth] exI [of _ reply] exI [of _ fin] exI [of _ keys]) (auto simp: Let_def)
qed

theorem handshake_end_to_end_witness:
  "\<exists>hello auth reply fin s' entry.
     client_establish demo_crypto scripted 1000 7 (\<lambda>_ _. 1) (\<lambda>_. None) (minimal ''vpn.example'' 443 ''secret'') ([], [reply, fin]) =
       (Ok \<lparr>es_keys = e_keys entry, es_tun_address = IPv4 0x0A0A0002, es_session_id = replicate 16 3,
            es_session = session_new 7 (replicate 16 3) (e_keys entry)\<rparr>, ([hello, auth], [])) \<and>
     run_tunnel demo_crypto 1030 5 (\<lambda>_ _. 3) ''secret'' 0x0A0A0002 (server_init 8)
         \<lparr>tp_in = frame_chunk hello @ frame_chunk auth @ [9], tp_out = [], tp_room = 4\<rparr> =
       (Ok (AddressTaken, Some entry), s', \<lparr>tp_in = [9], tp_out = frame_chunk reply @ frame_chunk fin, tp_room = 0\<rparr>)"
proof -
  have sid: "session_id_generate (\<lambda>_. 3) = replicate 16 3"
    by (simp add: session_id_generate_def random_bytes_vec_def map_replicate_const)
  have pw: "cs_password (kc_server (minimal ''vpn.example'' 443 ''secret'')) = ''secret''" by (simp add: minimal_def)
  show ?thesis
    using handshake_end_to_end [OF demo_aead_lawful demo_dh_lawful demo_hkdf_lawful,
        of 1030 1000 "minimal ''vpn.example'' 443 ''secret''" "\<lparr>tp_in = [], tp_out = [], tp_room = 4\<rparr>"
           "''secret''" "\<lambda>_ _. 3" 5 "0x0A0A0002" "server_init 8" 7 "\<lambda>_ _. 1" "\<lambda>_. None" "[9]"]
    by (auto simp: pw sid Let_def) blast
qed

text \<open>C22. The nonce of the handshake is used again: the message that authenticates the client and the first
  chunk of the session it opens are sealed under the same key and the same, all-zero, nonce, with
  different associated data.\<close>

theorem handshake_nonce_reused:
  assumes auth: "client_auth_frame C rnd password handshake server_data = Ok (keys, auth)"
    and first: "fst (encrypt_outgoing C pad now (new_data r pl) True (session_new t0 sid keys)) = Ok first"
  shows "\<exists>plain1 aad1 cipher1 plain2 aad2 cipher2.
    encrypt C (client_write_key keys) zero_nonce plain1 aad1 = Ok cipher1 \<and> auth = aad1 @ cipher1 \<and>
    encrypt C (client_write_key keys) zero_nonce plain2 aad2 = Ok cipher2 \<and> first = aad2 @ cipher2 \<and>
    take (length pl) plain2 = pl \<and> aad1 \<noteq> aad2"
proof -
  let ?key = "client_write_key keys"
  obtain finished where "encode_encrypted C (rnd 4) (new_handshake (client_finished_encode finished)) ?key zero_nonce = Ok auth"
    using auth by (auto simp: client_auth_frame_def fail_with_def map_err_def and_then_Inr_iff split: sum.splits)
  then obtain cipher1 where 1: "auth = header_encode (header (new_handshake (client_finished_encode finished))) @ cipher1"
    "encrypt C ?key zero_nonce (payload (new_handshake (client_finished_encode finished)) @ random_bytes_vec (rnd 4)
        (unat (padding_length (header (new_handshake (client_finished_encode finished))))))
      (header_encode (header (new_handshake (client_finished_encode finished)))) = Ok cipher1"
    by (rule encode_encrypted_parts)
  have "encode_sequenced C pad (new_data r pl) ?key 0 = Ok first"
    using first by (auto simp: encrypt_outgoing_def session_new_def split: sum.splits if_splits)
  then have "encode_encrypted C pad (new_data r pl) ?key zero_nonce = Ok first"
    by (simp add: encode_sequenced_def nonce_of_first_chunk new_data_def chunk_new_def)
  then obtain cipher2 where 2: "first = header_encode (header (new_data r pl)) @ cipher2"
    "encrypt C ?key zero_nonce (payload (new_data r pl) @ random_bytes_vec pad (unat (padding_length (header (new_data r pl)))))
      (header_encode (header (new_data r pl))) = Ok cipher2"
    by (rule encode_encrypted_parts)
  have "header_encode (header (new_handshake (client_finished_encode finished))) \<noteq> header_encode (header (new_data r pl))"
    by (simp add: header_encode_parts new_handshake_def new_data_def chunk_new_def)
  then show ?thesis using 1 2 by (metis append_eq_conv_conj chunk.select_convs(2) chunk_new_def new_data_def)
qed

theorem handshake_nonce_reused_witness:
  "\<exists>(keys :: session_keys) auth first plain1 aad1 cipher1 plain2 aad2 cipher2.
    encrypt demo_crypto (client_write_key keys) zero_nonce plain1 aad1 = Ok cipher1 \<and> auth = aad1 @ cipher1 \<and>
    encrypt demo_crypto (client_write_key keys) zero_nonce plain2 aad2 = Ok cipher2 \<and> first = aad2 @ cipher2 \<and>
    take (length [69, 0 :: u8]) plain2 = [69, 0] \<and> aad1 \<noteq> aad2"
proof -
  obtain hello handshake reply keys server_hello where
    parsed: "decode_encrypted demo_crypto reply zero_key zero_nonce = Ok (new_handshake (server_hello_encode server_hello))"
    "server_hello_decode (server_hello_encode server_hello) = Ok server_hello"
    "fst (process_server_hello demo_crypto server_hello handshake) = Ok keys" and wf: "session_keys_wf keys"
    by (rule hello_exchange [OF demo_aead_lawful demo_dh_lawful demo_hkdf_lawful, of 1000 1000 "\<lambda>_ _. 1" "\<lambda>_ _. 3"]) simp_all
  obtain auth where auth: "client_auth_frame demo_crypto (\<lambda>_ _. 1) ''secret'' handshake reply = Ok (keys, auth)"
    by (rule auth_exchange [OF demo_aead_lawful wf _ parsed, of "''secret''" "\<lambda>_ _. 1"]) simp_all
  have "length (client_write_key keys) = 32" using wf by (simp add: session_keys_wf_def KEY_SIZE_def)
  moreover have "\<not> MAX_NONCE \<le> 0" by (simp only: word_le_nat_alt MAX_NONCE_nat unat_0) simp
  ultimately obtain first where "fst (encrypt_outgoing demo_crypto (\<lambda>_. 0) 0 (new_data 0 [69, 0]) True (session_new 0 [] keys)) = Ok first"
    by (auto simp: encrypt_outgoing_def session_new_def encode_sequenced_def encode_encrypted_def encrypt_def new_data_def
        chunk_new_def Let_def)
  from handshake_nonce_reused [OF auth this] show ?thesis by blast
qed

end
