(* ===== verification/Client_Tunnel.thy ===== *)
theory Client_Tunnel
  imports Tunnel_Handshake
begin

text \<open>
  What the client's tunnel guarantees: a switch either takes effect as a whole or keeps the connection in
  use, having released at most what a server acknowledged; and the invariant of the main loop over its
  branches in any order, with the times at which acknowledgements leave.
\<close>

section \<open>A switch\<close>

text \<open>A standby that was prepared: a transport of the registry other than the one excluded, connected,
  on which the resumption handshake succeeded.\<close>

definition prepared_on ::
  "crypto_ops \<Rightarrow> 'c connection \<Rightarrow> 'c transport_registry \<Rightarrow> endpoint \<Rightarrow> session_id \<Rightarrow> session_keys \<Rightarrow> u64 \<Rightarrow> 'c standby \<Rightarrow> bool" where
  "prepared_on C io registry ep sid keys ne standby \<longleftrightarrow>
     (\<exists>t\<in>set registry. tr_name t = sb_transport standby \<and> (\<exists>c0 now rnd pad. tr_connect t ep = Ok c0 \<and>
        resume_on C io now rnd pad sid keys ne c0 = (Ok (sb_server_next_expected standby), sb_connection standby)))"

lemma prepare_from_prepared:
  "prepare_from C io at ts ep exclude sid keys ne last_error = Ok standby \<Longrightarrow>
    prepared_on C io ts ep sid keys ne standby \<and> sb_transport standby \<noteq> exclude"
proof (induction C io at ts ep exclude sid keys ne last_error rule: prepare_from.induct)
  case (2 C io at t ts ep exclude sid keys ne last_error)
  have "prepared_on C io (t # ts) ep sid keys ne standby" if "prepared_on C io ts ep sid keys ne standby"
    using that by (auto simp: prepared_on_def)
  then show ?case
    using 2 by (auto simp: prepared_on_def Let_def split: if_splits sum.splits prod.splits)
qed simp

lemma replay_onto_Ok:
  assumes "send_inv sb" and "replay_onto send sb c = (Ok n, c')"
  shows "send_frames send (map snd (sb_chunks sb)) c = (Ok (), c') \<and> n = length (sb_chunks sb)"
  using assms replay_onto_sends [of sb send c]
  by (auto simp: send_inv_def unacked_def split: prod.splits sum.splits)

lemma replay_onto_Err:
  assumes "send_inv sb" and "replay_onto send sb c = (Err e, c')"
  shows "send_frames send (map snd (sb_chunks sb)) c = (Err e, c')"
  using assms replay_onto_sends [of sb send c]
  by (auto simp: send_inv_def unacked_def split: prod.splits sum.splits)

lemma attempt_switch_failed:
  assumes "attempt_switch C io at now later cause registry ep sid keys ne lk = (None, lk')"
  shows "lk' = lk \<or>
    (\<exists>standby e c'. prepare_standby C io at registry ep (lk_active lk) sid keys ne = Ok standby \<and>
       lk' = lk\<lparr>lk_send_buffer := snd (apply_ack (sb_server_next_expected standby) [] (lk_send_buffer lk))\<rparr> \<and>
       replay_onto (cn_send io) (lk_send_buffer lk') (sb_connection standby) = (Err e, c'))"
  using assms by (auto simp: attempt_switch_def Let_def split: if_splits sum.splits prod.splits)

lemma attempt_switch_done:
  assumes "attempt_switch C io at now later cause registry ep sid keys ne lk = (Some old, lk')"
  obtains standby n where "prepare_standby C io at registry ep (lk_active lk) sid keys ne = Ok standby"
    and "replay_onto (cn_send io) (snd (apply_ack (sb_server_next_expected standby) [] (lk_send_buffer lk)))
      (sb_connection standby) = (Ok n, lk_connection lk')"
    and "allows now cause (lk_policy lk)" and "old = lk_connection lk"
    and "lk_active lk' = sb_transport standby"
    and "lk_send_buffer lk' = snd (apply_ack (sb_server_next_expected standby) [] (lk_send_buffer lk))"
  using assms by (auto simp: attempt_switch_def Let_def split: if_splits sum.splits prod.splits)

section \<open>The invariant of the main loop\<close>

text \<open>The send buffer against the next sequence number: its accounting is exact, it is within the default
  bound, and it holds only chunks that were sent.\<close>

definition buffer_ok :: "send_buffer \<Rightarrow> u64 \<Rightarrow> bool" where
  "buffer_ok sb sq \<longleftrightarrow> send_inv sb \<and> send_bounded sb \<and> sb_max_bytes sb = DEFAULT_MAX_BUFFER_BYTES \<and>
     (\<forall>k\<in>set (bt_keys (sb_chunks sb)). k < sq)"

lemma buffer_ok_new: "buffer_ok send_buffer_with_default_capacity sq"
  by (simp add: buffer_ok_def send_buffer_with_default_capacity_def) (simp add: send_buffer_new_def bt_keys_def)

lemma buffer_ok_ack: "buffer_ok sb sq \<Longrightarrow> buffer_ok (snd (apply_ack n rs sb)) sq"
  using send_apply_inv [of sb "ApplyAck n rs"] apply_ack_get [of sb n rs]
  by (auto simp: buffer_ok_def set_bt_keys split: if_splits)

lemma seq_Suc: "sq < MAX_NONCE \<Longrightarrow> k < sq + 1 \<longleftrightarrow> k < sq \<or> k = sq" for k sq :: u64
  by (rule less_succ_iff) (auto simp: word_less_nat_alt MAX_NONCE_nat unat_max)

lemma buffer_ok_mono: "buffer_ok sb sq \<Longrightarrow> sq < MAX_NONCE \<Longrightarrow> buffer_ok sb (sq + 1)"
  by (simp add: buffer_ok_def seq_Suc)

lemma push_keys:
  assumes "send_inv sb"
  shows "set (bt_keys (sb_chunks (snd (send_push sq d sb)))) \<subseteq> insert sq (set (bt_keys (sb_chunks sb)))"
proof -
  have "bt_wf (sb_chunks sb)" using assms by (simp add: send_inv_def)
  then have "set (bt_keys (bt_insert sq d (sb_chunks sb))) \<subseteq> insert sq (set (bt_keys (sb_chunks sb)))"
    by (auto simp: set_bt_keys bt_get_insert split: if_splits)
  moreover have "sb_chunks (snd (send_push sq d sb)) \<in> {sb_chunks sb, bt_insert sq d (sb_chunks sb)}"
    by (simp add: send_push_def Let_def split: option.split)
  ultimately show ?thesis by auto
qed

lemma buffer_ok_push:
  assumes "buffer_ok sb sq" and "sq < MAX_NONCE"
  shows "buffer_ok (snd (send_push sq d sb)) (sq + 1)"
  using assms send_apply_inv [of sb "Push sq d"] push_keys [of sb sq d]
  by (auto simp: buffer_ok_def seq_Suc)

lemma encrypt_outgoing_seq:
  "encrypt_outgoing C pad now c b s = (r, s') \<Longrightarrow>
    s_keys s' = s_keys s \<and> (send_seq s' = send_seq s \<or> send_seq s < MAX_NONCE \<and> send_seq s' = send_seq s + 1)"
  by (cases r) (auto dest: encrypt_outgoing_Err encrypt_outgoing_Ok)

lemma decrypt_incoming_seq:
  "decrypt_incoming C now data b s = (r, s') \<Longrightarrow> s_keys s' = s_keys s \<and> send_seq s' = send_seq s"
  by (auto simp: decrypt_incoming_def Let_def split: sum.splits if_splits)

text \<open>The loop's state: besides the buffer, the keys never change, the failed switches stay below the
  limit while the loop runs, the acknowledgement is never overdue and the posture respects its floor.\<close>

definition tunnel_ok :: "session_keys \<Rightarrow> 'c tunnel \<Rightarrow> bool" where
  "tunnel_ok K t \<longleftrightarrow> s_keys (tn_session t) = K \<and>
     buffer_ok (lk_send_buffer (tn_link t)) (send_seq (tn_session t)) \<and>
     (tn_running t \<longrightarrow> tn_failed_switches t < MAX_FAILED_SWITCHES) \<and>
     tn_unacked t < CLIENT_ACK_EVERY_N_CHUNKS \<and>
     pc_floor (tn_posture t) \<le> pc_current (tn_posture t)"

lemma tunnel_ok_begin:
  "s_keys s = K \<Longrightarrow> tunnel_ok K (tunnel_begin now fake_ip name s c events)"
  by (simp add: tunnel_ok_def tunnel_begin_def buffer_ok_new MAX_FAILED_SWITCHES_def CLIENT_ACK_EVERY_N_CHUNKS_def
      controller_new_def controller_with_floor_def)

lemma switch_ok:
  assumes "tunnel_ok K t"
  shows "tunnel_ok K (switch_or_give_up C io env now cause t)"
proof -
  obtain previous lk where run: "attempt_switch C io (sw_attempts env) now (sw_later env) cause (sw_registry env)
      (sw_endpoint env) (sw_session_id env) (sw_keys env) (rb_next_expected (tn_recv_buffer t)) (tn_link t) = (previous, lk)"
    by fastforce
  have "\<exists>n. lk_send_buffer lk = lk_send_buffer (tn_link t) \<or> lk_send_buffer lk = snd (apply_ack n [] (lk_send_buffer (tn_link t)))"
    using run by (cases previous) (fastforce dest: attempt_switch_failed elim: attempt_switch_done)+
  then have "buffer_ok (lk_send_buffer lk) (send_seq (tn_session t))"
    using assms buffer_ok_ack by (auto simp: tunnel_ok_def)
  then show ?thesis
    using assms run
    by (auto simp: switch_or_give_up_def tunnel_ok_def Let_def not_le MAX_FAILED_SWITCHES_def split: option.split)
qed

lemma signal_ok: "tunnel_ok K t \<Longrightarrow> tunnel_ok K (observe_signal now sig t)"
  using observe_floor [of "tn_posture t" now sig] observe_fields [of now sig "tn_posture t"]
  by (cases "observe now sig (tn_posture t)") (auto simp: observe_signal_def tunnel_ok_def split: option.splits)

text \<open>A state that differs from a good one only in fields the invariant does not read.\<close>

lemma tunnel_ok_cong:
  "tunnel_ok K t \<Longrightarrow> tn_session t' = tn_session t \<Longrightarrow> lk_send_buffer (tn_link t') = lk_send_buffer (tn_link t) \<Longrightarrow>
    tn_failed_switches t' = tn_failed_switches t \<Longrightarrow> (tn_running t' \<longrightarrow> tn_running t) \<Longrightarrow>
    tn_unacked t' < CLIENT_ACK_EVERY_N_CHUNKS \<Longrightarrow> tn_posture t' = tn_posture t \<Longrightarrow> tunnel_ok K t'"
  by (simp add: tunnel_ok_def)

lemma session_ok:
  "tunnel_ok K t \<Longrightarrow> encrypt_outgoing C pad now c b (tn_session t) = (r, s) \<Longrightarrow> tunnel_ok K (t\<lparr>tn_session := s\<rparr>)"
  using encrypt_outgoing_seq [of C pad now c b "tn_session t" r s] buffer_ok_mono by (auto simp: tunnel_ok_def)

lemma send_packet_ok:
  assumes "tunnel_ok K t"
  shows "tunnel_ok K (send_packet C io env now r pad raw t)"
proof (cases "encrypt_outgoing C pad now (new_data r raw) True (tn_session t)")
  case (Pair x s)
  show ?thesis
  proof (cases x)
    case (Inl e)
    then show ?thesis
      using session_ok [OF assms Pair] by (auto simp: send_packet_def Pair tunnel_ok_def)
  next
    case (Inr bs)
    let ?t1 = "t\<lparr>tn_session := s, tn_link := (tn_link t)\<lparr>lk_connection := snd (cn_send io bs (lk_connection (tn_link t))),
        lk_send_buffer := snd (send_push (send_seq (tn_session t)) bs (lk_send_buffer (tn_link t)))\<rparr>\<rparr>"
    have "tunnel_ok K ?t1"
      using assms encrypt_outgoing_Ok [OF Pair [unfolded Inr]] buffer_ok_push by (simp add: tunnel_ok_def)
    then show ?thesis
      using switch_ok by (auto simp: send_packet_def Pair Inr Let_def split: prod.split sum.split)
  qed
qed

lemma ack_ok:
  assumes "tunnel_ok K t"
  shows "tunnel_ok K (send_client_ack C io env now r pad t)"
proof (cases "encrypt_outgoing C pad now (new_control r (control_encode (build_ack (tn_recv_buffer t)))) True (tn_session t)")
  case (Pair x s)
  have "tunnel_ok K (t\<lparr>tn_session := s, tn_link := (tn_link t)\<lparr>lk_connection := c\<rparr>\<rparr>)" for c
    using session_ok [OF assms Pair] by (rule tunnel_ok_cong) (use assms in \<open>simp_all add: tunnel_ok_def\<close>)
  then show ?thesis
    using session_ok [OF assms Pair]
    by (auto simp: send_client_ack_def Pair Let_def intro!: switch_ok split: prod.split sum.split)
qed

lemma receive_data_ok:
  assumes "tunnel_ok K t"
  shows "tunnel_ok K (receive_data C io env now r pad sq pl t)"
proof -
  have un: "tn_unacked t < CLIENT_ACK_EVERY_N_CHUNKS" using assms by (simp add: tunnel_ok_def)
  have "0 < CLIENT_ACK_EVERY_N_CHUNKS" by (simp add: CLIENT_ACK_EVERY_N_CHUNKS_def)
  with un show ?thesis
    by (auto simp: receive_data_def Let_def not_le intro!: ack_ok tunnel_ok_cong [OF assms]
        split: prod.split sum.split)
qed

lemma receive_control_ok: "tunnel_ok K t \<Longrightarrow> tunnel_ok K (receive_control pl t)"
  using buffer_ok_ack by (auto simp: receive_control_def tunnel_ok_def split: sum.split control_message.split)

lemma on_frame_ok:
  assumes "tunnel_ok K t"
  shows "tunnel_ok K (on_frame C io env now r pad data t)"
proof (cases data)
  case (Inl e)
  then show ?thesis using assms by (simp add: on_frame_def switch_ok signal_ok)
next
  case (Inr encrypted)
  let ?t1 = "t\<lparr>tn_link := (tn_link t)\<lparr>lk_monitor := record_inbound now (lk_monitor (tn_link t))\<rparr>, tn_draining := None\<rparr>"
  obtain x s where dec: "decrypt_incoming C now encrypted True (tn_session ?t1) = (x, s)" by fastforce
  have "tunnel_ok K (?t1\<lparr>tn_session := s\<rparr>)"
    using assms decrypt_incoming_seq [OF dec] by (simp add: tunnel_ok_def)
  then show ?thesis
    using dec receive_data_ok receive_control_ok
    by (auto simp: on_frame_def Inr Let_def split: sum.split chunk_type.split)
qed

text \<open>One turn of the loop: any branch of the \<open>select!\<close>, with any clock readings and random bytes.\<close>

inductive tunnel_step :: "crypto_ops \<Rightarrow> 'c connection \<Rightarrow> 'c tunnel \<Rightarrow> 'c tunnel \<Rightarrow> bool" for C io where
  Tun_packet: "tun_branch_enabled t \<Longrightarrow> tunnel_step C io t (on_tun_packet C io env now r pad packet t)"
| Frame: "tn_running t \<Longrightarrow> tunnel_step C io t (client_recv C io env now r pad t)"
| Liveness: "tn_running t \<Longrightarrow> tunnel_step C io t (on_liveness_tick C io env now timestamp r pad t)"
| Posture_tick: "tn_running t \<Longrightarrow> tunnel_step C io t (on_posture_tick now t)"
| Stats: "tn_running t \<Longrightarrow> tunnel_step C io t (on_stats_tick now t)"
| Shut_down: "tn_running t \<Longrightarrow> tunnel_step C io t (on_shutdown t)"

inductive_cases tunnel_stepE: "tunnel_step C io t t'"

lemma tun_packet_ok:
  assumes "tunnel_ok K t"
  shows "tunnel_ok K (on_tun_packet C io env now r pad packet t)"
proof -
  have un: "tn_unacked t < CLIENT_ACK_EVERY_N_CHUNKS" using assms by (simp add: tunnel_ok_def)
  show ?thesis
    using un assms by (auto simp: on_tun_packet_def intro!: send_packet_ok intro: tunnel_ok_cong [OF assms]
        split: option.split prod.split)
qed

lemma liveness_ok:
  assumes "tunnel_ok K t"
  shows "tunnel_ok K (on_liveness_tick C io env now timestamp r pad t)"
proof (cases "is_dead now (lk_monitor (tn_link t))")
  case True
  then show ?thesis using assms by (simp add: on_liveness_tick_def switch_ok signal_ok)
next
  case False
  have un: "tn_unacked t < CLIENT_ACK_EVERY_N_CHUNKS" using assms by (simp add: tunnel_ok_def)
  obtain probe m where probe: "should_probe now (lk_monitor (tn_link t)) = (probe, m)" by fastforce
  obtain x s where enc: "encrypt_outgoing C pad now (new_control r (control_encode (Ping timestamp))) True (tn_session t) = (x, s)"
    by fastforce
  have "tunnel_ok K (t\<lparr>tn_session := s, tn_link := (tn_link t)\<lparr>lk_monitor := m, lk_connection := c\<rparr>\<rparr>)" for c
    using session_ok [OF assms enc] by (rule tunnel_ok_cong) (simp_all add: un)
  moreover have "tunnel_ok K (t\<lparr>tn_link := (tn_link t)\<lparr>lk_monitor := m\<rparr>\<rparr>)"
    using assms by (rule tunnel_ok_cong) (simp_all add: un)
  moreover have "tunnel_ok K (t\<lparr>tn_link := (tn_link t)\<lparr>lk_monitor := m\<rparr>, tn_session := s\<rparr>)"
    using session_ok [OF assms enc] by (rule tunnel_ok_cong) (simp_all add: un)
  ultimately show ?thesis
    using False probe enc by (cases probe; cases x) (simp_all add: on_liveness_tick_def)
qed

lemma client_recv_ok:
  assumes "tunnel_ok K t"
  shows "tunnel_ok K (client_recv C io env now r pad t)"
proof -
  have "tunnel_ok K (t\<lparr>tn_link := (tn_link t)\<lparr>lk_connection := c\<rparr>\<rparr>)" for c
    using assms by (simp add: tunnel_ok_def)
  then show ?thesis by (simp add: client_recv_def on_frame_ok split: prod.split)
qed

lemma tunnel_step_ok:
  assumes "tunnel_step C io t t'" and "tunnel_ok K t"
  shows "tunnel_ok K t'"
proof -
  have un: "tn_unacked t < CLIENT_ACK_EVERY_N_CHUNKS" using assms(2) by (simp add: tunnel_ok_def)
  note same = tunnel_ok_cong [OF assms(2)]
  show ?thesis
    using assms
    by (cases rule: tunnel_stepE)
      (auto simp: on_posture_tick_def on_stats_tick_def on_shutdown_def un
        intro!: tun_packet_ok liveness_ok signal_ok client_recv_ok intro: same)
qed

lemma tunnel_reachable_ok:
  "(tunnel_step C io)\<^sup>*\<^sup>* t t' \<Longrightarrow> tunnel_ok K t \<Longrightarrow> tunnel_ok K t'"
  by (induction rule: rtranclp_induct) (auto intro: tunnel_step_ok)

section \<open>Acknowledgements\<close>

text \<open>What the next frame delivers, if it is a data chunk that opens under the session and is accepted, a
  duplicate included: the session and the connection after it, and the receive buffer once the chunks
  that are now in order were taken out.\<close>

definition received_data :: "crypto_ops \<Rightarrow> 'c connection \<Rightarrow> instant \<Rightarrow> 'c tunnel \<Rightarrow> (session \<times> 'c \<times> receive_buffer) option" where
  "received_data C io now t =
     (case cn_recv io (lk_connection (tn_link t)) of
        (Inl _, c) \<Rightarrow> None
      | (Inr frame, c) \<Rightarrow>
          (case decrypt_incoming C now frame True (tn_session t) of
             (Inl _, s) \<Rightarrow> None
           | (Inr chunk, s) \<Rightarrow>
               (case accept (sequence (header chunk)) (payload chunk) (tn_recv_buffer t) of
                  (Inl _, rb) \<Rightarrow> None
                | (Inr received, rb) \<Rightarrow>
                    if chunk_type (header chunk) = Data
                    then Some (s, c, if received = Duplicate then rb else snd (drain_ready rb)) else None)))"

lemma switch_keeps_ack [simp]:
  "tn_unacked (switch_or_give_up C io env now cause t) = tn_unacked t"
  "tn_last_ack (switch_or_give_up C io env now cause t) = tn_last_ack t"
  "tn_recv_buffer (switch_or_give_up C io env now cause t) = tn_recv_buffer t"
  by (simp_all add: switch_or_give_up_def Let_def split: option.split prod.split)

lemma signal_keeps_ack [simp]:
  "tn_unacked (observe_signal now sig t) = tn_unacked t"
  "tn_last_ack (observe_signal now sig t) = tn_last_ack t"
  by (simp_all add: observe_signal_def split: option.split prod.split)

lemma client_ack_keeps [simp]:
  "tn_unacked (send_client_ack C io env now r pad t) = tn_unacked t"
  "tn_last_ack (send_client_ack C io env now r pad t) = tn_last_ack t"
  "tn_recv_buffer (send_client_ack C io env now r pad t) = tn_recv_buffer t"
  by (simp_all add: send_client_ack_def Let_def split: sum.split prod.split)

lemma send_packet_keeps_ack [simp]:
  "tn_unacked (send_packet C io env now r pad raw t) = tn_unacked t"
  "tn_last_ack (send_packet C io env now r pad raw t) = tn_last_ack t"
  by (simp_all add: send_packet_def Let_def split: sum.split prod.split)

lemma on_tun_packet_keeps_ack [simp]:
  "tn_unacked (on_tun_packet C io env now r pad packet t) = tn_unacked t"
  "tn_last_ack (on_tun_packet C io env now r pad packet t) = tn_last_ack t"
  by (simp_all add: on_tun_packet_def split: option.split prod.split)

lemma on_liveness_tick_keeps_ack [simp]:
  "tn_unacked (on_liveness_tick C io env now timestamp r pad t) = tn_unacked t"
  "tn_last_ack (on_liveness_tick C io env now timestamp r pad t) = tn_last_ack t"
  by (simp_all add: on_liveness_tick_def Let_def split: sum.split prod.split bool.split)

text \<open>The acknowledgement goes out on the connection in use, sealed by the session.\<close>

lemma send_client_ack_sent:
  assumes "encrypt_outgoing C pad now (new_control r (control_encode (build_ack (tn_recv_buffer t)))) True (tn_session t) = (Ok ack, s)"
    and "cn_send io ack (lk_connection (tn_link t)) = (Ok (), c)"
  shows "tn_session (send_client_ack C io env now r pad t) = s \<and>
    lk_connection (tn_link (send_client_ack C io env now r pad t)) = c"
  using assms by (simp add: send_client_ack_def)

lemma received_data_None: "received_data C io now t = None \<Longrightarrow> tn_unacked (client_recv C io env now r pad t) = tn_unacked t"
  by (auto simp: received_data_def client_recv_def on_frame_def receive_data_def receive_control_def Let_def
      split: prod.split sum.split if_splits chunk_type.split control_message.split)

lemma received_data_Some:
  assumes "received_data C io now t = Some (s, c, rb)"
  obtains t1 where "tn_unacked t1 = tn_unacked t + 1" and "tn_last_ack t1 = tn_last_ack t" and "tn_recv_buffer t1 = rb"
    and "tn_session t1 = s" and "lk_connection (tn_link t1) = c"
    and "client_recv C io env now r pad t =
      (if 32 \<le> tn_unacked t1 \<or> CLIENT_ACK_MAX_DELAY \<le> elapsed now (tn_last_ack t1)
       then send_client_ack C io env now r pad (t1\<lparr>tn_unacked := 0, tn_last_ack := now\<rparr>) else t1)"
proof -
  from assms obtain frame chunk got rb0 where *:
    "cn_recv io (lk_connection (tn_link t)) = (Ok frame, c)"
    "decrypt_incoming C now frame True (tn_session t) = (Ok chunk, s)"
    "accept (sequence (header chunk)) (payload chunk) (tn_recv_buffer t) = (Ok got, rb0)"
    "chunk_type (header chunk) = Data" "rb = (if got = Duplicate then rb0 else snd (drain_ready rb0))"
    by (auto simp: received_data_def split: prod.splits sum.splits if_splits)
  let ?t0 = "t\<lparr>tn_link := (tn_link t)\<lparr>lk_connection := c, lk_monitor := record_inbound now (lk_monitor (tn_link t))\<rparr>,
    tn_draining := None, tn_session := s, tn_recv_buffer := rb,
    tn_written := (if got = Duplicate then tn_written t else tn_written t @ fst (drain_ready rb0)), tn_unacked := tn_unacked t + 1\<rparr>"
  show thesis
    by (rule that [of ?t0])
      (use * in \<open>simp_all add: client_recv_def on_frame_def receive_data_def CLIENT_ACK_EVERY_N_CHUNKS_def Let_def
        split: prod.split\<close>)
qed

text \<open>Every frame the loop may receive next: without an accepted data chunk the count of unacknowledged
  chunks stays; with one, it grows by one, unless it would reach 32 or the last acknowledgement is 200
  milliseconds old, and then the acknowledgement of everything received so far leaves on the
  connection in use, if sealing and sending succeed.\<close>

definition acks_in_time :: "crypto_ops \<Rightarrow> 'c connection \<Rightarrow> 'c tunnel \<Rightarrow> bool" where
  "acks_in_time C io t \<longleftrightarrow>
     (\<forall>env now r pad. let t' = client_recv C io env now r pad t in
        case received_data C io now t of
          None \<Rightarrow> tn_unacked t' = tn_unacked t
        | Some (s, c, rb) \<Rightarrow>
            tn_recv_buffer t' = rb \<and>
            (if 31 \<le> tn_unacked t \<or> 200 * 1000000 \<le> elapsed now (tn_last_ack t)
             then tn_unacked t' = 0 \<and> tn_last_ack t' = now \<and>
               (\<forall>ack s' c'. encrypt_outgoing C pad now (new_control r (control_encode (build_ack rb))) True s = (Ok ack, s') \<longrightarrow>
                  cn_send io ack c = (Ok (), c') \<longrightarrow> tn_session t' = s' \<and> lk_connection (tn_link t') = c')
             else tn_unacked t' = tn_unacked t + 1 \<and> tn_last_ack t' = tn_last_ack t \<and>
               tn_session t' = s \<and> lk_connection (tn_link t') = c))"

lemma acks_in_time: "acks_in_time C io t"
  unfolding acks_in_time_def Let_def
proof (intro allI)
  fix env now r pad
  let ?t' = "client_recv C io env now r pad t"
  show "case received_data C io now t of
          None \<Rightarrow> tn_unacked ?t' = tn_unacked t
        | Some (s, c, rb) \<Rightarrow>
            tn_recv_buffer ?t' = rb \<and>
            (if 31 \<le> tn_unacked t \<or> 200 * 1000000 \<le> elapsed now (tn_last_ack t)
             then tn_unacked ?t' = 0 \<and> tn_last_ack ?t' = now \<and>
               (\<forall>ack s' c'. encrypt_outgoing C pad now (new_control r (control_encode (build_ack rb))) True s = (Ok ack, s') \<longrightarrow>
                  cn_send io ack c = (Ok (), c') \<longrightarrow> tn_session ?t' = s' \<and> lk_connection (tn_link ?t') = c')
             else tn_unacked ?t' = tn_unacked t + 1 \<and> tn_last_ack ?t' = tn_last_ack t \<and>
               tn_session ?t' = s \<and> lk_connection (tn_link ?t') = c)"
  proof (cases "received_data C io now t")
    case None
    then show ?thesis by (simp add: received_data_None)
  next
    case (Some d)
    obtain s c rb where d: "d = (s, c, rb)" by (cases d)
    have due: "CLIENT_ACK_MAX_DELAY = 200 * 1000000" by (simp add: CLIENT_ACK_MAX_DELAY_def from_millis_def)
    obtain t1 where t1: "tn_unacked t1 = tn_unacked t + 1" "tn_last_ack t1 = tn_last_ack t" "tn_recv_buffer t1 = rb"
      "tn_session t1 = s" "lk_connection (tn_link t1) = c"
      and run: "?t' = (if 32 \<le> tn_unacked t1 \<or> CLIENT_ACK_MAX_DELAY \<le> elapsed now (tn_last_ack t1)
       then send_client_ack C io env now r pad (t1\<lparr>tn_unacked := 0, tn_last_ack := now\<rparr>) else t1)"
      using Some [unfolded d] by (rule received_data_Some)
    have "tn_session ?t' = s' \<and> lk_connection (tn_link ?t') = c'"
      if "31 \<le> tn_unacked t \<or> 200 * 1000000 \<le> elapsed now (tn_last_ack t)"
        "encrypt_outgoing C pad now (new_control r (control_encode (build_ack rb))) True s = (Ok ack, s')"
        "cn_send io ack c = (Ok (), c')" for ack s' c'
      using that t1 run due by (auto intro!: send_client_ack_sent [THEN conjunct1] send_client_ack_sent [THEN conjunct2])
    moreover have "tn_recv_buffer ?t' = rb" using t1 run by simp
    ultimately show ?thesis unfolding Some d using t1 run due by auto
  qed
qed

text \<open>The other branches leave the count and the time of the last acknowledgement alone.\<close>

lemma other_branches_keep_ack:
  assumes "tunnel_step C io t t'"
  shows "(\<exists>env now r pad. t' = client_recv C io env now r pad t) \<or> tn_unacked t' = tn_unacked t \<and> tn_last_ack t' = tn_last_ack t"
  using assms by (cases rule: tunnel_stepE) (auto simp: on_posture_tick_def on_stats_tick_def on_shutdown_def)

section \<open>A chunk that is sent but not retained\<close>

text \<open>The branch is open as long as the buffer is below its bound, but the buffer refuses a chunk that
  would take it over the bound: the frame is sent, its sequence number used up, and nothing is kept.\<close>

lemma send_packet_unretained:
  assumes "sb_chunks (lk_send_buffer (tn_link t)) \<noteq> []"
    and "sb_max_bytes (lk_send_buffer (tn_link t)) < sb_buffered_bytes (lk_send_buffer (tn_link t)) + length bs"
    and "encrypt_outgoing C pad now (new_data r raw) True (tn_session t) = (Ok bs, s)"
    and "cn_send io bs (lk_connection (tn_link t)) = (Ok (), c)"
  shows "send_packet C io env now r pad raw t = t\<lparr>tn_session := s, tn_link := (tn_link t)\<lparr>lk_connection := c\<rparr>\<rparr>"
  using assms by (simp add: send_packet_def send_push_full)

text \<open>A link whose only other transport leads to a server that holds the session.\<close>

definition demo_link :: "(bytes list \<times> bytes list) link" where
  "demo_link = \<lparr>lk_connection = ([[1]], []), lk_active = ''quic'',
     lk_send_buffer = \<lparr>sb_chunks = [(0, [7]), (1, [8])], sb_buffered_bytes = 2, sb_max_bytes = 9\<rparr>,
     lk_policy = policy_new, lk_monitor = monitor_new 0, lk_events = []\<rparr>"

definition demo_transport :: "bytes \<Rightarrow> (bytes list \<times> bytes list) transport" where
  "demo_transport answer = \<lparr>tr_name = ''tls'', tr_priority = 20, tr_probe = (\<lambda>_. Unknown),
     tr_connect = (\<lambda>_. Ok ([], [answer])), tr_estimated_latency = 0, tr_supports_zero_rtt = False\<rparr>"

lemma demo_link_inv: "send_inv (lk_send_buffer demo_link)"
  by (simp add: demo_link_def send_inv_def bt_wf_def)

lemma demo_resume:
  obtains first answer where
    "resume_on demo_crypto scripted 1000 (\<lambda>_. 1) (\<lambda>_. 0) demo_sid (e_keys demo_held) 0 ([], [answer]) = (Ok 0, ([first], []))"
proof -
  obtain q first where q: "resume_request_new demo_crypto 1000 (\<lambda>_. 1) demo_sid 0 (e_keys demo_held) = Ok q"
    "encode_encrypted demo_crypto (\<lambda>_. 0) (new_resume (resume_request_encode q)) zero_key zero_nonce = Ok first"
    by (rule demo_request)
  obtain key where key: "derive_resumption_key demo_crypto (e_keys demo_held) = Ok key"
    using derive_resumption_key_ok [OF demo_hkdf_lawful] by metis
  obtain answer where "check_resume_response demo_crypto q (e_keys demo_held) answer = Ok (rb_next_expected (e_recv_buffer demo_held))"
    using server_answers [OF demo_aead_lawful demo_hmac_lawful key] by metis
  moreover have "rb_next_expected (e_recv_buffer demo_held) = 0"
    by (simp add: demo_held_def registry_insert_def receive_buffer_with_default_capacity_def receive_buffer_new_def Let_def)
  ultimately show thesis using q that by (simp add: resume_on_def fail_with_def)
qed

section \<open>Properties\<close>

text \<open>C5. Make before break: a switch that fails leaves the link exactly as it was, unless another registered
  transport accepted the resumption and a chunk could then not be sent on it; in that case the one
  thing that changed is that the send buffer has released what the answer on that transport
  acknowledged, and the connection in use is still the old one. A switch that succeeds was allowed, hands the old connection back, and the connection now in use is that of
  another registered transport which accepted the resumption and on which every chunk still
  unacknowledged was then sent, in order.\<close>

theorem switch_make_before_break:
  assumes "send_inv (lk_send_buffer lk)"
    and "attempt_switch C io at now later cause registry ep sid keys ne lk = (previous, lk')"
  shows "case previous of
      None \<Rightarrow> lk' = lk \<or>
        (\<exists>standby e c'. prepared_on C io registry ep sid keys ne standby \<and> sb_transport standby \<noteq> lk_active lk \<and>
           lk' = lk\<lparr>lk_send_buffer := snd (apply_ack (sb_server_next_expected standby) [] (lk_send_buffer lk))\<rparr> \<and>
           send_frames (cn_send io) (map snd (sb_chunks (lk_send_buffer lk'))) (sb_connection standby) = (Err e, c'))
    | Some old \<Rightarrow> allows now cause (lk_policy lk) \<and> old = lk_connection lk \<and> lk_active lk' \<noteq> lk_active lk \<and>
        (\<exists>standby. prepared_on C io registry ep sid keys ne standby \<and> sb_transport standby = lk_active lk' \<and>
           lk_send_buffer lk' = snd (apply_ack (sb_server_next_expected standby) [] (lk_send_buffer lk)) \<and>
           send_frames (cn_send io) (map snd (sb_chunks (lk_send_buffer lk'))) (sb_connection standby) =
             (Ok (), lk_connection lk'))"
proof (cases previous)
  case None
  have failed: "\<exists>standby e c'. prepared_on C io registry ep sid keys ne standby \<and> sb_transport standby \<noteq> lk_active lk \<and>
      lk' = lk\<lparr>lk_send_buffer := snd (apply_ack (sb_server_next_expected standby) [] (lk_send_buffer lk))\<rparr> \<and>
      send_frames (cn_send io) (map snd (sb_chunks (lk_send_buffer lk'))) (sb_connection standby) = (Err e, c')"
    if "prepare_standby C io at registry ep (lk_active lk) sid keys ne = Ok standby"
      "lk' = lk\<lparr>lk_send_buffer := snd (apply_ack (sb_server_next_expected standby) [] (lk_send_buffer lk))\<rparr>"
      "replay_onto (cn_send io) (lk_send_buffer lk') (sb_connection standby) = (Err e, c')" for standby e c'
  proof -
    have "send_inv (lk_send_buffer lk')" using assms(1) by (simp add: that(2) apply_ack_inv)
    from replay_onto_Err [OF this that(3)] show ?thesis
      using prepare_from_prepared [OF that(1) [unfolded prepare_standby_def]] that(2) by blast
  qed
  from attempt_switch_failed [OF assms(2) [unfolded None]] show ?thesis
  proof (elim disjE exE conjE)
    assume "lk' = lk"
    then show ?thesis by (simp add: None)
  qed (drule (2) failed, simp only: None option.case, blast)
next
  case (Some old)
  obtain standby n where sw: "prepare_standby C io at registry ep (lk_active lk) sid keys ne = Ok standby"
    "replay_onto (cn_send io) (snd (apply_ack (sb_server_next_expected standby) [] (lk_send_buffer lk)))
      (sb_connection standby) = (Ok n, lk_connection lk')"
    "allows now cause (lk_policy lk)" "old = lk_connection lk"
    "lk_active lk' = sb_transport standby"
    "lk_send_buffer lk' = snd (apply_ack (sb_server_next_expected standby) [] (lk_send_buffer lk))"
    using assms(2) unfolding Some by (rule attempt_switch_done)
  have "send_inv (lk_send_buffer lk')" using assms(1) by (simp add: sw(6) apply_ack_inv)
  with sw(2) have "send_frames (cn_send io) (map snd (sb_chunks (lk_send_buffer lk'))) (sb_connection standby) =
      (Ok (), lk_connection lk')"
    unfolding sw(6) by (blast dest: replay_onto_Ok)
  then show ?thesis
    using sw prepare_from_prepared [OF sw(1) [unfolded prepare_standby_def]] by (auto simp: Some)
qed

theorem switch_make_before_break_witness:
  "\<exists>first answer lk'. attempt_switch demo_crypto scripted (\<lambda>_. (1000, \<lambda>_. 1, \<lambda>_. 0)) 5 6 LinkSilent
       [demo_transport answer] (endpoint_new ''h'' 443) demo_sid (e_keys demo_held) 0 demo_link = (Some ([[1]], []), lk') \<and>
     lk_active lk' \<noteq> ''quic'' \<and> lk_connection lk' = ([first, [7], [8]], [])"
proof -
  obtain first answer where r:
    "resume_on demo_crypto scripted 1000 (\<lambda>_. 1) (\<lambda>_. 0) demo_sid (e_keys demo_held) 0 ([], [answer]) = (Ok 0, ([first], []))"
    by (rule demo_resume)
  let ?sw = "attempt_switch demo_crypto scripted (\<lambda>_. (1000, \<lambda>_. 1, \<lambda>_. 0)) 5 6 LinkSilent
       [demo_transport answer] (endpoint_new ''h'' 443) demo_sid (e_keys demo_held) 0 demo_link"
  have sb: "apply_ack 0 [] (lk_send_buffer demo_link) = (0, lk_send_buffer demo_link)"
    by (simp add: apply_ack_def checked_sub_def)
  have "replay_onto (cn_send scripted) (lk_send_buffer demo_link) ([first], []) = (Ok 2, ([first, [7], [8]], []))"
    using replay_onto_sends [of "lk_send_buffer demo_link" "cn_send scripted" "([first], [])"] demo_link_inv
    by (simp add: demo_link_def send_inv_def unacked_def)
  with r sb obtain lk' where run: "?sw = (Some ([[1]], []), lk')" "lk_connection lk' = ([first, [7], [8]], [])"
    by (simp add: attempt_switch_def prepare_standby_def demo_transport_def allows_def Let_def demo_link_def)
  show ?thesis
    using switch_make_before_break [OF demo_link_inv run(1)] run by (auto simp: demo_link_def)
qed

text \<open>C9. The client's loop in any order of its branches: the session keys never change, the send buffer's
  byte counter is exact and within its bound (up to a single chunk), every retained chunk has a
  sequence already used, the loop runs only while fewer than five switches in a row have failed, and
  the posture never falls below its floor. Acknowledgements leave in time: the count of accepted
  chunks since the last one is below 32; each accepted data chunk, a duplicate included, raises it by
  one, unless it is the 32nd or the last acknowledgement is 200 milliseconds old, and then the
  acknowledgement of everything received so far leaves on the connection in use (if sealing and sending succeed) and the
  count starts again; nothing but a received frame changes the count or the time.\<close>

theorem client_loop_invariant:
  assumes "(tunnel_step C io)\<^sup>*\<^sup>* (tunnel_begin now fake_ip name s c events) t"
  shows "s_keys (tn_session t) = s_keys s \<and>
    sb_buffered_bytes (lk_send_buffer (tn_link t)) = (\<Sum>(k, d)\<leftarrow>sb_chunks (lk_send_buffer (tn_link t)). length d) \<and>
    (sb_buffered_bytes (lk_send_buffer (tn_link t)) \<le> DEFAULT_MAX_BUFFER_BYTES \<or>
      length (sb_chunks (lk_send_buffer (tn_link t))) \<le> 1) \<and>
    (\<forall>(k, d)\<in>set (sb_chunks (lk_send_buffer (tn_link t))). k < send_seq (tn_session t)) \<and>
    (tn_running t \<longrightarrow> tn_failed_switches t < 5) \<and>
    pc_floor (tn_posture t) \<le> pc_current (tn_posture t) \<and>
    tn_unacked t < 32 \<and> acks_in_time C io t \<and>
    (\<forall>t'. tunnel_step C io t t' \<longrightarrow> (\<exists>env now r pad. t' = client_recv C io env now r pad t) \<or>
      tn_unacked t' = tn_unacked t \<and> tn_last_ack t' = tn_last_ack t)"
proof -
  have "tunnel_ok (s_keys s) t" using assms by (rule tunnel_reachable_ok) (simp add: tunnel_ok_begin)
  then have "s_keys (tn_session t) = s_keys s \<and>
    sb_buffered_bytes (lk_send_buffer (tn_link t)) = (\<Sum>(k, d)\<leftarrow>sb_chunks (lk_send_buffer (tn_link t)). length d) \<and>
    (sb_buffered_bytes (lk_send_buffer (tn_link t)) \<le> DEFAULT_MAX_BUFFER_BYTES \<or>
      length (sb_chunks (lk_send_buffer (tn_link t))) \<le> 1) \<and>
    (\<forall>(k, d)\<in>set (sb_chunks (lk_send_buffer (tn_link t))). k < send_seq (tn_session t)) \<and>
    (tn_running t \<longrightarrow> tn_failed_switches t < 5) \<and>
    pc_floor (tn_posture t) \<le> pc_current (tn_posture t) \<and> tn_unacked t < 32"
    by (auto simp: tunnel_ok_def buffer_ok_def send_inv_def send_bounded_def store_weight_def bt_keys_def
        MAX_FAILED_SWITCHES_def CLIENT_ACK_EVERY_N_CHUNKS_def word_less_nat_alt)
  then show ?thesis using acks_in_time [of C io t] other_branches_keep_ack [of C io t] by blast
qed

text \<open>The gap the gate leaves: with a chunk already retained and the buffer below its bound, a packet whose
  frame would take the buffer over the bound is sent under the next sequence number but not retained,
  so no later replay can deliver it.\<close>

lemma gate_leaves_gap:
  assumes "tun_branch_enabled t" and "ip_parse raw = Some ip" and "\<not> is_dns_query ip"
    and "sb_chunks (lk_send_buffer (tn_link t)) \<noteq> []"
    and "sb_max_bytes (lk_send_buffer (tn_link t)) < sb_buffered_bytes (lk_send_buffer (tn_link t)) + length bs"
    and "encrypt_outgoing C pad now (new_data r raw) True (tn_session t) = (Ok bs, s)"
    and "cn_send io bs (lk_connection (tn_link t)) = (Ok (), c)"
    and "buffer_ok (lk_send_buffer (tn_link t)) (send_seq (tn_session t))"
  shows "let t' = on_tun_packet C io env now r pad (Some raw) t in
    lk_connection (tn_link t') = c \<and> send_seq (tn_session t') = send_seq (tn_session t) + 1 \<and>
    lk_send_buffer (tn_link t') = lk_send_buffer (tn_link t) \<and>
    bt_get (sb_chunks (lk_send_buffer (tn_link t'))) (send_seq (tn_session t)) = None"
proof -
  have "send_seq (tn_session t) \<notin> set (bt_keys (sb_chunks (lk_send_buffer (tn_link t))))"
    using assms(8) by (auto simp: buffer_ok_def)
  then show ?thesis
    using assms(2,3) send_packet_unretained [OF assms(4-7)] encrypt_outgoing_Ok(2) [OF assms(6)]
    by (simp add: on_tun_packet_def set_bt_keys)
qed

definition demo_env :: "(bytes list \<times> bytes list) switch_env" where
  "demo_env = \<lparr>sw_attempts = \<lambda>_. (1000, \<lambda>_. 1, \<lambda>_. 0), sw_later = 6, sw_registry = [], sw_endpoint = endpoint_new ''h'' 443,
     sw_session_id = demo_sid, sw_keys = e_keys demo_held\<rparr>"

definition demo_tunnel :: "(bytes list \<times> bytes list) tunnel" where
  "demo_tunnel = tunnel_begin 0 True ''quic'' (session_new 0 demo_sid (e_keys demo_held)) ([], []) []"

definition demo_ip :: bytes where "demo_ip = [0x45, 0, 0, 20, 0, 0, 0, 0, 64, 1, 0, 0, 10, 0, 0, 2, 1, 1, 1, 1]"

theorem client_loop_invariant_witness:
  "pc_floor (tn_posture (on_shutdown (on_posture_tick 5 demo_tunnel))) \<le> pc_current (tn_posture (on_shutdown (on_posture_tick 5 demo_tunnel))) \<and>
   s_keys (tn_session (on_shutdown (on_posture_tick 5 demo_tunnel))) = e_keys demo_held \<and>
   acks_in_time demo_crypto scripted (on_shutdown (on_posture_tick 5 demo_tunnel))"
proof -
  have run: "tn_running demo_tunnel" "tn_running (on_posture_tick 5 demo_tunnel)"
    by (simp_all add: demo_tunnel_def tunnel_begin_def on_posture_tick_def observe_signal_def split: prod.split option.split)
  have steps: "(tunnel_step demo_crypto scripted)\<^sup>*\<^sup>* demo_tunnel (on_shutdown (on_posture_tick 5 demo_tunnel))"
    using tunnel_step.Posture_tick [OF run(1)] tunnel_step.Shut_down [OF run(2)]
    by (meson converse_rtranclp_into_rtranclp rtranclp.rtrancl_refl)
  from client_loop_invariant [OF steps [unfolded demo_tunnel_def], folded demo_tunnel_def]
  have "pc_floor (tn_posture (on_shutdown (on_posture_tick 5 demo_tunnel))) \<le> pc_current (tn_posture (on_shutdown (on_posture_tick 5 demo_tunnel)))"
    "s_keys (tn_session (on_shutdown (on_posture_tick 5 demo_tunnel))) = s_keys (session_new 0 demo_sid (e_keys demo_held))"
    "acks_in_time demo_crypto scripted (on_shutdown (on_posture_tick 5 demo_tunnel))"
    by simp_all
  then show ?thesis by (simp add: session_new_def)
qed

lemma demo_ip_parse: "\<exists>ip. ip_parse demo_ip = Some ip \<and> \<not> is_dns_query ip"
  by (simp add: ip_parse_def ipv4_parse_def demo_ip_def is_dns_query_def ipv4_dst_port_def has_ports_def
      ip_protocol_from_def Let_def)

text \<open>A tunnel that retains one chunk ten bytes short of the bound.\<close>

definition demo_nearly_full :: "(bytes list \<times> bytes list) tunnel" where
  "demo_nearly_full = demo_tunnel\<lparr>tn_session := (session_new 0 demo_sid (e_keys demo_held))\<lparr>send_seq := 1\<rparr>,
     tn_link := (tn_link demo_tunnel)\<lparr>lk_send_buffer :=
       \<lparr>sb_chunks = [(0, replicate (DEFAULT_MAX_BUFFER_BYTES - 10) 0)], sb_buffered_bytes = DEFAULT_MAX_BUFFER_BYTES - 10,
        sb_max_bytes = DEFAULT_MAX_BUFFER_BYTES\<rparr>\<rparr>\<rparr>"

end
