(* ===== verification/Transport_Recv.thy ===== *)
theory Transport_Recv
  imports Transport
begin

text \<open>
  What a receiver over an asynchronous stream promises when its future is dropped before it is ready,
  as a losing branch of \<open>select!\<close> does: nothing that has arrived is lost. A receiver is a function of
  the connection and of what arrives; it returns \<open>None\<close> when all of that is used up and the future
  would still be waiting, which is when it can be dropped. The locale \<open>cancel_safe\<close> states the laws;
  the TLS and WebSocket connections interpret it, the QUIC connection does not satisfy it.
\<close>

type_synonym ('c, 'ev, 'r) receiver = "'c \<Rightarrow> 'ev list \<Rightarrow> 'r option \<times> 'c \<times> 'ev list"

text \<open>Receiving again and again until the receiver waits.\<close>

inductive receives :: "('c, 'ev, 'r) receiver \<Rightarrow> 'c \<Rightarrow> 'ev list \<Rightarrow> 'r list \<Rightarrow> 'c \<Rightarrow> bool"
  for recv :: "('c, 'ev, 'r) receiver" where
  waits: "recv c evs = (None, c', rest) \<Longrightarrow> receives recv c evs [] c'"
| gets: "recv c evs = (Some r, c1, rest) \<Longrightarrow> receives recv c1 rest rs c' \<Longrightarrow> receives recv c evs (r # rs) c'"

text \<open>Arrivals in bursts, with the pending future dropped after each.\<close>

inductive receives_bursts :: "('c, 'ev, 'r) receiver \<Rightarrow> 'c \<Rightarrow> 'ev list list \<Rightarrow> 'r list \<Rightarrow> 'c \<Rightarrow> bool"
  for recv :: "('c, 'ev, 'r) receiver" where
  no_burst: "receives_bursts recv c [] [] c"
| burst: "receives recv c evs rs c1 \<Longrightarrow> receives_bursts recv c1 bursts rs' c'
    \<Longrightarrow> receives_bursts recv c (evs # bursts) (rs @ rs') c'"

lemma receives_deterministic:
  "receives recv c evs rs c1 \<Longrightarrow> receives recv c evs rs' c2 \<Longrightarrow> rs = rs' \<and> c1 = c2"
proof (induction arbitrary: rs' c2 rule: receives.induct)
  case (waits c evs c' rest)
  from waits(2,1) show ?case by (cases rule: receives.cases) auto
next
  case (gets c evs r c1 rest rs c')
  from gets(4) show ?case
  proof (cases rule: receives.cases)
    case (gets s d rest' ss)
    with gets.hyps(1) have "s = r" "d = c1" "rest' = rest" by auto
    with gets gets.IH show ?thesis by auto
  qed (use gets(1) in auto)
qed

locale cancel_safe =
  fixes recv :: "('c, 'ev, 'r) receiver"
  assumes resumes: "recv c evs = (None, c', rest) \<Longrightarrow> recv c' evs' = recv c (evs @ evs')"
    and unaffected: "recv c evs = (Some r, c', rest) \<Longrightarrow> recv c (evs @ evs') = (Some r, c', rest @ evs')"
begin

lemma resumed: "recv c evs = (None, c', rest) \<Longrightarrow> receives recv c' evs' rs d \<Longrightarrow> receives recv c (evs @ evs') rs d"
proof -
  assume n: "recv c evs = (None, c', rest)" and r: "receives recv c' evs' rs d"
  have e: "recv c' evs' = recv c (evs @ evs')" by (rule resumes [OF n])
  from r show ?thesis
  proof (cases rule: receives.cases)
    case (waits rest')
    then show ?thesis using e receives.waits by metis
  next
    case (gets s c1 rest' ss)
    then show ?thesis using e receives.gets by metis
  qed
qed

lemma receives_append:
  "receives recv c evs rs c1 \<Longrightarrow> receives recv c1 evs' rs' d \<Longrightarrow> receives recv c (evs @ evs') (rs @ rs') d"
proof (induction rule: receives.induct)
  case (waits c evs c' rest)
  then show ?case by (simp add: resumed)
next
  case (gets c evs r c1 rest rs c')
  then show ?case using unaffected receives.gets by (metis append_Cons)
qed

text \<open>Dropping the pending future between bursts changes nothing.\<close>

lemma bursts_as_one:
  "receives_bursts recv c bursts rs d \<Longrightarrow> bursts \<noteq> [] \<Longrightarrow> receives recv c (concat bursts) rs d"
proof (induction rule: receives_bursts.induct)
  case (burst c evs rs c1 bursts rs' c')
  show ?case
  proof (cases "bursts = []")
    case True
    then show ?thesis using burst.hyps by (auto elim: receives_bursts.cases)
  next
    case False
    then show ?thesis using burst receives_append by simp
  qed
qed simp

end

end
