(* ===== verification/Transport_Tls.thy ===== *)
theory Transport_Tls
  imports Transport_Recv Wire_Chunk
begin

text \<open>
  The TLS over TCP transport of \<open>kanrin-transport/src/tls_tcp.rs\<close>: its configuration, connecting,
  probing, and the length-prefixed framing of its connection, whose receiver keeps partial frames in
  the connection so that it can be dropped at any time. The TCP stack and the TLS library are the
  parameter \<open>tls_ops\<close>; reads of the stream are a list of what arrives, an empty piece being its end.
\<close>

section \<open>Configuration\<close>

record tls_tcp_config =
  tl_connect_timeout_ms :: u64
  tl_keepalive :: bool
  tl_keepalive_interval_secs :: u64
  tl_alpn :: "string list"
  tl_skip_cert_verify :: bool

definition tls_tcp_config_default :: tls_tcp_config where
  "tls_tcp_config_default =
     \<lparr>tl_connect_timeout_ms = 10000, tl_keepalive = True, tl_keepalive_interval_secs = 30,
      tl_alpn = [''h2'', ''http/1.1''], tl_skip_cert_verify = True\<rparr>"

text \<open>Which certificates a client configuration accepts, and the protocols it offers.\<close>

datatype cert_policy = AcceptAny | WebPkiRoots

definition build_tls_config :: "tls_tcp_config \<Rightarrow> cert_policy \<times> bytes list" where
  "build_tls_config config =
     (if tl_skip_cert_verify config then AcceptAny else WebPkiRoots, map as_bytes (tl_alpn config))"

section \<open>Connecting\<close>

text \<open>A connection attempt that does not finish in time is \<open>None\<close>. \<open>'t\<close> is a TCP stream, \<open>'s\<close> a TLS stream.\<close>

record ('t, 'n, 's) tls_ops =
  to_tcp_connect :: "string \<Rightarrow> u64 \<Rightarrow> (string + 't) option"
  to_set_keepalive :: "u64 \<Rightarrow> 't \<Rightarrow> 't"
  to_server_name :: "string \<Rightarrow> string + 'n"
  to_handshake :: "cert_policy \<times> bytes list \<Rightarrow> 'n \<Rightarrow> 't \<Rightarrow> u64 \<Rightarrow> (string + 's) option"
  to_elapsed_ms :: nat

record 's tls_connection =
  tls_stream :: 's
  tls_alive :: bool
  tls_read_buf :: bytes

definition tls_connect ::
  "('t, 'n, 's) tls_ops \<Rightarrow> tls_tcp_config \<Rightarrow> endpoint \<Rightarrow> transport_error + 's tls_connection" where
  "tls_connect io config ep =
     (let timeout = tl_connect_timeout_ms config in
      case to_tcp_connect io (addr_string ep) timeout of
        None \<Rightarrow> Err (Timeout timeout)
      | Some (Inl e) \<Rightarrow> Err (ConnectionRefused e)
      | Some (Inr tcp) \<Rightarrow>
          (let tcp1 = (if tl_keepalive config then to_set_keepalive io (tl_keepalive_interval_secs config) tcp else tcp);
               sni = (case ep_sni ep of Some s \<Rightarrow> s | None \<Rightarrow> ep_host ep)
           in case to_server_name io sni of
                Inl e \<Rightarrow> Err (Tls (''invalid SNI: '' @ e))
              | Inr name \<Rightarrow>
                  (case to_handshake io (build_tls_config config) name tcp1 timeout of
                     None \<Rightarrow> Err (Timeout timeout)
                   | Some (Inl e) \<Rightarrow> Err (Tls (''handshake failed: '' @ e))
                   | Some (Inr s) \<Rightarrow> Ok \<lparr>tls_stream = s, tls_alive = True, tls_read_buf = []\<rparr>)))"

definition tls_probe :: "('t, 'n, 's) tls_ops \<Rightarrow> tls_tcp_config \<Rightarrow> endpoint \<Rightarrow> probe_result" where
  "tls_probe io config ep =
     (case to_tcp_connect io (addr_string ep) (tl_connect_timeout_ms config) of
        Some (Inr _) \<Rightarrow> Available (word_of_nat (to_elapsed_ms io))
      | Some (Inl e) \<Rightarrow> ProbeBlocked (''tcp connect failed: '' @ e)
      | None \<Rightarrow> ProbeBlocked ''tcp connect timeout'')"

definition tls_transport :: "('t, 'n, 's) tls_ops \<Rightarrow> tls_tcp_config \<Rightarrow> 's tls_connection transport" where
  "tls_transport io config =
     \<lparr>tr_name = ''tls-tcp'', tr_priority = 2, tr_probe = tls_probe io config, tr_connect = tls_connect io config,
      tr_estimated_latency = 40, tr_supports_zero_rtt = False\<rparr>"

section \<open>Sending and receiving\<close>

text \<open>The frame of \<open>send\<close>; the writes are given to the stream one after the other.\<close>

definition tls_send ::
  "(bytes \<Rightarrow> 's \<Rightarrow> (string + unit) \<times> 's) \<Rightarrow> ('s \<Rightarrow> (string + unit) \<times> 's) \<Rightarrow> bytes \<Rightarrow> 's tls_connection
     \<Rightarrow> (transport_error + unit) \<times> 's tls_connection" where
  "tls_send write_all flush data c =
     (let len_bytes = be32 (word_of_nat (length data)) in
      case write_all len_bytes (tls_stream c) of
        (Inl e, s1) \<Rightarrow> (Err (Io e), c\<lparr>tls_stream := s1\<rparr>)
      | (Inr _, s1) \<Rightarrow>
     (case write_all data s1 of
        (Inl e, s2) \<Rightarrow> (Err (Io e), c\<lparr>tls_stream := s2\<rparr>)
      | (Inr _, s2) \<Rightarrow>
     (case flush s2 of
        (Inl e, s3) \<Rightarrow> (Err (Io e), c\<lparr>tls_stream := s3\<rparr>)
      | (Inr _, s3) \<Rightarrow> (Ok (), c\<lparr>tls_stream := s3\<rparr>))))"

datatype buffered = Incomplete | TooLarge | Complete bytes bytes

definition MAX_FRAME :: nat where
  "MAX_FRAME = 1024 * 1024"

definition buffered_frame :: "bytes \<Rightarrow> buffered" where
  "buffered_frame buf =
     (if length buf \<ge> 4 then
        (let len = unat (from_be (take 4 buf) :: u32) in
         if len > MAX_FRAME then TooLarge
         else if length buf \<ge> 4 + len then Complete (take len (drop 4 buf)) (drop (4 + len) buf)
         else Incomplete)
      else Incomplete)"

fun tls_recv :: "('s tls_connection, string + bytes, transport_error + bytes) receiver" where
  "tls_recv c [] =
     (case buffered_frame (tls_read_buf c) of
        TooLarge \<Rightarrow> (Some (Err (Protocol (InvalidChunk ''frame too large''))), c\<lparr>tls_alive := False\<rparr>, [])
      | Complete frame rest \<Rightarrow> (Some (Ok frame), c\<lparr>tls_read_buf := rest\<rparr>, [])
      | Incomplete \<Rightarrow> (None, c, []))"
| "tls_recv c (ev # evs) =
     (case buffered_frame (tls_read_buf c) of
        TooLarge \<Rightarrow> (Some (Err (Protocol (InvalidChunk ''frame too large''))), c\<lparr>tls_alive := False\<rparr>, ev # evs)
      | Complete frame rest \<Rightarrow> (Some (Ok frame), c\<lparr>tls_read_buf := rest\<rparr>, ev # evs)
      | Incomplete \<Rightarrow>
          (case ev of
             Inl e \<Rightarrow> (Some (Err (Io e)), c, evs)
           | Inr [] \<Rightarrow> (Some (Err ConnectionClosed), c\<lparr>tls_alive := False\<rparr>, evs)
           | Inr (b # bs) \<Rightarrow> tls_recv (c\<lparr>tls_read_buf := tls_read_buf c @ b # bs\<rparr>) evs))"

definition tls_close :: "('s \<Rightarrow> (string + unit) \<times> 's) \<Rightarrow> 's tls_connection \<Rightarrow> (transport_error + unit) \<times> 's tls_connection" where
  "tls_close shutdown c =
     (let (r, s) = shutdown (tls_stream c) in (map_err Io r, c\<lparr>tls_alive := False, tls_stream := s\<rparr>))"

definition tls_is_alive :: "'s tls_connection \<Rightarrow> bool" where
  "tls_is_alive c = tls_alive c"

section \<open>Cancel safety\<close>

lemma tls_recv_resumes: "tls_recv c evs = (None, c', rest) \<Longrightarrow> tls_recv c' evs' = tls_recv c (evs @ evs')"
proof (induction c evs rule: tls_recv.induct)
  case (1 c)
  then show ?case by (auto split: buffered.splits)
next
  case (2 c ev evs)
  then show ?case by (auto split: buffered.splits sum.splits list.splits)
qed

lemma tls_recv_unaffected:
  "tls_recv c evs = (Some r, c', rest) \<Longrightarrow> tls_recv c (evs @ evs') = (Some r, c', rest @ evs')"
proof (induction c evs rule: tls_recv.induct)
  case (1 c)
  then show ?case by (cases evs') (auto split: buffered.splits)
next
  case (2 c ev evs)
  then show ?case by (auto split: buffered.splits sum.splits list.splits)
qed

interpretation tls: cancel_safe tls_recv
  by unfold_locales (fact tls_recv_resumes, fact tls_recv_unaffected)

section \<open>Reassembly\<close>

lemma buffered_frame_chunk:
  assumes "length data \<le> MAX_FRAME"
  shows "buffered_frame (frame_chunk data @ rest) = Complete data rest"
proof -
  have "unat (from_be (be32 (word_of_nat (length data))) :: u32) = length data"
    using assms by (simp add: codec_simps MAX_FRAME_def unat_of_nat)
  then show ?thesis using assms by (simp add: buffered_frame_def frame_chunk_def Let_def)
qed

lemma buffered_frame_partial:
  assumes "length data \<le> MAX_FRAME" and "buf @ more_bytes = frame_chunk data" and "more_bytes \<noteq> []"
  shows "buffered_frame buf = Incomplete"
proof -
  have "length (buf @ more_bytes) = 4 + length data" unfolding assms(2) by (simp add: frame_chunk_def)
  then have l: "length buf < 4 + length data" using assms(3) by (cases more_bytes) auto
  show ?thesis
  proof (cases "4 \<le> length buf")
    case True
    have "take 4 (buf @ more_bytes) = be32 (word_of_nat (length data))"
      unfolding assms(2) by (simp add: frame_chunk_def)
    then have "take 4 buf = be32 (word_of_nat (length data))" using True by simp
    then have "unat (from_be (take 4 buf) :: u32) = length data"
      using assms(1) by (simp add: codec_simps MAX_FRAME_def unat_of_nat)
    then show ?thesis using l assms(1) by (simp add: buffered_frame_def Let_def)
  qed (simp add: buffered_frame_def)
qed

lemma append_split:
  "xs @ ys = as @ bs \<Longrightarrow> length as \<le> length xs \<Longrightarrow> xs = as @ drop (length as) xs \<and> drop (length as) xs @ ys = bs"
  by (auto simp: append_eq_append_conv2)

lemma buffered_frame_prefix:
  assumes "buffered_frame (xs @ ys) = Incomplete"
  shows "buffered_frame xs = Incomplete"
proof (cases "4 \<le> length xs")
  case True
  then have "take 4 (xs @ ys) = take 4 xs" by simp
  then show ?thesis using assms True by (auto simp: buffered_frame_def Let_def split: if_splits)
qed (simp add: buffered_frame_def)

text \<open>While no frame is complete, what arrives is only kept.\<close>

lemma tls_recv_keeps:
  assumes "buffered_frame (tls_read_buf c @ concat pieces) = Incomplete" and "[] \<notin> set pieces"
  shows "tls_recv c (map Inr pieces) = (None, c\<lparr>tls_read_buf := tls_read_buf c @ concat pieces\<rparr>, [])"
  using assms
proof (induction pieces arbitrary: c)
  case (Cons p ps)
  then obtain b bs where p: "p = b # bs" by (cases p) auto
  have "buffered_frame (tls_read_buf c) = Incomplete" using buffered_frame_prefix Cons.prems(1) by blast
  then show ?case using Cons.IH [of "c\<lparr>tls_read_buf := tls_read_buf c @ p\<rparr>"] Cons.prems p by simp
qed simp

text \<open>What is in the buffer or still arrives is a sequence of frames with a last one that may be cut:
  each complete one is received, the part of the last is kept.\<close>

lemma tls_receives_frames:
  assumes "\<forall>d\<in>set ds. length d \<le> MAX_FRAME" and "[] \<notin> set pieces" and "buffered_frame part = Incomplete"
    and "tls_read_buf c @ concat pieces = concat (map frame_chunk ds) @ part"
  shows "receives tls_recv c (map Inr pieces) (map Inr ds) (c\<lparr>tls_read_buf := part\<rparr>)"
  using assms(1,2,4)
proof (induction "length ds + length pieces" arbitrary: ds pieces c rule: less_induct)
  case less
  show ?case
  proof (cases ds)
    case Nil
    then show ?thesis
      using less.prems tls_recv_keeps [of c pieces] assms(3) by (auto intro: receives.waits)
  next
    case (Cons d ds')
    have d: "length d \<le> MAX_FRAME" using less.prems(1) Cons by simp
    have whole: "tls_read_buf c @ concat pieces = frame_chunk d @ (concat (map frame_chunk ds') @ part)"
      using less.prems(3) Cons by simp
    show ?thesis
    proof (cases "length (frame_chunk d) \<le> length (tls_read_buf c)")
      case True
      define rest where "rest = drop (length (frame_chunk d)) (tls_read_buf c)"
      from append_split [OF whole True]
      have buf: "tls_read_buf c = frame_chunk d @ rest" and tl: "rest @ concat pieces = concat (map frame_chunk ds') @ part"
        unfolding rest_def by blast+
      have "tls_recv c (map Inr pieces) = (Some (Ok d), c\<lparr>tls_read_buf := rest\<rparr>, map Inr pieces)"
        using buffered_frame_chunk [OF d] buf by (cases pieces) simp_all
      moreover have "receives tls_recv (c\<lparr>tls_read_buf := rest\<rparr>) (map Inr pieces) (map Inr ds') (c\<lparr>tls_read_buf := part\<rparr>)"
        using less.hyps [of ds' pieces "c\<lparr>tls_read_buf := rest\<rparr>"] less.prems tl Cons by simp
      ultimately show ?thesis using Cons by (auto intro: receives.gets)
    next
      case False
      define cut where "cut = drop (length (tls_read_buf c)) (frame_chunk d)"
      have cut: "cut \<noteq> []" using False by (simp add: cut_def)
      from append_split [OF whole [symmetric]] False
      have start: "tls_read_buf c @ cut = frame_chunk d" unfolding cut_def by simp
      have "buffered_frame (tls_read_buf c) = Incomplete" by (rule buffered_frame_partial [OF d start cut])
      moreover have "pieces \<noteq> []" using whole False by (auto dest: arg_cong [where f = length])
      then obtain p ps where p: "pieces = p # ps" by (cases pieces) auto
      then obtain b bs where b: "p = b # bs" using less.prems(2) by (cases p) auto
      ultimately have step: "tls_recv c (map Inr pieces) = tls_recv (c\<lparr>tls_read_buf := tls_read_buf c @ p\<rparr>) (map Inr ps)"
        using p by simp
      have "receives tls_recv (c\<lparr>tls_read_buf := tls_read_buf c @ p\<rparr>) (map Inr ps) (map Inr ds) (c\<lparr>tls_read_buf := part\<rparr>)"
        using less.hyps [of ds ps "c\<lparr>tls_read_buf := tls_read_buf c @ p\<rparr>"] less.prems p by simp
      then show ?thesis
      proof (cases rule: receives.cases)
        case (waits rest)
        then show ?thesis using Cons by simp
      next
        case (gets r c1 rest rs)
        then show ?thesis using step receives.gets by metis
      qed
    qed
  qed
qed

lemma frames_cut:
  assumes "xs @ ys = concat (map frame_chunk ds)" and "\<forall>d\<in>set ds. length d \<le> MAX_FRAME"
  shows "\<exists>ds1 ds2 part. ds = ds1 @ ds2 \<and> xs = concat (map frame_chunk ds1) @ part
    \<and> buffered_frame part = Incomplete \<and> part @ ys = concat (map frame_chunk ds2)"
  using assms
proof (induction ds arbitrary: xs)
  case Nil
  then show ?case by (intro exI [of _ "[]"]) (simp add: buffered_frame_def)
next
  case (Cons d ds)
  have whole: "xs @ ys = frame_chunk d @ concat (map frame_chunk ds)" using Cons.prems(1) by simp
  show ?case
  proof (cases "length (frame_chunk d) \<le> length xs")
    case True
    from append_split [OF whole True] obtain zs where z: "xs = frame_chunk d @ zs" "zs @ ys = concat (map frame_chunk ds)"
      by blast
    from Cons.IH [OF z(2)] Cons.prems(2) obtain ds1 ds2 part where "ds = ds1 @ ds2"
      "zs = concat (map frame_chunk ds1) @ part" "buffered_frame part = Incomplete"
      "part @ ys = concat (map frame_chunk ds2)" by auto
    then show ?thesis using z by (intro exI [of _ "d # ds1"] exI [of _ ds2] exI [of _ part]) simp
  next
    case False
    from append_split [OF whole [symmetric]] False
    have s: "xs @ drop (length xs) (frame_chunk d) = frame_chunk d" by simp
    have "buffered_frame xs = Incomplete"
      by (rule buffered_frame_partial [OF _ s]) (use Cons.prems(2) False in auto)
    then show ?thesis using Cons.prems(1) by (intro exI [of _ "[]"] exI [of _ "d # ds"] exI [of _ xs]) simp
  qed
qed

lemma tls_receives_bursts:
  assumes "\<forall>d\<in>set ds. length d \<le> MAX_FRAME" and "\<forall>pieces\<in>set bursts. [] \<notin> set pieces"
    and "tls_read_buf c @ concat (concat bursts) = concat (map frame_chunk ds)"
    and "buffered_frame (tls_read_buf c) = Incomplete"
  shows "receives_bursts tls_recv c (map (map Inr) bursts) (map Inr ds) (c\<lparr>tls_read_buf := []\<rparr>)"
  using assms
proof (induction bursts arbitrary: c ds)
  case Nil
  then obtain ds1 ds2 part where "ds = ds1 @ ds2" "tls_read_buf c = concat (map frame_chunk ds1) @ part"
    "part = concat (map frame_chunk ds2)" using frames_cut [of "tls_read_buf c" "[]" ds] by auto
  have "ds = []"
  proof (cases ds)
    case (Cons d ds')
    then show ?thesis using Nil buffered_frame_chunk [of d "concat (map frame_chunk ds')"] by simp
  qed
  then have "c\<lparr>tls_read_buf := []\<rparr> = c" using Nil.prems(3) by simp
  then show ?case using \<open>ds = []\<close> receives_bursts.no_burst [of tls_recv c] by simp
next
  case (Cons pieces bursts)
  obtain ds1 ds2 part where ds: "ds = ds1 @ ds2"
    and xs: "tls_read_buf c @ concat pieces = concat (map frame_chunk ds1) @ part"
    and part: "buffered_frame part = Incomplete" "part @ concat (concat bursts) = concat (map frame_chunk ds2)"
    using frames_cut [of "tls_read_buf c @ concat pieces" "concat (concat bursts)" ds] Cons.prems by auto
  have "receives tls_recv c (map Inr pieces) (map Inr ds1) (c\<lparr>tls_read_buf := part\<rparr>)"
    by (rule tls_receives_frames) (use Cons.prems ds xs part in auto)
  moreover have "receives_bursts tls_recv (c\<lparr>tls_read_buf := part\<rparr>) (map (map Inr) bursts) (map Inr ds2) (c\<lparr>tls_read_buf := []\<rparr>)"
    using Cons.IH [of ds2 "c\<lparr>tls_read_buf := part\<rparr>"] Cons.prems ds part by simp
  ultimately show ?case using ds by (auto dest: receives_bursts.burst)
qed

section \<open>Properties\<close>

lemma tls_frames_survive_cancellation_facts:
  assumes "\<forall>d\<in>set ds. length d \<le> MAX_FRAME" and "\<forall>pieces\<in>set bursts. [] \<notin> set pieces"
    and "concat (concat bursts) = concat (map frame_chunk ds)" and "tls_read_buf c = []"
  shows "receives_bursts tls_recv c (map (map Inr) bursts) (map Inr ds) c"
    and "bursts \<noteq> [] \<Longrightarrow> receives_bursts tls_recv c (map (map Inr) bursts) rs c' \<Longrightarrow> rs = map Inr ds \<and> c' = c"
    and "MAX_FRAME < unat n \<Longrightarrow> tls_recv c (Inr (be32 n) # evs)
      = (Some (Err (Protocol (InvalidChunk ''frame too large''))), c\<lparr>tls_read_buf := be32 n, tls_alive := False\<rparr>, evs)"
proof -
  have e: "c\<lparr>tls_read_buf := []\<rparr> = c" using assms(4) by simp
  have buf: "tls_read_buf c @ concat (concat bursts) = concat (map frame_chunk ds)"
    unfolding assms(4) append_Nil by (rule assms(3))
  have inc: "buffered_frame (tls_read_buf c) = Incomplete" unfolding assms(4) by (simp add: buffered_frame_def)
  show r: "receives_bursts tls_recv c (map (map Inr) bursts) (map Inr ds) c"
    using tls_receives_bursts [OF assms(1,2) buf inc] unfolding e .
  show "rs = map Inr ds \<and> c' = c" if "bursts \<noteq> []" "receives_bursts tls_recv c (map (map Inr) bursts) rs c'"
    using receives_deterministic [OF tls.bursts_as_one [OF that(2)] tls.bursts_as_one [OF r]] that(1) by simp
  have big: "buffered_frame (be32 n) = TooLarge" if "MAX_FRAME < unat n"
    using that by (simp add: buffered_frame_def codec_simps Let_def del: to_be.simps)
  have ne: "\<exists>b bs. be32 n = b # bs" using length_to_be [of 4 n] by (cases "be32 n") auto
  show "tls_recv c (Inr (be32 n) # evs)
      = (Some (Err (Protocol (InvalidChunk ''frame too large''))), c\<lparr>tls_read_buf := be32 n, tls_alive := False\<rparr>, evs)"
    if "MAX_FRAME < unat n"
  proof -
    obtain b bs where b: "be32 n = b # bs" using ne by blast
    show ?thesis using big [OF that] assms(4) unfolding b
      by (cases evs) (simp_all add: buffered_frame_def [of "[]"])
  qed
qed

text \<open>C29. Frames of at most one MiB arrive in order, each as one message, however the stream cuts them
  into pieces and wherever the receiving future is dropped between pieces; the connection is then as
  it was. A length above one MiB is refused, and the connection no longer counts as alive.\<close>

theorem tls_frames_survive_cancellation:
  assumes "\<forall>d\<in>set ds. length d \<le> MAX_FRAME" and "\<forall>pieces\<in>set bursts. [] \<notin> set pieces"
    and "concat (concat bursts) = concat (map frame_chunk ds)" and "tls_read_buf c = []"
  shows "receives_bursts tls_recv c (map (map Inr) bursts) (map Inr ds) c \<and>
    (\<forall>rs c'. bursts \<noteq> [] \<and> receives_bursts tls_recv c (map (map Inr) bursts) rs c' \<longrightarrow> rs = map Inr ds \<and> c' = c) \<and>
    (\<forall>n evs. MAX_FRAME < unat n \<longrightarrow> tls_recv c (Inr (be32 n) # evs)
      = (Some (Err (Protocol (InvalidChunk ''frame too large''))), c\<lparr>tls_read_buf := be32 n, tls_alive := False\<rparr>, evs))"
  using tls_frames_survive_cancellation_facts [OF assms] by blast

definition demo_tls :: "unit tls_connection" where
  "demo_tls = \<lparr>tls_stream = (), tls_alive = True, tls_read_buf = []\<rparr>"

theorem tls_frames_survive_cancellation_witness:
  "receives_bursts tls_recv demo_tls
     [[Inr [0, 0]], [Inr [0, 2, 7], Inr [8, 0]], [Inr [0, 0, 1, 9]]] [Inr [7, 8], Inr [9]] demo_tls"
proof -
  have b: "be32 2 = [0, 0, 0, 2]" "be32 1 = [0, 0, 0, 1]" by code_simp+
  have "concat (concat [[[0, 0]], [[0, 2, 7], [8, 0]], [[0, 0, 1, 9]]]) = concat (map frame_chunk [[7, 8], [9]])"
    by (simp add: frame_chunk_def b)
  from tls_frames_survive_cancellation [OF _ _ this, of demo_tls] show ?thesis
    by (simp add: demo_tls_def MAX_FRAME_def)
qed

end
