(* ===== verification/Server_Entry.thy ===== *)
theory Server_Entry
  imports Tunnel_Handshake Transport_Tls
begin

text \<open>
  How a connection gets from the front door of the server into the tunnel: \<open>run\<close> of
  \<open>kanrin-server/src/session.rs\<close> on an admission request followed by tunnel frames, on the frames the
  client of \<open>kanrin-client/src/pipeline.rs\<close> sends, and what the peer of a handshake learns.
\<close>

section \<open>Reading an admission request off the tape\<close>

lemma read_head_prefix:
  assumes "request_head_parse req = Ok head" and "rh_raw head = req"
  shows "read_request_head (t\<lparr>tp_in := req @ rest\<rparr>) = (Ok head, t\<lparr>tp_in := rest\<rparr>)"
proof -
  obtain k where k: "find_head_end req = Some k" "length req \<le> MAX_HEAD_BYTES" "rh_raw head = take (k + 4) req"
    using assms(1) by (auto simp: request_head_parse_def Let_def and_then_Inr_iff split: if_splits option.splits list.splits)
  then have len: "k + 4 = length req"
    using find_head_end_Some(2) [OF k(1)] assms(2) by (metis le_antisym nat_le_linear take_all_iff)
  let ?buf = "take MAX_HEAD_BYTES (req @ rest)"
  have buf: "find_head_end ?buf = Some k"
    using k(1,2) find_window_append [of blank_line req k] by (simp add: find_head_end_def)
  have "request_head_parse ?buf = Ok head"
    using parse_take_head [OF buf] k(2) assms(1) by (simp add: len)
  then show ?thesis
    using read_head_found [OF buf, of t] by (simp add: read_request_head_def len)
qed

lemma run_front_admitted:
  assumes parse: "request_head_parse req = Ok head" "rh_raw head = req" "content_length head = None"
    and admit: "fst (admit C head now ad) = Tunnel" and room: "1 \<le> tp_room t"
  shows "run_front C site config now ad (t\<lparr>tp_in := req @ rest\<rparr>) =
    (Ok Tunnel, snd (admit C head now ad),
     t\<lparr>tp_in := rest, tp_out := tp_out t @ origin_respond site config head [], tp_room := tp_room t - 1\<rparr>)"
  using read_head_prefix [OF parse(1,2), of rest t] parse(3) admit room
  by (cases "admit C head now ad") (simp add: run_front_def read_body_def send_raw_def write_all_def Let_def)

section \<open>A client whose peer stays silent\<close>

text \<open>The TLS connection over a stream that takes every write and whose peer closes it without having sent
  anything; the state of the stream is what was written to it.\<close>

definition tls_unanswered :: "bytes tls_connection connection" where
  "tls_unanswered =
     \<lparr>cn_send = tls_send (\<lambda>bs out. (Ok (), out @ bs)) (\<lambda>out. (Ok (), out)),
      cn_recv = (\<lambda>c. case tls_recv c [Inr []] of (Some r, c', _) \<Rightarrow> (r, c') | (None, c', _) \<Rightarrow> (Err ConnectionClosed, c')),
      cn_close = (\<lambda>c. snd (tls_close (\<lambda>out. (Ok (), out)) c)),
      cn_is_alive = tls_is_alive\<rparr>"

definition tls_fresh :: "bytes tls_connection" where
  "tls_fresh = \<lparr>tls_stream = [], tls_alive = True, tls_read_buf = []\<rparr>"

text \<open>All that the client writes before it has received anything is the frame of its hello.\<close>

lemma client_writes_hello:
  assumes "client_hello_frame C ts crnd = Ok (hello, handshake)"
  shows "\<exists>e c. client_establish C tls_unanswered ts now crnd parse_ip cfg tls_fresh = (Err e, c) \<and> tls_stream c = frame_chunk hello"
  using assms by (simp add: client_establish_def tls_unanswered_def tls_fresh_def tls_send_def frame_chunk_def
      buffered_frame_def fail_with_def Let_def)

section \<open>Properties\<close>

text \<open>C12. From the front door into the tunnel: a connection that opens with a freshly minted admission
  request is answered with what the origin serves for that request, and everything after the request is
  then handled by \<open>run_tunnel\<close>, whatever the site behind the front door is.\<close>

theorem admitted_enters_tunnel:
  assumes "hmac_lawful C" and "head_text host target"
    and "length (admission_request host target (mint C nonce ts ad)) \<le> MAX_HEAD_BYTES"
    and "unat (abs_diff (now 0) ts) \<le> max_age_secs ad" and "\<forall>t'. (t', random_bytes_vec nonce 16) \<notin> set (ad_seen ad)"
    and "1 \<le> tp_room t"
  shows "\<exists>head ad'. rh_target head = target \<and>
    run C site config now clk rnd ip ad s (t\<lparr>tp_in := admission_request host target (mint C nonce ts ad) @ rest\<rparr>) =
      (case run_tunnel C (now 1) clk rnd (sc_password config) ip s
              (t\<lparr>tp_in := rest, tp_out := tp_out t @ origin_respond site config head [], tp_room := tp_room t - 1\<rparr>) of
         (r, s', t') \<Rightarrow> (r, ad', s', t'))"
proof -
  note tok = mint_token [OF assms(1)]
  obtain head where h: "request_head_parse (admission_request host target (mint C nonce ts ad)) = Ok head"
    "rh_method head = ''GET''" "rh_target head = target" "rh_raw head = admission_request host target (mint C nonce ts ad)"
    "rh_header head ''cookie'' = Some (''sid='' @ mint C nonce ts ad)" "content_length head = None"
    by (rule admission_request_parse [OF assms(2) tok(1,2) assms(3)])
  have "fst (admit C head (now 0) ad) = Tunnel"
    using tok(3) [OF h(5)] assms(4,5) by (auto simp: admit_Tunnel_iff)
  from run_front_admitted [OF h(1,4,6) this assms(6), of site config rest] show ?thesis
    using h(3) by (intro exI [of _ head] exI [of _ "snd (admit C head (now 0) ad)"])
      (simp add: run_def split: prod.split)
qed

text \<open>C20. The client of this repository never gets that far. Let it establish a session over TLS with a peer
  that has not sent anything yet: what it writes is the frame of its hello and no admission request, and it
  waits for an answer. Unless that frame happens to contain a blank line, the server that reads those
  bytes takes them for an unfinished request and waits for the rest; when the stream ends it has written
  nothing, admitted nothing and committed nothing, and both sides end with an error.\<close>

theorem client_hello_unanswered:
  assumes "client_hello_frame C ts crnd = Ok (hello, handshake)"
    and "find_head_end (take MAX_HEAD_BYTES (frame_chunk hello)) = None"
    and "client_establish C tls_unanswered ts cnow crnd parse_ip cfg tls_fresh = (result, connection)"
    and "tp_in t = tls_stream connection"
  shows "\<exists>e e' t'. run C site config now clk rnd ip ad s t = (Err e, ad, s, t') \<and> tp_out t' = tp_out t \<and>
    tls_stream connection = frame_chunk hello \<and> result = Err e'"
proof -
  obtain e' where client: "result = Err e'" "tls_stream connection = frame_chunk hello"
    using client_writes_hello [OF assms(1), of cnow parse_ip cfg] assms(3) by auto
  have "t\<lparr>tp_in := frame_chunk hello\<rparr> = t" using assms(4) client(2) by simp
  with read_head_missing [OF assms(2), of t] client show ?thesis
    by (auto simp: run_def run_front_def read_request_head_def split: if_splits)
qed

text \<open>C21. The peer learns the password: whoever answers the client's hello, without knowing any secret,
  reads the client's password out of the message that authenticates it.\<close>

theorem peer_learns_password:
  assumes C: "aead_lawful C" "dh_lawful C" "hkdf_lawful C"
    and clock: "unat now \<le> unat ts + 30" "unat ts \<le> unat now + 30" and p: "length p \<le> 65505"
  shows "\<exists>hello handshake reply keys auth f.
    client_hello_frame C ts crnd = Ok (hello, handshake) \<and> accept_hello C now rnd hello = Ok (reply, keys) \<and>
    client_auth_frame C crnd p handshake reply = Ok (keys, auth) \<and>
    and_then (decode_encrypted C auth (client_write_key keys) zero_nonce) (client_finished_decode \<circ> payload) = Ok f \<and>
    decrypt C (client_write_key keys) (take 12 (encrypted_auth f)) (drop 12 (encrypted_auth f)) (as_bytes ''kanrin-auth'') =
      Ok (as_bytes p)"
proof -
  obtain hello handshake reply keys server_hello h where hello: "client_hello_frame C ts crnd = Ok (hello, handshake)"
    "length hello = 102" "header_decode (take HEADER_SIZE hello) = Ok (h, [])" "chunk_type h = Handshake"
    "accept_hello C now rnd hello = Ok (reply, keys)" "length reply = 127"
    and parsed: "decode_encrypted C reply zero_key zero_nonce = Ok (new_handshake (server_hello_encode server_hello))"
    "server_hello_decode (server_hello_encode server_hello) = Ok server_hello"
    "fst (process_server_hello C server_hello handshake) = Ok keys" and wf: "session_keys_wf keys"
    by (rule hello_exchange [OF C clock, of crnd rnd])
  obtain auth where auth: "client_auth_frame C crnd p handshake reply = Ok (keys, auth)" "length auth = 59 + length p"
    "\<forall>q. accept_auth C q keys auth = Ok (verdict (p = q))"
    by (rule auth_exchange [OF C(1) wf p parsed, of crnd])
  have "accept_auth C p keys auth = Ok AuthOk" using auth(3) by (simp add: verdict_def)
  then obtain f where "and_then (decode_encrypted C auth (client_write_key keys) zero_nonce) (client_finished_decode \<circ> payload) = Ok f"
    "verify_auth C f keys p = Ok AuthOk"
    by (auto simp: accept_auth_def context_err_def map_err_def and_then_Inr_iff split: sum.splits)
  moreover from this(2) have "decrypt C (client_write_key keys) (take 12 (encrypted_auth f)) (drop 12 (encrypted_auth f))
      (as_bytes ''kanrin-auth'') = Ok (as_bytes p)"
    by (auto simp: verify_auth_def Let_def split: if_splits sum.splits)
  ultimately show ?thesis using hello(1,5) auth(1) by blast
qed

theorem peer_learns_password_witness:
  "\<exists>hello handshake reply keys auth f.
    client_hello_frame demo_crypto 1000 (\<lambda>_ _. 1) = Ok (hello, handshake) \<and>
    client_auth_frame demo_crypto (\<lambda>_ _. 1) ''secret'' handshake reply = Ok (keys, auth) \<and>
    decrypt demo_crypto (client_write_key (keys :: session_keys)) (take 12 (encrypted_auth f)) (drop 12 (encrypted_auth (f :: client_finished)))
      (as_bytes ''kanrin-auth'') = Ok (as_bytes ''secret'')"
proof -
  have "unat (1020 :: u64) \<le> unat (1000 :: u64) + 30" "unat (1000 :: u64) \<le> unat (1020 :: u64) + 30"
    "length ''secret'' \<le> 65505" by simp_all
  from peer_learns_password [OF demo_aead_lawful demo_dh_lawful demo_hkdf_lawful this, of "\<lambda>_ _. 1" "\<lambda>_ _. 3"]
  show ?thesis by blast
qed

lemma no_blank_line: "0x0D \<notin> set bs \<Longrightarrow> find_head_end bs = None"
  unfolding find_head_end_def by (induction bs) auto

lemma demo_hello:
  obtains hello handshake where "client_hello_frame demo_crypto 1000 (\<lambda>_ _. 1) = Ok (hello, handshake)"
    and "0x0D \<notin> set (frame_chunk hello)"
proof -
  have rnd: "random_bytes_vec (\<lambda>_. 1) n = replicate n 1" for n by (simp add: random_bytes_vec_def map_replicate_const)
  have be: "be32 102 = [0, 0, 0, 102]" "be64 0 = [0, 0, 0, 0, 0, 0, 0, 0]" "be16 73 = [0, 73]"
    "be64 1000 = [0, 0, 0, 0, 0, 0, 3, 232]"
    by code_simp+
  show thesis
  proof (rule that)
    show "client_hello_frame demo_crypto 1000 (\<lambda>_ _. 1) = Ok (header_encode (header (chunk_new Handshake (1 # replicate 32 1 @ be64 1000 @ replicate 32 1) 0)) @
        (1 # replicate 32 1 @ be64 1000 @ replicate 32 1) @ replicate 16 0, client_handshake_new demo_crypto (\<lambda>_. 1))"
      by (simp add: client_hello_frame_def client_handshake_new_def create_client_hello_def encode_encrypted_def encrypt_def
          key_pair_generate_def fail_with_def Let_def KEY_SIZE_def zero_key_def rnd new_handshake_def chunk_new_def
          client_hello_encode_def demo_tag_def zero_nonce_def PROTOCOL_VERSION_def)
    show "0x0D \<notin> set (frame_chunk (header_encode (header (chunk_new Handshake (1 # replicate 32 1 @ be64 1000 @ replicate 32 1) 0)) @
        (1 # replicate 32 1 @ be64 1000 @ replicate 32 1) @ replicate 16 0))"
      by (simp add: frame_chunk_def header_encode_def chunk_new_def PROTOCOL_VERSION_def HEADER_SIZE_def be)
  qed
qed

definition demo_site :: site where
  "demo_site = \<lparr>site_upstream = (\<lambda>_ _. Inl ''refused''), site_files = (\<lambda>_. None), site_is_dir = (\<lambda>_. False)\<rparr>"

definition demo_config :: server_config where
  "demo_config = \<lparr>sc_listen = default_listen, sc_password = ''pw'', sc_tls_cert = [], sc_tls_key = [],
     sc_max_clients = default_max_clients, sc_log_level = default_log_level, sc_subnet = default_subnet, sc_dns = default_dns,
     sc_upstream = None, sc_site_root = None, sc_server_banner = default_server_banner\<rparr>"

theorem client_hello_unanswered_witness:
  "\<exists>connection e e' t'. client_establish demo_crypto tls_unanswered 1000 0 (\<lambda>_ _. 1) (\<lambda>_. None) (minimal ''h'' 443 ''pw'') tls_fresh =
       (Err e', connection) \<and> tls_stream connection \<noteq> [] \<and>
     run demo_crypto demo_site demo_config (\<lambda>_. 1000) 0 (\<lambda>_ _. 3) 0x0A0A0002 demo_admitter (server_init 8)
       \<lparr>tp_in = tls_stream connection, tp_out = [], tp_room = 9\<rparr> = (Err e, demo_admitter, server_init 8, t') \<and> tp_out t' = []"
proof -
  obtain hello handshake where h: "client_hello_frame demo_crypto 1000 (\<lambda>_ _. 1) = Ok (hello, handshake)"
    "0x0D \<notin> set (frame_chunk hello)"
    by (rule demo_hello)
  have "0x0D \<notin> set (take MAX_HEAD_BYTES (frame_chunk hello))" using h(2) by (meson in_set_takeD)
  note none = no_blank_line [OF this]
  obtain result connection where est: "client_establish demo_crypto tls_unanswered 1000 0 (\<lambda>_ _. 1) (\<lambda>_. None)
      (minimal ''h'' 443 ''pw'') tls_fresh = (result, connection)"
    by fastforce
  have "length (frame_chunk hello) > 0" by (simp add: frame_chunk_def)
  then have "frame_chunk hello \<noteq> []" by simp
  with client_hello_unanswered [OF h(1) none est, of "\<lparr>tp_in = tls_stream connection, tp_out = [], tp_room = 9\<rparr>"
      demo_site demo_config "\<lambda>_. 1000" 0 "\<lambda>_ _. 3" "0x0A0A0002" demo_admitter "server_init 8"] est
  show ?thesis by auto
qed

theorem admitted_enters_tunnel_witness:
  "\<exists>ad' r s' t'. run demo_crypto demo_site demo_config (\<lambda>_. 1000) 0 (\<lambda>_ _. 3) 0x0A0A0002 demo_admitter (server_init 8)
       \<lparr>tp_in = demo_request @ [1, 2], tp_out = [], tp_room = 9\<rparr> = (r, ad', s', t') \<and> r = Err ''early eof'' \<and> tp_room t' = 8"
proof -
  have age: "unat (abs_diff (1000 :: u64) 1000) \<le> max_age_secs demo_admitter" "1 \<le> tp_room \<lparr>tp_in = [], tp_out = [], tp_room = 9\<rparr>"
    by (simp_all add: unat_abs_diff demo_admitter_simps)
  have seen: "\<forall>t'. (t', random_bytes_vec (\<lambda>_. 7) 16) \<notin> set (ad_seen demo_admitter)" by (simp add: demo_admitter_simps)
  have "run_tunnel demo_crypto 1000 0 (\<lambda>_ _. 3) ''pw'' 0x0A0A0002 (server_init 8) \<lparr>tp_in = [1, 2], tp_out = out, tp_room = 8\<rparr> =
      (Err ''early eof'', server_init 8, \<lparr>tp_in = [], tp_out = out, tp_room = 8\<rparr>)" for out
    by (simp add: run_tunnel_def recv_frame_def read_exact_def)
  moreover have "sc_password demo_config = ''pw''" by (simp add: demo_config_def)
  ultimately show ?thesis
    using admitted_enters_tunnel [OF demo_hmac_lawful demo_head_text demo_request_length [unfolded demo_request_def], of "\<lambda>_. 1000",
      OF age(1) seen age(2), of demo_site demo_config 0 "\<lambda>_ _. 3" "0x0A0A0002" "server_init 8" "[1, 2]", folded demo_request_def]
    by (auto simp only: tape.simps append_Nil) simp
qed

end
