(* ===== verification/Routing.thy ===== *)
theory Routing
  imports Transport Std_Strings Tun_Dns
begin

text \<open>
  Routing decisions, \<open>kanrin-routing\<close>: the rule engine and its four kinds of rule (\<open>rules.rs\<close>), the
  preset (\<open>iran.rs\<close>), the country database with its binary search (\<open>geoip.rs\<close>), and the detection of a socket's process
  (\<open>process.rs\<close>). A rule is
  the record of its trait methods.
\<close>

section \<open>Rules\<close>

datatype route_decision = Proxy | Direct | Block

datatype route_protocol = RouteTcp | RouteUdp | RouteIcmp | RouteOther u8

record routing_context =
  rx_src_ip :: ip_addr
  rx_dst_ip :: ip_addr
  rx_dst_port :: u16
  rx_domain :: "string option"
  rx_protocol :: route_protocol
  rx_process_name :: "string option"
  rx_process_path :: "string option"

record routing_rule =
  rl_matches :: "routing_context \<Rightarrow> bool"
  rl_decision :: route_decision
  rl_priority :: u32
  rl_name :: string

record routing_engine =
  re_rules :: "routing_rule list"
  re_default :: route_decision

definition routing_engine_new :: "route_decision \<Rightarrow> routing_engine" where
  "routing_engine_new default_decision = \<lparr>re_rules = [], re_default = default_decision\<rparr>"

definition add_rule :: "routing_rule \<Rightarrow> routing_engine \<Rightarrow> routing_engine" where
  "add_rule rule e = e\<lparr>re_rules := push_sort_by_key rl_priority rule (re_rules e)\<rparr>"

fun decide_rules :: "routing_rule list \<Rightarrow> routing_context \<Rightarrow> route_decision \<Rightarrow> route_decision" where
  "decide_rules [] ctx dflt = dflt"
| "decide_rules (rule # rules) ctx dflt =
     (if rl_matches rule ctx then rl_decision rule else decide_rules rules ctx dflt)"

definition decide :: "routing_context \<Rightarrow> routing_engine \<Rightarrow> route_decision" where
  "decide ctx e = decide_rules (re_rules e) ctx (re_default e)"

definition rule_count :: "routing_engine \<Rightarrow> nat" where
  "rule_count e = length (re_rules e)"

section \<open>Kinds of rule\<close>

text \<open>\<open>ends_with\<close>.\<close>

definition ends_with :: "string \<Rightarrow> string \<Rightarrow> bool" where
  "ends_with s suffix \<longleftrightarrow> length suffix \<le> length s \<and> drop (length s - length suffix) s = suffix"

definition domain_matches :: "string \<Rightarrow> routing_context \<Rightarrow> bool" where
  "domain_matches pattern ctx =
     (case rx_domain ctx of
        None \<Rightarrow> False
      | Some domain \<Rightarrow>
          if take 2 pattern = ''*.''
          then let suffix = drop 1 pattern in ends_with domain suffix \<or> domain = drop 2 pattern
          else domain = pattern)"

definition domain_rule :: "string \<Rightarrow> route_decision \<Rightarrow> u32 \<Rightarrow> routing_rule" where
  "domain_rule pattern decision priority =
     \<lparr>rl_matches = domain_matches pattern, rl_decision = decision, rl_priority = priority, rl_name = pattern\<rparr>"

definition prefix_mask :: "u8 \<Rightarrow> 'a::len word" where
  "prefix_mask prefix_len =
     (if unat prefix_len \<ge> LENGTH('a) then - 1 else push_bit (LENGTH('a) - unat prefix_len) (- 1))"

fun ip_in_cidr :: "ip_addr \<Rightarrow> ip_addr \<Rightarrow> u8 \<Rightarrow> bool" where
  "ip_in_cidr (IPv4 ip) (IPv4 net) prefix_len \<longleftrightarrow> ip AND prefix_mask prefix_len = net AND prefix_mask prefix_len"
| "ip_in_cidr (IPv6 ip) (IPv6 net) prefix_len \<longleftrightarrow> ip AND prefix_mask prefix_len = net AND prefix_mask prefix_len"
| "ip_in_cidr _ _ _ \<longleftrightarrow> False"

definition ip_rule :: "ip_addr \<Rightarrow> u8 \<Rightarrow> route_decision \<Rightarrow> u32 \<Rightarrow> string \<Rightarrow> routing_rule" where
  "ip_rule network prefix_len decision priority label =
     \<lparr>rl_matches = (\<lambda>ctx. ip_in_cidr (rx_dst_ip ctx) network prefix_len), rl_decision = decision,
      rl_priority = priority, rl_name = label\<rparr>"

definition port_rule :: "u16 list \<Rightarrow> route_decision \<Rightarrow> u32 \<Rightarrow> string \<Rightarrow> routing_rule" where
  "port_rule ports decision priority label =
     \<lparr>rl_matches = (\<lambda>ctx. rx_dst_port ctx \<in> set ports), rl_decision = decision,
      rl_priority = priority, rl_name = label\<rparr>"

definition process_rule :: "string list \<Rightarrow> route_decision \<Rightarrow> u32 \<Rightarrow> string \<Rightarrow> routing_rule" where
  "process_rule names decision priority label =
     \<lparr>rl_matches = (\<lambda>ctx. case rx_process_name ctx of
                             Some name \<Rightarrow> list_ex (\<lambda>p. eq_ignore_ascii_case name p) names
                           | None \<Rightarrow> False),
      rl_decision = decision, rl_priority = priority, rl_name = label\<rparr>"

section \<open>The preset\<close>

definition iran_domains :: "string list" where
  "iran_domains =
     [''*.digikala.com'', ''*.divar.ir'', ''*.snapp.ir'', ''*.shaparak.ir'', ''*.bmi.ir'', ''*.mellat.ir'',
      ''*.parsian-bank.ir'', ''*.bpi.ir'', ''*.bankmelli-iran.com'', ''*.irancell.ir'', ''*.mci.ir'',
      ''*.aparat.com'', ''*.filimo.com'', ''*.namava.ir'', ''*.telewebion.com'', ''*.varzesh3.com'',
      ''*.zoomit.ir'', ''*.cafebazaar.ir'', ''*.myket.ir'']"

definition private_ranges :: "(string \<times> u32) list" where
  "private_ranges = [(''*.local'', 200), (''*.localhost'', 201), (''*.lan'', 202)]"

definition load_iran_preset :: "routing_engine \<Rightarrow> routing_engine" where
  "load_iran_preset e =
     (let e1 = add_rule (domain_rule ''*.ir'' Direct 100) e;
          e2 = fold (\<lambda>(i, domain). add_rule (domain_rule domain Direct (101 + word_of_nat i)))
                 (enumerate 0 iran_domains) e1
      in fold (\<lambda>(pattern, priority). add_rule (domain_rule pattern Direct priority)) private_ranges e2)"

definition iran_ip_ranges :: "(u32 \<times> u8) list" where
  "iran_ip_ranges =
     [(0x02900000, 14), (0x05160000, 17), (0x05340000, 15), (0x1F380000, 14), (0x25200000, 14),
      (0x2ED10000, 16), (0x4D518000, 18), (0x5B5CC000, 18), (0xB9040000, 22), (0xD9DA0000, 15)]"

section \<open>Countries\<close>

type_synonym country_code = "u8 \<times> u8"

definition byte_upper :: "u8 \<Rightarrow> u8" where
  "byte_upper b = (if 97 \<le> b \<and> b \<le> 122 then b - 32 else b)"

definition country_new :: "string \<Rightarrow> country_code option" where
  "country_new code =
     (if length code \<noteq> 2 then None
      else let bs = as_bytes code in Some (byte_upper (bs ! 0), byte_upper (bs ! 1)))"

definition country_as_str :: "country_code \<Rightarrow> string" where
  "country_as_str c = (case from_utf8 [fst c, snd c] of Some s \<Rightarrow> s | None \<Rightarrow> ''??'')"

definition country_iran :: country_code where "country_iran = (73, 82)"

record ipv4_range =
  ir_start :: u32
  ir_end :: u32
  ir_country :: country_code

type_synonym geoip_database = "ipv4_range list"

definition add_ipv4_range :: "u32 \<Rightarrow> u8 \<Rightarrow> country_code \<Rightarrow> geoip_database \<Rightarrow> geoip_database" where
  "add_ipv4_range network prefix_len country db =
     (let mask = prefix_mask prefix_len; start = network AND mask; last = start OR NOT mask
      in db @ [\<lparr>ir_start = start, ir_end = last, ir_country = country\<rparr>])"

definition finalize :: "geoip_database \<Rightarrow> geoip_database" where
  "finalize db = sort_key ir_start db"

text \<open>The standard library's \<open>partition_point\<close>, a binary search on the half-open interval from \<open>lo\<close> to \<open>hi\<close>.\<close>

function partition_from :: "('a \<Rightarrow> bool) \<Rightarrow> 'a list \<Rightarrow> nat \<Rightarrow> nat \<Rightarrow> nat" where
  "partition_from P xs lo hi =
     (if lo \<ge> hi then lo
      else let mid = (lo + hi) div 2 in
        if P (xs ! mid) then partition_from P xs (mid + 1) hi else partition_from P xs lo mid)"
  by pat_completeness auto

termination
  by (relation "measure (\<lambda>(P, xs, lo, hi). hi - lo)") auto

declare partition_from.simps [simp del]

definition partition_point :: "('a \<Rightarrow> bool) \<Rightarrow> 'a list \<Rightarrow> nat" where
  "partition_point P xs = partition_from P xs 0 (length xs)"

definition geoip_lookup :: "ip_addr \<Rightarrow> geoip_database \<Rightarrow> country_code option" where
  "geoip_lookup ip db =
     (case ip of
        IPv4 ip_num \<Rightarrow>
          let idx = partition_point (\<lambda>r. ir_start r \<le> ip_num) db in
          if idx = 0 then None
          else let range = db ! (idx - 1) in
            if ip_num \<ge> ir_start range \<and> ip_num \<le> ir_end range then Some (ir_country range) else None
      | IPv6 _ \<Rightarrow> None)"

definition is_country :: "ip_addr \<Rightarrow> country_code \<Rightarrow> geoip_database \<Rightarrow> bool" where
  "is_country ip country db \<longleftrightarrow> geoip_lookup ip db = Some country"

section \<open>The engine keeps its rules in priority order\<close>

interpretation rules: priority_registry "push_sort_by_key rl_priority" rl_priority
  by unfold_locales (simp_all add: push_sort_stable)

lemma decide_rules_find:
  "decide_rules rs ctx dflt = (case find (\<lambda>r. rl_matches r ctx) rs of Some r \<Rightarrow> rl_decision r | None \<Rightarrow> dflt)"
  by (induction rs) auto

lemma add_rules: "re_rules (fold add_rule rs (routing_engine_new d)) = rules.registered_all rs"
  "re_default (fold add_rule rs (routing_engine_new d)) = d"
  by (induction rs rule: rev_induct) (simp_all add: rules.registered_all_def add_rule_def routing_engine_new_def)

text \<open>Whatever order rules were added in, the decision is that of the matching rule with the lowest
  priority value, the first added among equals, and the default when no rule matches.\<close>

lemma decide_best:
  "decide ctx (fold add_rule rs (routing_engine_new d)) =
     (case lowest rl_priority (\<lambda>r. rl_matches r ctx) rs of Some r \<Rightarrow> rl_decision r | None \<Rightarrow> d)"
  using rules.find_registered_all [of "\<lambda>r. rl_matches r ctx" rs] lowest_best [OF rules.priority_registry_axioms, of "\<lambda>r. rl_matches r ctx" rs]
  by (simp add: decide_def decide_rules_find add_rules)

section \<open>Binary search\<close>

lemma partition_from_spec:
  assumes "lo \<le> hi" and "hi \<le> length xs"
    and "\<forall>i j. i < j \<and> j < length xs \<and> P (xs ! j) \<longrightarrow> P (xs ! i)"
    and "\<And>i. i < lo \<Longrightarrow> P (xs ! i)" and "\<And>i. hi \<le> i \<Longrightarrow> i < length xs \<Longrightarrow> \<not> P (xs ! i)"
  shows "partition_from P xs lo hi \<le> length xs \<and>
    (\<forall>i < partition_from P xs lo hi. P (xs ! i)) \<and>
    (\<forall>i. partition_from P xs lo hi \<le> i \<and> i < length xs \<longrightarrow> \<not> P (xs ! i))"
  using assms
proof (induction P xs lo hi rule: partition_from.induct)
  case (1 P xs lo hi)
  show ?case
  proof (cases "lo \<ge> hi")
    case True
    then have "lo = hi" using 1(3) by simp
    moreover have "partition_from P xs lo hi = lo" using True by (simp add: partition_from.simps [of P xs lo hi])
    ultimately show ?thesis using 1(4-7) by auto
  next
    case False
    let ?mid = "(lo + hi) div 2"
    have m: "lo \<le> ?mid" "?mid < hi" using False by simp_all
    show ?thesis
    proof (cases "P (xs ! ?mid)")
      case True
      have pre: "P (xs ! i)" if i: "i < ?mid + 1" for i
      proof (cases "i = ?mid")
        case False
        then have "i < ?mid \<and> ?mid < length xs \<and> P (xs ! ?mid)" using i True m 1(4) by simp
        then show ?thesis using 1(5) by blast
      qed (use True in simp)
      have "partition_from P xs lo hi = partition_from P xs (?mid + 1) hi"
        using False True by (simp add: partition_from.simps [of P xs lo hi] Let_def)
      moreover have "?mid + 1 \<le> hi" using m(2) by simp
      ultimately show ?thesis using 1(1) [OF False refl True _ 1(4,5) pre 1(7)] by simp
    next
      case no: False
      have post: "\<not> P (xs ! i)" if i: "?mid \<le> i" "i < length xs" for i
      proof (cases "i = ?mid")
        case False
        then have "?mid < i" using i by simp
        then show ?thesis using 1(5) no i(2) by blast
      qed (use no in simp)
      have "partition_from P xs lo hi = partition_from P xs lo ?mid"
        using False no by (simp add: partition_from.simps [of P xs lo hi] Let_def)
      moreover have "?mid \<le> length xs" using m(2) 1(4) by simp
      ultimately show ?thesis using 1(2) [OF False refl no m(1) _ 1(5,6) post] by simp
    qed
  qed
qed

lemma partition_point_spec:
  assumes "\<forall>i j. i < j \<and> j < length xs \<and> P (xs ! j) \<longrightarrow> P (xs ! i)"
  shows "partition_point P xs \<le> length xs" and "\<forall>i < partition_point P xs. P (xs ! i)"
    and "\<forall>i. partition_point P xs \<le> i \<and> i < length xs \<longrightarrow> \<not> P (xs ! i)"
  using partition_from_spec [of 0 "length xs" xs P] assms by (simp_all add: partition_point_def)

text \<open>Looking a country up in a finalized database of disjoint ranges finds the range that holds the
  address.\<close>

definition disjoint_ranges :: "geoip_database \<Rightarrow> bool" where
  "disjoint_ranges db \<longleftrightarrow> (\<forall>r\<in>set db. ir_start r \<le> ir_end r) \<and>
     (\<forall>r\<in>set db. \<forall>q\<in>set db. r \<noteq> q \<longrightarrow> ir_end r < ir_start q \<or> ir_end q < ir_start r)"

lemma geoip_lookup_range:
  assumes sorted: "sorted (map ir_start db)" and disj: "disjoint_ranges db"
  shows "geoip_lookup (IPv4 ip) db = Some c \<longleftrightarrow> (\<exists>r\<in>set db. ir_start r \<le> ip \<and> ip \<le> ir_end r \<and> ir_country r = c)"
proof -
  let ?P = "\<lambda>r. ir_start r \<le> ip" and ?idx = "partition_point (\<lambda>r. ir_start r \<le> ip) db"
  have "\<forall>i j. i < j \<and> j < length db \<and> ?P (db ! j) \<longrightarrow> ?P (db ! i)"
  proof (intro allI impI)
    fix i j assume "i < j \<and> j < length db \<and> ?P (db ! j)"
    then show "?P (db ! i)" using sorted_nth_mono [OF sorted, of i j] by (auto intro: order_trans)
  qed
  note pp = partition_point_spec [OF this]
  show ?thesis
  proof
    assume "geoip_lookup (IPv4 ip) db = Some c"
    then have "?idx \<noteq> 0" "ir_start (db ! (?idx - 1)) \<le> ip" "ip \<le> ir_end (db ! (?idx - 1))" "ir_country (db ! (?idx - 1)) = c"
      by (auto simp: geoip_lookup_def Let_def split: if_splits)
    moreover have "db ! (?idx - 1) \<in> set db" using calculation(1) pp(1) by (intro nth_mem) simp
    ultimately show "\<exists>r\<in>set db. ir_start r \<le> ip \<and> ip \<le> ir_end r \<and> ir_country r = c" by blast
  next
    assume "\<exists>r\<in>set db. ir_start r \<le> ip \<and> ip \<le> ir_end r \<and> ir_country r = c"
    then obtain k where k: "k < length db" "ir_start (db ! k) \<le> ip" "ip \<le> ir_end (db ! k)" "ir_country (db ! k) = c"
      by (metis in_set_conv_nth)
    have "k < ?idx" using pp(3) k(1,2) by (meson not_le)
    then have last: "?idx \<noteq> 0" "?P (db ! (?idx - 1))" "?idx - 1 < length db" "k \<le> ?idx - 1" using pp(1,2) by auto
    have "db ! k = db ! (?idx - 1)"
    proof (rule ccontr)
      assume "db ! k \<noteq> db ! (?idx - 1)"
      then have "ir_end (db ! k) < ir_start (db ! (?idx - 1)) \<or> ir_end (db ! (?idx - 1)) < ir_start (db ! k)"
        using disj k(1) last(3) by (simp add: disjoint_ranges_def)
      moreover have "ir_start (db ! k) \<le> ir_start (db ! (?idx - 1))"
        using sorted_nth_mono [OF sorted, of k "?idx - 1"] last k(1) by simp
      moreover have "ir_start (db ! (?idx - 1)) \<le> ir_end (db ! (?idx - 1))"
        using disj last(3) by (simp add: disjoint_ranges_def)
      ultimately show False using last(2) k(3) by (meson le_less_trans less_irrefl order_trans)
    qed
    then show "geoip_lookup (IPv4 ip) db = Some c" using k last(1) by (simp add: geoip_lookup_def Let_def)
  qed
qed

section \<open>The process that owns a socket\<close>

record process_info =
  pi_pid :: u32
  pi_name :: string
  pi_path :: "string option"

text \<open>The body is the same on every platform: nothing is looked up yet.\<close>

definition native_detect :: "'addr \<Rightarrow> process_info option" where
  "native_detect local_addr = None"

text \<open>So a rule for a process decides nothing about a connection whose process was looked up.\<close>

lemma process_rule_never_decides:
  "rx_process_name ctx = map_option pi_name (native_detect local_addr) \<Longrightarrow>
    \<not> rl_matches (process_rule names d priority label) ctx"
  by (simp add: process_rule_def native_detect_def)

end
