(* ===== verification/Engine_Discovery.thy ===== *)
theory Engine_Discovery
  imports Transport
begin

text \<open>
  How the client learns about its network: the bootstrap methods of \<open>kanrin-engine/src/bootstrap.rs\<close> and
  the censorship detection of \<open>kanrin-engine/src/detection.rs\<close>. What sockets and the resolver answer are
  parameters.
\<close>

section \<open>Bootstrap\<close>

datatype bootstrap_error = DiscoveryFailed string | NoEndpoints | NetworkError string

fun display_bootstrap_error :: "bootstrap_error \<Rightarrow> string" where
  "display_bootstrap_error (DiscoveryFailed s) = ''discovery failed: '' @ s"
| "display_bootstrap_error NoEndpoints = ''no endpoints found''"
| "display_bootstrap_error (NetworkError s) = ''network error: '' @ s"

record bootstrap_method =
  bm_name :: string
  bm_discover :: "bootstrap_error + endpoint list"

definition hardcoded_bootstrap :: "endpoint list \<Rightarrow> bootstrap_method" where
  "hardcoded_bootstrap endpoints =
     \<lparr>bm_name = ''hardcoded'', bm_discover = (if endpoints = [] then Err NoEndpoints else Ok endpoints)\<rparr>"

definition admiral_bootstrap :: "string \<Rightarrow> string \<Rightarrow> bootstrap_method" where
  "admiral_bootstrap api_url auth_token =
     \<lparr>bm_name = ''admiral'', bm_discover = Err (DiscoveryFailed ''not implemented yet'')\<rparr>"

definition add_method :: "bootstrap_method \<Rightarrow> bootstrap_method list \<Rightarrow> bootstrap_method list" where
  "add_method m methods = methods @ [m]"

fun discover_from :: "bootstrap_method list \<Rightarrow> bootstrap_error option \<Rightarrow> bootstrap_error + endpoint list" where
  "discover_from [] last_error = Err (case last_error of Some e \<Rightarrow> e | None \<Rightarrow> NoEndpoints)"
| "discover_from (m # methods) last_error =
     (case bm_discover m of
        Inr endpoints \<Rightarrow> (if endpoints \<noteq> [] then Ok endpoints else discover_from methods (Some NoEndpoints))
      | Inl e \<Rightarrow> discover_from methods (Some e))"

definition discover :: "bootstrap_method list \<Rightarrow> bootstrap_error + endpoint list" where
  "discover methods = discover_from methods None"

section \<open>Censorship detection\<close>

datatype censorship_state =
    NoCensorship
  | UdpBlocked
  | SniFiltering
  | IpBlocked
  | DpiActive
  | DnsPoisoned
  | TotalShutdown
  | UnknownCensorship

fun debug_censorship :: "censorship_state \<Rightarrow> string" where
  "debug_censorship NoCensorship = ''None''"
| "debug_censorship UdpBlocked = ''UdpBlocked''"
| "debug_censorship SniFiltering = ''SniFiltering''"
| "debug_censorship IpBlocked = ''IpBlocked''"
| "debug_censorship DpiActive = ''DpiActive''"
| "debug_censorship DnsPoisoned = ''DnsPoisoned''"
| "debug_censorship TotalShutdown = ''TotalShutdown''"
| "debug_censorship UnknownCensorship = ''Unknown''"

record detection_result =
  dr_state :: censorship_state
  dr_udp_available :: bool
  dr_tcp_available :: bool
  dr_dns_clean :: bool
  dr_details :: string

record network_detector =
  nd_quic_test_endpoint :: string
  nd_tls_test_endpoint :: string
  nd_test_timeout :: duration

definition network_detector_new :: network_detector where
  "network_detector_new =
     \<lparr>nd_quic_test_endpoint = ''1.1.1.1:443'', nd_tls_test_endpoint = ''1.1.1.1:443'', nd_test_timeout = from_secs 5\<rparr>"

text \<open>The network as the tests see it. A socket is bound, connected to an address and written to, each of
  which may fail; an operation under a time out that elapses is \<open>None\<close>.\<close>

record probe_net =
  pn_bind :: "nat \<Rightarrow> bool"
  pn_connect :: "string \<Rightarrow> bool"
  pn_send :: "string \<Rightarrow> bytes \<Rightarrow> bool"
  pn_recv :: "string \<Rightarrow> duration \<Rightarrow> (string + nat) option"
  pn_ping_in_time :: bool
  pn_tcp_connect :: "string \<Rightarrow> duration \<Rightarrow> (string + unit) option"
  pn_lookup :: "string \<Rightarrow> duration \<Rightarrow> (string + string list) option"

definition dns_probe_query :: bytes where
  "dns_probe_query =
     [0xAB, 0xCD, 0x01, 0x00, 0x00, 0x01, 0x00, 0x00, 0x00, 0x00, 0x00, 0x00, 0x0A]
     @ as_bytes ''cloudflare'' @ [0x03] @ as_bytes ''com'' @ [0x00, 0x00, 0x01, 0x00, 0x01]"

definition udp_ping :: "probe_net \<Rightarrow> duration \<Rightarrow> string \<Rightarrow> bool" where
  "udp_ping net test_timeout addr =
     (if \<not> pn_bind net 0 then False
      else if \<not> pn_connect net addr then False
      else if \<not> pn_send net addr [0] then False
      else if \<not> pn_bind net 1 then False
      else if \<not> pn_connect net ''1.1.1.1:53'' then False
      else if \<not> pn_send net ''1.1.1.1:53'' dns_probe_query then False
      else case pn_recv net ''1.1.1.1:53'' test_timeout of Some (Inr n) \<Rightarrow> n > 0 | _ \<Rightarrow> False)"

definition test_udp :: "probe_net \<Rightarrow> network_detector \<Rightarrow> string \<Rightarrow> bool" where
  "test_udp net d target \<longleftrightarrow> pn_ping_in_time net \<and> udp_ping net (nd_test_timeout d) target"

definition test_tcp :: "probe_net \<Rightarrow> network_detector \<Rightarrow> bool" where
  "test_tcp net d =
     (case pn_tcp_connect net (nd_tls_test_endpoint d) (nd_test_timeout d) of Some (Inr _) \<Rightarrow> True | _ \<Rightarrow> False)"

definition test_dns :: "probe_net \<Rightarrow> network_detector \<Rightarrow> bool" where
  "test_dns net d =
     (case pn_lookup net ''cloudflare.com:443'' (nd_test_timeout d) of Some (Inr addrs) \<Rightarrow> addrs \<noteq> [] | _ \<Rightarrow> False)"

fun classify :: "bool \<Rightarrow> bool \<Rightarrow> bool \<Rightarrow> censorship_state" where
  "classify udp tcp dns =
     (if udp \<and> tcp \<and> dns then NoCensorship
      else if \<not> udp \<and> tcp \<and> dns then UdpBlocked
      else if tcp \<and> \<not> dns then DnsPoisoned
      else if \<not> tcp then TotalShutdown
      else UnknownCensorship)"

definition display_bool :: "bool \<Rightarrow> string" where
  "display_bool b = (if b then ''true'' else ''false'')"

definition describe_state :: "censorship_state \<Rightarrow> bool \<Rightarrow> bool \<Rightarrow> bool \<Rightarrow> string" where
  "describe_state state udp tcp dns =
     ''state='' @ debug_censorship state @ '', udp='' @ display_bool udp
     @ '', tcp='' @ display_bool tcp @ '', dns='' @ display_bool dns"

definition detect :: "probe_net \<Rightarrow> network_detector \<Rightarrow> detection_result" where
  "detect net d =
     (let udp = test_udp net d (nd_quic_test_endpoint d);
          tcp = test_tcp net d;
          dns = test_dns net d;
          state = classify udp tcp dns
      in \<lparr>dr_state = state, dr_udp_available = udp, dr_tcp_available = tcp, dr_dns_clean = dns,
          dr_details = describe_state state udp tcp dns\<rparr>)"

fun suggest_transport :: "censorship_state \<Rightarrow> string list" where
  "suggest_transport NoCensorship = [''quic'', ''tls-tcp'']"
| "suggest_transport UdpBlocked = [''tls-tcp'', ''websocket'']"
| "suggest_transport SniFiltering = [''tls-tcp'', ''websocket'']"
| "suggest_transport IpBlocked = [''websocket'']"
| "suggest_transport DpiActive = [''websocket'']"
| "suggest_transport DnsPoisoned = [''quic'', ''tls-tcp'']"
| "suggest_transport TotalShutdown = [''websocket'']"
| "suggest_transport UnknownCensorship = [''tls-tcp'', ''websocket'']"

section \<open>Properties\<close>

definition usable :: "bootstrap_method \<Rightarrow> bool" where
  "usable m = (case bm_discover m of Inr es \<Rightarrow> es \<noteq> [] | Inl _ \<Rightarrow> False)"

definition method_error :: "bootstrap_method \<Rightarrow> bootstrap_error" where
  "method_error m = (case bm_discover m of Inl e \<Rightarrow> e | Inr _ \<Rightarrow> NoEndpoints)"

lemma discover_from_find:
  "discover_from methods err =
     (case find usable methods of
        Some m \<Rightarrow> bm_discover m
      | None \<Rightarrow> Err (if methods = [] then (case err of Some e \<Rightarrow> e | None \<Rightarrow> NoEndpoints) else method_error (last methods)))"
  by (induction methods arbitrary: err) (auto simp: usable_def method_error_def split: sum.splits option.splits)

text \<open>Bootstrapping asks the methods in order and returns the endpoints of the first that has any; if
  none has, it fails with what the last one reported, an empty list counting as no endpoints.\<close>

lemma discover_first_usable:
  "discover methods =
     (case find usable methods of
        Some m \<Rightarrow> bm_discover m
      | None \<Rightarrow> Err (if methods = [] then NoEndpoints else method_error (last methods)))"
  by (simp add: discover_def discover_from_find split: option.split)

text \<open>Detection can report only four of the eight states, each exactly for its combination of test
  results; filtering by name, blocked addresses and deep inspection are never reported. What it
  suggests is never empty; it suggests QUIC exactly when TCP works and UDP works or the DNS test
  failed, so also on a network where UDP is known not to work.\<close>

lemma detect_reports:
  "dr_state (detect net d) \<in> {NoCensorship, UdpBlocked, DnsPoisoned, TotalShutdown}"
  "(dr_state (detect net d) = TotalShutdown) = (\<not> dr_tcp_available (detect net d))"
  "(dr_state (detect net d) = DnsPoisoned) = (dr_tcp_available (detect net d) \<and> \<not> dr_dns_clean (detect net d))"
  "(dr_state (detect net d) = UdpBlocked)
     = (dr_tcp_available (detect net d) \<and> dr_dns_clean (detect net d) \<and> \<not> dr_udp_available (detect net d))"
  "suggest_transport state \<noteq> [] \<and> set (suggest_transport state) \<subseteq> {''quic'', ''tls-tcp'', ''websocket''}"
  "(''quic'' \<in> set (suggest_transport (dr_state (detect net d))))
     = (dr_tcp_available (detect net d) \<and> (dr_udp_available (detect net d) \<or> \<not> dr_dns_clean (detect net d)))"
  by (auto simp: detect_def Let_def split: if_splits) (cases state; simp)+

end
