(* ===== verification/Transport_WebSocket.thy ===== *)
theory Transport_WebSocket
  imports Transport_Recv
begin

text \<open>
  The WebSocket transport of \<open>kanrin-transport/src/websocket.rs\<close>. The WebSocket library is the parameter
  \<open>ws_ops\<close>; what its stream yields is a list, with \<open>None\<close> for its end.
\<close>

section \<open>Configuration and connecting\<close>

record ws_config =
  wc_connect_timeout_ms :: u64
  wc_path :: string
  wc_extra_headers :: "(string \<times> string) list"
  wc_ping_interval_secs :: u64

definition ws_config_default :: ws_config where
  "ws_config_default =
     \<lparr>wc_connect_timeout_ms = 15000, wc_path = ''/ws'',
      wc_extra_headers =
        [(''User-Agent'', ''Mozilla/5.0 (Windows NT 10.0; Win64; x64) AppleWebKit/537.36''),
         (''Origin'', ''https://example.com'')],
      wc_ping_interval_secs = 25\<rparr>"

definition build_url :: "ws_config \<Rightarrow> endpoint \<Rightarrow> string" where
  "build_url config ep =
     ''wss://'' @ ep_host ep @ '':'' @ decimal (unat (ep_port ep)) @ wc_path config"

text \<open>\<open>connect_async\<close>, \<open>None\<close> when it does not finish in time.\<close>

record 'w ws_ops =
  wo_connect :: "string \<Rightarrow> u64 \<Rightarrow> (string + 'w) option"
  wo_elapsed_ms :: nat

record 'w ws_connection =
  ws_write :: 'w
  ws_alive :: bool

definition ws_connect :: "'w ws_ops \<Rightarrow> ws_config \<Rightarrow> endpoint \<Rightarrow> transport_error + 'w ws_connection" where
  "ws_connect io config ep =
     (case wo_connect io (build_url config ep) (wc_connect_timeout_ms config) of
        None \<Rightarrow> Err (Timeout (wc_connect_timeout_ms config))
      | Some (Inl e) \<Rightarrow> Err (ConnectionRefused (''websocket: '' @ e))
      | Some (Inr w) \<Rightarrow> Ok \<lparr>ws_write = w, ws_alive = True\<rparr>)"

definition ws_probe :: "'w ws_ops \<Rightarrow> ws_config \<Rightarrow> endpoint \<Rightarrow> probe_result" where
  "ws_probe io config ep =
     (case wo_connect io (build_url config ep) (wc_connect_timeout_ms config) of
        Some (Inr _) \<Rightarrow> Available (word_of_nat (wo_elapsed_ms io))
      | Some (Inl e) \<Rightarrow> ProbeBlocked (''websocket connect failed: '' @ e)
      | None \<Rightarrow> ProbeBlocked ''websocket connect timeout'')"

definition ws_transport :: "'w ws_ops \<Rightarrow> ws_config \<Rightarrow> 'w ws_connection transport" where
  "ws_transport io config =
     \<lparr>tr_name = ''websocket'', tr_priority = 3, tr_probe = ws_probe io config, tr_connect = ws_connect io config,
      tr_estimated_latency = 60, tr_supports_zero_rtt = False\<rparr>"

section \<open>Sending and receiving\<close>

datatype ws_message = WsBinary bytes | WsText bytes | WsPing bytes | WsPong bytes | WsClose | WsFrame

definition ws_send ::
  "(ws_message \<Rightarrow> 'w \<Rightarrow> (string + unit) \<times> 'w) \<Rightarrow> bytes \<Rightarrow> 'w ws_connection
     \<Rightarrow> (transport_error + unit) \<times> 'w ws_connection" where
  "ws_send sink data c =
     (case sink (WsBinary data) (ws_write c) of
        (Inl e, w) \<Rightarrow> (Err (ConnectionRefused (''ws send: '' @ e)), c\<lparr>ws_write := w, ws_alive := False\<rparr>)
      | (Inr _, w) \<Rightarrow> (Ok (), c\<lparr>ws_write := w\<rparr>))"

fun ws_recv :: "('w ws_connection, (string + ws_message) option, transport_error + bytes) receiver" where
  "ws_recv c [] = (None, c, [])"
| "ws_recv c (Some (Inr (WsBinary data)) # evs) = (Some (Ok data), c, evs)"
| "ws_recv c (Some (Inr WsClose) # evs) = (Some (Err ConnectionClosed), c\<lparr>ws_alive := False\<rparr>, evs)"
| "ws_recv c (Some (Inl e) # evs) = (Some (Err (ConnectionRefused (''ws recv: '' @ e))), c\<lparr>ws_alive := False\<rparr>, evs)"
| "ws_recv c (None # evs) = (Some (Err ConnectionClosed), c\<lparr>ws_alive := False\<rparr>, evs)"
| "ws_recv c (_ # evs) = ws_recv c evs"

definition ws_close :: "('w \<Rightarrow> 'w) \<Rightarrow> 'w ws_connection \<Rightarrow> (transport_error + unit) \<times> 'w ws_connection" where
  "ws_close close c = (Ok (), c\<lparr>ws_alive := False, ws_write := close (ws_write c)\<rparr>)"

section \<open>Facts\<close>

lemma ws_recv_resumes: "ws_recv c evs = (None, c', rest) \<Longrightarrow> ws_recv c' evs' = ws_recv c (evs @ evs')"
  by (induction c evs rule: ws_recv.induct) auto

lemma ws_recv_unaffected: "ws_recv c evs = (Some r, c', rest) \<Longrightarrow> ws_recv c (evs @ evs') = (Some r, c', rest @ evs')"
  by (induction c evs rule: ws_recv.induct) auto

interpretation ws: cancel_safe ws_recv
  by unfold_locales (fact ws_recv_resumes, fact ws_recv_unaffected)

text \<open>The payloads of the binary messages.\<close>

fun binary_payloads :: "ws_message list \<Rightarrow> bytes list" where
  "binary_payloads [] = []"
| "binary_payloads (WsBinary data # ms) = data # binary_payloads ms"
| "binary_payloads (_ # ms) = binary_payloads ms"

lemma binary_payloads_append: "binary_payloads (ms @ ns) = binary_payloads ms @ binary_payloads ns"
  by (induction ms rule: binary_payloads.induct) auto

lemma receives_skip: "ws_recv c (m # evs) = ws_recv c evs \<Longrightarrow> receives ws_recv c evs rs c' \<Longrightarrow> receives ws_recv c (m # evs) rs c'"
  by (erule receives.cases) (auto intro: receives.intros)

lemma ws_receives: "WsClose \<notin> set ms \<Longrightarrow> receives ws_recv c (map (Some \<circ> Inr) ms) (map Inr (binary_payloads ms)) c"
proof (induction ms rule: binary_payloads.induct)
  case 1
  show ?case by (auto intro: receives.waits)
next
  case (2 data ms)
  then show ?case by (auto intro: receives.gets)
qed (auto intro: receives_skip)

text \<open>The WebSocket receiver hands on the payloads of the binary messages, in order and each once,
  and skips every other message, wherever its future is dropped while it waits; a close frame, an
  error and the end of the stream each end the connection with the error that fits.\<close>

lemma ws_delivers_binary:
  assumes "\<forall>ms\<in>set bursts. WsClose \<notin> set ms"
  shows "receives_bursts ws_recv c (map (map (Some \<circ> Inr)) bursts) (map Inr (binary_payloads (concat bursts))) c"
    and "ws_recv c (Some (Inr WsClose) # evs) = (Some (Err ConnectionClosed), c\<lparr>ws_alive := False\<rparr>, evs)"
    and "ws_recv c (None # evs) = (Some (Err ConnectionClosed), c\<lparr>ws_alive := False\<rparr>, evs)"
    and "ws_recv c (Some (Inl e) # evs) = (Some (Err (ConnectionRefused (''ws recv: '' @ e))), c\<lparr>ws_alive := False\<rparr>, evs)"
proof -
  show "receives_bursts ws_recv c (map (map (Some \<circ> Inr)) bursts) (map Inr (binary_payloads (concat bursts))) c"
    using assms
  proof (induction bursts)
    case (Cons ms bursts)
    then have "receives ws_recv c (map (Some \<circ> Inr) ms) (map Inr (binary_payloads ms)) c"
      by (intro ws_receives) simp
    from receives_bursts.burst [OF this Cons.IH] Cons.prems show ?case by (simp add: binary_payloads_append comp_def)
  qed (simp add: receives_bursts.no_burst)
qed simp_all

end
