(* ===== verification/Transport_Quic.thy ===== *)
theory Transport_Quic
  imports Transport_Tls
begin

text \<open>
  The QUIC transport of \<open>kanrin-transport/src/quic.rs\<close>: one stream per frame. The QUIC library is the
  parameter \<open>quic_ops\<close>; the streams the peer opens are a list, each the pieces of it that have
  arrived, an empty piece being its end. The stream a receiver is reading lives in its future only.
\<close>

section \<open>Configuration and connecting\<close>

record quic_config =
  qc_connect_timeout_ms :: u64
  qc_enable_0rtt :: bool
  qc_idle_timeout_secs :: u64
  qc_initial_window :: u32

definition quic_config_default :: quic_config where
  "quic_config_default =
     \<lparr>qc_connect_timeout_ms = 5000, qc_enable_0rtt = True, qc_idle_timeout_secs = 30, qc_initial_window = 14720\<rparr>"

text \<open>What a client configuration fixes: the certificates accepted, the protocols offered, the idle time
  out and the initial MTU.\<close>

record quic_client_config =
  qcc_certs :: cert_policy
  qcc_alpn :: "bytes list"
  qcc_idle_timeout_secs :: u64
  qcc_initial_mtu :: u16

definition build_client_config :: "(quic_client_config \<Rightarrow> string + unit) \<Rightarrow> quic_config \<Rightarrow> transport_error + quic_client_config" where
  "build_client_config accepts_tls config =
     (let cfg = \<lparr>qcc_certs = WebPkiRoots, qcc_alpn = [as_bytes ''h3''],
                qcc_idle_timeout_secs = qc_idle_timeout_secs config, qcc_initial_mtu = 1200\<rparr>
      in case accepts_tls cfg of
           Inl e \<Rightarrow> Err (Tls (''quic tls config: '' @ e))
         | Inr _ \<Rightarrow> Ok cfg)"

record ('a, 'q) quic_ops =
  qo_accepts_tls :: "quic_client_config \<Rightarrow> string + unit"
  qo_bind :: "string + unit"
  qo_lookup :: "string \<Rightarrow> string + 'a list"
  qo_connect :: "quic_client_config \<Rightarrow> 'a \<Rightarrow> string \<Rightarrow> string + unit"
  qo_established :: "'a \<Rightarrow> string \<Rightarrow> u64 \<Rightarrow> (string + 'q) option"
  qo_elapsed_ms :: nat

record 'q quic_connection =
  quic_conn :: 'q
  quic_alive :: bool

definition quic_connect :: "('a, 'q) quic_ops \<Rightarrow> quic_config \<Rightarrow> endpoint \<Rightarrow> transport_error + 'q quic_connection" where
  "quic_connect io config ep =
     and_then (build_client_config (qo_accepts_tls io) config) (\<lambda>client_config.
     and_then (map_err Io (qo_bind io)) (\<lambda>_.
     and_then (case map_err DnsFailure (qo_lookup io (addr_string ep)) of
                 Inl e \<Rightarrow> Err e
               | Inr [] \<Rightarrow> Err (DnsFailure ''no addresses found'')
               | Inr (a # _) \<Rightarrow> Ok a) (\<lambda>server_addr.
       let sni = (case ep_sni ep of Some s \<Rightarrow> s | None \<Rightarrow> ep_host ep);
           timeout = qc_connect_timeout_ms config
       in and_then (map_err ConnectionRefused (qo_connect io client_config server_addr sni)) (\<lambda>_.
          case qo_established io server_addr sni timeout of
            None \<Rightarrow> Err (Timeout timeout)
          | Some (Inl e) \<Rightarrow> Err (ConnectionRefused e)
          | Some (Inr q) \<Rightarrow> Ok \<lparr>quic_conn = q, quic_alive = True\<rparr>))))"

text \<open>The probe connects under its own time out, of the same length; \<open>in_time\<close> says whether it elapsed
  first.\<close>

definition quic_probe :: "('a, 'q) quic_ops \<Rightarrow> bool \<Rightarrow> quic_config \<Rightarrow> endpoint \<Rightarrow> probe_result" where
  "quic_probe io in_time config ep =
     (if in_time then
        (case quic_connect io config ep of
           Inr _ \<Rightarrow> Available (word_of_nat (qo_elapsed_ms io))
         | Inl e \<Rightarrow> ProbeBlocked (''quic probe failed: '' @ display_transport_error e))
      else ProbeBlocked ''quic probe timeout'')"

definition quic_transport :: "('a, 'q) quic_ops \<Rightarrow> bool \<Rightarrow> quic_config \<Rightarrow> 'q quic_connection transport" where
  "quic_transport io in_time config =
     \<lparr>tr_name = ''quic'', tr_priority = 1, tr_probe = quic_probe io in_time config,
      tr_connect = quic_connect io config, tr_estimated_latency = 20,
      tr_supports_zero_rtt = qc_enable_0rtt config\<rparr>"

section \<open>Sending and receiving\<close>

text \<open>What is written to a fresh stream, as long as the steps succeed: opening it, the two writes and
  finishing it are the arguments.\<close>

definition quic_send ::
  "string + unit \<Rightarrow> (bytes \<Rightarrow> string + unit) \<Rightarrow> string + unit \<Rightarrow> bytes \<Rightarrow> (transport_error + unit) \<times> bytes" where
  "quic_send open_bi write_all finish data =
     (let refused = (\<lambda>what e. Err (ConnectionRefused (what @ e)));
          len_bytes = be32 (word_of_nat (length data))
      in case open_bi of Inl e \<Rightarrow> (refused ''open stream: '' e, [])
         | Inr _ \<Rightarrow>
      (case write_all len_bytes of Inl e \<Rightarrow> (refused ''write: '' e, [])
         | Inr _ \<Rightarrow>
      (case write_all data of Inl e \<Rightarrow> (refused ''write: '' e, len_bytes)
         | Inr _ \<Rightarrow>
      (case finish of Inl e \<Rightarrow> (refused ''finish: '' e, len_bytes @ data)
         | Inr _ \<Rightarrow> (Ok (), len_bytes @ data)))))"

text \<open>\<open>read_exact\<close> on a stream, of which \<open>buf\<close> has been read. The library's message for a stream that
  ends early is the parameter \<open>finished\<close>.\<close>

datatype stream_read = ReadDone bytes "(string + bytes) list" | ReadFailed string | ReadWaiting

function quic_read_exact :: "string \<Rightarrow> nat \<Rightarrow> bytes \<Rightarrow> (string + bytes) list \<Rightarrow> stream_read" where
  "quic_read_exact finished n buf pieces =
     (if length buf \<ge> n then ReadDone (take n buf) (if drop n buf = [] then pieces else Inr (drop n buf) # pieces)
      else case pieces of
             [] \<Rightarrow> ReadWaiting
           | Inl e # _ \<Rightarrow> ReadFailed e
           | Inr [] # _ \<Rightarrow> ReadFailed finished
           | Inr (b # bs) # rest \<Rightarrow> quic_read_exact finished n (buf @ b # bs) rest)"
  by pat_completeness auto

termination
  by (relation "measure (\<lambda>(finished, n, buf, pieces). length pieces)") auto

declare quic_read_exact.simps [simp del]

definition quic_recv ::
  "string \<Rightarrow> ('q quic_connection, string + (string + bytes) list, transport_error + bytes) receiver" where
  "quic_recv finished c evs =
     (case evs of
        [] \<Rightarrow> (None, c, [])
      | Inl _ # rest \<Rightarrow> (Some (Err ConnectionClosed), c\<lparr>quic_alive := False\<rparr>, rest)
      | Inr stream # rest \<Rightarrow>
          (case quic_read_exact finished 4 [] stream of
             ReadWaiting \<Rightarrow> (None, c, rest)
           | ReadFailed e \<Rightarrow> (Some (Err (ConnectionRefused (''read len: '' @ e))), c, rest)
           | ReadDone len_buf stream1 \<Rightarrow>
               (let len = unat (from_be len_buf :: u32) in
                if len > MAX_FRAME
                then (Some (Err (Protocol (InvalidChunk ''frame too large''))), c\<lparr>quic_alive := False\<rparr>, rest)
                else (case quic_read_exact finished len [] stream1 of
                        ReadWaiting \<Rightarrow> (None, c, rest)
                      | ReadFailed e \<Rightarrow> (Some (Err (ConnectionRefused (''read data: '' @ e))), c, rest)
                      | ReadDone buf _ \<Rightarrow> (Some (Ok buf), c, rest)))))"

definition quic_close :: "('q \<Rightarrow> 'q) \<Rightarrow> 'q quic_connection \<Rightarrow> (transport_error + unit) \<times> 'q quic_connection" where
  "quic_close close c = (Ok (), c\<lparr>quic_alive := False, quic_conn := close (quic_conn c)\<rparr>)"

definition quic_is_alive :: "('q \<Rightarrow> string option) \<Rightarrow> 'q quic_connection \<Rightarrow> bool" where
  "quic_is_alive close_reason c \<longleftrightarrow> quic_alive c \<and> close_reason (quic_conn c) = None"

section \<open>Reading a stream\<close>

lemma quic_read_exact_prefix:
  assumes "[] \<notin> set pieces" and "n \<le> length (buf @ concat pieces)"
  shows "\<exists>rest. quic_read_exact finished n buf (map Inr pieces) = ReadDone (take n (buf @ concat pieces)) (map Inr rest)
     \<and> concat rest = drop n (buf @ concat pieces) \<and> [] \<notin> set rest"
  using assms
proof (induction pieces arbitrary: buf)
  case Nil
  show ?case
  proof (cases "drop n buf = []")
    case True
    then show ?thesis using Nil by (subst quic_read_exact.simps) (auto intro: exI [of _ "[]"])
  next
    case False
    then show ?thesis using Nil by (subst quic_read_exact.simps) (auto intro: exI [of _ "[drop n buf]"])
  qed
next
  case (Cons p ps)
  show ?case
  proof (cases "n \<le> length buf")
    case True
    show ?thesis
    proof (cases "drop n buf = []")
      case True': True
      then show ?thesis using True Cons.prems
        by (subst quic_read_exact.simps) (auto intro!: exI [of _ "p # ps"])
    next
      case False
      then show ?thesis using True Cons.prems
        by (subst quic_read_exact.simps) (auto intro!: exI [of _ "drop n buf # p # ps"])
    qed
  next
    case False
    obtain b bs where p: "p = b # bs" using Cons.prems by (cases p) auto
    have "quic_read_exact finished n buf (map Inr (p # ps)) = quic_read_exact finished n (buf @ p) (map Inr ps)"
      using False p by (subst quic_read_exact.simps) simp
    then show ?thesis using Cons.IH [of "buf @ p"] Cons.prems by simp
  qed
qed

lemma quic_read_exact_short:
  assumes "[] \<notin> set pieces" and "length (buf @ concat pieces) < n"
  shows "quic_read_exact finished n buf (map Inr pieces) = ReadWaiting"
  using assms
proof (induction pieces arbitrary: buf)
  case Nil
  then show ?case by (subst quic_read_exact.simps) simp
next
  case (Cons p ps)
  obtain b bs where p: "p = b # bs" using Cons.prems by (cases p) auto
  have "quic_read_exact finished n buf (map Inr (p # ps)) = quic_read_exact finished n (buf @ p) (map Inr ps)"
    using Cons.prems p by (subst quic_read_exact.simps) simp
  then show ?case using Cons.IH [of "buf @ p"] Cons.prems by simp
qed

lemma frame_length_field:
  assumes "length d \<le> MAX_FRAME"
  shows "unat (from_be (take 4 (frame_chunk d)) :: u32) = length d" and "drop 4 (frame_chunk d) = d"
    and "length (frame_chunk d) = 4 + length d"
  using assms by (simp_all add: frame_chunk_def codec_simps MAX_FRAME_def unat_of_nat)

lemma quic_recv_whole:
  assumes "length d \<le> MAX_FRAME" and "[] \<notin> set pieces" and "concat pieces = frame_chunk d"
  shows "quic_recv finished c (Inr (map Inr pieces) # evs) = (Some (Ok d), c, evs)"
proof -
  note len = frame_length_field [OF assms(1)]
  obtain rest where r: "quic_read_exact finished 4 [] (map Inr pieces) = ReadDone (take 4 (frame_chunk d)) (map Inr rest)"
    "concat rest = d" "[] \<notin> set rest"
    using quic_read_exact_prefix [OF assms(2), of 4 "[]" finished] assms(3) len by auto
  obtain rest' where "quic_read_exact finished (length d) [] (map Inr rest) = ReadDone d (map Inr rest')"
    using quic_read_exact_prefix [of rest "length d" "[]" finished] r by auto
  then show ?thesis using r(1) len assms(1) by (simp add: quic_recv_def)
qed

lemma quic_cancellation_loses_frame_facts:
  assumes "length d \<le> MAX_FRAME" and "[] \<notin> set before" and "[] \<notin> set after"
    and "concat (before @ after) = frame_chunk d" and "after \<noteq> []"
  shows "quic_send (Inr ()) (\<lambda>_. Inr ()) (Inr ()) d = (Ok (), concat (before @ after))"
    and "quic_recv finished c (Inr (map Inr (before @ after)) # evs) = (Some (Ok d), c, evs)"
    and "quic_recv finished c (Inr (map Inr before) # evs) = (None, c, evs)"
proof -
  note len = frame_length_field [OF assms(1)]
  show "quic_send (Inr ()) (\<lambda>_. Inr ()) (Inr ()) d = (Ok (), concat (before @ after))"
    unfolding assms(4) by (simp add: quic_send_def frame_chunk_def)
  show "quic_recv finished c (Inr (map Inr (before @ after)) # evs) = (Some (Ok d), c, evs)"
    by (rule quic_recv_whole [OF assms(1) _ assms(4)]) (use assms(2,3) in simp)
  have "after = hd after # tl after" using assms(5) by simp
  then have a: "concat after \<noteq> []" using assms(3) by (metis concat_eq_Nil_conv list.set_intros(1))
  show "quic_recv finished c (Inr (map Inr before) # evs) = (None, c, evs)"
  proof (cases "length (concat before) < 4")
    case True
    then show ?thesis using quic_read_exact_short [OF assms(2), of "[]" 4] by (simp add: quic_recv_def)
  next
    case False
    have pre: "take 4 (concat before) = take 4 (frame_chunk d)"
      using assms(4) False by (simp flip: assms(4))
    obtain rest where r: "quic_read_exact finished 4 [] (map Inr before) = ReadDone (take 4 (frame_chunk d)) (map Inr rest)"
      "concat rest = drop 4 (concat before)" "[] \<notin> set rest"
      using quic_read_exact_prefix [OF assms(2), of 4 "[]" finished] False pre by auto
    have "length (concat before) + length (concat after) = 4 + length d"
      using assms(4) len(3) by (metis concat_append length_append)
    then have "length (concat rest) < length d" using r(2) a False by (cases "concat after") auto
    then have "quic_read_exact finished (length d) [] (map Inr rest) = ReadWaiting"
      using quic_read_exact_short [OF r(3), of "[]"] by simp
    then show ?thesis using r(1) len assms(1) by (simp add: quic_recv_def)
  qed
qed

text \<open>C30. A frame sent on a stream of its own arrives whole, however it is cut into pieces. But dropping
  the receiving future while only a part of the frame has arrived loses the frame: the receiver has
  already taken the stream, and what arrives of it later is read by nobody. The pipeline drops that
  future whenever another branch of its \<open>select!\<close> is ready first.\<close>

theorem quic_cancellation_loses_frame:
  assumes "length d \<le> MAX_FRAME" and "[] \<notin> set before" and "[] \<notin> set after"
    and "concat (before @ after) = frame_chunk d" and "after \<noteq> []"
  shows "quic_send (Inr ()) (\<lambda>_. Inr ()) (Inr ()) d = (Ok (), concat (before @ after)) \<and>
    quic_recv finished c (Inr (map Inr (before @ after)) # evs) = (Some (Ok d), c, evs) \<and>
    quic_recv finished c (Inr (map Inr before) # evs) = (None, c, evs)"
  using quic_cancellation_loses_frame_facts [OF assms] by blast

theorem quic_cancellation_loses_frame_witness:
  "quic_recv ''finished'' \<lparr>quic_conn = (), quic_alive = True\<rparr> [Inr [Inr [0, 0, 0], Inr [2, 7, 8]]]
     = (Some (Ok [7, 8]), \<lparr>quic_conn = (), quic_alive = True\<rparr>, [])
   \<and> quic_recv ''finished'' \<lparr>quic_conn = (), quic_alive = True\<rparr> [Inr [Inr [0, 0, 0]]] = (None, \<lparr>quic_conn = (), quic_alive = True\<rparr>, [])"
proof -
  have "be32 2 = [0, 0, 0, 2]" by code_simp
  then have "concat ([[0, 0, 0]] @ [[2, 7, 8]]) = frame_chunk [7, 8]" by (simp add: frame_chunk_def)
  from quic_cancellation_loses_frame [OF _ _ _ this, of "''finished''" "\<lparr>quic_conn = (), quic_alive = True\<rparr>" "[]"]
  show ?thesis by (simp add: MAX_FRAME_def)
qed

end
