(* ===== verification/Client_Startup.thy ===== *)
theory Client_Startup
  imports Client_Config Client_Lifecycle Engine_Discovery Transport_WebSocket Transport_Quic
begin

text \<open>
  The first phases of \<open>run_pipeline\<close> (\<open>kanrin-client/src/pipeline.rs\<close>): detecting censorship, choosing
  the endpoint, building the registry of transports and connecting over the first that works. The
  libraries under the transports are parameters.
\<close>

text \<open>A connection of one of the three transports.\<close>

datatype ('q, 's, 'w) client_connection =
    OverQuic "'q quic_connection"
  | OverTls "'s tls_connection"
  | OverWebSocket "'w ws_connection"

definition boxed :: "('c \<Rightarrow> 'd) \<Rightarrow> 'c transport \<Rightarrow> 'd transport" where
  "boxed f t =
     \<lparr>tr_name = tr_name t, tr_priority = tr_priority t, tr_probe = tr_probe t,
      tr_connect = (\<lambda>ep. map_sum id f (tr_connect t ep)),
      tr_estimated_latency = tr_estimated_latency t, tr_supports_zero_rtt = tr_supports_zero_rtt t\<rparr>"

record ('a, 'q, 't, 'n, 's, 'w) client_ops =
  co_probe_net :: probe_net
  co_quic :: "('a, 'q) quic_ops"
  co_tls :: "('t, 'n, 's) tls_ops"
  co_ws :: "'w ws_ops"

definition client_detection :: "('a, 'q, 't, 'n, 's, 'w) client_ops \<Rightarrow> kanrin_config \<Rightarrow> kanrin_event list" where
  "client_detection io cfg =
     (if ec_detect_censorship (kc_engine cfg) then
        (let target = cs_address (kc_server cfg) @ '':'' @ decimal (unat (cs_port (kc_server cfg)));
             detector = network_detector_new\<lparr>nd_quic_test_endpoint := target, nd_tls_test_endpoint := target\<rparr>;
             state = dr_state (detect (co_probe_net io) detector)
         in [CensorshipDetectedEvent (debug_censorship state) (suggest_transport state)])
      else [])"

definition client_endpoint :: "kanrin_config \<Rightarrow> endpoint" where
  "client_endpoint cfg =
     (let ep = endpoint_new (cs_address (kc_server cfg)) (cs_port (kc_server cfg)) in
      case cs_sni (kc_server cfg) of Some sni \<Rightarrow> with_sni sni ep | None \<Rightarrow> ep)"

definition client_registry ::
  "('a, 'q, 't, 'n, 's, 'w) client_ops \<Rightarrow> ('q, 's, 'w) client_connection transport_registry" where
  "client_registry io =
     transport_register (boxed OverWebSocket (ws_transport (co_ws io) ws_config_default))
       (transport_register (boxed OverTls (tls_transport (co_tls io) tls_tcp_config_default))
         (transport_register (boxed OverQuic (quic_transport (co_quic io) True quic_config_default)) []))"

definition client_connect ::
  "('a, 'q, 't, 'n, 's, 'w) client_ops \<Rightarrow> kanrin_config
     \<Rightarrow> kanrin_event list \<times> (client_error + ('q, 's, 'w) client_connection \<times> string)" where
  "client_connect io cfg =
     (client_detection io cfg,
      map_err (\<lambda>e. ConnectionFailed (display_transport_error e)) (auto_connect (client_registry io) (client_endpoint cfg)))"

section \<open>Properties\<close>

lemma client_registry_order:
  "client_registry io =
     [boxed OverQuic (quic_transport (co_quic io) True quic_config_default),
      boxed OverTls (tls_transport (co_tls io) tls_tcp_config_default),
      boxed OverWebSocket (ws_transport (co_ws io) ws_config_default)]"
  by (simp add: client_registry_def transport_register_def push_sort_by_key_def boxed_def
      quic_transport_def tls_transport_def ws_transport_def)

text \<open>Whatever the configuration prefers and the detection suggests, the client tries QUIC first,
  then TLS over TCP, then WebSocket, and stops at the first that connects; if none does, it reports
  the error of the WebSocket attempt. The TLS attempt accepts any certificate, the QUIC attempt only
  those of the public roots.\<close>

lemma client_connect_order:
  "snd (client_connect io cfg) =
     (let ep = client_endpoint cfg in
      case quic_connect (co_quic io) quic_config_default ep of
        Inr q \<Rightarrow> Ok (OverQuic q, ''quic'')
      | Inl _ \<Rightarrow>
          (case tls_connect (co_tls io) tls_tcp_config_default ep of
             Inr s \<Rightarrow> Ok (OverTls s, ''tls-tcp'')
           | Inl _ \<Rightarrow>
               (case ws_connect (co_ws io) ws_config_default ep of
                  Inr w \<Rightarrow> Ok (OverWebSocket w, ''websocket'')
                | Inl e \<Rightarrow> Err (ConnectionFailed (display_transport_error e)))))"
  and "fst (build_tls_config tls_tcp_config_default) = AcceptAny"
proof -
  let ?ep = "client_endpoint cfg"
  show "snd (client_connect io cfg) =
     (let ep = client_endpoint cfg in
      case quic_connect (co_quic io) quic_config_default ep of
        Inr q \<Rightarrow> Ok (OverQuic q, ''quic'')
      | Inl _ \<Rightarrow>
          (case tls_connect (co_tls io) tls_tcp_config_default ep of
             Inr s \<Rightarrow> Ok (OverTls s, ''tls-tcp'')
           | Inl _ \<Rightarrow>
               (case ws_connect (co_ws io) ws_config_default ep of
                  Inr w \<Rightarrow> Ok (OverWebSocket w, ''websocket'')
                | Inl e \<Rightarrow> Err (ConnectionFailed (display_transport_error e)))))"
    by (cases "quic_connect (co_quic io) quic_config_default ?ep";
        cases "tls_connect (co_tls io) tls_tcp_config_default ?ep"; cases "ws_connect (co_ws io) ws_config_default ?ep")
      (simp_all add: client_connect_def auto_connect_def client_registry_order boxed_def quic_transport_def
        tls_transport_def ws_transport_def)
  show "fst (build_tls_config tls_tcp_config_default) = AcceptAny"
    by (simp add: build_tls_config_def tls_tcp_config_default_def)
qed

end
