(* ===== verification/Std_Process.thy ===== *)
theory Std_Process
  imports Std_Net
begin

text \<open>
  The operating system as the program sees it: commands run with \<open>std::process::Command::output\<close> and
  files written and removed. What the system answers is the parameter \<open>sys_env\<close>, a function of
  everything done before; what the program does is the list of its operations, so a property can
  speak of their order. A command's standard input is empty: \<open>output\<close> connects it to nothing, or
  to a pipe it closes at once.
\<close>

datatype platform = Windows | Linux | Macos

record proc_output =
  po_success :: bool
  po_stdout :: bytes
  po_stderr :: bytes

record command =
  cmd_program :: string
  cmd_args :: "string list"
  cmd_stdin :: bytes

datatype sys_op = Run command | WriteFile string bytes | RemoveFile string | CloseFd int

type_synonym sys_log = "sys_op list"

record sys_env =
  se_run :: "sys_log \<Rightarrow> command \<Rightarrow> string + proc_output"
  se_write :: "sys_log \<Rightarrow> string \<Rightarrow> bytes \<Rightarrow> string + unit"

definition cmd :: "string \<Rightarrow> string list \<Rightarrow> command" where
  "cmd program args = \<lparr>cmd_program = program, cmd_args = args, cmd_stdin = []\<rparr>"

definition run_output :: "sys_env \<Rightarrow> command \<Rightarrow> sys_log \<Rightarrow> (string + proc_output) \<times> sys_log" where
  "run_output env c log = (se_run env log c, log @ [Run c])"

text \<open>Commands whose result is dropped.\<close>

definition run_each :: "command list \<Rightarrow> sys_log \<Rightarrow> sys_log" where
  "run_each cs log = log @ map Run cs"

definition write_file :: "sys_env \<Rightarrow> string \<Rightarrow> bytes \<Rightarrow> sys_log \<Rightarrow> (string + unit) \<times> sys_log" where
  "write_file env path content log = (se_write env log path content, log @ [WriteFile path content])"

text \<open>The operations a step adds to the log.\<close>

definition ops_since :: "sys_log \<Rightarrow> sys_log \<Rightarrow> sys_op list" where
  "ops_since before after = drop (length before) after"

lemma ops_since_append [simp]: "ops_since log (log @ ops) = ops"
  by (simp add: ops_since_def)

lemma cmd_inject [simp]: "cmd p as = cmd q bs \<longleftrightarrow> p = q \<and> as = bs"
  by (simp add: cmd_def)

lemma cmd_stdin_cmd [simp]: "cmd_stdin (cmd p as) = []"
  by (simp add: cmd_def)

end
