(* ===== verification/Tun_Killswitch.thy ===== *)
theory Tun_Killswitch
  imports Std_Process
begin

text \<open>
  The kill switch of \<open>kanrin-tun/src/killswitch.rs\<close> on its three platforms: the commands and files by
  which it blocks traffic and restores it. The compilation target is the argument \<open>platform\<close>.
\<close>

section \<open>State\<close>

datatype kill_switch_error = ActivateFailed string | DeactivateFailed string | Unsupported

fun display_kill_switch_error :: "kill_switch_error \<Rightarrow> string" where
  "display_kill_switch_error (ActivateFailed s) = ''failed to activate kill switch: '' @ s"
| "display_kill_switch_error (DeactivateFailed s) = ''failed to deactivate kill switch: '' @ s"
| "display_kill_switch_error Unsupported = ''platform not supported''"

record kill_switch_config =
  kc_allowed_ips :: "ip_addr list"
  kc_allow_lan :: bool
  kc_allow_loopback :: bool

record kill_switch =
  ks_config :: kill_switch_config
  ks_active :: bool

definition kill_switch_new :: "kill_switch_config \<Rightarrow> kill_switch" where
  "kill_switch_new config = \<lparr>ks_config = config, ks_active = False\<rparr>"

definition kill_switch_is_active :: "kill_switch \<Rightarrow> bool" where
  "kill_switch_is_active ks = ks_active ks"

section \<open>Windows: firewall rules and the default policy\<close>

definition rule_name :: string where
  "rule_name = ''KanrinKillSwitch''"

definition add_allow_rule :: "string \<Rightarrow> string list \<Rightarrow> command" where
  "add_allow_rule name scope =
     cmd ''netsh'' ([''advfirewall'', ''firewall'', ''add'', ''rule'', ''name='' @ name,
       ''dir=out'', ''action=allow''] @ scope @ [''enable=yes''])"

definition delete_rule :: "string \<Rightarrow> command" where
  "delete_rule name = cmd ''netsh'' [''advfirewall'', ''firewall'', ''delete'', ''rule'', ''name='' @ name]"

definition set_policy :: "string \<Rightarrow> command" where
  "set_policy policy = cmd ''netsh'' [''advfirewall'', ''set'', ''allprofiles'', ''firewallpolicy'', policy]"

definition lan_ranges :: "string list" where
  "lan_ranges = [''10.0.0.0/8'', ''172.16.0.0/12'', ''192.168.0.0/16'']"

text \<open>The rules in the order they are added, by the suffix of their name and their scope.\<close>

definition windows_rules :: "kill_switch_config \<Rightarrow> (string \<times> string list) list" where
  "windows_rules config =
     map (\<lambda>(i, ip). (''_allow_'' @ decimal i, [''remoteip='' @ display_ip ip]))
       (enumerate 0 (kc_allowed_ips config))
     @ [(''_tun'', [''remoteip=any'', ''localip=10.10.0.0/24''])]
     @ (if kc_allow_loopback config then [(''_loopback'', [''remoteip=127.0.0.0/8''])] else [])
     @ (if kc_allow_lan config then map (\<lambda>range. (''_lan'', [''remoteip='' @ range])) lan_ranges else [])
     @ [(''_dhcp'', [''protocol=udp'', ''remoteport=67,68''])]"

definition activate_windows ::
  "sys_env \<Rightarrow> kill_switch_config \<Rightarrow> sys_log \<Rightarrow> (kill_switch_error + unit) \<times> sys_log" where
  "activate_windows env config log =
     (let log1 = run_each (map (\<lambda>(suffix, scope). add_allow_rule (rule_name @ suffix) scope) (windows_rules config)) log
      in case run_output env (set_policy ''blockinbound,blockoutbound'') log1 of
           (Inl e, log2) \<Rightarrow> (Err (ActivateFailed e), log2)
         | (Inr output, log2) \<Rightarrow>
             (if po_success output then Ok () else Err (ActivateFailed (from_utf8_lossy (po_stderr output))), log2))"

definition deactivate_windows :: "kill_switch_config \<Rightarrow> sys_log \<Rightarrow> (kill_switch_error + unit) \<times> sys_log" where
  "deactivate_windows config log =
     (Ok (), run_each (set_policy ''blockinbound,allowoutbound''
        # map (\<lambda>i. delete_rule (rule_name @ ''_allow_'' @ decimal i)) [0..<length (kc_allowed_ips config)]
        @ map (\<lambda>suffix. delete_rule (rule_name @ suffix)) [''_tun'', ''_loopback'', ''_lan'', ''_dhcp'']) log)"

section \<open>Linux: nftables\<close>

text \<open>The rule set that is built, and the command that is run: the rules are never written to its
  input, nor is its exit status looked at.\<close>

definition linux_rule :: "string \<Rightarrow> string" where
  "linux_rule rest = ''add rule inet kanrin_killswitch output '' @ rest @ '' accept'' @ [LF]"

definition linux_rules :: "kill_switch_config \<Rightarrow> string" where
  "linux_rules config =
     ''#!/usr/sbin/nft -f'' @ [LF]
     @ ''add table inet kanrin_killswitch'' @ [LF]
     @ ''add chain inet kanrin_killswitch output { type filter hook output priority 0; policy drop; }'' @ [LF]
     @ (if kc_allow_loopback config then linux_rule (''oifname '' @ [CHR 0x22] @ ''lo'' @ [CHR 0x22]) else [])
     @ concat (map (\<lambda>ip. linux_rule (''ip daddr '' @ display_ip ip)) (kc_allowed_ips config))
     @ (if kc_allow_lan config then concat (map (\<lambda>r. linux_rule (''ip daddr '' @ r)) lan_ranges) else [])
     @ linux_rule (''oifname '' @ [CHR 0x22] @ ''kanrin*'' @ [CHR 0x22])"

definition activate_linux ::
  "sys_env \<Rightarrow> kill_switch_config \<Rightarrow> sys_log \<Rightarrow> (kill_switch_error + unit) \<times> sys_log" where
  "activate_linux env config log =
     (let rules = linux_rules config in
      case run_output env (cmd ''nft'' [''-f'', ''-'']) log of
        (Inl e, log1) \<Rightarrow> (Err (ActivateFailed e), log1)
      | (Inr output, log1) \<Rightarrow> (Ok (), log1))"

definition deactivate_linux :: "kill_switch_config \<Rightarrow> sys_log \<Rightarrow> (kill_switch_error + unit) \<times> sys_log" where
  "deactivate_linux config log =
     (Ok (), run_each [cmd ''nft'' [''delete'', ''table'', ''inet'', ''kanrin_killswitch'']] log)"

section \<open>macOS: packet filter\<close>

definition macos_rules_path :: string where
  "macos_rules_path = ''/tmp/kanrin_killswitch.conf''"

definition macos_rules :: "kill_switch_config \<Rightarrow> string" where
  "macos_rules config =
     ''# Kanrin Kill Switch'' @ [LF] @ ''block out all'' @ [LF]
     @ (if kc_allow_loopback config then ''pass out on lo0 all'' @ [LF] else [])
     @ concat (map (\<lambda>ip. ''pass out to '' @ display_ip ip @ '' all'' @ [LF]) (kc_allowed_ips config))
     @ (if kc_allow_lan config then concat (map (\<lambda>r. ''pass out to '' @ r @ '' all'' @ [LF]) lan_ranges) else [])
     @ ''pass out on utun* all'' @ [LF]"

definition activate_macos ::
  "sys_env \<Rightarrow> kill_switch_config \<Rightarrow> sys_log \<Rightarrow> (kill_switch_error + unit) \<times> sys_log" where
  "activate_macos env config log =
     (case write_file env macos_rules_path (as_bytes (macos_rules config)) log of
        (Inl e, log1) \<Rightarrow> (Err (ActivateFailed e), log1)
      | (Inr _, log1) \<Rightarrow> (Ok (), run_each [cmd ''pfctl'' [''-f'', macos_rules_path, ''-e'']] log1))"

definition deactivate_macos :: "kill_switch_config \<Rightarrow> sys_log \<Rightarrow> (kill_switch_error + unit) \<times> sys_log" where
  "deactivate_macos config log =
     (Ok (), run_each [cmd ''pfctl'' [''-d'']] log @ [RemoveFile ''/tmp/kanrin_killswitch.conf''])"

section \<open>The switch\<close>

definition kill_switch_activate ::
  "sys_env \<Rightarrow> platform \<Rightarrow> kill_switch \<Rightarrow> sys_log \<Rightarrow> (kill_switch_error + unit) \<times> kill_switch \<times> sys_log" where
  "kill_switch_activate env target ks log =
     (if ks_active ks then (Ok (), ks, log)
      else case (case target of
          Windows \<Rightarrow> activate_windows env (ks_config ks) log
        | Linux \<Rightarrow> activate_linux env (ks_config ks) log
        | Macos \<Rightarrow> activate_macos env (ks_config ks) log) of
        (Inl e, log1) \<Rightarrow> (Err e, ks, log1)
      | (Inr _, log1) \<Rightarrow> (Ok (), ks\<lparr>ks_active := True\<rparr>, log1))"

definition kill_switch_deactivate ::
  "platform \<Rightarrow> kill_switch \<Rightarrow> sys_log \<Rightarrow> (kill_switch_error + unit) \<times> kill_switch \<times> sys_log" where
  "kill_switch_deactivate target ks log =
     (if \<not> ks_active ks then (Ok (), ks, log)
      else case (case target of
          Windows \<Rightarrow> deactivate_windows (ks_config ks) log
        | Linux \<Rightarrow> deactivate_linux (ks_config ks) log
        | Macos \<Rightarrow> deactivate_macos (ks_config ks) log) of
        (Inl e, log1) \<Rightarrow> (Err e, ks, log1)
      | (Inr _, log1) \<Rightarrow> (Ok (), ks\<lparr>ks_active := False\<rparr>, log1))"

definition kill_switch_drop :: "platform \<Rightarrow> kill_switch \<Rightarrow> sys_log \<Rightarrow> sys_log" where
  "kill_switch_drop target ks log =
     (if ks_active ks then snd (snd (kill_switch_deactivate target ks log)) else log)"

section \<open>Facts\<close>

lemma add_allow_rule_inject: "add_allow_rule n s = add_allow_rule m t \<longleftrightarrow> n = m \<and> s = t"
  by (simp add: add_allow_rule_def)

lemma deactivate_ok: "\<exists>ks' log'. kill_switch_deactivate p ks log = (Ok (), ks', log') \<and> \<not> ks_active ks'"
  by (cases p) (simp_all add: kill_switch_deactivate_def deactivate_windows_def deactivate_linux_def deactivate_macos_def)

lemma deactivated: "kill_switch_deactivate p ks log = (r, ks', log') \<Longrightarrow> r = Ok () \<and> \<not> ks_active ks'"
  using deactivate_ok [of p ks log] by auto

lemma activate_active:
  "kill_switch_activate env p ks log = (r, ks', log') \<Longrightarrow> ks_active ks' = (is_ok r \<or> ks_active ks)
     \<and> ks_config ks' = ks_config ks"
  by (auto simp: kill_switch_activate_def is_ok_def split: if_splits sum.splits prod.splits)

lemma deactivate_inactive: "\<not> ks_active ks \<Longrightarrow> kill_switch_deactivate p ks log = (Ok (), ks, log)"
  by (simp add: kill_switch_deactivate_def)

lemma drop_is_deactivate: "kill_switch_drop p ks log = snd (snd (kill_switch_deactivate p ks log))"
  by (simp add: kill_switch_drop_def deactivate_inactive)

text \<open>Every name given to a rule is deleted again.\<close>

definition deleted_suffixes :: "nat \<Rightarrow> string list" where
  "deleted_suffixes n = map (\<lambda>i. ''_allow_'' @ decimal i) [0..<n] @ [''_tun'', ''_loopback'', ''_lan'', ''_dhcp'']"

lemma deactivate_windows_eq:
  "deactivate_windows config log =
     (Ok (), log @ Run (set_policy ''blockinbound,allowoutbound'')
        # map (\<lambda>suffix. Run (delete_rule (rule_name @ suffix))) (deleted_suffixes (length (kc_allowed_ips config))))"
  by (simp add: deactivate_windows_def run_each_def deleted_suffixes_def comp_def del: decimal.simps)

lemma enumerated_names: "(\<lambda>(i, x). f i) ` set (enumerate 0 xs) \<union> set ys \<subseteq> set (map f [0..<length xs] @ ys)"
  by (auto simp: in_set_enumerate_eq)

lemma windows_rule_suffixes:
  assumes "(suffix, scope) \<in> set (windows_rules config)"
  shows "suffix \<in> set (deleted_suffixes (length (kc_allowed_ips config)))"
proof -
  have "suffix \<in> fst ` set (windows_rules config)" using assms by force
  also have "fst ` set (windows_rules config)
      \<subseteq> (\<lambda>(i, ip). ''_allow_'' @ decimal i) ` set (enumerate 0 (kc_allowed_ips config))
        \<union> set [''_tun'', ''_loopback'', ''_lan'', ''_dhcp'']"
    unfolding windows_rules_def set_append image_Un set_map image_image lan_ranges_def
    by (intro Un_least) (auto simp del: decimal.simps)
  also have "\<dots> \<subseteq> set (deleted_suffixes (length (kc_allowed_ips config)))"
    unfolding deleted_suffixes_def by (rule enumerated_names)
  finally show ?thesis .
qed

lemma windows_rule_deleted:
  assumes "(suffix, scope) \<in> set (windows_rules config)"
  shows "Run (delete_rule (rule_name @ suffix)) \<in> set (tl (ops_since log (snd (deactivate_windows config log))))"
  using windows_rule_suffixes [OF assms] by (simp add: deactivate_windows_eq)

lemma activate_windows_eq:
  "activate_windows env config log =
     (let adds = map (\<lambda>(suffix, scope). Run (add_allow_rule (rule_name @ suffix) scope)) (windows_rules config);
          block = set_policy ''blockinbound,blockoutbound''
      in (case se_run env (log @ adds) block of
            Inl e \<Rightarrow> Err (ActivateFailed e)
          | Inr output \<Rightarrow> if po_success output then Ok () else Err (ActivateFailed (from_utf8_lossy (po_stderr output))),
          log @ adds @ [Run block]))"
  by (simp add: activate_windows_def run_output_def run_each_def Let_def comp_def case_prod_unfold split: sum.split)

text \<open>On Windows, activating a kill switch adds its allow rules first and changes the default
  policy with its last command; it succeeds, and the switch counts as active, exactly if that
  command could be run and succeeded. After a success, deactivating restores the policy with its
  first command and then deletes every rule that was added, by name, and the switch is inactive.
  After a failure the rules that were added stay: deactivating then does nothing.\<close>

lemma kill_switch_windows_undone:
  assumes "\<not> ks_active ks" and "kill_switch_activate env Windows ks log = (r, ks1, log1)"
  shows "\<exists>adds block.
    log1 = log @ adds @ [Run block] \<and> block = set_policy ''blockinbound,blockoutbound'' \<and> adds \<noteq> []
    \<and> (\<forall>op\<in>set adds. \<exists>name scope. op = Run (add_allow_rule name scope))
    \<and> is_ok r = (\<exists>output. se_run env (log @ adds) block = Inr output \<and> po_success output)
    \<and> ks_active ks1 = is_ok r
    \<and> (if is_ok r
       then \<exists>ks2 deletes.
          kill_switch_deactivate Windows ks1 log1
            = (Ok (), ks2, log1 @ Run (set_policy ''blockinbound,allowoutbound'') # deletes)
          \<and> \<not> ks_active ks2
          \<and> (\<forall>name scope. Run (add_allow_rule name scope) \<in> set adds \<longrightarrow> Run (delete_rule name) \<in> set deletes)
       else kill_switch_deactivate Windows ks1 log1 = (Ok (), ks1, log1))"
proof -
  define config where "config = ks_config ks"
  define adds where "adds = map (\<lambda>(suffix, scope). Run (add_allow_rule (rule_name @ suffix) scope)) (windows_rules config)"
  let ?block = "set_policy ''blockinbound,blockoutbound''"
  have act: "log1 = log @ adds @ [Run ?block]"
    and ok: "is_ok r = (\<exists>output. se_run env (log @ adds) ?block = Inr output \<and> po_success output)"
    using assms unfolding kill_switch_activate_def activate_windows_eq Let_def config_def adds_def
    by (auto simp: is_ok_def split: sum.splits if_splits)
  have active: "ks_active ks1 = is_ok r" "ks_config ks1 = config"
    using activate_active [OF assms(2)] assms(1) by (simp_all add: config_def)
  have adds: "adds \<noteq> []" "\<forall>op\<in>set adds. \<exists>name scope. op = Run (add_allow_rule name scope)"
    by (auto simp: adds_def windows_rules_def)
  have deleted: "Run (delete_rule name) \<in> set (tl (ops_since log1 (snd (deactivate_windows config log1))))"
    if "Run (add_allow_rule name scope) \<in> set adds" for name scope
    using that windows_rule_deleted [of _ scope config log1] by (auto simp: adds_def add_allow_rule_inject)
  have after: "if is_ok r
       then \<exists>ks2 deletes.
          kill_switch_deactivate Windows ks1 log1
            = (Ok (), ks2, log1 @ Run (set_policy ''blockinbound,allowoutbound'') # deletes)
          \<and> \<not> ks_active ks2
          \<and> (\<forall>name scope. Run (add_allow_rule name scope) \<in> set adds \<longrightarrow> Run (delete_rule name) \<in> set deletes)
       else kill_switch_deactivate Windows ks1 log1 = (Ok (), ks1, log1)"
    using active deleted by (auto simp: kill_switch_deactivate_def deactivate_windows_eq)
  show ?thesis using act ok active(1) adds after by blast
qed

definition demo_kill_switch :: kill_switch_config where
  "demo_kill_switch = \<lparr>kc_allowed_ips = [IPv4 0xC0000201], kc_allow_lan = False, kc_allow_loopback = True\<rparr>"

definition demo_sys_env :: sys_env where
  "demo_sys_env =
     \<lparr>se_run = (\<lambda>_ _. Inr \<lparr>po_success = True, po_stdout = [], po_stderr = []\<rparr>), se_write = (\<lambda>_ _ _. Inr ())\<rparr>"

text \<open>C37. On Linux, activating the kill switch runs one and the same command for every configuration,
  with an empty input: none of the rules it builds reaches the system. The switch nevertheless counts
  as active whenever the command can be started, whatever its exit status.\<close>

theorem kill_switch_linux_inert:
  "\<exists>c. cmd_stdin c = [] \<and> (\<forall>config env log.
     (case kill_switch_activate env Linux (kill_switch_new config) log of
        (r, ks, log1) \<Rightarrow>
          log1 = log @ [Run c] \<and> ks_active ks = (\<exists>output. se_run env log c = Inr output) \<and> is_ok r = ks_active ks))"
proof -
  have "(case kill_switch_activate env Linux (kill_switch_new config) log of
        (r, ks, log1) \<Rightarrow>
          log1 = log @ [Run (cmd ''nft'' [''-f'', ''-''])]
          \<and> ks_active ks = (\<exists>output. se_run env log (cmd ''nft'' [''-f'', ''-'']) = Inr output) \<and> is_ok r = ks_active ks)"
    for config env log
    by (auto simp: kill_switch_activate_def kill_switch_new_def activate_linux_def run_output_def is_ok_def
        split: sum.split)
  then show ?thesis by (intro exI [of _ "cmd ''nft'' [''-f'', ''-'']"]) simp
qed

end
