(* ===== verification/Tun_Routes.thy ===== *)
theory Tun_Routes
  imports Std_Process
begin

text \<open>
  The system routing table as \<open>kanrin-tun/src/routing.rs\<close> manages it: finding the default route, adding
  the routes that keep the server reachable, directing everything else to the TUN device, and undoing
  it. Each platform has its own commands; the compilation target is the argument \<open>platform\<close>.
\<close>

section \<open>State\<close>

datatype route_error = AddFailed string | RemoveFailed string | NoDefaultGateway

fun display_route_error :: "route_error \<Rightarrow> string" where
  "display_route_error (AddFailed s) = ''failed to add route: '' @ s"
| "display_route_error (RemoveFailed s) = ''failed to remove route: '' @ s"
| "display_route_error NoDefaultGateway = ''failed to get default gateway''"

record saved_routes =
  sr_default_gateway :: "ip_addr option"
  sr_default_interface :: "string option"

record routing_manager =
  rm_tun_name :: string
  rm_tun_gateway :: ip_addr
  rm_server_ips :: "ip_addr list"
  rm_saved :: "saved_routes option"

definition routing_manager_new :: "string \<Rightarrow> ip_addr \<Rightarrow> ip_addr list \<Rightarrow> routing_manager" where
  "routing_manager_new tun_name tun_gateway server_ips =
     \<lparr>rm_tun_name = tun_name, rm_tun_gateway = tun_gateway, rm_server_ips = server_ips, rm_saved = None\<rparr>"

section \<open>The current default route\<close>

definition powershell_script :: string where
  "powershell_script =
     ''$physical = (Get-NetAdapter -Physical -ErrorAction SilentlyContinue ''
     @ ''| Where-Object Status -eq '' @ [CHR 0x27] @ ''Up'' @ [CHR 0x27] @ '').ifIndex; ''
     @ ''$r = Get-NetRoute -DestinationPrefix '' @ [CHR 0x27] @ ''0.0.0.0/0'' @ [CHR 0x27]
     @ '' -ErrorAction SilentlyContinue ''
     @ ''| Where-Object { $physical -contains $_.InterfaceIndex } ''
     @ ''| Sort-Object RouteMetric | Select-Object -First 1; ''
     @ ''if ($r) { '' @ [CHR 0x22] @ ''$($r.NextHop) $($r.InterfaceIndex)'' @ [CHR 0x22] @ '' }''"

definition default_route_windows :: "sys_env \<Rightarrow> sys_log \<Rightarrow> (route_error + saved_routes) \<times> sys_log" where
  "default_route_windows env log =
     (case run_output env (cmd ''powershell'' [''-NoProfile'', ''-Command'', powershell_script]) log of
        (Inl _, log1) \<Rightarrow> (Err NoDefaultGateway, log1)
      | (Inr output, log1) \<Rightarrow>
          (let parts = split_whitespace (from_utf8_lossy (po_stdout output));
               gateway = (case parts of s # _ \<Rightarrow> ip_from_str s | [] \<Rightarrow> None);
               if_index = (case parts of _ # s # _ \<Rightarrow> (from_str_radix 10 s :: u32 option) | _ \<Rightarrow> None)
           in (if gateway = None then Err NoDefaultGateway
               else Ok \<lparr>sr_default_gateway = gateway,
                       sr_default_interface = map_option (\<lambda>i. decimal (unat i)) if_index\<rparr>, log1)))"

text \<open>The word after the first occurrence of \<open>key\<close>.\<close>

definition word_after :: "string \<Rightarrow> string list \<Rightarrow> string option" where
  "word_after key ws = (case dropWhile (\<lambda>w. w \<noteq> key) ws of _ # s # _ \<Rightarrow> Some s | _ \<Rightarrow> None)"

definition show_default :: command where
  "show_default = cmd ''ip'' [''route'', ''show'', ''default'']"

definition parse_default_route :: "string \<Rightarrow> saved_routes" where
  "parse_default_route line =
     (let ws = split_whitespace line
      in \<lparr>sr_default_gateway = Option.bind (word_after ''via'' ws) ip_from_str,
          sr_default_interface = word_after ''dev'' ws\<rparr>)"

definition default_route_linux :: "sys_env \<Rightarrow> sys_log \<Rightarrow> (route_error + saved_routes) \<times> sys_log" where
  "default_route_linux env log =
     (case run_output env show_default log of
        (Inl _, log1) \<Rightarrow> (Err NoDefaultGateway, log1)
      | (Inr output, log1) \<Rightarrow> (Ok (parse_default_route (from_utf8_lossy (po_stdout output))), log1))"

definition default_route_macos :: "sys_env \<Rightarrow> sys_log \<Rightarrow> (route_error + saved_routes) \<times> sys_log" where
  "default_route_macos env log =
     (case run_output env (cmd ''route'' [''-n'', ''get'', ''default'']) log of
        (Inl _, log1) \<Rightarrow> (Err NoDefaultGateway, log1)
      | (Inr output, log1) \<Rightarrow>
          (let gateway =
             Option.bind (find (str_contains ''gateway:'') (str_lines (from_utf8_lossy (po_stdout output)))) (\<lambda>l.
             Option.bind (case split_char CHR '':'' l of _ # s # _ \<Rightarrow> Some s | _ \<Rightarrow> None) (\<lambda>s.
               ip_from_str (str_trim s)))
           in (Ok \<lparr>sr_default_gateway = gateway, sr_default_interface = None\<rparr>, log1)))"

section \<open>Windows\<close>

definition tun_if_index :: "sys_env \<Rightarrow> routing_manager \<Rightarrow> sys_log \<Rightarrow> u32 option \<times> sys_log" where
  "tun_if_index env rm log =
     (case run_output env (cmd ''powershell'' [''-NoProfile'', ''-Command'',
             ''(Get-NetAdapter -Name '' @ [CHR 0x27] @ rm_tun_name rm @ [CHR 0x27]
             @ '' -ErrorAction SilentlyContinue).ifIndex'']) log of
        (Inl _, log1) \<Rightarrow> (None, log1)
      | (Inr output, log1) \<Rightarrow> (from_str_radix 10 (str_trim (from_utf8_lossy (po_stdout output))), log1))"

definition run_route :: "sys_env \<Rightarrow> string list \<Rightarrow> sys_log \<Rightarrow> (route_error + unit) \<times> sys_log" where
  "run_route env args log =
     (case run_output env (cmd ''route'' args) log of
        (Inl e, log1) \<Rightarrow> (Err (AddFailed e), log1)
      | (Inr output, log1) \<Rightarrow>
          (if po_success output then (Ok (), log1)
           else (Err (AddFailed (''route '' @ join '' '' args @ '' failed: ''
                    @ str_trim (from_utf8_lossy (po_stdout output))
                    @ str_trim (from_utf8_lossy (po_stderr output)))), log1)))"

text \<open>A route that cannot be added is changed instead.\<close>

definition add_or_change :: "sys_env \<Rightarrow> string list \<Rightarrow> sys_log \<Rightarrow> (route_error + unit) \<times> sys_log" where
  "add_or_change env args log =
     (case run_route env (''add'' # args) log of
        (Inl e, log1) \<Rightarrow> run_route env (''change'' # args) log1
      | (Inr _, log1) \<Rightarrow> (Ok (), log1))"

definition interface_args :: "string option \<Rightarrow> string list" where
  "interface_args index = (case index of None \<Rightarrow> [] | Some i \<Rightarrow> [''if'', i])"

definition split_prefixes :: "string list" where
  "split_prefixes = [''0.0.0.0'', ''128.0.0.0'']"

text \<open>A loop over fallible steps, which ends at the first failure.\<close>

fun try_each :: "('a \<Rightarrow> sys_log \<Rightarrow> ('e + unit) \<times> sys_log) \<Rightarrow> 'a list \<Rightarrow> sys_log \<Rightarrow> ('e + unit) \<times> sys_log" where
  "try_each f [] log = (Ok (), log)"
| "try_each f (x # xs) log =
     (case f x log of (Inl e, log1) \<Rightarrow> (Err e, log1) | (Inr _, log1) \<Rightarrow> try_each f xs log1)"

definition set_default_route_windows ::
  "sys_env \<Rightarrow> routing_manager \<Rightarrow> ip_addr \<Rightarrow> sys_log \<Rightarrow> (route_error + unit) \<times> sys_log" where
  "set_default_route_windows env rm gateway log =
     (let (if_index, log1) = tun_if_index env rm log in
      try_each (\<lambda>prefix. add_or_change env ([prefix, ''mask'', ''128.0.0.0'', display_ip gateway, ''metric'', ''1'']
                  @ interface_args (map_option (\<lambda>i. decimal (unat i)) if_index)))
        split_prefixes log1)"

definition clear_split_routes :: "sys_log \<Rightarrow> sys_log" where
  "clear_split_routes log =
     run_each (map (\<lambda>prefix. cmd ''route'' [''delete'', prefix, ''mask'', ''128.0.0.0'']) split_prefixes) log"

definition add_host_route_windows ::
  "sys_env \<Rightarrow> routing_manager \<Rightarrow> ip_addr \<Rightarrow> ip_addr \<Rightarrow> sys_log \<Rightarrow> (route_error + unit) \<times> sys_log" where
  "add_host_route_windows env rm host gateway log =
     add_or_change env ([display_ip host, ''mask'', ''255.255.255.255'', display_ip gateway, ''metric'', ''1'']
       @ interface_args (Option.bind (rm_saved rm) sr_default_interface)) log"

definition remove_host_route_windows :: "ip_addr \<Rightarrow> command" where
  "remove_host_route_windows host = cmd ''route'' [''delete'', display_ip host]"

section \<open>Linux and macOS\<close>

text \<open>The exit status of these commands is not looked at.\<close>

definition run_spawned :: "sys_env \<Rightarrow> command \<Rightarrow> sys_log \<Rightarrow> (route_error + unit) \<times> sys_log" where
  "run_spawned env c log =
     (case run_output env c log of (Inl e, log1) \<Rightarrow> (Err (AddFailed e), log1) | (Inr _, log1) \<Rightarrow> (Ok (), log1))"

definition default_via :: "ip_addr \<Rightarrow> command" where
  "default_via gateway = cmd ''ip'' [''route'', ''replace'', ''default'', ''via'', display_ip gateway]"

definition host_via :: "ip_addr \<Rightarrow> ip_addr \<Rightarrow> command" where
  "host_via host gateway = cmd ''ip'' [''route'', ''add'', display_ip host @ ''/32'', ''via'', display_ip gateway]"

definition set_default_route_linux :: "ip_addr \<Rightarrow> sys_log \<Rightarrow> (route_error + unit) \<times> sys_log" where
  "set_default_route_linux gateway log =
     (Ok (), run_each [default_via gateway] log)"

definition set_default_route_macos :: "ip_addr \<Rightarrow> sys_log \<Rightarrow> (route_error + unit) \<times> sys_log" where
  "set_default_route_macos gateway log =
     (Ok (), run_each [cmd ''route'' [''change'', ''default'', display_ip gateway]] log)"

definition add_host_route_linux :: "sys_env \<Rightarrow> ip_addr \<Rightarrow> ip_addr \<Rightarrow> sys_log \<Rightarrow> (route_error + unit) \<times> sys_log" where
  "add_host_route_linux env host gateway =
     run_spawned env (host_via host gateway)"

definition add_host_route_macos :: "sys_env \<Rightarrow> ip_addr \<Rightarrow> ip_addr \<Rightarrow> sys_log \<Rightarrow> (route_error + unit) \<times> sys_log" where
  "add_host_route_macos env host gateway =
     run_spawned env (cmd ''route'' [''add'', ''-host'', display_ip host, display_ip gateway])"

definition remove_host_route_linux :: "ip_addr \<Rightarrow> command" where
  "remove_host_route_linux host = cmd ''ip'' [''route'', ''delete'', display_ip host @ ''/32'']"

definition remove_host_route_macos :: "ip_addr \<Rightarrow> command" where
  "remove_host_route_macos host = cmd ''route'' [''delete'', ''-host'', display_ip host]"

section \<open>Activation\<close>

fun current_default_route :: "platform \<Rightarrow> sys_env \<Rightarrow> sys_log \<Rightarrow> (route_error + saved_routes) \<times> sys_log" where
  "current_default_route Windows = default_route_windows"
| "current_default_route Linux = default_route_linux"
| "current_default_route Macos = default_route_macos"

fun set_default_route ::
  "platform \<Rightarrow> sys_env \<Rightarrow> routing_manager \<Rightarrow> ip_addr \<Rightarrow> sys_log \<Rightarrow> (route_error + unit) \<times> sys_log" where
  "set_default_route Windows env rm gateway = set_default_route_windows env rm gateway"
| "set_default_route Linux env rm gateway = set_default_route_linux gateway"
| "set_default_route Macos env rm gateway = set_default_route_macos gateway"

fun add_host_route ::
  "platform \<Rightarrow> sys_env \<Rightarrow> routing_manager \<Rightarrow> ip_addr \<Rightarrow> ip_addr \<Rightarrow> sys_log \<Rightarrow> (route_error + unit) \<times> sys_log" where
  "add_host_route Windows env rm host gateway = add_host_route_windows env rm host gateway"
| "add_host_route Linux env rm host gateway = add_host_route_linux env host gateway"
| "add_host_route Macos env rm host gateway = add_host_route_macos env host gateway"

fun remove_host_route :: "platform \<Rightarrow> ip_addr \<Rightarrow> command" where
  "remove_host_route Windows host = remove_host_route_windows host"
| "remove_host_route Linux host = remove_host_route_linux host"
| "remove_host_route Macos host = remove_host_route_macos host"

definition routing_activate ::
  "platform \<Rightarrow> sys_env \<Rightarrow> routing_manager \<Rightarrow> sys_log \<Rightarrow> (route_error + unit) \<times> routing_manager \<times> sys_log" where
  "routing_activate target env rm log =
     (case current_default_route target env log of
        (Inl e, log1) \<Rightarrow> (Err e, rm, log1)
      | (Inr saved, log1) \<Rightarrow>
          (let rm1 = rm\<lparr>rm_saved := Some saved\<rparr> in
           case (case sr_default_gateway saved of
                   Some gw \<Rightarrow> try_each (\<lambda>server_ip. add_host_route target env rm1 server_ip gw) (rm_server_ips rm1) log1
                 | None \<Rightarrow> (Ok (), log1)) of
             (Inl e, log2) \<Rightarrow> (Err e, rm1, log2)
           | (Inr _, log2) \<Rightarrow>
               (let (r, log3) = set_default_route target env rm1 (rm_tun_gateway rm1) log2 in (r, rm1, log3))))"

definition routing_deactivate ::
  "platform \<Rightarrow> sys_env \<Rightarrow> routing_manager \<Rightarrow> sys_log \<Rightarrow> (route_error + unit) \<times> routing_manager \<times> sys_log" where
  "routing_deactivate target env rm log =
     (case rm_saved rm of
        None \<Rightarrow> (Ok (), rm, log)
      | Some saved \<Rightarrow>
          (let log1 = (if target = Windows then clear_split_routes log
                       else case sr_default_gateway saved of
                              Some gw \<Rightarrow> snd (set_default_route target env rm gw log)
                            | None \<Rightarrow> log)
           in (Ok (), rm\<lparr>rm_saved := None\<rparr>, run_each (map (remove_host_route target) (rm_server_ips rm)) log1)))"

definition routing_drop :: "platform \<Rightarrow> sys_env \<Rightarrow> routing_manager \<Rightarrow> sys_log \<Rightarrow> sys_log" where
  "routing_drop target env rm log =
     (if rm_saved rm \<noteq> None then snd (snd (routing_deactivate target env rm log)) else log)"

section \<open>Facts\<close>

text \<open>Whatever each step of a loop adds to the log, the loop adds only that.\<close>

lemma try_each_log:
  assumes "try_each f xs log = (r, log')"
    and "\<And>x log r log'. x \<in> set xs \<Longrightarrow> f x log = (r, log') \<Longrightarrow> \<exists>ops. log' = log @ ops \<and> P ops"
    and "P []" and "\<And>as bs. P as \<Longrightarrow> P bs \<Longrightarrow> P (as @ bs)"
  shows "\<exists>ops. log' = log @ ops \<and> P ops"
  using assms(1,2)
proof (induction xs arbitrary: log)
  case Nil
  then show ?case using assms(3) by auto
next
  case (Cons x xs)
  obtain rx log1 where f: "f x log = (rx, log1)" by fastforce
  obtain ops where ops: "log1 = log @ ops" "P ops" using Cons.prems(2) [OF _ f] by auto
  show ?case
  proof (cases rx)
    case (Inl e)
    then show ?thesis using Cons.prems(1) f ops by auto
  next
    case (Inr u)
    then have "try_each f xs log1 = (r, log')" using Cons.prems(1) f by simp
    then obtain ops' where "log' = log1 @ ops'" "P ops'" using Cons.IH Cons.prems(2) by fastforce
    then show ?thesis using ops assms(4) by auto
  qed
qed

lemma routing_drop_eq: "routing_drop p env rm log = snd (snd (routing_deactivate p env rm log))"
  by (auto simp: routing_drop_def routing_deactivate_def)

lemma deactivate_clears: "rm_saved (fst (snd (routing_deactivate p env rm log))) = None"
  by (simp add: routing_deactivate_def Let_def split: option.split)

lemma deactivate_twice:
  "routing_deactivate p env rm log = (r, rm', log') \<Longrightarrow> routing_deactivate p env rm' log' = (Ok (), rm', log')"
  using deactivate_clears [of p env rm log] by (simp add: routing_deactivate_def)

lemma add_host_linux_log:
  "add_host_route_linux env host gw log = (r, log') \<Longrightarrow> log' = log @ [Run (host_via host gw)]"
  by (auto simp: add_host_route_linux_def run_spawned_def run_output_def split: sum.splits)

text \<open>What the Linux activation does: it looks the default route up, adds the host routes as far as
  they can be added, and then replaces the default route.\<close>

lemma activate_linux_log:
  assumes "routing_activate Linux env rm log = (r, rm1, log1)" and "se_run env log show_default = Inr output"
  defines "saved \<equiv> parse_default_route (from_utf8_lossy (po_stdout output))"
  shows "\<exists>hosts. rm1 = rm\<lparr>rm_saved := Some saved\<rparr> \<and> (\<forall>op\<in>set hosts. \<exists>h g. op = Run (host_via h g))
     \<and> log1 = log @ Run show_default # hosts @ (if is_ok r then [Run (default_via (rm_tun_gateway rm))] else [])
     \<and> (sr_default_gateway saved = None \<longrightarrow> is_ok r \<and> hosts = [])"
proof -
  let ?rm1 = "rm\<lparr>rm_saved := Some saved\<rparr>"
  let ?log = "log @ [Run show_default]"
  define loop where "loop = (case sr_default_gateway saved of
      Some gw \<Rightarrow> try_each (\<lambda>server_ip. add_host_route_linux env server_ip gw) (rm_server_ips rm) ?log
    | None \<Rightarrow> (Ok (), ?log))"
  obtain rl log2 where loop2: "loop = (rl, log2)" by fastforce
  let ?P = "\<lambda>ops. \<forall>op\<in>set ops. \<exists>h g. op = Run (host_via h g)"
  have hosts: "\<exists>hosts. log2 = ?log @ hosts \<and> ?P hosts"
  proof (cases "sr_default_gateway saved")
    case (Some gw)
    then have "try_each (\<lambda>server_ip. add_host_route_linux env server_ip gw) (rm_server_ips rm) ?log = (rl, log2)"
      using loop2 by (simp add: loop_def)
    then show ?thesis by (rule try_each_log) (use add_host_linux_log in fastforce)+
  qed (use loop2 in \<open>simp add: loop_def\<close>)
  have none: "rl = Ok () \<and> log2 = ?log" if "sr_default_gateway saved = None"
    using that loop2 by (simp add: loop_def)
  have "routing_activate Linux env rm log =
      (case loop of (Inl e, log2) \<Rightarrow> (Err e, ?rm1, log2)
       | (Inr _, log2) \<Rightarrow> (Ok (), ?rm1, log2 @ [Run (default_via (rm_tun_gateway rm))]))"
    using assms(2) unfolding saved_def loop_def
    by (cases "sr_default_gateway (parse_default_route (from_utf8_lossy (po_stdout output)))")
      (auto simp: routing_activate_def default_route_linux_def run_output_def set_default_route_linux_def
        run_each_def Let_def split: sum.split prod.split)
  with loop2 assms(1) hosts none show ?thesis by (cases rl) (auto simp: is_ok_def)
qed

text \<open>Operations that, as documented, leave the default gateway alone: showing it, adding and deleting the
  route to a single host, giving a device an address, and other programs.\<close>

definition route_neutral :: "sys_op \<Rightarrow> bool" where
  "route_neutral op \<longleftrightarrow>
     (\<exists>c. op = Run c \<and> (cmd_program c = ''nft'' \<or> c = show_default \<or> (\<exists>h g. c = host_via h g)
        \<or> (\<exists>h. c = remove_host_route_linux h) \<or> (\<exists>rest. c = cmd ''ip'' (''addr'' # ''add'' # rest))
        \<or> (\<exists>rest. c = cmd ''ip'' (''link'' # ''set'' # rest))))"

lemma route_neutral_intros [simp]:
  "route_neutral (Run show_default)" "route_neutral (Run (host_via h g))"
  "route_neutral (Run (remove_host_route_linux h))" "route_neutral (Run (cmd ''nft'' args))"
  "route_neutral (Run (cmd ''ip'' (''addr'' # ''add'' # rest)))"
  "route_neutral (Run (cmd ''ip'' (''link'' # ''set'' # rest)))"
  by (auto simp: route_neutral_def cmd_def)

definition neutral_law :: "(sys_log \<Rightarrow> u32 option) \<Rightarrow> bool" where
  "neutral_law default_of \<longleftrightarrow> (\<forall>log op. route_neutral op \<longrightarrow> default_of (log @ [op]) = default_of log)"

definition replace_law :: "(sys_log \<Rightarrow> u32 option) \<Rightarrow> bool" where
  "replace_law default_of \<longleftrightarrow> (\<forall>log a. default_of (log @ [Run (default_via (IPv4 a))]) = Some a)"

lemma neutral_ops:
  "neutral_law default_of \<Longrightarrow> \<forall>op\<in>set ops. route_neutral op \<Longrightarrow> default_of (log @ ops) = default_of log"
proof (induction ops rule: rev_induct)
  case (snoc op ops)
  then have "default_of ((log @ ops) @ [op]) = default_of (log @ ops)" by (simp add: neutral_law_def del: append_assoc)
  with snoc show ?case by simp
qed simp

lemma linux_activate_default:
  assumes "replace_law default_of" and "neutral_law default_of"
    and "se_run env log show_default = Inr output" and "rm_tun_gateway rm = IPv4 tun"
    and "routing_activate Linux env rm log = (r, rm1, log1)"
  shows "default_of log1 = (if is_ok r then Some tun else default_of log)"
proof -
  obtain hosts where h: "\<forall>op\<in>set hosts. \<exists>h g. op = Run (host_via h g)"
    and log1: "log1 = log @ Run show_default # hosts @ (if is_ok r then [Run (default_via (IPv4 tun))] else [])"
    using activate_linux_log [OF assms(5,3)] assms(4) by metis
  have "default_of (log @ Run show_default # hosts) = default_of log"
    by (rule neutral_ops [OF assms(2)]) (use h in auto)
  then show ?thesis
    using assms(1) [unfolded replace_law_def, rule_format, of "log @ Run show_default # hosts" tun] log1 by simp
qed

lemma linux_deactivate_default:
  assumes "replace_law default_of" and "neutral_law default_of"
    and "rm_saved rm = Some saved" and "sr_default_gateway saved = Some (IPv4 gw)"
    and "routing_deactivate Linux env rm log = (r, rm1, log1)"
  shows "default_of log1 = Some gw"
proof -
  have log1: "log1 = (log @ [Run (default_via (IPv4 gw))]) @ map (\<lambda>h. Run (remove_host_route_linux h)) (rm_server_ips rm)"
    using assms(3-5) by (auto simp: routing_deactivate_def run_each_def set_default_route_linux_def comp_def)
  have "default_of log1 = default_of (log @ [Run (default_via (IPv4 gw))])"
    unfolding log1 by (rule neutral_ops [OF assms(2)]) auto
  then show ?thesis using assms(1) by (simp add: replace_law_def)
qed

lemma parse_default_via:
  assumes "output = \<lparr>po_success = ok, po_stdout = as_bytes (join '' '' [''default'', ''via'', display_ipv4 a]), po_stderr = err\<rparr>"
  shows "sr_default_gateway (parse_default_route (from_utf8_lossy (po_stdout output))) = Some (IPv4 a)"
proof -
  let ?ws = "[''default'', ''via'', display_ipv4 a]"
  have "list_all plain_word [''default'', ''via'']" by code_simp
  then have plain: "\<forall>w\<in>set ?ws. plain_word w" by simp
  have "split_whitespace (from_utf8_lossy (po_stdout output)) = ?ws"
    unfolding assms by (simp only: proc_output.simps from_utf8_lossy_as_bytes words_is_str [OF plain] split_whitespace_words [OF plain])
  then show ?thesis by (simp add: parse_default_route_def word_after_def)
qed

end
