(* ===== verification/Tun_Device.thy ===== *)
theory Tun_Device
  imports Std_Process
begin

text \<open>
  The TUN device of \<open>kanrin-tun/src/device.rs\<close> on its three platforms: creating and configuring it, the
  framing of packets on it, and closing it. The Wintun library, the system calls and their results
  are the parameter \<open>tun_env\<close>; an operation that panics has the result \<open>None\<close>.
\<close>

section \<open>Configuration and errors\<close>

datatype tun_error =
    CreateFailed string
  | ConfigFailed string
  | ReadError string
  | WriteError string
  | DeviceClosed
  | PlatformUnsupported
  | IoError string

fun display_tun_error :: "tun_error \<Rightarrow> string" where
  "display_tun_error (CreateFailed s) = ''failed to create TUN device: '' @ s"
| "display_tun_error (ConfigFailed s) = ''failed to configure TUN device: '' @ s"
| "display_tun_error (ReadError s) = ''read error: '' @ s"
| "display_tun_error (WriteError s) = ''write error: '' @ s"
| "display_tun_error DeviceClosed = ''device closed''"
| "display_tun_error PlatformUnsupported = ''platform not supported''"
| "display_tun_error (IoError s) = ''io error: '' @ s"

record tun_config =
  tc_name :: string
  tc_address :: ip_addr
  tc_netmask :: ip_addr
  tc_gateway :: ip_addr
  tc_dns :: "ip_addr list"
  tc_mtu :: u16

definition tun_config_default :: tun_config where
  "tun_config_default =
     \<lparr>tc_name = ''kanrin0'', tc_address = IPv4 0x0A0A0002, tc_netmask = IPv4 0xFFFFFF00,
      tc_gateway = IPv4 0x0A0A0001, tc_dns = [IPv4 0x0A0A0001], tc_mtu = 1400\<rparr>"

datatype tun_inner = WindowsTun | LinuxTun int string | MacosTun int string

record tun_device =
  td_inner :: tun_inner
  td_config :: tun_config

text \<open>The answers of the Wintun library and of the system calls.\<close>

record tun_env =
  te_sys :: sys_env
  te_wintun_load :: "string + unit"
  te_adapter_create :: "string \<Rightarrow> string + unit"
  te_start_session :: "string + unit"
  te_open :: int
  te_ioctl :: "int \<Rightarrow> bytes \<Rightarrow> int"
  te_socket :: int

section \<open>Creating the device\<close>

definition create_windows :: "tun_env \<Rightarrow> tun_config \<Rightarrow> sys_log \<Rightarrow> (tun_error + tun_inner) \<times> sys_log" where
  "create_windows env config log =
     (case te_wintun_load env of
        Inl e \<Rightarrow> (Err (CreateFailed (''failed to load wintun.dll: '' @ e)), log)
      | Inr _ \<Rightarrow>
     (case te_adapter_create env (tc_name config) of
        Inl e \<Rightarrow> (Err (CreateFailed (''adapter create: '' @ e)), log)
      | Inr _ \<Rightarrow>
     (case run_output (te_sys env) (cmd ''netsh'' [''interface'', ''ip'', ''set'', ''address'',
             ''name='' @ tc_name config, ''static'', display_ip (tc_address config),
             display_ip (tc_netmask config), display_ip (tc_gateway config)]) log of
        (Inl e, log1) \<Rightarrow> (Err (ConfigFailed (''netsh: '' @ e)), log1)
      | (Inr _, log1) \<Rightarrow>
          (let log2 = run_each (map (\<lambda>dns. cmd ''netsh'' [''interface'', ''ip'', ''set'', ''dns'',
                  ''name='' @ tc_name config, ''static'', display_ip dns]) (tc_dns config)) log1;
               log3 = run_each [cmd ''netsh'' [''interface'', ''ipv4'', ''set'', ''subinterface'',
                  tc_name config, ''mtu='' @ decimal (unat (tc_mtu config))]] log2
           in case te_start_session env of
                Inl e \<Rightarrow> (Err (CreateFailed (''start session: '' @ e)), log3)
              | Inr _ \<Rightarrow> (Ok WindowsTun, log3)))))"

text \<open>The interface name given to the kernel holds at most 15 bytes (\<open>IFNAMSIZ - 1\<close>); the commands that
  follow name the device in full.\<close>

definition ifr_name :: "string \<Rightarrow> bytes" where
  "ifr_name name = take 15 (as_bytes name)"

definition create_linux :: "tun_env \<Rightarrow> tun_config \<Rightarrow> sys_log \<Rightarrow> (tun_error + tun_inner) \<times> sys_log" where
  "create_linux env config log =
     (let fd = te_open env in
      if fd < 0 then (Err (CreateFailed ''failed to open /dev/net/tun''), log)
      else if te_ioctl env fd (ifr_name (tc_name config)) < 0
      then (Err (CreateFailed ''TUNSETIFF ioctl failed''), log @ [CloseFd fd])
      else (Ok (LinuxTun fd (tc_name config)), run_each
        [cmd ''ip'' [''addr'', ''add'', display_ip (tc_address config) @ ''/24'', ''dev'', tc_name config],
         cmd ''ip'' [''link'', ''set'', ''dev'', tc_name config, ''up''],
         cmd ''ip'' [''link'', ''set'', ''dev'', tc_name config, ''mtu'', decimal (unat (tc_mtu config))]] log))"

definition create_macos :: "tun_env \<Rightarrow> tun_config \<Rightarrow> sys_log \<Rightarrow> (tun_error + tun_inner) \<times> sys_log" where
  "create_macos env config log =
     (let fd = te_socket env in
      if fd < 0 then (Err (CreateFailed ''failed to create utun socket''), log)
      else (Ok (MacosTun fd (tc_name config)), run_each
        [cmd ''ifconfig'' [tc_name config, display_ip (tc_address config), display_ip (tc_gateway config), ''up'']] log))"

definition tun_create ::
  "platform \<Rightarrow> tun_env \<Rightarrow> tun_config \<Rightarrow> sys_log \<Rightarrow> (tun_error + tun_device) \<times> sys_log" where
  "tun_create target env config log =
     (case (case target of
          Windows \<Rightarrow> create_windows env config log
        | Linux \<Rightarrow> create_linux env config log
        | Macos \<Rightarrow> create_macos env config log) of
        (Inl e, log1) \<Rightarrow> (Err e, log1)
      | (Inr inner, log1) \<Rightarrow> (Ok \<lparr>td_inner = inner, td_config = config\<rparr>, log1))"

section \<open>Packets\<close>

text \<open>\<open>raw\<close> is what the system has for the reader, \<open>None\<close> if the call fails; the buffer of the
  system calls holds 1500 bytes.\<close>

definition read_windows :: "string + bytes \<Rightarrow> tun_error + bytes" where
  "read_windows received = map_err ReadError received"

definition read_linux :: "bytes option \<Rightarrow> tun_error + bytes" where
  "read_linux raw =
     (case raw of None \<Rightarrow> Err (ReadError ''read failed'') | Some data \<Rightarrow> Ok (take 1500 data))"

definition read_macos :: "bytes option \<Rightarrow> tun_error + bytes" where
  "read_macos raw =
     (case raw of
        None \<Rightarrow> Err (ReadError ''short read'')
      | Some data \<Rightarrow>
          (let buf = take 1500 data in
           if length buf \<le> 4 then Err (ReadError ''short read'') else Ok (drop 4 buf)))"

text \<open>The bytes a write gives to the system. Wintun's ring buffer is asked for a packet whose length is
  the data's length as a 16-bit integer; copying into it panics if the lengths differ.\<close>

definition write_windows :: "(u16 \<Rightarrow> string + unit) \<Rightarrow> bytes \<Rightarrow> (tun_error + bytes) option" where
  "write_windows allocate_send_packet data =
     (let len = word_of_nat (length data) :: u16 in
      case allocate_send_packet len of
        Inl e \<Rightarrow> Some (Err (WriteError (''allocate: '' @ e)))
      | Inr _ \<Rightarrow> if unat len = length data then Some (Ok data) else None)"

definition write_linux :: "bool \<Rightarrow> bytes \<Rightarrow> tun_error + bytes" where
  "write_linux written data = (if written then Ok data else Err (WriteError ''write failed''))"

definition write_macos :: "bool \<Rightarrow> bytes \<Rightarrow> (tun_error + bytes) option" where
  "write_macos written data =
     (case data of
        [] \<Rightarrow> None
      | b # _ \<Rightarrow>
          (let af = (if drop_bit 4 b = 4 then 2 else 30 :: u32);
               buf = be32 af @ data
           in Some (if written then Ok buf else Err (WriteError ''write failed''))))"

definition tun_close :: "tun_inner \<Rightarrow> sys_log \<Rightarrow> sys_log" where
  "tun_close inner log =
     (case inner of WindowsTun \<Rightarrow> log | LinuxTun fd _ \<Rightarrow> log @ [CloseFd fd] | MacosTun fd _ \<Rightarrow> log @ [CloseFd fd])"

section \<open>Facts\<close>

text \<open>No descriptor outlives a failed creation, and a created device's is closed with it.\<close>

definition fd_of :: "tun_inner \<Rightarrow> int option" where
  "fd_of inner = (case inner of WindowsTun \<Rightarrow> None | LinuxTun fd _ \<Rightarrow> Some fd | MacosTun fd _ \<Rightarrow> Some fd)"

lemma create_linux_no_leak:
  "create_linux env config log = (Err e, log') \<Longrightarrow> 0 \<le> te_open env \<Longrightarrow> CloseFd (te_open env) \<in> set (ops_since log log')"
  by (auto simp: create_linux_def Let_def split: if_splits)

lemma close_closes: "fd_of inner = Some fd \<Longrightarrow> CloseFd fd \<in> set (ops_since log (tun_close inner log))"
  by (cases inner) (auto simp: fd_of_def tun_close_def)

text \<open>A packet written on macOS carries a header of four bytes, which a reader takes off again.\<close>

lemma macos_packet_roundtrip:
  assumes "data \<noteq> []" and "length data \<le> 1496"
  shows "\<exists>buf. write_macos True data = Some (Ok buf) \<and> read_macos (Some buf) = Ok data"
  using assms by (cases data) (auto simp: write_macos_def read_macos_def Let_def)

lemma windows_write_exact:
  "write_windows alloc data = Some (Ok out) \<Longrightarrow> out = data \<and> length data < 65536"
  using unat_lt [of "word_of_nat (length data) :: u16"]
  by (auto simp: write_windows_def Let_def split: sum.splits if_splits)

lemma linux_packet_whole: "length data \<le> 1500 \<Longrightarrow> read_linux (Some data) = Ok data"
  by (simp add: read_linux_def)

end
