(* ===== verification/Client_System.thy ===== *)
theory Client_System
  imports Client_Config Client_Lifecycle Tun_Killswitch Tun_Routes Tun_Device
begin

text \<open>
  The phases of \<open>run_pipeline\<close> (\<open>kanrin-client/src/pipeline.rs\<close>) that change the system around the main
  loop: creating the TUN device, switching the routing on and activating the kill switch, and undoing
  the last two when the loop has ended. Resolving the server's name is the parameter \<open>lookup\<close>.
\<close>

record client_system =
  cy_device :: tun_device
  cy_routing :: routing_manager
  cy_kill_switch :: "kill_switch option"

definition server_ips :: "(string \<Rightarrow> u16 \<Rightarrow> string + ip_addr list) \<Rightarrow> client_server_config \<Rightarrow> ip_addr list" where
  "server_ips lookup server =
     (case ip_from_str (cs_address server) of
        Some ip \<Rightarrow> [ip]
      | None \<Rightarrow> (case lookup (cs_address server) (cs_port server) of Inr addrs \<Rightarrow> addrs | Inl _ \<Rightarrow> []))"

definition client_kill_switch :: "kanrin_config \<Rightarrow> kill_switch_config" where
  "client_kill_switch cfg =
     \<lparr>kc_allowed_ips = [case ip_from_str (cs_address (kc_server cfg)) of Some ip \<Rightarrow> ip | None \<Rightarrow> IPv4 0],
      kc_allow_lan = ts_allow_lan (kc_tun cfg), kc_allow_loopback = True\<rparr>"

definition setup_system ::
  "platform \<Rightarrow> tun_env \<Rightarrow> (string \<Rightarrow> u16 \<Rightarrow> string + ip_addr list) \<Rightarrow> kanrin_config \<Rightarrow> ip_addr \<Rightarrow> sys_log
     \<Rightarrow> (client_error + client_system) \<times> kanrin_event list \<times> sys_log" where
  "setup_system target env lookup cfg tun_address log =
     (let tun_config = tun_config_default\<lparr>tc_name := ts_name (kc_tun cfg), tc_address := tun_address,
                         tc_mtu := ts_mtu (kc_tun cfg)\<rparr> in
      case tun_create target env tun_config log of
        (Inl e, log1) \<Rightarrow> (Err (Internal (''TUN create: '' @ display_tun_error e)), [], log1)
      | (Inr device, log1) \<Rightarrow>
          (let rm = routing_manager_new (ts_name (kc_tun cfg)) (tc_gateway (td_config device))
                      (server_ips lookup (kc_server cfg));
               (_, rm1, log2) = routing_activate target (te_sys env) rm log1
           in if ts_kill_switch (kc_tun cfg) then
                (let (_, ks, log3) = kill_switch_activate (te_sys env) target
                                       (kill_switch_new (client_kill_switch cfg)) log2
                 in (Ok \<lparr>cy_device = device, cy_routing = rm1, cy_kill_switch = Some ks\<rparr>,
                     [KillSwitchChanged True], log3))
              else (Ok \<lparr>cy_device = device, cy_routing = rm1, cy_kill_switch = None\<rparr>, [], log2)))"

text \<open>The device is closed only if no other reference to it is left, which the argument \<open>sole_owner\<close>
  says: the reading task that shares it has only been asked to end.\<close>

definition stop_kill_switch ::
  "platform \<Rightarrow> kill_switch option \<Rightarrow> sys_log \<Rightarrow> kill_switch option \<times> kanrin_event list \<times> sys_log" where
  "stop_kill_switch target kill_switch log =
     (case kill_switch of
        None \<Rightarrow> (None, [], log)
      | Some ks \<Rightarrow>
          (let (_, ks1, log1) = kill_switch_deactivate target ks log
           in (Some ks1, [KillSwitchChanged False], log1)))"

definition teardown_system ::
  "platform \<Rightarrow> tun_env \<Rightarrow> bool \<Rightarrow> client_system \<Rightarrow> sys_log \<Rightarrow> client_system \<times> kanrin_event list \<times> sys_log" where
  "teardown_system target env sole_owner cy log =
     (let (ks, events, log1) = stop_kill_switch target (cy_kill_switch cy) log;
          (_, rm, log2) = routing_deactivate target (te_sys env) (cy_routing cy) log1;
          log3 = (if sole_owner then tun_close (td_inner (cy_device cy)) log2 else log2)
      in (cy\<lparr>cy_kill_switch := ks, cy_routing := rm\<rparr>, events, log3))"

text \<open>A pipeline that ends early drops what it has set up.\<close>

definition drop_system :: "platform \<Rightarrow> tun_env \<Rightarrow> client_system \<Rightarrow> sys_log \<Rightarrow> sys_log" where
  "drop_system target env cy log =
     (let log1 = (case cy_kill_switch cy of None \<Rightarrow> log | Some ks \<Rightarrow> kill_switch_drop target ks log)
      in routing_drop target (te_sys env) (cy_routing cy) log1)"

section \<open>Facts\<close>

lemma setup_failed:
  assumes "setup_system target env lookup cfg addr log = (Inl e, events, log1)"
  shows "events = [] \<and> (\<exists>te. log1 = snd (tun_create target env (tun_config_default\<lparr>tc_name := ts_name (kc_tun cfg),
           tc_address := addr, tc_mtu := ts_mtu (kc_tun cfg)\<rparr>) log) \<and> e = Internal (''TUN create: '' @ te))"
  using assms by (auto simp: setup_system_def Let_def split: sum.splits prod.splits if_splits)

lemma teardown_clears:
  assumes "teardown_system target env sole cy log = (cy', events, log')"
  shows "rm_saved (cy_routing cy') = None" and "\<forall>ks. cy_kill_switch cy' = Some ks \<longrightarrow> \<not> ks_active ks"
    and "drop_system target env cy' log2 = log2"
proof -
  obtain ks ev log1 where k: "stop_kill_switch target (cy_kill_switch cy) log = (ks, ev, log1)"
    by (metis prod_cases3)
  then have inactive: "ks = None \<or> (\<exists>ks1. ks = Some ks1 \<and> \<not> ks_active ks1)"
    by (auto simp: stop_kill_switch_def Let_def dest: deactivated split: option.splits prod.splits)
  obtain r rm logd where d: "routing_deactivate target (te_sys env) (cy_routing cy) log1 = (r, rm, logd)"
    by (metis prod_cases3)
  have cy': "cy_routing cy' = rm" "cy_kill_switch cy' = ks"
    using assms by (auto simp: teardown_system_def k d)
  show saved: "rm_saved (cy_routing cy') = None"
    using deactivate_clears [of target "te_sys env" "cy_routing cy" log1] d cy' by simp
  show act: "\<forall>ks. cy_kill_switch cy' = Some ks \<longrightarrow> \<not> ks_active ks" using inactive cy' by auto
  show "drop_system target env cy' log2 = log2"
    using saved act by (auto simp: drop_system_def routing_drop_def kill_switch_drop_def split: option.split)
qed

lemma create_linux_neutral:
  "tun_create Linux env config log = (Inr dev, log') \<Longrightarrow> \<exists>ops. log' = log @ ops \<and> (\<forall>op\<in>set ops. route_neutral op)
     \<and> td_config dev = config"
  by (auto simp: tun_create_def create_linux_def run_each_def Let_def split: if_splits)

lemma kill_switch_linux_neutral:
  "kill_switch_activate env Linux ks log = (r, ks', log') \<Longrightarrow> \<exists>ops. log' = log @ ops \<and> (\<forall>op\<in>set ops. route_neutral op)"
  "kill_switch_deactivate Linux ks log = (r, ks', log') \<Longrightarrow> \<exists>ops. log' = log @ ops \<and> (\<forall>op\<in>set ops. route_neutral op)"
  by (auto simp: kill_switch_activate_def activate_linux_def kill_switch_deactivate_def deactivate_linux_def
      run_output_def run_each_def split: if_splits sum.splits)

text \<open>What \<open>ip route show default\<close> prints names the default gateway.\<close>

definition shown_law :: "sys_env \<Rightarrow> (sys_log \<Rightarrow> u32 option) \<Rightarrow> bool" where
  "shown_law env default_of \<longleftrightarrow>
     (\<forall>log. \<exists>out. se_run env log show_default = Inr out \<and>
        sr_default_gateway (parse_default_route (from_utf8_lossy (po_stdout out))) = map_option IPv4 (default_of log))"

text \<open>Closing a TUN device removes only routes over it.\<close>

definition close_law :: "(sys_log \<Rightarrow> u32 option) \<Rightarrow> bool" where
  "close_law default_of \<longleftrightarrow>
     (\<forall>log fd gw. default_of log = Some gw \<and> gw \<noteq> 0x0A0A0001 \<longrightarrow> default_of (log @ [CloseFd fd]) = Some gw)"

lemma setup_linux_default:
  assumes "replace_law default_of" and "neutral_law default_of" and "shown_law (te_sys env) default_of"
    and "default_of log = Some gw" and "setup_system Linux env lookup cfg addr log = (Inr cy, events, log1)"
  shows "default_of log1 \<in> {Some gw, Some 0x0A0A0001}
     \<and> (\<exists>saved. rm_saved (cy_routing cy) = Some saved \<and> sr_default_gateway saved = Some (IPv4 gw))"
proof -
  let ?config = "tun_config_default\<lparr>tc_name := ts_name (kc_tun cfg), tc_address := addr, tc_mtu := ts_mtu (kc_tun cfg)\<rparr>"
  obtain dev loga where dev: "tun_create Linux env ?config log = (Inr dev, loga)"
    using assms(5) by (auto simp: setup_system_def Let_def split: sum.splits prod.splits)
  let ?rm = "routing_manager_new (ts_name (kc_tun cfg)) (tc_gateway (td_config dev)) (server_ips lookup (kc_server cfg))"
  obtain r rm1 logb where on: "routing_activate Linux (te_sys env) ?rm loga = (r, rm1, logb)" by (metis prod_cases3)
  obtain opsa where a: "loga = log @ opsa" "\<forall>op\<in>set opsa. route_neutral op" and cfg: "td_config dev = ?config"
    using create_linux_neutral [OF dev] by blast
  have ga: "default_of loga = Some gw" using neutral_ops [OF assms(2) a(2), of log] a(1) assms(4) by simp
  obtain out where shown: "se_run (te_sys env) loga show_default = Inr out"
    and gw: "sr_default_gateway (parse_default_route (from_utf8_lossy (po_stdout out))) = Some (IPv4 gw)"
    using assms(3) ga unfolding shown_law_def by (metis option.simps(9))
  have tun: "rm_tun_gateway ?rm = IPv4 0x0A0A0001"
    by (simp add: routing_manager_new_def cfg tun_config_default_def)
  have gb: "default_of logb \<in> {Some gw, Some 0x0A0A0001}"
    using linux_activate_default [OF assms(1,2) shown tun on] ga by simp
  have saved: "\<exists>saved. rm_saved rm1 = Some saved \<and> sr_default_gateway saved = Some (IPv4 gw)"
    using activate_linux_log [OF on shown] gw by auto
  have "cy_routing cy = rm1 \<and> (\<exists>ops. log1 = logb @ ops \<and> (\<forall>op\<in>set ops. route_neutral op))"
    using assms(5) dev on
    by (auto simp: setup_system_def Let_def dest: kill_switch_linux_neutral(1) split: if_splits prod.splits)
  then show ?thesis using gb saved neutral_ops [OF assms(2)] by auto
qed

lemma client_restores_default_route_facts:
  assumes "replace_law default_of" and "neutral_law default_of" and "close_law default_of"
    and "shown_law (te_sys env) default_of" and "default_of log = Some gw" and "gw \<noteq> 0x0A0A0001"
    and on: "setup_system Linux env lookup cfg addr log = (Inr cy, events, log1)"
    and off: "teardown_system Linux env sole_owner cy log1 = (cy', events', log2)"
  shows "default_of log2 = Some gw"
    and "drop_system Linux env cy' log2 = log2"
    and "\<forall>ks. cy_kill_switch cy' = Some ks \<longrightarrow> \<not> ks_active ks"
proof -
  obtain saved where saved: "rm_saved (cy_routing cy) = Some saved" "sr_default_gateway saved = Some (IPv4 gw)"
    using setup_linux_default [OF assms(1,2,4,5) on] by blast
  obtain ks ev loga where k: "stop_kill_switch Linux (cy_kill_switch cy) log1 = (ks, ev, loga)"
    by (metis prod_cases3)
  obtain r rm logb where d: "routing_deactivate Linux (te_sys env) (cy_routing cy) loga = (r, rm, logb)"
    by (metis prod_cases3)
  have b: "default_of logb = Some gw" by (rule linux_deactivate_default [OF assms(1,2) saved d])
  have "log2 = (if sole_owner then tun_close (td_inner (cy_device cy)) logb else logb)"
    using off by (simp add: teardown_system_def k d)
  then show "default_of log2 = Some gw"
    using b assms(3,6) by (auto simp: close_law_def tun_close_def split: tun_inner.split)
  show "drop_system Linux env cy' log2 = log2" "\<forall>ks. cy_kill_switch cy' = Some ks \<longrightarrow> \<not> ks_active ks"
    using teardown_clears [OF off] by simp_all
qed

text \<open>On Linux, with the documented effect of the commands on the default gateway, a client that
  connects and disconnects leaves the system as it found it: its default gateway is again the one from
  before, whatever commands failed on the way, the kill switch is inactive, and dropping what is left
  of the client does nothing more.\<close>

lemma client_restores_default_route:
  assumes "replace_law default_of" and "neutral_law default_of" and "close_law default_of"
    and "shown_law (te_sys env) default_of" and "default_of log = Some gw" and "gw \<noteq> 0x0A0A0001"
    and "setup_system Linux env lookup cfg addr log = (Inr cy, events, log1)"
    and "teardown_system Linux env sole_owner cy log1 = (cy', events', log2)"
  shows "default_of log2 = Some gw \<and> drop_system Linux env cy' log2 = log2 \<and>
    (\<forall>ks. cy_kill_switch cy' = Some ks \<longrightarrow> \<not> ks_active ks)"
  using client_restores_default_route_facts [OF assms] by blast

definition demo_default_step :: "u32 \<Rightarrow> sys_op \<Rightarrow> u32" where
  "demo_default_step d op =
     (case op of
        Run c \<Rightarrow>
          (if cmd_program c = ''ip'' \<and> length (cmd_args c) = 5 \<and> take 2 (cmd_args c) = [''route'', ''replace'']
           then case ip_from_str (last (cmd_args c)) of Some (IPv4 a) \<Rightarrow> a | _ \<Rightarrow> d
           else d)
      | _ \<Rightarrow> d)"

definition demo_default_of :: "sys_log \<Rightarrow> u32 option" where
  "demo_default_of log = Some (foldl demo_default_step 0xC0000201 log)"

definition demo_tun_env :: tun_env where
  "demo_tun_env =
     \<lparr>te_sys = \<lparr>se_run = (\<lambda>log _. Inr \<lparr>po_success = True,
        po_stdout = as_bytes (join '' '' [''default'', ''via'', display_ipv4 (the (demo_default_of log))]), po_stderr = []\<rparr>),
        se_write = (\<lambda>_ _ _. Inr ())\<rparr>,
      te_wintun_load = Inr (), te_adapter_create = (\<lambda>_. Inr ()), te_start_session = Inr (),
      te_open = 3, te_ioctl = (\<lambda>_ _. 0), te_socket = 3\<rparr>"

definition demo_lookup :: "string \<Rightarrow> u16 \<Rightarrow> string + ip_addr list" where
  "demo_lookup host port = Inr [IPv4 0xC6336401]"

lemma demo_laws:
  "replace_law demo_default_of" "neutral_law demo_default_of" "close_law demo_default_of"
  "shown_law (te_sys demo_tun_env) demo_default_of"
proof -
  show "replace_law demo_default_of"
    by (simp add: replace_law_def demo_default_of_def demo_default_step_def default_via_def cmd_def)
  show "neutral_law demo_default_of"
    by (auto simp: neutral_law_def demo_default_of_def demo_default_step_def route_neutral_def show_default_def
        host_via_def remove_host_route_linux_def cmd_def)
  show "close_law demo_default_of"
    by (simp add: close_law_def demo_default_of_def demo_default_step_def)
  show "shown_law (te_sys demo_tun_env) demo_default_of"
    unfolding shown_law_def
  proof
    fix log
    show "\<exists>out. se_run (te_sys demo_tun_env) log show_default = Inr out \<and>
        sr_default_gateway (parse_default_route (from_utf8_lossy (po_stdout out))) = map_option IPv4 (demo_default_of log)"
      using parse_default_via [OF refl, of True "the (demo_default_of log)" "[]"]
      by (simp only: demo_tun_env_def tun_env.simps sys_env.simps)
        (simp only: demo_default_of_def option.sel option.map sum.inject ex_simps simp_thms)
  qed
qed

end
