(* ===== verification/Client_Run.thy ===== *)
theory Client_Run
  imports Client_Startup Client_System Client_Tunnel
begin

text \<open>
  \<open>run_pipeline\<close> of \<open>kanrin-client/src/pipeline.rs\<close> as a whole: its phases in their order, the main loop over
  a schedule of turns, and the clean-up; and the task of \<open>kanrin-client/src/lib.rs\<close> that runs it. A turn is
  the branch \<open>select!\<close> takes with the readings that branch makes. The loop that has used up its schedule
  is still running.
\<close>

section \<open>The main loop\<close>

datatype branch =
    TunBranch "bytes option"
  | RecvBranch
  | LivenessBranch u64
  | PostureBranch
  | StatsBranch
  | ShutdownBranch

record turn =
  tu_branch :: branch
  tu_now :: instant
  tu_random :: u8
  tu_pad :: entropy
  tu_attempts :: attempts
  tu_later :: instant

text \<open>What a switch uses of the session and the endpoint is fixed when the loop begins.\<close>

definition turn_env :: "'c transport_registry \<Rightarrow> endpoint \<Rightarrow> established \<Rightarrow> turn \<Rightarrow> 'c switch_env" where
  "turn_env registry ep est tr =
     \<lparr>sw_attempts = tu_attempts tr, sw_later = tu_later tr, sw_registry = registry, sw_endpoint = ep,
      sw_session_id = es_session_id est, sw_keys = es_keys est\<rparr>"

text \<open>A packet is not taken from the queue while its branch is disabled.\<close>

definition take_turn ::
  "crypto_ops \<Rightarrow> 'c connection \<Rightarrow> (turn \<Rightarrow> 'c switch_env) \<Rightarrow> turn \<Rightarrow> 'c tunnel \<Rightarrow> 'c tunnel" where
  "take_turn C io env tr t =
     (case tu_branch tr of
        TunBranch packet \<Rightarrow>
          if tun_branch_enabled t
          then on_tun_packet C io (env tr) (tu_now tr) (tu_random tr) (tu_pad tr) packet t else t
      | RecvBranch \<Rightarrow> client_recv C io (env tr) (tu_now tr) (tu_random tr) (tu_pad tr) t
      | LivenessBranch ts \<Rightarrow> on_liveness_tick C io (env tr) (tu_now tr) ts (tu_random tr) (tu_pad tr) t
      | PostureBranch \<Rightarrow> on_posture_tick (tu_now tr) t
      | StatsBranch \<Rightarrow> on_stats_tick (tu_now tr) t
      | ShutdownBranch \<Rightarrow> on_shutdown t)"

fun main_loop ::
  "crypto_ops \<Rightarrow> 'c connection \<Rightarrow> (turn \<Rightarrow> 'c switch_env) \<Rightarrow> turn list \<Rightarrow> 'c tunnel \<Rightarrow> 'c tunnel" where
  "main_loop C io env [] t = t"
| "main_loop C io env (tr # trs) t = (if tn_running t then main_loop C io env trs (take_turn C io env tr t) else t)"

section \<open>The pipeline\<close>

text \<open>The readings before the loop: the wall clock and the random draws of the handshake, the clock
  at the session's start and at the loop's, and whether the reading task has let go of the device when
  it is closed.\<close>

record readings =
  re_timestamp :: u64
  re_draws :: "nat \<Rightarrow> entropy"
  re_established :: instant
  re_loop_start :: instant
  re_sole_owner :: bool

text \<open>Where the pipeline is: its result if it has returned, the events sent so far, whether it has written
  the state \<open>Connected\<close>, the tunnel, and what it holds of the system.\<close>

record 'c pipeline_run =
  pr_result :: "(client_error + unit) option"
  pr_connected :: bool
  pr_events :: "kanrin_event list"
  pr_tunnel :: "'c tunnel option"
  pr_system :: "client_system option"
  pr_log :: sys_log

definition pipeline_failed :: "client_error \<Rightarrow> kanrin_event list \<Rightarrow> sys_log \<Rightarrow> 'c pipeline_run" where
  "pipeline_failed e events log =
     \<lparr>pr_result = Some (Err e), pr_connected = False, pr_events = events, pr_tunnel = None, pr_system = None, pr_log = log\<rparr>"

text \<open>The end of the loop: the connection is closed, a draining one only dropped, and the system is put back.\<close>

definition finish_pipeline ::
  "platform \<Rightarrow> tun_env \<Rightarrow> 'c connection \<Rightarrow> bool \<Rightarrow> 'c tunnel \<Rightarrow> client_system \<Rightarrow> sys_log \<Rightarrow> 'c pipeline_run" where
  "finish_pipeline target env io sole_owner t cy log =
     (if tn_running t
      then \<lparr>pr_result = None, pr_connected = True, pr_events = lk_events (tn_link t), pr_tunnel = Some t,
            pr_system = Some cy, pr_log = log\<rparr>
      else let t1 = t\<lparr>tn_link := (tn_link t)\<lparr>lk_connection := cn_close io (lk_connection (tn_link t))\<rparr>\<rparr>;
               (cy1, events, log1) = teardown_system target env sole_owner cy log
           in \<lparr>pr_result = Some (Ok ()), pr_connected = True, pr_events = lk_events (tn_link t1) @ events,
               pr_tunnel = Some t1, pr_system = Some cy1, pr_log = log1\<rparr>)"

text \<open>The pipeline from the connection on. The routing engine and the NAT table, which the code creates here
  and never consults, are left out.\<close>

definition pipeline_over ::
  "platform \<Rightarrow> tun_env \<Rightarrow> (string \<Rightarrow> u16 \<Rightarrow> string + ip_addr list) \<Rightarrow> crypto_ops \<Rightarrow> 'c connection
     \<Rightarrow> 'c transport_registry \<Rightarrow> kanrin_config \<Rightarrow> readings \<Rightarrow> turn list \<Rightarrow> kanrin_event list \<Rightarrow> 'c \<Rightarrow> string
     \<Rightarrow> sys_log \<Rightarrow> 'c pipeline_run" where
  "pipeline_over target env lookup C io registry cfg re turns events c name log =
     (case client_establish C io (re_timestamp re) (re_established re) (re_draws re) ip_from_str cfg c of
        (Inl e, _) \<Rightarrow> pipeline_failed e events log
      | (Inr est, c1) \<Rightarrow>
     (case setup_system target env lookup cfg (es_tun_address est) log of
        (Inl e, events1, log1) \<Rightarrow> pipeline_failed e (events @ events1) log1
      | (Inr cy, events1, log1) \<Rightarrow>
          let ep = client_endpoint cfg;
              t = main_loop C io (turn_env registry ep est) turns
                    (tunnel_begin (re_loop_start re) (ts_fake_ip (kc_tun cfg)) name (es_session est) c1
                      (events @ events1 @ [ConnectedEvent name (addr_string ep) 0]))
          in finish_pipeline target env io (re_sole_owner re) t cy log1))"

definition run_pipeline ::
  "platform \<Rightarrow> tun_env \<Rightarrow> (string \<Rightarrow> u16 \<Rightarrow> string + ip_addr list) \<Rightarrow> crypto_ops
     \<Rightarrow> ('a, 'q, 't, 'n, 's, 'w) client_ops \<Rightarrow> ('q, 's, 'w) client_connection connection \<Rightarrow> kanrin_config
     \<Rightarrow> readings \<Rightarrow> turn list \<Rightarrow> sys_log \<Rightarrow> ('q, 's, 'w) client_connection pipeline_run" where
  "run_pipeline target env lookup C ops io cfg re turns log =
     (case client_connect ops cfg of
        (events, Inl e) \<Rightarrow> pipeline_failed e events log
      | (events, Inr (c, name)) \<Rightarrow>
          pipeline_over target env lookup C io (client_registry ops) cfg re turns events c name log)"

text \<open>Leaving the scope of the pipeline, after its return or because its future is dropped, drops what it
  holds.\<close>

definition drop_pipeline :: "platform \<Rightarrow> tun_env \<Rightarrow> 'c pipeline_run \<Rightarrow> sys_log" where
  "drop_pipeline target env p =
     (case pr_system p of None \<Rightarrow> pr_log p | Some cy \<Rightarrow> drop_system target env cy (pr_log p))"

text \<open>The task \<open>start\<close> spawns, up to where the pipeline is.\<close>

definition spawned_task :: "'c pipeline_run \<Rightarrow> kanrin_client \<Rightarrow> kanrin_client" where
  "spawned_task p c =
     (let c1 = fold emit (pr_events p) (if pr_connected p then task_connected c else c)
      in case pr_result p of None \<Rightarrow> c1 | Some r \<Rightarrow> task_finished r c1)"


section \<open>The loop\<close>

lemma take_turn_step:
  "tn_running t \<Longrightarrow> take_turn C io env tr t = t \<or> tunnel_step C io t (take_turn C io env tr t)"
  by (cases "tu_branch tr") (auto simp: take_turn_def intro: tunnel_step.intros)

lemma main_loop_steps: "(tunnel_step C io)\<^sup>*\<^sup>* t (main_loop C io env trs t)"
proof (induction C io env trs t rule: main_loop.induct)
  case (2 C io env tr trs t)
  then show ?case using take_turn_step [of t C io env tr]
    by (auto intro: converse_rtranclp_into_rtranclp)
qed simp

text \<open>What the loop sends are events of its own: it never says that it is connected, and reports no error.\<close>

fun loop_event :: "kanrin_event \<Rightarrow> bool" where
  "loop_event (TransportSwitched _ _ _) = True"
| "loop_event (PostureChanged _ _ _) = True"
| "loop_event (StatsUpdate _ _ _ _) = True"
| "loop_event _ = False"

definition adds_loop_events :: "'c tunnel \<Rightarrow> 'c tunnel \<Rightarrow> bool" where
  "adds_loop_events t t' \<longleftrightarrow>
     (\<exists>es. lk_events (tn_link t') = lk_events (tn_link t) @ es \<and> list_all loop_event es)"

lemma adds_same: "lk_events (tn_link t') = lk_events (tn_link t) \<Longrightarrow> adds_loop_events t t'"
  by (simp add: adds_loop_events_def)

lemma adds_refl [simp]: "adds_loop_events t t"
  by (rule adds_same) simp

lemma adds_trans: "adds_loop_events t t' \<Longrightarrow> adds_loop_events t' t'' \<Longrightarrow> adds_loop_events t t''"
  by (auto simp: adds_loop_events_def)

lemma attempt_switch_events:
  assumes "attempt_switch C io at now later cause registry ep sid keys ne lk = (r, lk')"
  shows "\<exists>es. lk_events lk' = lk_events lk @ es \<and> list_all loop_event es"
  using assms by (auto simp: attempt_switch_def Let_def split: if_splits sum.splits prod.splits)

lemma switch_events: "adds_loop_events t (switch_or_give_up C io env now cause t)"
  using attempt_switch_events
  by (fastforce simp: switch_or_give_up_def adds_loop_events_def Let_def split: prod.split option.split)

lemma signal_events: "adds_loop_events t (observe_signal now sig t)"
  by (auto simp: observe_signal_def adds_loop_events_def split: prod.split option.split)

lemma switch_events_from:
  "lk_events (tn_link t1) = lk_events (tn_link t) \<Longrightarrow> adds_loop_events t (switch_or_give_up C io env now cause t1)"
  by (rule adds_trans [OF adds_same switch_events])

lemma send_packet_events:
  "lk_events (tn_link t1) = lk_events (tn_link t) \<Longrightarrow> adds_loop_events t (send_packet C io env now r pad raw t1)"
  by (auto simp: send_packet_def Let_def intro: switch_events_from adds_same split: sum.split prod.split)

lemma client_ack_events:
  "lk_events (tn_link t1) = lk_events (tn_link t) \<Longrightarrow> adds_loop_events t (send_client_ack C io env now r pad t1)"
  by (auto simp: send_client_ack_def Let_def intro: switch_events_from adds_same split: sum.split prod.split)

lemma receive_events:
  assumes "lk_events (tn_link t1) = lk_events (tn_link t)"
  shows "adds_loop_events t (receive_data C io env now r pad sq pl t1)" and "adds_loop_events t (receive_control pl t1)"
  using assms by (auto simp: receive_data_def receive_control_def Let_def intro!: client_ack_events intro: adds_same
      split: sum.split prod.split control_message.split)

lemma tunnel_step_events:
  assumes "tunnel_step C io t t'"
  shows "adds_loop_events t t'"
proof -
  note both = adds_trans [OF signal_events switch_events]
  have frame: "adds_loop_events t (on_frame C io env now r pad data t1)"
    if "lk_events (tn_link t1) = lk_events (tn_link t)" for env now r pad data t1
    using that adds_trans [OF adds_same [OF that] both]
    by (auto simp: on_frame_def Let_def intro!: receive_events intro: adds_same split: sum.split prod.split chunk_type.split)
  show ?thesis using assms
    by (cases rule: tunnel_stepE)
      (auto simp: on_tun_packet_def client_recv_def on_liveness_tick_def on_posture_tick_def on_shutdown_def Let_def adds_same
        intro!: send_packet_events frame both signal_events
        split: option.split prod.split sum.split bool.split, simp add: on_stats_tick_def adds_loop_events_def)
qed

lemma main_loop_events: "adds_loop_events t (main_loop C io env trs t)"
  using main_loop_steps [of C io t env trs]
  by (induction rule: rtranclp_induct) (auto intro: adds_trans tunnel_step_events)

section \<open>How the pipeline ends\<close>

text \<open>The pipeline fails before or while the device is created, or it reaches the loop.\<close>

lemma setup_error:
  assumes "setup_system target env lookup cfg addr log = (Inl e, events, log1)"
  obtains msg config where "e = Internal msg" "events = []" "log1 = snd (tun_create target env config log)"
    "\<not> is_ok (fst (tun_create target env config log))"
proof -
  let ?config = "tun_config_default\<lparr>tc_name := ts_name (kc_tun cfg), tc_address := addr, tc_mtu := ts_mtu (kc_tun cfg)\<rparr>"
  obtain te where "tun_create target env ?config log = (Inl te, log1)" "events = []"
      "e = Internal (''TUN create: '' @ display_tun_error te)"
    using assms by (auto simp: setup_system_def Let_def split: sum.splits prod.splits if_splits)
  then show ?thesis by (intro that [of _ ?config]) simp_all
qed

lemma pipeline_over_cases:
  obtains (early) e where
      "pipeline_over target env lookup C io registry cfg re turns events c name log = pipeline_failed e events log"
  | (no_device) msg config where
      "pipeline_over target env lookup C io registry cfg re turns events c name log =
         pipeline_failed (Internal msg) events (snd (tun_create target env config log))"
      "\<not> is_ok (fst (tun_create target env config log))"
  | (loop) est c1 cy events1 log1 where
      "setup_system target env lookup cfg (es_tun_address est) log = (Inr cy, events1, log1)"
      "pipeline_over target env lookup C io registry cfg re turns events c name log =
         finish_pipeline target env io (re_sole_owner re)
           (main_loop C io (turn_env registry (client_endpoint cfg) est) turns
             (tunnel_begin (re_loop_start re) (ts_fake_ip (kc_tun cfg)) name (es_session est) c1
               (events @ events1 @ [ConnectedEvent name (addr_string (client_endpoint cfg)) 0]))) cy log1"
proof -
  obtain q c1 where established: "client_establish C io (re_timestamp re) (re_established re) (re_draws re) ip_from_str cfg c = (q, c1)"
    by fastforce
  show ?thesis
  proof (cases q)
    case (Inl e)
    then show ?thesis using established by (intro early) (simp add: pipeline_over_def)
  next
    case (Inr s)
    obtain w events1 log1 where sys: "setup_system target env lookup cfg (es_tun_address s) log = (w, events1, log1)"
      by (metis prod_cases3)
    show ?thesis
    proof (cases w)
      case (Inl e)
      note failed = sys [unfolded Inl]
      show ?thesis
        by (rule setup_error [OF failed], rule no_device) (simp_all add: pipeline_over_def established Inr failed)
    next
      case inr: (Inr cy)
      show ?thesis
        by (rule loop [OF sys [unfolded inr]]) (simp add: pipeline_over_def established Inr sys inr Let_def)
    qed
  qed
qed

text \<open>What detection sends.\<close>

definition detection_only :: "kanrin_event list \<Rightarrow> bool" where
  "detection_only events \<longleftrightarrow> list_all (\<lambda>e. case e of CensorshipDetectedEvent _ _ \<Rightarrow> True | _ \<Rightarrow> False) events"

lemma detection_only_client: "detection_only (fst (client_connect ops cfg))"
  by (simp add: detection_only_def client_connect_def client_detection_def Let_def)

lemma run_pipeline_cases:
  obtains (early) e events where
      "run_pipeline target env lookup C ops io cfg re turns log = pipeline_failed e events log" "detection_only events"
  | (no_device) msg config events where
      "run_pipeline target env lookup C ops io cfg re turns log =
         pipeline_failed (Internal msg) events (snd (tun_create target env config log))"
      "detection_only events" "\<not> is_ok (fst (tun_create target env config log))"
  | (loop) est name c cy events events1 log1 turn_of where
      "setup_system target env lookup cfg (es_tun_address (est :: established)) log = (Inr cy, events1, log1)" "detection_only events"
      "run_pipeline target env lookup C ops io cfg re turns log =
         finish_pipeline target env io (re_sole_owner re)
           (main_loop C io turn_of turns
             (tunnel_begin (re_loop_start re) (ts_fake_ip (kc_tun cfg)) name (es_session est) c
               (events @ events1 @ [ConnectedEvent name (addr_string (client_endpoint cfg)) 0]))) cy log1"
proof -
  obtain events r where connect: "client_connect ops cfg = (events, r)" by fastforce
  have det: "detection_only events" using detection_only_client [of ops cfg] connect by simp
  show ?thesis
  proof (cases r)
    case (Inl e)
    then show ?thesis using connect det by (intro early) (simp_all add: run_pipeline_def)
  next
    case (Inr x)
    obtain c name where "x = (c, name)" by fastforce
    then have run: "run_pipeline target env lookup C ops io cfg re turns log =
        pipeline_over target env lookup C io (client_registry ops) cfg re turns events c name log"
      using connect Inr by (simp add: run_pipeline_def)
    show ?thesis
    proof (cases rule: pipeline_over_cases [of target env lookup C io "client_registry ops" cfg re turns events c name log,
          folded run])
      case (1 e)
      then show ?thesis using det by (rule early)
    next
      case (2 msg config)
      then show ?thesis using det by (intro no_device)
    next
      case (3 est c1 cy events1 log1)
      show ?thesis by (rule loop [OF 3(1) det 3(2)])
    qed
  qed
qed

lemma events_before_loop:
  assumes "setup_system target env lookup cfg addr log = (Inr cy, events1, log1)" and "detection_only events"
  shows "\<forall>e. ErrorEvent e \<notin> set (events @ events1)"
proof -
  have "\<forall>e. ErrorEvent e \<notin> set events" using assms(2) by (auto simp: detection_only_def list_all_iff)
  moreover have "\<forall>e. ErrorEvent e \<notin> set events1"
    using assms(1) by (auto simp: setup_system_def Let_def split: sum.splits prod.splits if_splits)
  ultimately show ?thesis by simp
qed

lemma teardown_events:
  "teardown_system target env sole cy log = (cy', events, log') \<Longrightarrow> ErrorEvent e \<notin> set events"
  by (auto simp: teardown_system_def stop_kill_switch_def Let_def split: option.splits prod.splits)

text \<open>The events of a pipeline that reached its loop: that it is connected is among them, an error is not.\<close>

lemma finish_pipeline_facts:
  assumes "tn_link t = tn_link t0 \<or> adds_loop_events t0 t" and "ConnectedEvent name ep 0 \<in> set (lk_events (tn_link t0))"
    and "\<forall>e. ErrorEvent e \<notin> set (lk_events (tn_link t0))"
  shows "let p = finish_pipeline target env io sole t cy log in
    pr_connected p \<and> ConnectedEvent name ep 0 \<in> set (pr_events p) \<and> (\<forall>e. ErrorEvent e \<notin> set (pr_events p)) \<and>
    pr_system p \<noteq> None \<and> pr_result p = (if tn_running t then None else Some (Ok ()))"
proof -
  obtain es where es: "lk_events (tn_link t) = lk_events (tn_link t0) @ es" "list_all loop_event es"
    using assms(1) by (auto simp: adds_loop_events_def)
  have "ErrorEvent e \<notin> set es" for e using es(2) by (auto simp: list_all_iff dest: bspec)
  then show ?thesis
    using es assms(2,3) teardown_events by (auto simp: finish_pipeline_def split: prod.split)
qed

lemma spawned_task_events: "fold emit es c = c\<lparr>cl_events := cl_events c @ es\<rparr>"
  by (induction es arbitrary: c) (simp_all add: emit_def)

section \<open>Properties\<close>

lemma drop_linux_default:
  assumes "replace_law default_of" and "neutral_law default_of" and "shown_law (te_sys env) default_of"
    and "default_of log = Some gw" and "setup_system Linux env lookup cfg addr log = (Inr cy, events, log1)"
  shows "default_of (drop_system Linux env cy log1) = Some gw"
proof -
  obtain saved where saved: "rm_saved (cy_routing cy) = Some saved" "sr_default_gateway saved = Some (IPv4 gw)"
    using setup_linux_default [OF assms] by blast
  obtain r rm log2 where "routing_deactivate Linux (te_sys env) (cy_routing cy)
      (case cy_kill_switch cy of None \<Rightarrow> log1 | Some ks \<Rightarrow> kill_switch_drop Linux ks log1) = (r, rm, log2)"
    by (metis prod_cases3)
  then show ?thesis
    using linux_deactivate_default [OF assms(1,2) saved] saved by (simp add: drop_system_def routing_drop_def Let_def)
qed

lemma create_failed_linux_default:
  assumes "close_law default_of" and "default_of log = Some gw" and "gw \<noteq> 0x0A0A0001"
    and "\<not> is_ok (fst (tun_create Linux env config log))"
  shows "default_of (snd (tun_create Linux env config log)) = Some gw"
  using assms by (auto simp: tun_create_def create_linux_def close_law_def Let_def split: if_splits)

text \<open>C36. On Linux, with the documented effect of the commands on the default gateway, the client leaves the
  default gateway as it found it however its pipeline ends: when connecting or the handshake fails, when
  the device cannot be created, when the loop ends, and when the pipeline is dropped while the loop
  is still running. Once it has returned, dropping it does nothing more.\<close>

theorem pipeline_restores_default_route:
  assumes "replace_law default_of" and "neutral_law default_of" and "close_law default_of"
    and "shown_law (te_sys env) default_of" and "default_of log = Some gw" and "gw \<noteq> 0x0A0A0001"
  shows "let p = run_pipeline Linux env lookup C ops io cfg re turns log in
    default_of (drop_pipeline Linux env p) = Some gw \<and>
    (pr_result p \<noteq> None \<longrightarrow> drop_pipeline Linux env p = pr_log p)"
proof (cases rule: run_pipeline_cases [of Linux env lookup C ops io cfg re turns log])
  case early
  then show ?thesis using assms(5) by (simp add: pipeline_failed_def drop_pipeline_def)
next
  case no_device
  then show ?thesis
    using create_failed_linux_default [OF assms(3,5,6)] by (simp add: pipeline_failed_def drop_pipeline_def)
next
  case (loop est name c cy events events1 log1 turn_of)
  let ?t = "main_loop C io turn_of turns (tunnel_begin (re_loop_start re) (ts_fake_ip (kc_tun cfg)) name (es_session est) c
    (events @ events1 @ [ConnectedEvent name (addr_string (client_endpoint cfg)) 0]))"
  obtain cy' ev log2 where off: "teardown_system Linux env (re_sole_owner re) cy log1 = (cy', ev, log2)"
    by (metis prod_cases3)
  show ?thesis
    using drop_linux_default [OF assms(1,2,4,5) loop(1)]
      client_restores_default_route_facts [OF assms loop(1) off]
    by (cases "tn_running ?t") (simp_all add: loop(3) finish_pipeline_def drop_pipeline_def off)
qed

text \<open>A client whose TLS connection opens, if anything does, and is closed by the server at once.\<close>

definition demo_ops :: "(unit, unit, unit, unit, unit, unit) client_ops" where
  "demo_ops =
     \<lparr>co_probe_net = \<lparr>pn_bind = (\<lambda>_. False), pn_connect = (\<lambda>_. False), pn_send = (\<lambda>_ _. False), pn_recv = (\<lambda>_ _. None),
        pn_ping_in_time = False, pn_tcp_connect = (\<lambda>_ _. None), pn_lookup = (\<lambda>_ _. None)\<rparr>,
      co_quic = \<lparr>qo_accepts_tls = (\<lambda>_. Inr ()), qo_bind = Inr (), qo_lookup = (\<lambda>_. Inl ''no such host''),
        qo_connect = (\<lambda>_ _ _. Inr ()), qo_established = (\<lambda>_ _ _. None), qo_elapsed_ms = 0\<rparr>,
      co_tls = \<lparr>to_tcp_connect = (\<lambda>_ _. Some (Inr ())), to_set_keepalive = (\<lambda>_ t. t),
        to_server_name = (\<lambda>_. Inr ()), to_handshake = (\<lambda>_ _ _ _. Some (Inr ())), to_elapsed_ms = 0\<rparr>,
      co_ws = \<lparr>wo_connect = (\<lambda>_ _. None), wo_elapsed_ms = 0\<rparr>\<rparr>"

definition demo_closed :: "(unit, unit, unit) client_connection connection" where
  "demo_closed = \<lparr>cn_send = (\<lambda>_ c. (Ok (), c)), cn_recv = (\<lambda>c. (Inl ConnectionClosed, c)), cn_close = (\<lambda>c. c),
     cn_is_alive = (\<lambda>_. True)\<rparr>"

definition demo_readings :: readings where
  "demo_readings = \<lparr>re_timestamp = 1000, re_draws = \<lambda>_ _. 1, re_established = 7, re_loop_start = 8, re_sole_owner = True\<rparr>"

theorem pipeline_restores_default_route_witness:
  "demo_default_of (drop_pipeline Linux demo_tun_env (run_pipeline Linux demo_tun_env demo_lookup demo_crypto demo_ops
     demo_closed (minimal ''vpn.example.com'' 443 ''secret'') demo_readings [] [])) = Some 0xC0000201"
proof -
  have "demo_default_of [] = Some 0xC0000201" by (simp add: demo_default_of_def)
  moreover have "(0xC0000201 :: u32) \<noteq> 0x0A0A0001" by simp
  ultimately show ?thesis using pipeline_restores_default_route [OF demo_laws] unfolding Let_def by blast
qed

text \<open>What the client reports of a pipeline that did not get to its loop, and of one that did.\<close>

lemma spawned_task_failed:
  "spawned_task (pipeline_failed e events log) c =
     c\<lparr>cl_state := ErrorState, cl_task := False, cl_events := cl_events c @ events @ [ErrorEvent (display_client_error e)]\<rparr>"
  by (simp add: spawned_task_def pipeline_failed_def spawned_task_events task_finished_def emit_def)

lemma spawned_task_connected:
  assumes "pr_connected p" and "pr_result p = (if running then None else Some (Ok ()))"
  shows "cl_events (spawned_task p c) =
      cl_events c @ pr_events p @ (if running then [] else [StateChanged Disconnected])"
    and "cl_state (spawned_task p c) = (if running then Connected else Disconnected)"
  using assms by (simp_all add: spawned_task_def spawned_task_events task_finished_def emit_def task_connected_def)

lemma main_loop_failed_switches:
  assumes "t = main_loop C io turn_of turns (tunnel_begin now fake_ip name s c events)" and "tn_running t"
  shows "tn_failed_switches t < 5"
proof -
  have "tunnel_ok (s_keys s) t"
    unfolding assms(1) by (rule tunnel_reachable_ok [OF main_loop_steps tunnel_ok_begin [OF refl]])
  then show ?thesis using assms(2) by (simp add: tunnel_ok_def MAX_FAILED_SWITCHES_def)
qed

text \<open>C40. What the client tells its user. A pipeline that fails does so before it holds anything of the
  system: the client's state becomes an error, reported last, and it never said that it was connected.
  A pipeline that got through has said so; while its loop runs, fewer than five switches in a row have
  failed; and whatever ends the loop, giving up after the fifth failed switch included, is
  reported as a plain disconnection, without an error.\<close>

theorem pipeline_outcome:
  "let p = run_pipeline target env lookup C ops io cfg re turns log; c1 = spawned_task p c in
   \<exists>es. cl_events c1 = cl_events c @ es \<and>
     (case pr_result p of
        Some (Inl e) \<Rightarrow> cl_state c1 = ErrorState \<and> pr_system p = None \<and> last es = ErrorEvent (display_client_error e) \<and>
          (\<forall>name ep n. ConnectedEvent name ep n \<notin> set es)
      | Some (Inr _) \<Rightarrow> cl_state c1 = Disconnected \<and> (\<exists>t. pr_tunnel p = Some t \<and> \<not> tn_running t) \<and>
          last es = StateChanged Disconnected \<and> (\<exists>name. ConnectedEvent name (addr_string (client_endpoint cfg)) 0 \<in> set es) \<and>
          (\<forall>e. ErrorEvent e \<notin> set es)
      | None \<Rightarrow> cl_state c1 = Connected \<and> (\<exists>t. pr_tunnel p = Some t \<and> tn_running t \<and> tn_failed_switches t < 5) \<and>
          (\<exists>name. ConnectedEvent name (addr_string (client_endpoint cfg)) 0 \<in> set es) \<and> (\<forall>e. ErrorEvent e \<notin> set es))"
proof (cases rule: run_pipeline_cases [of target env lookup C ops io cfg re turns log])
  case early
  then show ?thesis
    by (auto simp: spawned_task_failed pipeline_failed_def [THEN arg_cong [of _ _ pr_result]]
        pipeline_failed_def [THEN arg_cong [of _ _ pr_system]] detection_only_def list_all_iff)
next
  case no_device
  then show ?thesis
    by (auto simp: spawned_task_failed pipeline_failed_def [THEN arg_cong [of _ _ pr_result]]
        pipeline_failed_def [THEN arg_cong [of _ _ pr_system]] detection_only_def list_all_iff)
next
  case (loop est name k cy events events1 log1 turn_of)
  let ?t0 = "tunnel_begin (re_loop_start re) (ts_fake_ip (kc_tun cfg)) name (es_session est) k
    (events @ events1 @ [ConnectedEvent name (addr_string (client_endpoint cfg)) 0])"
  define t where "t = main_loop C io turn_of turns ?t0"
  define p where "p = finish_pipeline target env io (re_sole_owner re) t cy log1"
  have p: "run_pipeline target env lookup C ops io cfg re turns log = p" unfolding p_def t_def by (rule loop(3))
  have facts: "pr_connected p" "ConnectedEvent name (addr_string (client_endpoint cfg)) 0 \<in> set (pr_events p)"
    "\<forall>e. ErrorEvent e \<notin> set (pr_events p)" "pr_result p = (if tn_running t then None else Some (Ok ()))"
    using finish_pipeline_facts [of t ?t0 name "addr_string (client_endpoint cfg)" target env io "re_sole_owner re" cy log1]
      main_loop_events [of ?t0 C io turn_of turns] events_before_loop [OF loop(1,2)]
    by (simp_all add: p_def t_def tunnel_begin_def Let_def)
  have tunnel: "\<exists>u. pr_tunnel p = Some u \<and> tn_running u = tn_running t \<and> tn_failed_switches u = tn_failed_switches t"
    by (simp add: p_def finish_pipeline_def split: prod.split)
  show ?thesis
    using facts tunnel main_loop_failed_switches [OF t_def] unfolding p Let_def spawned_task_connected [OF facts(1,4)]
    by (cases "tn_running t") auto
qed

end
