(* ===== verification/Stealth.thy ===== *)
theory Stealth
  imports Std_Text
begin

text \<open>
  The stealth modules of \<open>kanrin-stealth\<close>: the pipeline they form (\<open>traits.rs\<close>), splitting data into
  fragments and finding the server name in a TLS hello (\<open>fragment.rs\<close>), and the delays, paddings and
  cover traffic of a traffic pattern (\<open>rhythm.rs\<close>). Random numbers and clock readings are arguments.
  Lengths of byte vectors and positions in them are natural numbers below \<open>2^63\<close>; the configured sizes
  of fragments are \<open>usize\<close>, and adding one to a position wraps.
\<close>

section \<open>Modules and their pipeline\<close>

record stealth_context =
  sc_current_time :: instant
  sc_bytes_sent_total :: u64
  sc_bytes_recv_total :: u64
  sc_connection_duration :: duration
  sc_transport_name :: string

record stealth_module =
  sm_name :: string
  sm_outgoing :: "bytes \<Rightarrow> stealth_context \<Rightarrow> bytes"
  sm_incoming :: "bytes \<Rightarrow> stealth_context \<Rightarrow> bytes"
  sm_cover :: "stealth_context \<Rightarrow> bytes option"

definition add_module :: "stealth_module \<Rightarrow> stealth_module list \<Rightarrow> stealth_module list" where
  "add_module m modules = modules @ [m]"

definition apply_outgoing :: "stealth_module list \<Rightarrow> bytes \<Rightarrow> stealth_context \<Rightarrow> bytes" where
  "apply_outgoing modules data ctx = fold (\<lambda>m d. sm_outgoing m d ctx) modules data"

definition apply_incoming :: "stealth_module list \<Rightarrow> bytes \<Rightarrow> stealth_context \<Rightarrow> bytes" where
  "apply_incoming modules data ctx = fold (\<lambda>m d. sm_incoming m d ctx) (rev modules) data"

definition collect_cover_traffic :: "stealth_module list \<Rightarrow> stealth_context \<Rightarrow> bytes list" where
  "collect_cover_traffic modules ctx = List.map_filter (\<lambda>m. sm_cover m ctx) modules"

definition module_count :: "stealth_module list \<Rightarrow> nat" where
  "module_count modules = length modules"

section \<open>Fragmentation\<close>

record fragment_config =
  fc_min_fragment_size :: u64
  fc_max_fragment_size :: u64
  fc_delay_between_ms :: "nat \<times> nat"
  fc_split_at_sni :: bool

definition fragment_config_default :: fragment_config where
  "fragment_config_default =
     \<lparr>fc_min_fragment_size = 40, fc_max_fragment_size = 200, fc_delay_between_ms = (10, 50), fc_split_at_sni = True\<rparr>"

text \<open>The loop of \<open>fragment\<close> from \<open>offset\<close>; \<open>sizes i\<close> is the \<open>i\<close>-th random size. With a size of zero the
  loop makes no progress, so it need not return, which is the result \<open>None\<close>. The sum wraps; a fragment
  that would then end before it begins is a slice that panics, which is \<open>None\<close> as well.\<close>

partial_function (option) fragment_from :: "(nat \<Rightarrow> u64) \<Rightarrow> bytes \<Rightarrow> nat \<Rightarrow> nat \<Rightarrow> bytes list option" where
  "fragment_from sizes data i offset =
     (if offset < length data then
        (let stop = min (unat (word_of_nat offset + sizes i)) (length data) in
         if stop < offset then None
         else Option.bind (fragment_from sizes data (i + 1) stop) (\<lambda>fragments.
           Some (slice offset stop data # fragments)))
      else Some [])"

text \<open>\<open>gen_range\<close> panics on an empty range, which is no result either.\<close>

definition fragment :: "fragment_config \<Rightarrow> (nat \<Rightarrow> u64) \<Rightarrow> bytes \<Rightarrow> bytes list option" where
  "fragment config sizes data =
     (if data \<noteq> [] \<and> fc_max_fragment_size config < fc_min_fragment_size config then None
      else fragment_from sizes data 0 0)"

definition sizes_of :: "fragment_config \<Rightarrow> (nat \<Rightarrow> u64) \<Rightarrow> bool" where
  "sizes_of config sizes \<longleftrightarrow> (\<forall>i. fc_min_fragment_size config \<le> sizes i \<and> sizes i \<le> fc_max_fragment_size config)"

definition fragment_delay :: "fragment_config \<Rightarrow> nat \<Rightarrow> duration option" where
  "fragment_delay config ms =
     (let (low, high) = fc_delay_between_ms config in if low < high then Some (from_millis ms) else None)"

text \<open>The walk over the extensions from position \<open>pos\<close>.\<close>

function find_extension :: "bytes \<Rightarrow> nat \<Rightarrow> nat option" where
  "find_extension data pos =
     (if pos + 4 \<le> length data then
        (let ext_type = (from_be [data ! pos, data ! (pos + 1)] :: u16);
             ext_len = unat (from_be [data ! (pos + 2), data ! (pos + 3)] :: u16)
         in if ext_type = 0 then Some pos else find_extension data (pos + (4 + ext_len)))
      else None)"
  by pat_completeness auto

termination
  by (relation "measure (\<lambda>(data, pos). length data - pos)") auto

declare find_extension.simps [simp del]

definition find_sni_offset :: "bytes \<Rightarrow> nat option" where
  "find_sni_offset data =
     (if length data < 5 then None
      else if data ! 0 \<noteq> 0x16 then None
      else if length data < 5 + unat (from_be [data ! 3, data ! 4] :: u16) then None
      else if length data < 43 then None
      else
        let pos = 43 in
        if pos \<ge> length data then None
        else
          let pos = pos + (1 + unat (data ! pos)) in
          if pos + 2 > length data then None
          else
            let pos = pos + (2 + unat (from_be [data ! pos, data ! (pos + 1)] :: u16)) in
            if pos \<ge> length data then None
            else
              let pos = pos + (1 + unat (data ! pos)) in
              if pos + 2 > length data then None
              else find_extension data (pos + 2))"

definition fragment_module :: stealth_module where
  "fragment_module =
     \<lparr>sm_name = ''fragment'', sm_outgoing = (\<lambda>data _. data), sm_incoming = (\<lambda>data _. data), sm_cover = (\<lambda>_. None)\<rparr>"

section \<open>Rhythm\<close>

datatype traffic_pattern = VideoStreaming | WebBrowsing | FileDownload | Messaging | AdaptivePattern

record rhythm_engine =
  rh_pattern :: traffic_pattern
  rh_last_send :: instant
  rh_bytes_in_window :: u64
  rh_window_start :: instant

definition rhythm_new :: "instant \<Rightarrow> traffic_pattern \<Rightarrow> rhythm_engine" where
  "rhythm_new now pattern =
     \<lparr>rh_pattern = pattern, rh_last_send = now, rh_bytes_in_window = 0, rh_window_start = now\<rparr>"

definition next_delay :: "instant \<Rightarrow> u64 \<Rightarrow> rhythm_engine \<Rightarrow> duration" where
  "next_delay now random r =
     (let since_last = elapsed now (rh_last_send r); below = (\<lambda>n. unat random mod n) in
      case rh_pattern r of
        VideoStreaming \<Rightarrow>
          (if since_last < from_millis 50 then from_millis 0 else from_millis (2000 + below 2000))
      | WebBrowsing \<Rightarrow>
          (if since_last < from_millis 100 then from_millis (5 + below 20) else from_millis (1000 + below 4000))
      | FileDownload \<Rightarrow> from_millis (1 + below 5)
      | Messaging \<Rightarrow> from_millis (500 + below 5000)
      | AdaptivePattern \<Rightarrow> from_millis 0)"

text \<open>The smallest power of two that is not less than \<open>n\<close>.\<close>

function power_from :: "nat \<Rightarrow> nat \<Rightarrow> nat" where
  "power_from p n = (if p = 0 \<or> n \<le> p then p else power_from (2 * p) n)"
  by pat_completeness auto

termination
  by (relation "measure (\<lambda>(p, n). n - p)") auto

declare power_from.simps [simp del]

definition next_power_of_two :: "nat \<Rightarrow> nat" where
  "next_power_of_two n = power_from 1 n"

definition suggested_padding :: "nat \<Rightarrow> rhythm_engine \<Rightarrow> nat \<Rightarrow> nat" where
  "suggested_padding random r payload_size =
     (case rh_pattern r of
        VideoStreaming \<Rightarrow> (let target = (payload_size div 1400 + 1) * 1400 in target - payload_size)
      | WebBrowsing \<Rightarrow> next_power_of_two payload_size - payload_size
      | FileDownload \<Rightarrow> random mod 16
      | Messaging \<Rightarrow> (if payload_size < 256 then 256 - payload_size else random mod 32)
      | AdaptivePattern \<Rightarrow> 0)"

definition idle_threshold :: "traffic_pattern \<Rightarrow> duration option" where
  "idle_threshold pattern =
     (case pattern of
        VideoStreaming \<Rightarrow> Some (from_secs 5)
      | WebBrowsing \<Rightarrow> Some (from_secs 10)
      | FileDownload \<Rightarrow> Some (from_secs 2)
      | Messaging \<Rightarrow> Some (from_secs 30)
      | AdaptivePattern \<Rightarrow> None)"

definition cover_size :: "traffic_pattern \<Rightarrow> nat" where
  "cover_size pattern =
     (case pattern of VideoStreaming \<Rightarrow> 1400 | WebBrowsing \<Rightarrow> 256 | FileDownload \<Rightarrow> 1400 | Messaging \<Rightarrow> 64 | AdaptivePattern \<Rightarrow> 0)"

definition generate_cover_traffic :: "rhythm_engine \<Rightarrow> stealth_context \<Rightarrow> bytes option" where
  "generate_cover_traffic r ctx =
     (case idle_threshold (rh_pattern r) of
        None \<Rightarrow> None
      | Some threshold \<Rightarrow>
          if threshold < sc_connection_duration ctx then Some (replicate (cover_size (rh_pattern r)) 0) else None)"

definition rhythm_module :: "rhythm_engine \<Rightarrow> stealth_module" where
  "rhythm_module r =
     \<lparr>sm_name = ''rhythm'', sm_outgoing = (\<lambda>data _. data), sm_incoming = (\<lambda>data _. data),
      sm_cover = generate_cover_traffic r\<rparr>"

section \<open>Modules that can be undone\<close>

text \<open>What a module promises that restores on the way in what it did on the way out.\<close>

locale invertible =
  fixes out :: "bytes \<Rightarrow> stealth_context \<Rightarrow> bytes"
    and inn :: "bytes \<Rightarrow> stealth_context \<Rightarrow> bytes"
  assumes restores: "inn (out data ctx) ctx = data"
begin

lemma injective: "out data ctx = out data' ctx \<Longrightarrow> data = data'"
  by (metis restores)

end

definition reversible :: "stealth_module \<Rightarrow> bool" where
  "reversible m \<longleftrightarrow> invertible (sm_outgoing m) (sm_incoming m)"

interpretation fragments: invertible "sm_outgoing fragment_module" "sm_incoming fragment_module"
  by unfold_locales (simp add: fragment_module_def)

interpretation rhythms: invertible "sm_outgoing (rhythm_module r)" "sm_incoming (rhythm_module r)" for r
  by unfold_locales (simp add: rhythm_module_def)

lemma reversible_modules [simp]: "reversible fragment_module" "reversible (rhythm_module r)"
  unfolding reversible_def by (rule fragments.invertible_axioms rhythms.invertible_axioms)+

lemma pipeline_restores:
  "\<forall>m\<in>set modules. reversible m \<Longrightarrow> apply_incoming modules (apply_outgoing modules data ctx) ctx = data"
proof (induction modules arbitrary: data rule: rev_induct)
  case Nil
  show ?case by (simp add: apply_outgoing_def apply_incoming_def)
next
  case (snoc m modules)
  then have "invertible (sm_outgoing m) (sm_incoming m)" by (simp add: reversible_def)
  from invertible.restores [OF this] snoc show ?case
    by (simp add: apply_outgoing_def apply_incoming_def)
qed

section \<open>Fragments\<close>

lemma slice_append: "a \<le> b \<Longrightarrow> b \<le> length xs \<Longrightarrow> slice a b xs @ drop b xs = drop a xs"
  by (simp add: slice_def) (metis append_take_drop_id drop_drop le_add_diff_inverse2)

lemma unat_offset_add:
  assumes "offset + unat n < 2 ^ 64"
  shows "unat (word_of_nat offset + n :: u64) = offset + unat n"
  using assms by (simp add: unat_word_ariths unat_of_nat)

lemma fragment_from_total:
  assumes "\<forall>i. 1 \<le> unat (sizes i)" and "\<forall>i. unat low \<le> unat (sizes i) \<and> unat (sizes i) \<le> unat high"
    and "length data + unat high \<le> 2 ^ 64"
  shows "\<exists>fs. fragment_from sizes data i offset = Some fs \<and> concat fs = drop offset data
    \<and> (\<forall>f\<in>set fs. f \<noteq> [] \<and> length f \<le> unat high) \<and> (\<forall>f\<in>set (butlast fs). unat low \<le> length f)"
proof (induction "length data - offset" arbitrary: i offset rule: less_induct)
  case less
  show ?case
  proof (cases "offset < length data")
    case False
    then show ?thesis by (subst fragment_from.simps) simp
  next
    case True
    let ?n = "unat (sizes i)"
    let ?stop = "min (offset + ?n) (length data)"
    have s: "1 \<le> ?n" "unat low \<le> ?n" "?n \<le> unat high" using assms(1,2) by blast+
    then have sum: "unat (word_of_nat offset + sizes i :: u64) = offset + ?n"
      using True assms(3) by (intro unat_offset_add) linarith
    have "length data - ?stop < length data - offset" using True s by linarith
    from less [OF this] obtain fs where fs: "fragment_from sizes data (i + 1) ?stop = Some fs"
      "concat fs = drop ?stop data" "\<forall>f\<in>set fs. f \<noteq> [] \<and> length f \<le> unat high"
      "\<forall>f\<in>set (butlast fs). unat low \<le> length f"
      by blast
    have "fragment_from sizes data i offset = Some (slice offset ?stop data # fs)"
      using True fs(1) by (subst fragment_from.simps) (simp add: Let_def sum)
    moreover have cat: "slice offset ?stop data @ concat fs = drop offset data"
      using fs(2) True slice_append [of offset ?stop data] by simp
    have "0 < length (slice offset ?stop data)" using True s by simp
    then have ne: "slice offset ?stop data \<noteq> []" unfolding length_greater_0_conv .
    moreover have "length (slice offset ?stop data) \<le> unat high" using s by simp
    moreover have "unat low \<le> length (slice offset ?stop data)" if "fs \<noteq> []"
    proof -
      have "concat fs \<noteq> []" using that fs(3) by (cases fs) auto
      then have "\<not> length data \<le> ?stop" using fs(2) by auto
      then have "offset + ?n < length data" by (simp add: min_def split: if_splits)
      then show ?thesis using s by simp
    qed
    ultimately show ?thesis using fs(3,4) ne cat by (intro exI [of _ "slice offset ?stop data # fs"]) auto
  qed
qed

text \<open>Without progress there is no result: \<open>None\<close> satisfies the equation of the loop, and the loop is its
  least solution.\<close>

lemma fragment_from_zero:
  assumes "fragment_from sizes data i offset = Some fs"
  shows "sizes = (\<lambda>_. 0) \<and> length data < 2 ^ 64 \<longrightarrow> length data \<le> offset"
  by (rule fragment_from.raw_induct
      [where P = "\<lambda>sizes data i offset fs. sizes = (\<lambda>_. 0) \<and> length data < 2 ^ 64 \<longrightarrow> length data \<le> offset", OF _ assms])
    (fastforce simp: Let_def unat_of_nat split: if_splits bind_splits)

text \<open>A size that takes the position over \<open>2 ^ 64\<close> brings it back before the fragment's start.\<close>

lemma fragment_from_overflow:
  assumes "length data < 2 ^ 64" and "0 < unat (sizes 0)" and "unat (sizes 0) < length data"
    and "2 ^ 64 \<le> unat (sizes 0) + unat (sizes 1)"
  shows "fragment_from sizes data 0 0 = None"
proof -
  have "unat (sizes 0 + sizes 1) < unat (sizes 0)"
    using assms(4) unat_lt [of "sizes 0"] unat_lt [of "sizes 1"] by (simp add: unat_word_ariths le_mod_geq)
  then have "fragment_from sizes data 1 (unat (sizes 0)) = None"
    using assms(1,3) by (subst fragment_from.simps) (simp add: Let_def)
  moreover have "data \<noteq> []" using assms(3) by auto
  ultimately show ?thesis using assms(1-3) by (subst fragment_from.simps) (simp add: Let_def)
qed

text \<open>C39. Splitting under a configuration with fragments of at least one byte returns for every data and all
  random sizes in the range, as long as the data and the largest size together are at most \<open>2 ^ 64\<close>:
  the fragments make up the data, none is empty or longer than the maximum, and all but the last have
  the minimum. Outside these bounds it need not: with a minimum and a maximum of zero it never returns
  for data that is not empty, and with sizes so large that the end of the second fragment overflows it
  panics.\<close>

theorem fragment_exact:
  assumes "sizes_of config sizes" and "length data < 2 ^ 63"
  shows "(1 \<le> fc_min_fragment_size config \<and> length data + unat (fc_max_fragment_size config) \<le> 2 ^ 64 \<longrightarrow>
      (\<exists>fs. fragment config sizes data = Some fs \<and> concat fs = data
        \<and> (\<forall>f\<in>set fs. f \<noteq> [] \<and> length f \<le> unat (fc_max_fragment_size config))
        \<and> (\<forall>f\<in>set (butlast fs). unat (fc_min_fragment_size config) \<le> length f))) \<and>
    (fc_max_fragment_size config = 0 \<and> data \<noteq> [] \<longrightarrow> fragment config sizes data = None) \<and>
    (0 < unat (sizes 0) \<and> unat (sizes 0) < length data \<and> 2 ^ 64 \<le> unat (sizes 0) + unat (sizes 1) \<longrightarrow>
      fragment config sizes data = None)"
proof (intro conjI impI)
  have range: "\<forall>i. unat (fc_min_fragment_size config) \<le> unat (sizes i) \<and> unat (sizes i) \<le> unat (fc_max_fragment_size config)"
    using assms(1) by (simp add: sizes_of_def word_le_nat_alt)
  then have ordered: "fc_min_fragment_size config \<le> fc_max_fragment_size config"
    unfolding word_le_nat_alt by (meson le_trans)
  have small: "length data < 2 ^ 64" using assms(2) by simp
  {
    assume b: "1 \<le> fc_min_fragment_size config \<and> length data + unat (fc_max_fragment_size config) \<le> 2 ^ 64"
    then have "1 \<le> unat (fc_min_fragment_size config)" by (simp add: word_le_nat_alt)
    then have "\<forall>i. 1 \<le> unat (sizes i)" using range by (meson le_trans)
    from fragment_from_total [OF this range, of data 0 0] b ordered
    show "\<exists>fs. fragment config sizes data = Some fs \<and> concat fs = data
        \<and> (\<forall>f\<in>set fs. f \<noteq> [] \<and> length f \<le> unat (fc_max_fragment_size config))
        \<and> (\<forall>f\<in>set (butlast fs). unat (fc_min_fragment_size config) \<le> length f)"
      by (simp add: fragment_def not_less)
  next
    assume "fc_max_fragment_size config = 0 \<and> data \<noteq> []"
    moreover from this have "sizes = (\<lambda>_. 0)" using range by (auto simp: unat_eq_0)
    ultimately have "fragment_from sizes data 0 0 = None"
      using fragment_from_zero [of sizes data 0 0] small by (cases "fragment_from sizes data 0 0") auto
    then show "fragment config sizes data = None" by (simp add: fragment_def)
  next
    assume "0 < unat (sizes 0) \<and> unat (sizes 0) < length data \<and> 2 ^ 64 \<le> unat (sizes 0) + unat (sizes 1)"
    then have "fragment_from sizes data 0 0 = None" using fragment_from_overflow [OF small] by blast
    then show "fragment config sizes data = None" by (simp add: fragment_def)
  }
qed

theorem fragment_exact_witness:
  "(\<exists>fs. fragment fragment_config_default (\<lambda>_. 100) (replicate 250 7) = Some fs \<and> concat fs = replicate 250 7)
   \<and> fragment (fragment_config_default\<lparr>fc_min_fragment_size := 0, fc_max_fragment_size := 0\<rparr>) (\<lambda>_. 0) [7] = None
   \<and> fragment (fragment_config_default\<lparr>fc_min_fragment_size := 1, fc_max_fragment_size := word_MAX\<rparr>)
       (\<lambda>i. if i = 0 then 1 else word_MAX) [7, 8] = None"
proof -
  let ?huge = "fragment_config_default\<lparr>fc_min_fragment_size := 1, fc_max_fragment_size := word_MAX\<rparr>"
  let ?sizes = "\<lambda>i :: nat. if i = 0 then 1 else word_MAX :: u64"
  have "sizes_of fragment_config_default (\<lambda>_. 100)"
    "sizes_of (fragment_config_default\<lparr>fc_min_fragment_size := 0, fc_max_fragment_size := 0\<rparr>) (\<lambda>_. 0)"
    "sizes_of ?huge ?sizes"
    by (simp_all add: sizes_of_def fragment_config_default_def word_le_nat_alt unat_max)
  note ok = this
  have "\<exists>fs. fragment fragment_config_default (\<lambda>_. 100) (replicate 250 7) = Some fs \<and> concat fs = replicate 250 7"
    using fragment_exact [OF ok(1), of "replicate 250 7"] by (auto simp: fragment_config_default_def)
  moreover have "fragment (fragment_config_default\<lparr>fc_min_fragment_size := 0, fc_max_fragment_size := 0\<rparr>) (\<lambda>_. 0) [7] = None"
    using fragment_exact [OF ok(2), of "[7]"] by simp
  moreover have "fragment ?huge ?sizes [7, 8] = None"
    using fragment_exact [OF ok(3), of "[7, 8]"] by (simp add: unat_max)
  ultimately show ?thesis by blast
qed

section \<open>The server name\<close>

text \<open>A ClientHello inside its record, by its parts.\<close>

record hello_parts =
  hp_version :: bytes
  hp_body :: bytes
  hp_session_id :: bytes
  hp_cipher_suites :: bytes
  hp_compression :: bytes

definition hello_parts_ok :: "hello_parts \<Rightarrow> bool" where
  "hello_parts_ok h \<longleftrightarrow> length (hp_version h) = 2 \<and> length (hp_body h) = 38 \<and> length (hp_session_id h) < 256
     \<and> length (hp_cipher_suites h) < 65536 \<and> length (hp_compression h) < 256"

definition extension_bytes :: "u16 \<times> bytes \<Rightarrow> bytes" where
  "extension_bytes = (\<lambda>(ty, body). be16 ty @ be16 (word_of_nat (length body)) @ body)"

definition hello_prefix :: "hello_parts \<Rightarrow> bytes" where
  "hello_prefix h =
     hp_body h @ word_of_nat (length (hp_session_id h)) # hp_session_id h
     @ be16 (word_of_nat (length (hp_cipher_suites h))) @ hp_cipher_suites h
     @ word_of_nat (length (hp_compression h)) # hp_compression h"

definition hello_record :: "hello_parts \<Rightarrow> (u16 \<times> bytes) list \<Rightarrow> bytes" where
  "hello_record h exts =
     (let ext = concat (map extension_bytes exts);
          hello = hello_prefix h @ be16 (word_of_nat (length ext)) @ ext
      in 0x16 # hp_version h @ be16 (word_of_nat (length hello)) @ hello)"

lemma extension_at:
  assumes "length body < 65536"
  shows "find_extension (pre @ extension_bytes (ty, body) @ rest) (length pre) =
     (if ty = 0 then Some (length pre)
      else find_extension (pre @ extension_bytes (ty, body) @ rest) (length pre + (4 + length body)))"
proof -
  let ?data = "pre @ extension_bytes (ty, body) @ rest"
  obtain a b c d where ab: "be16 ty = [a, b]" and cd: "be16 (word_of_nat (length body)) = [c, d]"
    by (simp add: numeral_2_eq_2)
  have t: "from_be [a, b] = ty" using from_be_to_be [where n = 2 and w = ty] ab by simp
  have l: "unat (from_be [c, d] :: u16) = length body"
    using from_be_to_be [where n = 2 and w = "word_of_nat (length body) :: u16"] cd assms by (simp add: unat_of_nat)
  have e: "extension_bytes (ty, body) = [a, b, c, d] @ body" by (simp add: extension_bytes_def ab cd del: to_be.simps)
  then have n: "?data ! length pre = a" "?data ! (length pre + 1) = b" "?data ! (length pre + 2) = c" "?data ! (length pre + 3) = d"
    by (simp_all add: nth_append)
  show ?thesis
    by (subst find_extension.simps) (use t l e n in \<open>simp add: Let_def\<close>)
qed

lemma find_extension_list:
  "\<forall>(ty, body)\<in>set exts. length body < 65536 \<Longrightarrow>
   find_extension (pre @ concat (map extension_bytes exts)) (length pre) =
     (if 0 \<in> fst ` set exts
      then Some (length pre + length (concat (map extension_bytes (takeWhile (\<lambda>e. fst e \<noteq> 0) exts)))) else None)"
proof (induction exts arbitrary: pre)
  case Nil
  show ?case by (subst find_extension.simps) simp
next
  case (Cons e exts)
  obtain ty body where e: "e = (ty, body)" by fastforce
  have l: "length (extension_bytes (ty, body)) = 4 + length body" by (simp add: extension_bytes_def)
  have "find_extension (pre @ extension_bytes e @ concat (map extension_bytes exts)) (length pre) =
     (if ty = 0 then Some (length pre)
      else find_extension ((pre @ extension_bytes e) @ concat (map extension_bytes exts)) (length (pre @ extension_bytes e)))"
    using extension_at [of body pre ty] Cons.prems e l by simp
  then show ?case using Cons.IH [of "pre @ extension_bytes e"] Cons.prems e by (auto simp: l)
qed

lemma nth_at: "n = length pre \<Longrightarrow> (pre @ x # post) ! n = x"
  by simp

lemma be16_two_bytes: "\<exists>a b. be16 w = [a, b] \<and> from_be [a, b] = w"
  using from_be_to_be [where n = 2 and w = w] by (simp add: numeral_2_eq_2)

lemma find_sni_walk:
  assumes "data = pre @ s # sid @ [c1, c2] @ suites @ m # cmp @ [e1, e2] @ ext"
    and "length pre = 43" and "data ! 0 = 0x16"
    and "5 + unat (from_be [data ! 3, data ! 4] :: u16) \<le> length data"
    and "length sid = unat s" and "length suites = unat (from_be [c1, c2] :: u16)" and "length cmp = unat m"
  shows "find_sni_offset data = find_extension data (length data - length ext)"
proof -
  define p1 where "p1 = 44 + unat s"
  define p2 where "p2 = p1 + (2 + unat (from_be [c1, c2] :: u16))"
  define p3 where "p3 = p2 + (1 + unat m)"
  have s: "data ! 43 = s" unfolding assms(1) by (rule nth_at) (simp add: assms(2))
  have "data = (pre @ s # sid) @ c1 # c2 # suites @ m # cmp @ [e1, e2] @ ext" by (simp add: assms(1))
  then have c1: "data ! p1 = c1" by (simp only:) (rule nth_at, simp add: p1_def assms(2,5))
  have "data = (pre @ s # sid @ [c1]) @ c2 # suites @ m # cmp @ [e1, e2] @ ext" by (simp add: assms(1))
  then have c2: "data ! (p1 + 1) = c2" by (simp only:) (rule nth_at, simp add: p1_def assms(2,5))
  have "data = (pre @ s # sid @ [c1, c2] @ suites) @ m # cmp @ [e1, e2] @ ext" by (simp add: assms(1))
  then have m: "data ! p2 = m" by (simp only:) (rule nth_at, simp add: p1_def p2_def assms(2,5,6))
  have len: "length data = p3 + 2 + length ext"
    unfolding assms(1) p1_def p2_def p3_def by (simp add: assms(2,5,6,7))
  have "\<not> length data < 43" "\<not> length data < 5" "\<not> length data \<le> 43" "\<not> p1 + 2 > length data" "\<not> length data \<le> p2" "\<not> p3 + 2 > length data"
    using len by (simp_all add: p1_def p2_def p3_def)
  moreover have "43 + (1 + unat s) = p1" by (simp add: p1_def)
  ultimately have "find_sni_offset data = find_extension data (p3 + 2)"
    using assms(3,4) s c1 c2 m unfolding find_sni_offset_def Let_def p3_def p2_def by simp
  then show ?thesis using len by simp
qed

lemma find_extension_sound:
  "find_extension data pos = Some p \<Longrightarrow> p + 4 \<le> length data \<and> (from_be [data ! p, data ! (p + 1)] :: u16) = 0"
proof (induction data pos rule: find_extension.induct)
  case (1 data pos)
  from 1(2) show ?case
    by (subst (asm) find_extension.simps) (use 1(1) in \<open>auto simp: Let_def split: if_splits\<close>)
qed

lemma find_sni_offset_sound:
  "find_sni_offset data = Some p \<Longrightarrow> p + 4 \<le> length data \<and> (from_be [data ! p, data ! (p + 1)] :: u16) = 0"
  using find_extension_sound by (auto simp: find_sni_offset_def Let_def split: if_splits)

lemma unat_u8: "n < 256 \<Longrightarrow> unat (word_of_nat n :: u8) = n"
  by (simp add: unat_of_nat)

lemma unat_u16: "n < 65536 \<Longrightarrow> unat (word_of_nat n :: u16) = n"
  by (simp add: unat_of_nat)

lemma find_sni_exact_facts:
  assumes "hello_parts_ok h" and "\<forall>(ty, body)\<in>set exts. length body < 65536"
    and "length (hello_record h exts) < 65536 + 5"
  defines "start \<equiv> 7 + length (hello_prefix h)"
  shows "find_sni_offset (hello_record h exts) =
     (if 0 \<in> fst ` set exts
      then Some (start + length (concat (map extension_bytes (takeWhile (\<lambda>e. fst e \<noteq> 0) exts)))) else None)"
    and "\<And>data p. find_sni_offset data = Some p \<Longrightarrow> p + 4 \<le> length data \<and> (from_be [data ! p, data ! (p + 1)] :: u16) = 0"
proof -
  let ?ext = "concat (map extension_bytes exts)"
  define hello where "hello = hello_prefix h @ be16 (word_of_nat (length ?ext)) @ ?ext"
  have v: "length (hp_version h) = 2" "length (hp_body h) = 38" "length (hp_session_id h) < 256"
    "length (hp_cipher_suites h) < 65536" "length (hp_compression h) < 256"
    using assms(1) by (simp_all add: hello_parts_ok_def)
  then obtain v1 v2 where ver: "hp_version h = [v1, v2]" by (auto simp: numeral_2_eq_2 length_Suc_conv)
  have data: "hello_record h exts = 0x16 # hp_version h @ be16 (word_of_nat (length hello)) @ hello"
    unfolding hello_record_def Let_def hello_def ..
  have hl: "length hello < 65536" using assms(3) v(1) unfolding data by simp
  obtain r1 r2 where r: "be16 (word_of_nat (length hello)) = [r1, r2]" "(from_be [r1, r2] :: u16) = word_of_nat (length hello)"
    using be16_two_bytes by blast
  obtain c1 c2 where c: "be16 (word_of_nat (length (hp_cipher_suites h))) = [c1, c2]"
    "(from_be [c1, c2] :: u16) = word_of_nat (length (hp_cipher_suites h))" using be16_two_bytes by blast
  obtain e1 e2 where e: "be16 (word_of_nat (length ?ext)) = [e1, e2]" using be16_two_bytes by blast
  let ?pre = "0x16 # v1 # v2 # r1 # r2 # hp_body h"
  have d: "hello_record h exts = ?pre @ word_of_nat (length (hp_session_id h)) # hp_session_id h @ [c1, c2]
      @ hp_cipher_suites h @ word_of_nat (length (hp_compression h)) # hp_compression h @ [e1, e2] @ ?ext"
    unfolding data ver r(1) by (simp add: hello_def hello_prefix_def c(1) e del: to_be.simps)
  have len: "length (hello_record h exts) = 5 + length hello" unfolding data ver by simp
  have walk: "find_sni_offset (hello_record h exts)
      = find_extension (hello_record h exts) (length (hello_record h exts) - length ?ext)"
    by (rule find_sni_walk [OF d])
      (use v r(2) c(2) hl len in \<open>simp_all add: d unat_u8 unat_u16 nth_Cons'\<close>)
  define front where "front = 0x16 # v1 # v2 # r1 # r2 # hello_prefix h @ [e1, e2]"
  have whole: "hello_record h exts = front @ ?ext"
    unfolding data ver r(1) by (simp add: front_def hello_def e del: to_be.simps)
  have start: "length front = start" by (simp add: front_def start_def)
  show "find_sni_offset (hello_record h exts) =
     (if 0 \<in> fst ` set exts
      then Some (start + length (concat (map extension_bytes (takeWhile (\<lambda>e. fst e \<noteq> 0) exts)))) else None)"
    unfolding walk using find_extension_list [OF assms(2), of front] unfolding whole by (simp add: start)
  show "p + 4 \<le> length data \<and> (from_be [data ! p, data ! (p + 1)] :: u16) = 0"
    if "find_sni_offset data = Some p" for data p by (rule find_sni_offset_sound [OF that])
qed

text \<open>C38. In a well-formed ClientHello the search finds the position of the first server-name extension and
  reports none exactly if there is none. Whatever the data, a position it reports lies inside it and
  is that of an extension header of type zero.\<close>

theorem find_sni_exact:
  assumes "hello_parts_ok h" and "\<forall>(ty, body)\<in>set exts. length body < 65536"
    and "length (hello_record h exts) < 65536 + 5"
  shows "find_sni_offset (hello_record h exts) =
     (if 0 \<in> fst ` set exts
      then Some (7 + length (hello_prefix h) + length (concat (map extension_bytes (takeWhile (\<lambda>e. fst e \<noteq> 0) exts))))
      else None) \<and>
    (\<forall>data p. find_sni_offset data = Some p \<longrightarrow> p + 4 \<le> length data \<and> (from_be [data ! p, data ! (p + 1)] :: u16) = 0)"
  using find_sni_exact_facts [OF assms] by blast

definition demo_hello :: hello_parts where
  "demo_hello = \<lparr>hp_version = [3, 1], hp_body = replicate 38 0, hp_session_id = [], hp_cipher_suites = [0x13, 1], hp_compression = [0]\<rparr>"

theorem find_sni_exact_witness:
  "find_sni_offset (hello_record demo_hello [(0x10, [1, 2]), (0, [9])]) = Some 58"
proof -
  have "hello_parts_ok demo_hello" by (simp add: hello_parts_ok_def demo_hello_def)
  from find_sni_exact(1) [OF this, of "[(0x10, [1, 2]), (0, [9])]"] show ?thesis
    by (simp add: hello_record_def hello_prefix_def extension_bytes_def demo_hello_def Let_def)
qed

section \<open>Padding\<close>

lemma power_from_least:
  "p = 2 ^ a \<Longrightarrow> (a = 0 \<or> p div 2 < n) \<Longrightarrow> \<exists>k. power_from p n = 2 ^ k \<and> n \<le> 2 ^ k \<and> (k = 0 \<or> 2 ^ (k - 1) < n)"
proof (induction p n arbitrary: a rule: power_from.induct)
  case (1 p n)
  show ?case
  proof (cases "n \<le> p")
    case True
    then have "power_from p n = p" by (subst power_from.simps) simp
    moreover have "a = 0 \<or> 2 ^ (a - 1) < n" using 1(2,3) by (cases a) auto
    ultimately show ?thesis using True 1(2) by (intro exI [of _ a]) auto
  next
    case False
    then have "power_from p n = power_from (2 * p) n" by (subst power_from.simps) (use 1(2) in auto)
    moreover have "\<exists>k. power_from (2 * p) n = 2 ^ k \<and> n \<le> 2 ^ k \<and> (k = 0 \<or> 2 ^ (k - 1) < n)"
      by (rule 1(1) [of "Suc a"]) (use False 1(2) in auto)
    ultimately show ?thesis by simp
  qed
qed

text \<open>With the padding it suggests, a payload has the size the pattern mimics: a multiple of 1400 above
  the payload for video, the least power of two for browsing, 256 bytes or up to 31 more than the
  payload for messages, at most 15 more for downloads, and no change for the adaptive pattern.\<close>

lemma suggested_padding_sizes:
  fixes r :: rhythm_engine
  defines "padded n \<equiv> \<lambda>random. n + suggested_padding random r n"
  shows "case rh_pattern r of
      VideoStreaming \<Rightarrow> 1400 dvd padded n random \<and> n < padded n random \<and> padded n random \<le> n + 1400
    | WebBrowsing \<Rightarrow> (\<exists>k. padded n random = 2 ^ k \<and> (\<forall>j. (n \<le> 2 ^ j) = (k \<le> j)))
    | FileDownload \<Rightarrow> padded n random < n + 16
    | Messaging \<Rightarrow> (if n < 256 then padded n random = 256 else padded n random < n + 32)
    | AdaptivePattern \<Rightarrow> padded n random = n"
proof (cases "rh_pattern r")
  case VideoStreaming
  have n: "n = (n div 1400) * 1400 + n mod 1400" by simp
  have "n mod 1400 < 1400" by simp
  moreover have "(n div 1400 + 1) * 1400 = (n div 1400) * 1400 + 1400" by simp
  ultimately have "n < (n div 1400 + 1) * 1400" "(n div 1400 + 1) * 1400 \<le> n + 1400" using n by linarith+
  then show ?thesis using VideoStreaming by (simp add: padded_def suggested_padding_def Let_def)
next
  case WebBrowsing
  obtain k where k: "next_power_of_two n = 2 ^ k" "n \<le> 2 ^ k" "k = 0 \<or> 2 ^ (k - 1) < n"
    using power_from_least [of 1 0 n] by (auto simp: next_power_of_two_def)
  have "(n \<le> 2 ^ j) = (k \<le> j)" for j
  proof
    assume "n \<le> 2 ^ j"
    then have "k = 0 \<or> (2 :: nat) ^ (k - 1) < 2 ^ j" using k(3) by linarith
    then show "k \<le> j" by auto
  next
    assume "k \<le> j"
    then have "(2 :: nat) ^ k \<le> 2 ^ j" by simp
    then show "n \<le> 2 ^ j" using k(2) by linarith
  qed
  then show ?thesis using WebBrowsing k by (auto simp: padded_def suggested_padding_def)
qed (auto simp: padded_def suggested_padding_def)

end
