(* ===== verification/Std_Float.thy ===== *)
theory Std_Float
  imports Complex_Main Kanrin_Prelude
begin

text \<open>
  Rust's \<open>f64\<close> and \<open>f32\<close>: the values of IEEE 754 with exact rational numbers for the finite ones, and the
  operations the program uses, each the exact result rounded to the nearest representable number, ties
  to even. The sign of a NaN is not modelled, as Rust does not specify it either. Rounding is
  monotone and leaves representable numbers alone; what the components need of the arithmetic follows
  from these two facts.
\<close>

section \<open>Rounding\<close>

text \<open>The integer part of the binary logarithm.\<close>

function ilog2 :: "int \<Rightarrow> int" where
  "ilog2 n = (if n < 2 then 0 else ilog2 (n div 2) + 1)"
  by pat_completeness auto

termination
  by (relation "measure nat") auto

declare ilog2.simps [simp del]

text \<open>The \<open>e\<close> with \<open>2 powi e \<le> r < 2 powi (e + 1)\<close>, for positive \<open>r\<close>.\<close>

definition exponent_of :: "rat \<Rightarrow> int" where
  "exponent_of r =
     (let (a, b) = quotient_of r; e = ilog2 a - ilog2 b
      in if 2 powi e \<le> r then e else e - 1)"

definition round_half_even :: "rat \<Rightarrow> int" where
  "round_half_even x =
     (let f = \<lfloor>x\<rfloor>; d = x - of_int f in
      if d < 1 / 2 then f else if d > 1 / 2 then f + 1 else if even f then f else f + 1)"

text \<open>A format has a precision and the least exponent of its normal numbers.\<close>

record float_format =
  ff_precision :: int
  ff_emin :: int
  ff_emax :: int

definition binary64 :: float_format where
  "binary64 = \<lparr>ff_precision = 53, ff_emin = - 1022, ff_emax = 1023\<rparr>"

definition binary32 :: float_format where
  "binary32 = \<lparr>ff_precision = 24, ff_emin = - 126, ff_emax = 127\<rparr>"

definition ulp_exponent :: "float_format \<Rightarrow> rat \<Rightarrow> int" where
  "ulp_exponent ff r = max (exponent_of r) (ff_emin ff) - (ff_precision ff - 1)"

definition round_magnitude :: "float_format \<Rightarrow> rat \<Rightarrow> rat" where
  "round_magnitude ff r =
     (if r = 0 then 0
      else let u = 2 powi ulp_exponent ff r in of_int (round_half_even (r / u)) * u)"

lemma powi_pos [simp]: "0 < (2 :: rat) powi e"
  by (simp add: power_int_def)

lemma powi_le [simp]: "(2 :: rat) powi a \<le> 2 powi b \<longleftrightarrow> a \<le> b"
proof
  assume "a \<le> b"
  then show "(2 :: rat) powi a \<le> 2 powi b" by (simp add: power_int_increasing)
next
  assume p: "(2 :: rat) powi a \<le> 2 powi b"
  show "a \<le> b"
  proof (rule ccontr)
    assume "\<not> a \<le> b"
    then have "(2 :: rat) powi b < 2 powi a" by (simp add: power_int_strict_increasing)
    then show False using p by simp
  qed
qed

lemma powi_Suc: "(2 :: rat) powi (e + 1) = 2 * 2 powi e"
  by (simp add: power_int_add)

lemma ilog2_bounds: "0 < n \<Longrightarrow> 2 powi ilog2 n \<le> (of_int n :: rat) \<and> of_int n < (2 :: rat) powi (ilog2 n + 1)"
proof (induction n rule: ilog2.induct)
  case (1 n)
  show ?case
  proof (cases "n < 2")
    case True
    then have "n = 1" using 1 by simp
    then show ?thesis by (simp add: ilog2.simps [of 1])
  next
    case False
    then have l: "ilog2 n = ilog2 (n div 2) + 1" by (subst ilog2.simps) simp
    have IH: "2 powi ilog2 (n div 2) \<le> (of_int (n div 2) :: rat)"
      "of_int (n div 2) < (2 :: rat) powi (ilog2 (n div 2) + 1)"
      using 1 False by auto
    have "2 * (n div 2) \<le> n" "n < 2 * (n div 2) + 2" by linarith+
    then have "of_int (2 * (n div 2)) \<le> (of_int n :: rat)" "(of_int n :: rat) < of_int (2 * (n div 2) + 2)"
      by (simp_all only: of_int_le_iff of_int_less_iff)
    then have m: "2 * of_int (n div 2) \<le> (of_int n :: rat)" "(of_int n :: rat) < 2 * (of_int (n div 2) + 1)"
      by simp_all
    define k where "k = ilog2 (n div 2)"
    have pos: "0 \<le> k"
    proof -
      have "0 \<le> ilog2 m" for m by (induction m rule: ilog2.induct) (subst ilog2.simps, simp)
      then show ?thesis by (simp add: k_def)
    qed
    have "(2 :: rat) powi (k + 1) = of_int (2 ^ nat (k + 1))" using pos by (simp add: power_int_def)
    then have "n div 2 < 2 ^ nat (k + 1)" using IH(2) by (simp add: k_def)
    then have "n div 2 + 1 \<le> 2 ^ nat (k + 1)" by simp
    then have "of_int (n div 2) + 1 \<le> (2 :: rat) powi (k + 1)"
      using \<open>(2 :: rat) powi (k + 1) = of_int (2 ^ nat (k + 1))\<close> by (metis of_int_1 of_int_add of_int_le_iff)
    then show ?thesis unfolding l powi_Suc using IH(1) m by (simp flip: k_def add: powi_Suc)
  qed
qed

lemma exponent_of_bounds:
  assumes "0 < r"
  shows "2 powi exponent_of r \<le> r" and "r < 2 powi (exponent_of r + 1)"
proof -
  obtain a b where q: "quotient_of r = (a, b)" by fastforce
  have b: "0 < b" by (rule quotient_of_denom_pos [OF q])
  have r: "r = of_int a / of_int b" by (rule quotient_of_div [OF q])
  have a: "0 < a" using assms r b by (simp add: zero_less_divide_iff)
  define x where "x = ilog2 a"
  define y where "y = ilog2 b"
  have ax: "(2 :: rat) powi x \<le> of_int a" "of_int a < (2 :: rat) powi (x + 1)"
    using ilog2_bounds [OF a] by (simp_all add: x_def)
  have bx: "(2 :: rat) powi y \<le> of_int b" "of_int b < (2 :: rat) powi (y + 1)"
    using ilog2_bounds [OF b] by (simp_all add: y_def)
  define e where "e = x - y"
  have pe: "(2 :: rat) powi e = 2 powi x / 2 powi y" unfolding e_def by (simp add: power_int_diff)
  have up: "r < 2 powi (e + 1)"
  proof -
    have "of_int a / of_int b < (2 :: rat) powi (x + 1) / 2 powi y"
      by (rule frac_less) (use a ax bx in auto)
    then show ?thesis unfolding powi_Suc pe r by simp
  qed
  have low: "2 powi (e - 1) \<le> r"
  proof -
    have "(2 :: rat) powi x / 2 powi (y + 1) \<le> of_int a / of_int b"
      by (rule frac_le) (use a ax bx b in auto)
    moreover have "(2 :: rat) powi e = 2 * 2 powi (e - 1)" using powi_Suc [of "e - 1"] by simp
    ultimately show ?thesis using pe r by (simp add: powi_Suc)
  qed
  have ex: "exponent_of r = (if 2 powi e \<le> r then e else e - 1)"
    by (simp add: exponent_of_def q e_def x_def y_def)
  show "2 powi exponent_of r \<le> r" unfolding ex using low by simp
  show "r < 2 powi (exponent_of r + 1)" unfolding ex using up by (simp split: if_split)
qed

lemma exponent_of_mono: "0 < r \<Longrightarrow> r \<le> s \<Longrightarrow> exponent_of r \<le> exponent_of s"
proof -
  assume "0 < r" "r \<le> s"
  then have "(2 :: rat) powi exponent_of r < 2 powi (exponent_of s + 1)"
    using exponent_of_bounds [of r] exponent_of_bounds [of s] by (meson le_less_trans less_le_trans)
  then have "\<not> exponent_of s + 1 \<le> exponent_of r" using powi_le by (metis leD)
  then show ?thesis by simp
qed

lemma exponent_of_eq:
  assumes "2 powi e \<le> r" and "r < 2 powi (e + 1)"
  shows "exponent_of r = e"
proof -
  have r: "0 < r" using assms(1) powi_pos [of e] by linarith
  have "(2 :: rat) powi e < 2 powi (exponent_of r + 1)" "(2 :: rat) powi exponent_of r < 2 powi (e + 1)"
    using exponent_of_bounds [OF r] assms by linarith+
  then have "\<not> exponent_of r + 1 \<le> e" "\<not> e + 1 \<le> exponent_of r" using powi_le by (metis leD)+
  then show ?thesis by simp
qed

lemma round_half_even_int [simp]: "round_half_even (of_int k) = k"
  by (simp add: round_half_even_def)

lemma round_half_even_mono: "x \<le> y \<Longrightarrow> round_half_even x \<le> round_half_even y"
proof -
  assume xy: "x \<le> y"
  have f: "\<lfloor>x\<rfloor> \<le> \<lfloor>y\<rfloor>" using xy by (rule floor_mono)
  show ?thesis
  proof (cases "\<lfloor>x\<rfloor> = \<lfloor>y\<rfloor>")
    case True
    then show ?thesis using xy by (auto simp: round_half_even_def Let_def)
  next
    case False
    then have "\<lfloor>x\<rfloor> + 1 \<le> \<lfloor>y\<rfloor>" using f by simp
    moreover have "round_half_even x \<le> \<lfloor>x\<rfloor> + 1" "\<lfloor>y\<rfloor> \<le> round_half_even y"
      by (simp_all add: round_half_even_def Let_def)
    ultimately show ?thesis by linarith
  qed
qed

text \<open>Multiples of the unit in the last place are kept.\<close>

lemma powi_multiple: "j \<le> k \<Longrightarrow> \<exists>n :: int. (2 :: rat) powi k = of_int n * 2 powi j"
proof -
  assume "j \<le> k"
  then obtain d where d: "k = j + int d" using zle_iff_zadd by blast
  have "(2 :: rat) powi k = of_int (2 ^ d) * 2 powi j" unfolding d by (simp add: power_int_add)
  then show ?thesis by blast
qed

lemma round_magnitude_exact:
  assumes "r = of_int k * 2 powi j" and "ulp_exponent ff r \<le> j"
  shows "round_magnitude ff r = r"
proof -
  obtain n :: int where n: "(2 :: rat) powi j = of_int n * 2 powi ulp_exponent ff r"
    using powi_multiple [OF assms(2)] by blast
  have u: "(2 :: rat) powi ulp_exponent ff r \<noteq> 0" by simp
  have "r / 2 powi ulp_exponent ff r = of_int (k * n)" by (subst (1) assms(1)) (simp add: n)
  then show ?thesis using u unfolding round_magnitude_def Let_def
    by (metis nonzero_divide_eq_eq round_half_even_int mult_not_zero)
qed

lemma round_magnitude_nonneg: "0 \<le> r \<Longrightarrow> 0 \<le> round_magnitude ff r"
proof -
  assume "0 \<le> r"
  then have "round_half_even 0 \<le> round_half_even (r / 2 powi ulp_exponent ff r)"
    by (intro round_half_even_mono) simp
  moreover have "round_half_even 0 = 0" using round_half_even_int [of 0] by simp
  ultimately show ?thesis by (simp add: round_magnitude_def Let_def)
qed

lemma round_magnitude_mono:
  assumes "0 \<le> r" and "r \<le> s" and "1 \<le> ff_precision ff"
  shows "round_magnitude ff r \<le> round_magnitude ff s"
proof (cases "r = 0")
  case True
  then show ?thesis using round_magnitude_nonneg [of s ff] assms by (simp add: round_magnitude_def)
next
  case False
  then have r: "0 < r" and s: "0 < s" using assms by simp_all
  let ?u = "ulp_exponent ff"
  have le: "exponent_of r \<le> exponent_of s" by (rule exponent_of_mono [OF r assms(2)])
  show ?thesis
  proof (cases "?u r = ?u s")
    case True
    have "r / 2 powi ?u s \<le> s / 2 powi ?u s" using assms(2) by (simp add: divide_right_mono)
    then have "round_half_even (r / 2 powi ?u s) \<le> round_half_even (s / 2 powi ?u s)"
      by (rule round_half_even_mono)
    then show ?thesis using r s True by (simp add: round_magnitude_def Let_def)
  next
    case False
    then have e: "exponent_of r < exponent_of s" "ff_emin ff < exponent_of s"
      using le by (auto simp: ulp_exponent_def max_def split: if_splits)
    let ?p = "(2 :: rat) powi exponent_of s"
    have below: "r \<le> ?p"
    proof -
      have "r < 2 powi (exponent_of r + 1)" by (rule exponent_of_bounds(2) [OF r])
      also have "(2 :: rat) powi (exponent_of r + 1) \<le> ?p" using e(1) by simp
      finally show ?thesis by simp
    qed
    have above: "?p \<le> s" by (rule exponent_of_bounds(1) [OF s])
    have us: "?u s \<le> exponent_of s" "?u r \<le> exponent_of s"
      using e assms(3) by (auto simp: ulp_exponent_def)
    have bound: "of_int (round_half_even (?p / 2 powi j)) * 2 powi j = ?p" if j: "j \<le> exponent_of s" for j
    proof -
      obtain n :: int where n: "?p = of_int n * 2 powi j" using powi_multiple [OF j] by blast
      have "?p / 2 powi j = of_int n" by (simp add: n)
      then show ?thesis by (simp add: n)
    qed
    have "round_half_even (r / 2 powi ?u r) \<le> round_half_even (?p / 2 powi ?u r)"
      by (rule round_half_even_mono) (use below in \<open>simp add: divide_right_mono\<close>)
    then have "of_int (round_half_even (r / 2 powi ?u r)) * 2 powi ?u r \<le> ?p"
      using bound [OF us(2)] by (metis mult_right_mono of_int_le_iff order_less_imp_le powi_pos)
    moreover have "round_half_even (?p / 2 powi ?u s) \<le> round_half_even (s / 2 powi ?u s)"
      by (rule round_half_even_mono) (use above in \<open>simp add: divide_right_mono\<close>)
    then have "?p \<le> of_int (round_half_even (s / 2 powi ?u s)) * 2 powi ?u s"
      using bound [OF us(1)] by (metis mult_right_mono of_int_le_iff order_less_imp_le powi_pos)
    ultimately show ?thesis using r s by (simp add: round_magnitude_def Let_def)
  qed
qed

section \<open>Values and operations\<close>

datatype float64 = Fin rat | NegZero | Infinite bool | NaN

text \<open>The value of a finite number.\<close>

fun fval :: "float64 \<Rightarrow> rat" where
  "fval (Fin r) = r"
| "fval _ = 0"

fun is_finite :: "float64 \<Rightarrow> bool" where
  "is_finite (Fin _) = True"
| "is_finite NegZero = True"
| "is_finite _ = False"

fun sign_negative :: "float64 \<Rightarrow> bool" where
  "sign_negative (Fin r) \<longleftrightarrow> r < 0"
| "sign_negative NegZero = True"
| "sign_negative (Infinite neg) = neg"
| "sign_negative NaN = False"

text \<open>Rounding an exact result; \<open>neg\<close> is the sign of a zero.\<close>

definition float_of :: "float_format \<Rightarrow> bool \<Rightarrow> rat \<Rightarrow> float64" where
  "float_of ff neg r =
     (let m = round_magnitude ff \<bar>r\<bar> in
      if m = 0 then (if neg then NegZero else Fin 0)
      else if m \<ge> 2 powi (ff_emax ff + 1) then Infinite (r < 0)
      else Fin (if r < 0 then - m else m))"

definition f64_of_nat :: "nat \<Rightarrow> float64" where
  "f64_of_nat n = float_of binary64 False (of_nat n)"

definition fadd :: "float64 \<Rightarrow> float64 \<Rightarrow> float64" where
  "fadd a b =
     (if a = NaN \<or> b = NaN then NaN
      else if is_finite a \<and> is_finite b then
        float_of binary64 (a = NegZero \<and> b = NegZero \<or> fval a + fval b < 0) (fval a + fval b)
      else if is_finite a then b
      else if is_finite b then a
      else if a = b then a else NaN)"

definition fneg :: "float64 \<Rightarrow> float64" where
  "fneg a =
     (case a of
        Fin r \<Rightarrow> if r = 0 then NegZero else Fin (- r)
      | NegZero \<Rightarrow> Fin 0
      | Infinite neg \<Rightarrow> Infinite (\<not> neg)
      | NaN \<Rightarrow> NaN)"

definition fsub :: "float64 \<Rightarrow> float64 \<Rightarrow> float64" where
  "fsub a b = fadd a (fneg b)"

definition fmul :: "float64 \<Rightarrow> float64 \<Rightarrow> float64" where
  "fmul a b =
     (let neg = (sign_negative a \<noteq> sign_negative b) in
      if a = NaN \<or> b = NaN then NaN
      else if is_finite a \<and> is_finite b then float_of binary64 neg (fval a * fval b)
      else if is_finite a \<and> fval a = 0 \<or> is_finite b \<and> fval b = 0 then NaN
      else Infinite neg)"

definition fdiv :: "float64 \<Rightarrow> float64 \<Rightarrow> float64" where
  "fdiv a b =
     (let neg = (sign_negative a \<noteq> sign_negative b) in
      if a = NaN \<or> b = NaN then NaN
      else if \<not> is_finite a \<and> \<not> is_finite b then NaN
      else if \<not> is_finite b then (if neg then NegZero else Fin 0)
      else if \<not> is_finite a then Infinite neg
      else if fval b = 0 then (if fval a = 0 then NaN else Infinite neg)
      else float_of binary64 neg (fval a / fval b))"

text \<open>Comparison: \<open>NaN\<close> compares with nothing. The class of a number is \<open>-1\<close>, \<open>0\<close> or \<open>1\<close> for minus
  infinity, finite and infinity.\<close>

definition fclass :: "float64 \<Rightarrow> int" where
  "fclass a = (case a of Infinite neg \<Rightarrow> if neg then - 1 else 1 | NaN \<Rightarrow> 2 | _ \<Rightarrow> 0)"

definition flt :: "float64 \<Rightarrow> float64 \<Rightarrow> bool" where
  "flt a b \<longleftrightarrow> a \<noteq> NaN \<and> b \<noteq> NaN \<and> (fclass a < fclass b \<or> fclass a = fclass b \<and> fval a < fval b)"

definition feq :: "float64 \<Rightarrow> float64 \<Rightarrow> bool" where
  "feq a b \<longleftrightarrow> a \<noteq> NaN \<and> b \<noteq> NaN \<and> fclass a = fclass b \<and> fval a = fval b"

text \<open>The order of \<open>total_cmp\<close>, as less-or-equal: minus zero is below zero, a (positive) NaN above all.\<close>

definition total_le :: "float64 \<Rightarrow> float64 \<Rightarrow> bool" where
  "total_le a b \<longleftrightarrow>
     fclass a < fclass b \<or> fclass a = fclass b \<and>
       (fval a < fval b \<or> fval a = fval b \<and> (b = NegZero \<longrightarrow> a = NegZero))"

definition fmax :: "float64 \<Rightarrow> float64 \<Rightarrow> float64" where
  "fmax a b = (if a = NaN then b else if b = NaN then a else if flt a b then b else a)"

definition fmin :: "float64 \<Rightarrow> float64 \<Rightarrow> float64" where
  "fmin a b = (if a = NaN then b else if b = NaN then a else if flt b a then b else a)"

definition fclamp :: "float64 \<Rightarrow> float64 \<Rightarrow> float64 \<Rightarrow> float64" where
  "fclamp low high a = (let b = (if flt a low then low else a) in if flt high b then high else b)"

text \<open>\<open>as f32\<close>, kept as the number it is.\<close>

definition to_f32 :: "float64 \<Rightarrow> float64" where
  "to_f32 a = (if is_finite a then float_of binary32 (sign_negative a) (fval a) else a)"

text \<open>The literals of the source: the numbers nearest to them.\<close>

definition f64_lit :: "rat \<Rightarrow> float64" where
  "f64_lit r = float_of binary64 False r"

definition f64_MAX :: float64 where
  "f64_MAX = Fin ((2 - 2 powi (- 52)) * 2 powi 1023)"

text \<open>\<open>Duration::as_secs_f64\<close> and \<open>from_secs_f64\<close>, which panics on negative and too large values.\<close>

definition as_secs_f64 :: "duration \<Rightarrow> float64" where
  "as_secs_f64 d =
     fadd (f64_of_nat (d div 1000000000)) (fdiv (f64_of_nat (d mod 1000000000)) (f64_of_nat 1000000000))"

definition from_secs_f64 :: "float64 \<Rightarrow> duration option" where
  "from_secs_f64 a =
     (if \<not> is_finite a \<or> fval a < 0 \<or> 2 ^ 64 \<le> fval a then None
      else Some (nat (round_half_even (fval a * 1000000000))))"

section \<open>Arithmetic on finite numbers that are not negative\<close>

text \<open>The number nearest to a rational that is not negative.\<close>

abbreviation rnd :: "rat \<Rightarrow> rat" where
  "rnd \<equiv> round_magnitude binary64"

named_theorems rnd_simps \<open>rationals that are representable\<close>

lemma rnd_exact:
  assumes "0 \<le> k" and "k < 2 ^ 53" and "- 1074 \<le> j"
  shows "rnd (of_int k * 2 powi j) = of_int k * 2 powi j"
proof (cases "k = 0")
  case True
  then show ?thesis by (simp add: round_magnitude_def)
next
  case False
  let ?r = "of_int k * 2 powi j :: rat"
  have r: "0 < ?r" using assms(1) False by simp
  have "(of_int k :: rat) < of_int (2 ^ 53)" using assms(2) by (simp only: of_int_less_iff)
  then have "(of_int k :: rat) < 2 powi 53" by simp
  then have "?r < 2 powi 53 * 2 powi j" by (intro mult_strict_right_mono) simp_all
  then have "?r < 2 powi (53 + j)" by (simp add: power_int_add)
  then have "(2 :: rat) powi exponent_of ?r < 2 powi (53 + j)"
    using exponent_of_bounds(1) [OF r] by linarith
  then have "\<not> 53 + j \<le> exponent_of ?r" using powi_le by (metis leD)
  then have "ulp_exponent binary64 ?r \<le> j" using assms(3) by (simp add: ulp_exponent_def binary64_def)
  then show ?thesis by (rule round_magnitude_exact [OF refl])
qed

lemma rnd_mono: "0 \<le> r \<Longrightarrow> r \<le> s \<Longrightarrow> rnd r \<le> rnd s"
  by (rule round_magnitude_mono) (simp_all add: binary64_def)

lemma rnd_nonneg: "0 \<le> r \<Longrightarrow> 0 \<le> rnd r"
  by (rule round_magnitude_nonneg)

lemma rnd_le: "0 \<le> r \<Longrightarrow> r \<le> b \<Longrightarrow> rnd b = b \<Longrightarrow> rnd r \<le> b"
  using rnd_mono [of r b] by simp

lemma rnd_ge: "0 \<le> b \<Longrightarrow> b \<le> r \<Longrightarrow> rnd b = b \<Longrightarrow> b \<le> rnd r"
  using rnd_mono [of b r] by simp

lemma rnd_0 [simp]: "rnd 0 = 0"
  by (simp add: round_magnitude_def)

lemma rnd_nat: "n < 2 ^ 53 \<Longrightarrow> rnd (of_nat n) = of_nat n"
  using rnd_exact [of "int n" 0] by simp

lemma rnd_numeral: "(numeral n :: int) < 2 ^ 53 \<Longrightarrow> rnd (numeral n) = numeral n"
  using rnd_exact [of "numeral n" 0] by simp

lemma rnd_1 [rnd_simps]: "rnd 1 = 1"
  using rnd_exact [of 1 0] by simp

lemma rnd_pow2: "- 1074 \<le> j \<Longrightarrow> rnd (2 powi j) = 2 powi j"
  using rnd_exact [of 1 j] by simp

lemma rnd_3_pow2: "- 1074 \<le> j \<Longrightarrow> rnd (3 * 2 powi j) = 3 * 2 powi j"
  using rnd_exact [of 3 j] by simp

text \<open>The result of rounding stays finite below \<open>2 ^ 1023\<close>.\<close>

lemma float_of_finite:
  assumes "0 \<le> r" and "r \<le> 2 powi 1023"
  shows "is_finite (float_of binary64 neg r)" and "fval (float_of binary64 neg r) = rnd r"
proof -
  have "rnd r \<le> 2 powi 1023" by (rule rnd_le [OF assms]) (simp only: rnd_pow2)
  also have "(2 :: rat) powi 1023 < 2 powi 1024" by (rule power_int_strict_increasing) simp_all
  finally have "\<not> 2 powi 1024 \<le> rnd r" by simp
  then have b: "\<not> 2 powi (ff_emax binary64 + 1) \<le> rnd r" by (simp add: binary64_def)
  then show "is_finite (float_of binary64 neg r)" "fval (float_of binary64 neg r) = rnd r"
    using assms(1) by (simp_all add: float_of_def Let_def)
qed

text \<open>A finite number from 0 to a bound.\<close>

definition in_range :: "rat \<Rightarrow> float64 \<Rightarrow> bool" where
  "in_range b a \<longleftrightarrow> is_finite a \<and> 0 \<le> fval a \<and> fval a \<le> b"

lemma not_NaN: "is_finite a \<Longrightarrow> a \<noteq> NaN"
  by auto

lemma in_range_mono: "in_range b a \<Longrightarrow> b \<le> c \<Longrightarrow> in_range c a"
  by (auto simp: in_range_def)

lemma fadd_val:
  assumes "is_finite a" "is_finite b" "0 \<le> fval a" "0 \<le> fval b" "fval a + fval b \<le> 2 powi 1023"
  shows "is_finite (fadd a b)" and "fval (fadd a b) = rnd (fval a + fval b)"
  using assms float_of_finite [of "fval a + fval b"] by (auto simp: fadd_def)

lemma fmul_val:
  assumes "is_finite a" "is_finite b" "0 \<le> fval a" "0 \<le> fval b" "fval a * fval b \<le> 2 powi 1023"
  shows "is_finite (fmul a b)" and "fval (fmul a b) = rnd (fval a * fval b)"
  using assms float_of_finite [of "fval a * fval b"] by (auto simp: fmul_def Let_def)

lemma fdiv_val:
  assumes "is_finite a" "is_finite b" "0 \<le> fval a" "0 < fval b" "fval a / fval b \<le> 2 powi 1023"
  shows "is_finite (fdiv a b)" and "fval (fdiv a b) = rnd (fval a / fval b)"
  using assms float_of_finite [of "fval a / fval b"] by (auto simp: fdiv_def Let_def)

lemma f64_of_nat_val:
  assumes "n \<le> 2 ^ 64"
  shows "is_finite (f64_of_nat n)" and "fval (f64_of_nat n) = rnd (of_nat n)" and "in_range (2 powi 64) (f64_of_nat n)"
proof -
  have "(of_nat n :: rat) \<le> of_nat (2 ^ 64)" using assms by (simp only: of_nat_le_iff)
  then have n: "(of_nat n :: rat) \<le> 2 powi 64" by simp
  also have "(2 :: rat) powi 64 \<le> 2 powi 1023" by (simp only: powi_le)
  finally have n': "(of_nat n :: rat) \<le> 2 powi 1023" .
  show f: "is_finite (f64_of_nat n)" "fval (f64_of_nat n) = rnd (of_nat n)"
    using float_of_finite [of "of_nat n"] n' unfolding f64_of_nat_def by simp_all
  have "rnd (of_nat n) \<le> 2 powi 64" by (rule rnd_le [OF _ n]) (simp_all only: of_nat_0_le_iff rnd_pow2)
  then show "in_range (2 powi 64) (f64_of_nat n)" using f rnd_nonneg [of "of_nat n"] unfolding in_range_def by simp
qed

lemma f64_of_nat_exact: "n < 2 ^ 53 \<Longrightarrow> fval (f64_of_nat n) = of_nat n"
  using f64_of_nat_val(2) [of n] rnd_nat [of n] by simp

lemma flt_finite: "is_finite a \<Longrightarrow> is_finite b \<Longrightarrow> flt a b = (fval a < fval b)"
  by (cases a; cases b) (auto simp: flt_def fclass_def)

lemma feq_finite: "is_finite a \<Longrightarrow> is_finite b \<Longrightarrow> feq a b = (fval a = fval b)"
  by (cases a; cases b) (auto simp: feq_def fclass_def)

lemma fmin_val: "is_finite a \<Longrightarrow> is_finite b \<Longrightarrow> is_finite (fmin a b) \<and> fval (fmin a b) = min (fval a) (fval b)"
  by (auto simp: fmin_def flt_finite)

lemma fmax_val: "is_finite a \<Longrightarrow> is_finite b \<Longrightarrow> is_finite (fmax a b) \<and> fval (fmax a b) = max (fval a) (fval b)"
  by (auto simp: fmax_def flt_finite)

lemma fclamp_val:
  "is_finite a \<Longrightarrow> is_finite low \<Longrightarrow> is_finite high \<Longrightarrow> fval low \<le> fval high
    \<Longrightarrow> is_finite (fclamp low high a) \<and> fval low \<le> fval (fclamp low high a) \<and> fval (fclamp low high a) \<le> fval high"
  by (auto simp: fclamp_def Let_def flt_finite)

text \<open>The order of \<open>total_cmp\<close> is total.\<close>

lemma total_le_total: "total_le a b \<or> total_le b a"
  by (auto simp: total_le_def)

lemma total_le_refl [simp]: "total_le a a"
  by (simp add: total_le_def)

lemma total_le_trans: "total_le a b \<Longrightarrow> total_le b c \<Longrightarrow> total_le a c"
  by (auto simp: total_le_def)

text \<open>What differs from infinity and NaN, subtracted from 1, is finite.\<close>

lemma float_of_small:
  assumes "\<bar>r\<bar> \<le> 2 powi 1023"
  shows "is_finite (float_of binary64 neg r)" and "\<bar>fval (float_of binary64 neg r)\<bar> = rnd \<bar>r\<bar>"
proof -
  have "is_finite (float_of binary64 neg \<bar>r\<bar>)" "fval (float_of binary64 neg \<bar>r\<bar>) = rnd \<bar>r\<bar>"
    using float_of_finite [OF _ assms] by simp_all
  then show "is_finite (float_of binary64 neg r)" "\<bar>fval (float_of binary64 neg r)\<bar> = rnd \<bar>r\<bar>"
    using rnd_nonneg [of "\<bar>r\<bar>"] by (auto simp: float_of_def Let_def split: if_splits)
qed

lemma fval_fneg [simp]: "fval (fneg a) = - fval a" and is_finite_fneg [simp]: "is_finite (fneg a) = is_finite a"
  by (cases a; simp add: fneg_def)+

lemma fneg_NaN [simp]: "fneg a = NaN \<longleftrightarrow> a = NaN"
  by (cases a) (simp_all add: fneg_def)

lemma fsub_finite:
  assumes "is_finite a" "is_finite b" "\<bar>fval a - fval b\<bar> \<le> 2 powi 1023"
  shows "is_finite (fsub a b)" and "\<bar>fval (fsub a b)\<bar> = rnd \<bar>fval a - fval b\<bar>"
  using assms float_of_small [of "fval a - fval b"] by (auto simp: fsub_def fadd_def)

text \<open>Literals that are representable.\<close>

lemma float_of_rep:
  assumes "0 \<le> r" and "r \<le> 2 powi 1023" and "rnd r = r"
  shows "float_of binary64 False r = Fin r"
proof -
  have "(2 :: rat) powi 1023 < 2 powi 1024" by (rule power_int_strict_increasing) simp_all
  with assms(2) have "\<not> 2 powi 1024 \<le> r" by linarith
  then have "\<not> 2 powi (ff_emax binary64 + 1) \<le> r" by (simp add: binary64_def)
  then show ?thesis using assms(1,3) by (simp add: float_of_def Let_def)
qed

lemma float_of_ratio:
  assumes "0 \<le> k" and "k < 2 ^ 53" and "j \<le> 52"
  shows "float_of binary64 False (of_int k / 2 ^ j) = Fin (of_int k / 2 ^ j)"
proof -
  have e: "of_int k / 2 ^ j = (of_int k * 2 powi (- int j) :: rat)"
    by (simp add: power_int_minus divide_inverse)
  have "rnd (of_int k / 2 ^ j) = of_int k / 2 ^ j" unfolding e by (rule rnd_exact) (use assms in auto)
  moreover have "(of_int k :: rat) < of_int (2 ^ 53)" using assms(2) by (simp only: of_int_less_iff)
  then have k: "(of_int k :: rat) \<le> 2 powi 53" by simp
  have "(2 :: rat) powi 53 \<le> 2 powi 1023" by (simp only: powi_le)
  with k have "(of_int k :: rat) \<le> 2 powi 1023" by (rule order_trans)
  moreover have "(of_int k / 2 ^ j :: rat) \<le> of_int k" using assms(1) by (simp add: divide_le_eq mult_le_cancel_left1)
  ultimately show ?thesis using assms(1) by (intro float_of_rep) (simp_all only: of_int_0_le_iff zero_le_divide_iff zero_le_power zero_le_numeral simp_thms, linarith?)
qed

lemma f64_lit_nat: "n < 2 ^ 53 \<Longrightarrow> f64_lit (of_nat n) = Fin (of_nat n)"
  using float_of_ratio [of "int n" 0] by (simp add: f64_lit_def)

lemma f64_lit_numeral: "(numeral n :: nat) < 2 ^ 53 \<Longrightarrow> f64_lit (numeral n) = Fin (numeral n)"
  using f64_lit_nat [of "numeral n"] by simp

lemma f64_lit_0 [simp]: "f64_lit 0 = Fin 0" and f64_lit_1 [simp]: "f64_lit 1 = Fin 1"
  and f64_lit_half [simp]: "f64_lit (1 / 2) = Fin (1 / 2)"
  using f64_lit_nat [of 0] f64_lit_nat [of 1] float_of_ratio [of 1 1] by (simp_all add: f64_lit_def)

text \<open>Rounding a rational by its nearest multiple.\<close>

lemma round_half_even_near:
  assumes "\<bar>x - of_int k\<bar> < 1 / 2"
  shows "round_half_even x = k"
proof (cases "of_int k \<le> x")
  case True
  then have "\<lfloor>x\<rfloor> = k" using assms by (intro floor_unique) linarith+
  then show ?thesis using assms True by (simp add: round_half_even_def)
next
  case False
  then have f: "\<lfloor>x\<rfloor> = k - 1" using assms False by (intro floor_unique) (simp_all add: abs_if split: if_splits)
  have "1 / 2 < x - of_int (k - 1)" using assms unfolding of_int_diff by linarith
  then show ?thesis unfolding round_half_even_def Let_def f by simp
qed

lemma rnd_near:
  assumes "1 / 2 ^ e \<le> r" and "r < 2 / 2 ^ e" and "e \<le> 1000" and "\<bar>r * 2 ^ (52 + e) - of_int k\<bar> < 1 / 2"
  shows "rnd r = of_int k / 2 ^ (52 + e)"
proof -
  have r: "0 < r" using assms(1) by (rule order_less_le_trans [rotated]) simp
  have p: "(2 :: rat) powi (- int e) = 1 / 2 ^ e" by (simp add: power_int_minus divide_inverse)
  have "exponent_of r = - int e"
    by (rule exponent_of_eq, unfold powi_Suc p) (use assms(1,2) in simp_all)
  then have u: "ulp_exponent binary64 r = - int (52 + e)" using assms(3) by (simp add: ulp_exponent_def binary64_def)
  have "round_half_even (r / 2 powi (- int (52 + e))) = k"
    using assms(4) by (intro round_half_even_near) (simp only: power_int_minus power_int_of_nat divide_inverse inverse_inverse_eq)
  then show ?thesis using r unfolding round_magnitude_def Let_def u
    by (simp only: power_int_minus power_int_of_nat divide_inverse) simp
qed

lemma f64_lit_near:
  assumes "1 / 2 ^ e \<le> r" and "r < 2 / 2 ^ e" and "e \<le> 1000" and "\<bar>r * 2 ^ (52 + e) - of_int k\<bar> < 1 / 2"
  shows "f64_lit r = Fin (of_int k / 2 ^ (52 + e))"
proof -
  have p: "(0 :: rat) < 1 / 2 ^ e" by simp
  have r: "0 < r" using p assms(1) by (rule order_less_le_trans)
  have "(2 :: rat) / 2 ^ e \<le> 2" by (simp add: divide_le_eq)
  then have "r \<le> 2 powi 1" using assms(2) by simp
  moreover have "(2 :: rat) powi 1 \<le> 2 powi 1023" by (simp only: powi_le)
  ultimately have "r \<le> 2 powi 1023" by (rule order_trans)
  then have "is_finite (f64_lit r)" "fval (f64_lit r) = rnd r"
    using float_of_finite [of r] r unfolding f64_lit_def by simp_all
  moreover have "rnd r \<noteq> 0"
  proof -
    have "rnd (1 / 2 ^ e) = 1 / 2 ^ e"
      using rnd_pow2 [of "- int e"] assms(3) by (simp add: power_int_minus divide_inverse)
    then have "1 / 2 ^ e \<le> rnd r" using rnd_ge [OF _ assms(1)] by simp
    then show ?thesis using p by linarith
  qed
  ultimately have "f64_lit r = Fin (rnd r)" by (cases "f64_lit r") auto
  then show ?thesis unfolding rnd_near [OF assms] .
qed

text \<open>Fractions with a denominator \<open>2 ^ j\<close> add exactly.\<close>

lemma float_of_signed:
  assumes "\<bar>k\<bar> < 2 ^ 53" and "j \<le> 52"
  shows "is_finite (float_of binary64 neg (of_int k / 2 ^ j))"
    and "fval (float_of binary64 neg (of_int k / 2 ^ j)) = of_int k / 2 ^ j"
proof -
  define r where "r = (of_int k / 2 ^ j :: rat)"
  define m where "m = (of_int \<bar>k\<bar> / 2 ^ j :: rat)"
  have m: "\<bar>r\<bar> = m" by (simp add: r_def m_def)
  have f: "float_of binary64 False m = Fin m" unfolding m_def using assms by (intro float_of_ratio) simp_all
  then have fin: "is_finite (float_of binary64 neg r)" and big: "m \<noteq> 0 \<Longrightarrow> rnd m = m"
    unfolding float_of_def m using m by (auto simp: Let_def split: if_splits)
  then have "fval (float_of binary64 neg r) = r"
    using m by (cases "r = 0") (auto simp: float_of_def Let_def split: if_splits)
  then show "is_finite (float_of binary64 neg (of_int k / 2 ^ j))"
    "fval (float_of binary64 neg (of_int k / 2 ^ j)) = of_int k / 2 ^ j"
    using fin by (simp_all add: r_def)
qed

lemma fadd_ratio:
  assumes "is_finite a" and "is_finite b" and "fval a = of_int x / 2 ^ j" and "fval b = of_int y / 2 ^ j"
    and "\<bar>x + y\<bar> < 2 ^ 53" and "j \<le> 52"
  shows "is_finite (fadd a b)" and "fval (fadd a b) = of_int (x + y) / 2 ^ j"
proof -
  have "fval a + fval b = of_int (x + y) / 2 ^ j" unfolding assms(3,4) by (simp add: add_divide_distrib)
  moreover have "fadd a b = float_of binary64 (a = NegZero \<and> b = NegZero \<or> fval a + fval b < 0) (fval a + fval b)"
    using assms(1,2) by (auto simp: fadd_def)
  ultimately show "is_finite (fadd a b)" "fval (fadd a b) = of_int (x + y) / 2 ^ j"
    using float_of_signed [OF assms(5,6)] by simp_all
qed

lemma fsub_ratio:
  assumes "is_finite a" and "is_finite b" and "fval a = of_int x / 2 ^ j" and "fval b = of_int y / 2 ^ j"
    and "\<bar>x - y\<bar> < 2 ^ 53" and "j \<le> 52"
  shows "is_finite (fsub a b)" and "fval (fsub a b) = of_int (x - y) / 2 ^ j"
  using fadd_ratio [of a "fneg b" x j "- y"] assms by (simp_all add: fsub_def)

lemma total_le_val: "total_le a b \<Longrightarrow> is_finite a \<Longrightarrow> is_finite b \<Longrightarrow> fval a \<le> fval b"
  by (cases a; cases b) (auto simp: total_le_def fclass_def)

text \<open>Bounds of sums, products and quotients.\<close>

lemma in_range_fmul:
  assumes "in_range b x" and "in_range c y" and "b * c \<le> 2 powi j" and "- 1000 \<le> j" and "j \<le> 1000"
  shows "in_range (2 powi j) (fmul x y)"
proof -
  have a: "is_finite x" "is_finite y" "0 \<le> fval x" "fval x \<le> b" "0 \<le> fval y" "fval y \<le> c"
    using assms(1,2) by (simp_all add: in_range_def)
  have "fval x * fval y \<le> b * c" using a by (intro mult_mono) simp_all
  then have le: "fval x * fval y \<le> 2 powi j" using assms(3) by (rule order_trans)
  have "(2 :: rat) powi j \<le> 2 powi 1023" using assms(5) by (simp only: powi_le)
  with le have "fval x * fval y \<le> 2 powi 1023" by (rule order_trans)
  note v = fmul_val [OF a(1,2,3,5) this]
  have "0 \<le> fval x * fval y" using a by simp
  then show ?thesis using v rnd_le [OF _ le] rnd_nonneg rnd_pow2 [of j] assms(4) by (simp add: in_range_def)
qed

lemma in_range_fadd:
  assumes "in_range b x" and "in_range c y" and "b + c \<le> 2 powi j" and "- 1000 \<le> j" and "j \<le> 1000"
  shows "in_range (2 powi j) (fadd x y)"
proof -
  have a: "is_finite x" "is_finite y" "0 \<le> fval x" "fval x \<le> b" "0 \<le> fval y" "fval y \<le> c"
    using assms(1,2) by (simp_all add: in_range_def)
  have le: "fval x + fval y \<le> 2 powi j" using a assms(3) by linarith
  have "(2 :: rat) powi j \<le> 2 powi 1023" using assms(5) by (simp only: powi_le)
  with le have "fval x + fval y \<le> 2 powi 1023" by (rule order_trans)
  note v = fadd_val [OF a(1,2,3,5) this]
  have "0 \<le> fval x + fval y" using a by simp
  then show ?thesis using v rnd_le [OF _ le] rnd_nonneg rnd_pow2 [of j] assms(4) by (simp add: in_range_def)
qed

lemma in_range_fdiv:
  assumes "in_range b x" and "is_finite y" and "0 < c" and "c \<le> fval y" and "b / c \<le> 2 powi j"
    and "- 1000 \<le> j" and "j \<le> 1000"
  shows "in_range (2 powi j) (fdiv x y)" and "fval (fdiv x y) = rnd (fval x / fval y)"
proof -
  have a: "is_finite x" "0 \<le> fval x" "fval x \<le> b" using assms(1) by (simp_all add: in_range_def)
  have y: "0 < fval y" using assms(3,4) by linarith
  have "fval x / fval y \<le> b / c" using a assms(3,4) by (intro frac_le) simp_all
  then have le: "fval x / fval y \<le> 2 powi j" using assms(5) by (rule order_trans)
  have "(2 :: rat) powi j \<le> 2 powi 1023" using assms(7) by (simp only: powi_le)
  with le have "fval x / fval y \<le> 2 powi 1023" by (rule order_trans)
  note v = fdiv_val [OF a(1) assms(2) a(2) y this]
  have "0 \<le> fval x / fval y" using a y by simp
  then show "in_range (2 powi j) (fdiv x y)" "fval (fdiv x y) = rnd (fval x / fval y)"
    using v rnd_le [OF _ le] rnd_nonneg rnd_pow2 [of j] assms(6) by (simp_all add: in_range_def)
qed

text \<open>Rounding adds at most one part in \<open>2 ^ 52\<close>.\<close>

lemma rnd_relative:
  assumes "2 powi (- 1022) \<le> r"
  shows "rnd r \<le> r + r / 2 ^ 52"
proof -
  have r: "0 < r" using assms powi_pos [of "- 1022"] by linarith
  define u :: rat where "u = 2 powi ulp_exponent binary64 r"
  have "(2 :: rat) powi (- 1022) < 2 powi (exponent_of r + 1)" using exponent_of_bounds(2) [OF r] assms by linarith
  then have "\<not> exponent_of r + 1 \<le> - 1022" using powi_le by (metis leD)
  then have "ulp_exponent binary64 r = exponent_of r - 52" by (simp add: ulp_exponent_def binary64_def)
  then have u: "u = 2 powi exponent_of r / 2 ^ 52" by (simp add: u_def power_int_diff)
  have "of_int (round_half_even x) \<le> x + 1" for x :: rat
  proof -
    have "of_int \<lfloor>x\<rfloor> \<le> x + 1" using of_int_floor_le [of x] by linarith
    then show ?thesis by (simp add: round_half_even_def Let_def)
  qed
  then have "of_int (round_half_even (r / u)) * u \<le> (r / u + 1) * u"
    by (intro mult_right_mono) (simp_all add: u_def less_imp_le)
  also have "\<dots> = r + u" by (simp add: u_def field_simps)
  also have "\<dots> \<le> r + r / 2 ^ 52" using exponent_of_bounds(1) [OF r] by (simp add: u divide_right_mono)
  finally show ?thesis using r by (simp add: round_magnitude_def Let_def u_def)
qed

end
