(* ===== verification/Std_Iter.thy ===== *)
theory Std_Iter
  imports "HOL-Library.Multiset"
begin

text \<open>
  Rust's \<open>Iterator::max_by\<close> and \<open>min_by\<close> over a total preorder: the last of the greatest elements
  and the first of the least, and its stable sort.
\<close>

fun max_by :: "('a \<Rightarrow> 'a \<Rightarrow> bool) \<Rightarrow> 'a list \<Rightarrow> 'a option" where
  "max_by le [] = None"
| "max_by le (x # xs) = Some (foldl (\<lambda>b y. if le b y then y else b) x xs)"

fun min_by :: "('a \<Rightarrow> 'a \<Rightarrow> bool) \<Rightarrow> 'a list \<Rightarrow> 'a option" where
  "min_by le [] = None"
| "min_by le (x # xs) = Some (foldl (\<lambda>b y. if le b y then b else y) x xs)"

lemma max_by_None [simp]: "max_by le xs = None \<longleftrightarrow> xs = []"
  by (cases xs) simp_all

lemma min_by_None [simp]: "min_by le xs = None \<longleftrightarrow> xs = []"
  by (cases xs) simp_all

locale preference =
  fixes le :: "'a \<Rightarrow> 'a \<Rightarrow> bool"
  assumes le_total: "le a b \<or> le b a"
    and le_trans: "le a b \<Longrightarrow> le b c \<Longrightarrow> le a c"
begin

lemma le_refl: "le a a"
  using le_total by blast

lemma fold_max:
  "foldl (\<lambda>b y. if le b y then y else b) x xs \<in> set (x # xs) \<and>
   (\<forall>y\<in>set (x # xs). le y (foldl (\<lambda>b y. if le b y then y else b) x xs))"
proof (induction xs arbitrary: x)
  case Nil
  then show ?case using le_refl by simp
next
  case (Cons y ys)
  let ?b = "if le x y then y else x"
  have "le x ?b" "le y ?b" using le_total [of x y] le_refl by auto
  then show ?case using Cons.IH [of ?b] by (auto intro: le_trans split: if_splits)
qed

lemma fold_min:
  "foldl (\<lambda>b y. if le b y then b else y) x xs \<in> set (x # xs) \<and>
   (\<forall>y\<in>set (x # xs). le (foldl (\<lambda>b y. if le b y then b else y) x xs) y)"
proof (induction xs arbitrary: x)
  case Nil
  then show ?case using le_refl by simp
next
  case (Cons y ys)
  let ?b = "if le x y then x else y"
  have "le ?b x" "le ?b y" using le_total [of x y] le_refl by auto
  then show ?case using Cons.IH [of ?b] by (auto intro: le_trans split: if_splits)
qed

lemma max_by_greatest: "max_by le xs = Some m \<Longrightarrow> m \<in> set xs \<and> (\<forall>y\<in>set xs. le y m)"
  using fold_max by (cases xs) (auto simp del: foldl.simps)

lemma min_by_least: "min_by le xs = Some m \<Longrightarrow> m \<in> set xs \<and> (\<forall>y\<in>set xs. le m y)"
  using fold_min by (cases xs) (auto simp del: foldl.simps)

end

section \<open>Stable sorting\<close>

text \<open>\<open>sort_by\<close> with a comparison that never answers that the first is after the second when \<open>le\<close> holds.\<close>

fun insert_by :: "('a \<Rightarrow> 'a \<Rightarrow> bool) \<Rightarrow> 'a \<Rightarrow> 'a list \<Rightarrow> 'a list" where
  "insert_by le x [] = [x]"
| "insert_by le x (y # ys) = (if le x y then x # y # ys else y # insert_by le x ys)"

definition sort_by :: "('a \<Rightarrow> 'a \<Rightarrow> bool) \<Rightarrow> 'a list \<Rightarrow> 'a list" where
  "sort_by le xs = foldr (insert_by le) xs []"

lemma mset_insert_by [simp]: "mset (insert_by le x ys) = add_mset x (mset ys)"
  by (induction ys) auto

lemma mset_sort_by [simp]: "mset (sort_by le xs) = mset xs"
  unfolding sort_by_def by (induction xs) auto

lemma set_sort_by [simp]: "set (sort_by le xs) = set xs"
  by (rule mset_eq_setD) simp

lemma set_insert_by [simp]: "set (insert_by le x ys) = insert x (set ys)"
  by (induction ys) auto

text \<open>Only how the elements of the list compare matters.\<close>

lemma sort_by_cong:
  assumes "\<And>a b. a \<in> set xs \<Longrightarrow> b \<in> set xs \<Longrightarrow> le a b = le' a b"
  shows "sort_by le xs = sort_by le' xs"
proof -
  have ins: "insert_by le x ys = insert_by le' x ys" if "\<And>y. y \<in> set ys \<Longrightarrow> le x y = le' x y" for x ys
    using that by (induction ys) auto
  show ?thesis using assms
  proof (induction xs)
    case Nil
    then show ?case by (simp add: sort_by_def)
  next
    case (Cons x xs)
    have "sort_by le xs = sort_by le' xs" by (rule Cons.IH) (simp add: Cons.prems)
    then show ?case using ins [of "sort_by le' xs" x] Cons.prems [of x] by (simp add: sort_by_def [of _ "_ # _"] flip: sort_by_def)
  qed
qed

context preference
begin

lemma sorted_insert_by: "sorted_wrt le ys \<Longrightarrow> sorted_wrt le (insert_by le x ys)"
proof (induction ys)
  case Nil
  then show ?case by simp
next
  case (Cons y ys)
  show ?case
  proof (cases "le x y")
    case True
    then have "le x z" if "z \<in> set ys" for z using Cons.prems that le_trans [of x y z] by simp
    then show ?thesis using True Cons.prems by simp
  next
    case False
    then show ?thesis using Cons le_total [of x y] by auto
  qed
qed

lemma sorted_sort_by: "sorted_wrt le (sort_by le xs)"
  by (induction xs) (simp_all add: sort_by_def sorted_insert_by)

end

end
