(* ===== verification/Multipath.thy ===== *)
theory Multipath
  imports Std_Float Std_Iter Std_Collections
begin

text \<open>
  The multipath scheduler of \<open>kanrin-client/src/multipath.rs\<close>: what is measured of a path (its
  capacity, round-trip time and recent loss as exponentially weighted averages), when a path may carry
  traffic, its score, and the assignment of chunks to paths by credit. The arithmetic is that of
  \<open>f64\<close>, rounding included. Counters wrap at 64 bits, the release build's behaviour.
\<close>

section \<open>The health of a path\<close>

definition EWMA_ALPHA :: float64 where
  "EWMA_ALPHA = f64_lit (25 / 100)"

definition UNHEALTHY_LOSS :: float64 where
  "UNHEALTHY_LOSS = f64_lit (20 / 100)"

definition STALE_AFTER :: duration where
  "STALE_AFTER = from_secs 5"

definition INITIAL_CAPACITY :: float64 where
  "INITIAL_CAPACITY = fmul (f64_lit 256) (f64_lit 1024)"

definition ewma :: "float64 \<Rightarrow> float64 \<Rightarrow> float64" where
  "ewma previous sample = fadd (fmul EWMA_ALPHA sample) (fmul (fsub (f64_lit 1) EWMA_ALPHA) previous)"

record path_health =
  ph_name :: string
  ph_capacity_bps :: float64
  ph_rtt :: "duration option"
  ph_sent :: u64
  ph_acknowledged :: u64
  ph_lost :: u64
  ph_loss_ewma :: float64
  ph_last_success :: instant
  ph_disabled :: bool

definition path_new :: "instant \<Rightarrow> string \<Rightarrow> path_health" where
  "path_new now name =
     \<lparr>ph_name = name, ph_capacity_bps = INITIAL_CAPACITY, ph_rtt = None, ph_sent = 0, ph_acknowledged = 0,
      ph_lost = 0, ph_loss_ewma = f64_lit 0, ph_last_success = now, ph_disabled = False\<rparr>"

definition record_sent :: "path_health \<Rightarrow> path_health" where
  "record_sent p = p\<lparr>ph_sent := ph_sent p + 1\<rparr>"

text \<open>\<open>None\<close> is the panic of \<open>Duration::from_secs_f64\<close> on a value no \<open>Duration\<close> can hold.\<close>

definition record_delivered :: "instant \<Rightarrow> nat \<Rightarrow> duration \<Rightarrow> path_health \<Rightarrow> path_health option" where
  "record_delivered now n rtt p =
     (let observed = fdiv (f64_of_nat n) (fmax (as_secs_f64 rtt) (f64_lit (1 / 1000)));
          q = p\<lparr>ph_acknowledged := ph_acknowledged p + 1, ph_last_success := now,
                ph_loss_ewma := ewma (ph_loss_ewma p) (f64_lit 0),
                ph_capacity_bps := ewma (ph_capacity_bps p) observed\<rparr> in
      case ph_rtt p of
        Some prev \<Rightarrow>
          map_option (\<lambda>d. q\<lparr>ph_rtt := Some d\<rparr>)
            (from_secs_f64 (ewma (as_secs_f64 prev) (as_secs_f64 rtt)))
      | None \<Rightarrow> Some (q\<lparr>ph_rtt := Some rtt\<rparr>))"

definition record_lost :: "path_health \<Rightarrow> path_health" where
  "record_lost p =
     p\<lparr>ph_lost := ph_lost p + 1, ph_loss_ewma := ewma (ph_loss_ewma p) (f64_lit 1),
       ph_capacity_bps := ewma (ph_capacity_bps p) (fmul (ph_capacity_bps p) (f64_lit (1 / 2)))\<rparr>"

definition path_disable :: "path_health \<Rightarrow> path_health" where
  "path_disable p = p\<lparr>ph_disabled := True\<rparr>"

definition path_enable :: "instant \<Rightarrow> path_health \<Rightarrow> path_health" where
  "path_enable now p = p\<lparr>ph_disabled := False, ph_last_success := now\<rparr>"

abbreviation loss_rate :: "path_health \<Rightarrow> float64" where
  "loss_rate \<equiv> ph_loss_ewma"

definition is_healthy :: "instant \<Rightarrow> path_health \<Rightarrow> bool" where
  "is_healthy now p =
     (if ph_disabled p then False
      else if flt UNHEALTHY_LOSS (loss_rate p) then False
      else
        let awaiting = (ph_acknowledged p + ph_lost p < ph_sent p) in
        \<not> (awaiting \<and> STALE_AFTER < elapsed now (ph_last_success p)))"

definition path_score :: "instant \<Rightarrow> path_health \<Rightarrow> float64" where
  "path_score now p =
     (if \<not> is_healthy now p then f64_lit 0
      else
        let throughput = fmin (fdiv (ph_capacity_bps p) (fmul (fmul (f64_lit 4) (f64_lit 1024)) (f64_lit 1024)))
                              (f64_lit 1);
            latency = (case ph_rtt p of
                Some rtt \<Rightarrow>
                  fclamp (f64_lit 0) (f64_lit 1) (fsub (f64_lit 1) (fdiv (as_secs_f64 rtt) (f64_lit (1 / 2))))
              | None \<Rightarrow> f64_lit (1 / 2))
        in to_f32 (fadd (fmul (f64_lit (6 / 10)) throughput) (fmul (f64_lit (4 / 10)) latency)))"

section \<open>The scheduler\<close>

record assignment =
  as_primary :: string
  as_hedge :: "string option"

record scheduler =
  sd_paths :: "path_health list"
  sd_credits :: "float64 list"
  sd_hedging :: bool

definition scheduler_new :: scheduler where
  "scheduler_new = \<lparr>sd_paths = [], sd_credits = [], sd_hedging = False\<rparr>"

text \<open>\<open>position\<close>: the index of the first path with a name.\<close>

fun path_position :: "string \<Rightarrow> path_health list \<Rightarrow> nat option" where
  "path_position name [] = None"
| "path_position name (p # ps) =
     (if ph_name p = name then Some 0 else map_option Suc (path_position name ps))"

fun remove_at :: "nat \<Rightarrow> 'a list \<Rightarrow> 'a list" where
  "remove_at _ [] = []"
| "remove_at 0 (x # xs) = xs"
| "remove_at (Suc n) (x # xs) = x # remove_at n xs"

definition add_path :: "instant \<Rightarrow> string \<Rightarrow> scheduler \<Rightarrow> scheduler" where
  "add_path now name s =
     (if list_ex (\<lambda>p. ph_name p = name) (sd_paths s) then s
      else s\<lparr>sd_paths := sd_paths s @ [path_new now name], sd_credits := sd_credits s @ [f64_lit 0]\<rparr>)"

definition remove_path :: "string \<Rightarrow> scheduler \<Rightarrow> scheduler" where
  "remove_path name s =
     (case path_position name (sd_paths s) of
        Some i \<Rightarrow> s\<lparr>sd_paths := remove_at i (sd_paths s), sd_credits := remove_at i (sd_credits s)\<rparr>
      | None \<Rightarrow> s)"

definition set_hedging :: "bool \<Rightarrow> scheduler \<Rightarrow> scheduler" where
  "set_hedging enabled s = s\<lparr>sd_hedging := enabled\<rparr>"

text \<open>\<open>path_mut\<close> hands out the path for a caller's update: here the update is an argument.\<close>

definition path_mut :: "string \<Rightarrow> (path_health \<Rightarrow> path_health) \<Rightarrow> scheduler \<Rightarrow> scheduler" where
  "path_mut name f s =
     (case path_position name (sd_paths s) of
        Some i \<Rightarrow> s\<lparr>sd_paths := (sd_paths s)[i := f (sd_paths s ! i)]\<rparr>
      | None \<Rightarrow> s)"

definition health_report :: "instant \<Rightarrow> scheduler \<Rightarrow> string \<Rightarrow> float64 option" where
  "health_report now s = map_of (rev (map (\<lambda>p. (ph_name p, path_score now p)) (sd_paths s)))"

definition healthy_count :: "instant \<Rightarrow> scheduler \<Rightarrow> nat" where
  "healthy_count now s = length (filter (is_healthy now) (sd_paths s))"

definition healthy_indices :: "instant \<Rightarrow> path_health list \<Rightarrow> nat list" where
  "healthy_indices now ps = filter (\<lambda>i. is_healthy now (ps ! i)) [0..<length ps]"

definition total_capacity :: "path_health list \<Rightarrow> nat list \<Rightarrow> float64" where
  "total_capacity ps is = foldl fadd NegZero (map (\<lambda>i. ph_capacity_bps (ps ! i)) is)"

definition top_up :: "path_health list \<Rightarrow> nat list \<Rightarrow> float64 list \<Rightarrow> float64 list" where
  "top_up ps is credits =
     foldl (\<lambda>cs i. cs[i := fadd (cs ! i) (fdiv (ph_capacity_bps (ps ! i)) (total_capacity ps is))]) credits is"

definition duration_MAX :: duration where
  "duration_MAX = 2 ^ 64 * 1000000000 - 1"

definition rtt_or_max :: "path_health \<Rightarrow> duration" where
  "rtt_or_max p = (case ph_rtt p of Some d \<Rightarrow> d | None \<Rightarrow> duration_MAX)"

definition choose_hedge :: "path_health list \<Rightarrow> nat \<Rightarrow> nat list \<Rightarrow> nat option" where
  "choose_hedge ps chosen is =
     min_by (\<lambda>a b. rtt_or_max (ps ! a) \<le> rtt_or_max (ps ! b)) (filter (\<lambda>i. i \<noteq> chosen) is)"

text \<open>The second half of \<open>assign\<close>, for the path \<open>chosen\<close>: its credit is spent, it is counted as sent, and a
  hedge is looked for.\<close>

definition mark_sent :: "nat \<Rightarrow> path_health list \<Rightarrow> path_health list" where
  "mark_sent i ps = ps[i := record_sent (ps ! i)]"

definition hedge_for :: "bool \<Rightarrow> scheduler \<Rightarrow> nat \<Rightarrow> nat list \<Rightarrow> nat option" where
  "hedge_for latency_critical s chosen is =
     (if latency_critical \<and> sd_hedging s then choose_hedge (sd_paths s) chosen is else None)"

definition assign_to :: "bool \<Rightarrow> scheduler \<Rightarrow> nat list \<Rightarrow> float64 list \<Rightarrow> nat \<Rightarrow> assignment option \<times> scheduler" where
  "assign_to latency_critical s healthy credits chosen =
     (let s = s\<lparr>sd_credits := credits[chosen := fsub (credits ! chosen) (f64_lit 1)],
                sd_paths := mark_sent chosen (sd_paths s)\<rparr>;
          hedge = hedge_for latency_critical s chosen healthy;
          s = (case hedge of Some i \<Rightarrow> s\<lparr>sd_paths := mark_sent i (sd_paths s)\<rparr> | None \<Rightarrow> s)
      in (Some \<lparr>as_primary = ph_name (sd_paths s ! chosen),
                as_hedge = map_option (\<lambda>i. ph_name (sd_paths s ! i)) hedge\<rparr>, s))"

definition assign :: "instant \<Rightarrow> bool \<Rightarrow> scheduler \<Rightarrow> assignment option \<times> scheduler" where
  "assign now latency_critical s =
     (let healthy = healthy_indices now (sd_paths s) in
      if healthy = [] then (None, s)
      else
        let credits = top_up (sd_paths s) healthy (sd_credits s);
            chosen = the (max_by (\<lambda>a b. total_le (credits ! a) (credits ! b)) healthy)
        in assign_to latency_critical s healthy credits chosen)"

section \<open>The averages\<close>

lemma EWMA_ALPHA_val: "EWMA_ALPHA = Fin (1 / 4)"
  using float_of_ratio [of 1 2] by (simp add: EWMA_ALPHA_def f64_lit_def)

lemma one_minus_alpha: "fsub (Fin 1) (Fin (1 / 4)) = Fin (3 / 4)"
  using float_of_ratio [of 3 2] by (simp add: fsub_def fneg_def fadd_def)

lemma UNHEALTHY_LOSS_val: "UNHEALTHY_LOSS = Fin (3602879701896397 / 18014398509481984)"
  using f64_lit_near [of 3 "20 / 100" 7205759403792794] by (simp add: UNHEALTHY_LOSS_def)

lemma INITIAL_CAPACITY_val: "INITIAL_CAPACITY = Fin 262144"
  using float_of_ratio [of 262144 0] by (simp add: INITIAL_CAPACITY_def f64_lit_numeral fmul_def)

lemma powi_quarter: "(2 :: rat) powi j = 4 * 2 powi (j - 2)"
proof -
  define i where "i = j - 2"
  have j: "j = i + 1 + 1" unfolding i_def by simp
  show ?thesis unfolding i_def [symmetric] unfolding j powi_Suc by simp
qed

lemma rnd_quarter_pow2: "- 1000 \<le> j \<Longrightarrow> rnd (2 powi j / 4) = 2 powi j / 4"
  using rnd_pow2 [of "j - 2"] unfolding powi_quarter [of j] by simp

lemma rnd_3_quarter_pow2: "- 1000 \<le> j \<Longrightarrow> rnd (3 / 4 * 2 powi j) = 3 / 4 * 2 powi j"
  using rnd_3_pow2 [of "j - 2"] unfolding powi_quarter [of j] by simp

lemma powi_1023:
  fixes x :: rat
  assumes "x \<le> 2 powi j" and "j \<le> 1023"
  shows "x \<le> 2 powi 1023"
proof -
  have "(2 :: rat) powi j \<le> 2 powi 1023" using assms(2) by (simp only: powi_le)
  with assms(1) show ?thesis by (rule order_trans)
qed

lemma ewma_val:
  assumes p: "in_range (2 powi j) p" and q: "in_range (2 powi j) q" and j: "- 1000 \<le> j" "j \<le> 1000"
  shows "is_finite (ewma p q)" and "fval (ewma p q) = rnd (rnd (fval q / 4) + rnd (3 / 4 * fval p))"
    and "in_range (2 powi j) (ewma p q)"
proof -
  let ?B = "2 powi j :: rat"
  define M :: rat where "M = 2 powi 1023"
  have B: "?B \<le> M" unfolding M_def by (rule powi_1023 [OF order_refl]) (use j in simp)
  have a: "0 \<le> fval p" "fval p \<le> ?B" "is_finite p" "0 \<le> fval q" "fval q \<le> ?B" "is_finite q"
    using p q by (simp_all add: in_range_def)
  have q4: "1 / 4 * fval q \<le> ?B / 4" and p4: "3 / 4 * fval p \<le> 3 / 4 * ?B" using a by simp_all
  have mq: "is_finite (fmul (Fin (1 / 4)) q)" "fval (fmul (Fin (1 / 4)) q) = rnd (fval q / 4)"
    using fmul_val [of "Fin (1 / 4)" q, folded M_def] a q4 B by simp_all
  have mp: "is_finite (fmul (Fin (3 / 4)) p)" "fval (fmul (Fin (3 / 4)) p) = rnd (3 / 4 * fval p)"
    using fmul_val [of "Fin (3 / 4)" p, folded M_def] a p4 B by simp_all
  have rq: "0 \<le> rnd (fval q / 4)" "rnd (fval q / 4) \<le> ?B / 4"
    using rnd_le [of "fval q / 4" "?B / 4"] rnd_nonneg [of "fval q / 4"] rnd_quarter_pow2 [OF j(1)] a by simp_all
  have rp: "0 \<le> rnd (3 / 4 * fval p)" "rnd (3 / 4 * fval p) \<le> 3 / 4 * ?B"
    using rnd_le [of "3 / 4 * fval p" "3 / 4 * ?B"] rnd_nonneg [of "3 / 4 * fval p"]
      rnd_3_quarter_pow2 [OF j(1)] a by simp_all
  have sum: "rnd (fval q / 4) + rnd (3 / 4 * fval p) \<le> ?B" using rq rp by simp
  have e: "ewma p q = fadd (fmul (Fin (1 / 4)) q) (fmul (Fin (3 / 4)) p)"
    by (simp add: ewma_def EWMA_ALPHA_val one_minus_alpha)
  show f: "is_finite (ewma p q)" and v: "fval (ewma p q) = rnd (rnd (fval q / 4) + rnd (3 / 4 * fval p))"
    using fadd_val [of "fmul (Fin (1 / 4)) q" "fmul (Fin (3 / 4)) p", folded M_def] mq mp rq rp
      order_trans [OF sum B] unfolding e by simp_all
  show "in_range (2 powi j) (ewma p q)"
    using f v rnd_le [OF _ sum] rq rp rnd_pow2 [of j] j(1) rnd_nonneg [of "rnd (fval q / 4) + rnd (3 / 4 * fval p)"]
    by (simp add: in_range_def)
qed

text \<open>Loss: one loss takes the average above the limit, six deliveries take it below.\<close>

abbreviation fraction :: "float64 \<Rightarrow> bool" where
  "fraction \<equiv> in_range 1"

lemma fraction_pow: "fraction = in_range (2 powi 0)"
  by simp

lemma rnd_ratio: "0 \<le> k \<Longrightarrow> k < 2 ^ 53 \<Longrightarrow> j \<le> 52 \<Longrightarrow> rnd (of_int k / 2 ^ j) = of_int k / 2 ^ j"
  using rnd_exact [of k "- int j"] by (simp add: power_int_minus divide_inverse)

lemma fraction_lits [simp]: "fraction (Fin 0)" "fraction (Fin 1)"
  by (simp_all add: in_range_def)

lemma loss_after_loss:
  assumes "fraction l"
  shows "fraction (ewma l (Fin 1))" and "1 / 4 \<le> fval (ewma l (Fin 1))"
proof -
  note v = ewma_val [of 0 l "Fin 1", simplified, OF assms]
  show "fraction (ewma l (Fin 1))" by (rule v(3))
  have q: "rnd (1 / 4) = 1 / 4" using rnd_ratio [of 1 2] by simp
  have l: "0 \<le> rnd (3 * fval l / 4)" using rnd_nonneg [of "3 * fval l / 4"] assms by (simp add: in_range_def)
  then show "1 / 4 \<le> fval (ewma l (Fin 1))" unfolding v(2) using q by (intro rnd_ge) simp_all
qed

lemma loss_after_delivery:
  assumes "fraction l" and "fval l \<le> b" and "rnd (3 / 4 * b) = 3 / 4 * b"
  shows "fraction (ewma l (Fin 0))" and "fval (ewma l (Fin 0)) \<le> 3 / 4 * b"
proof -
  note v = ewma_val [of 0 l "Fin 0", simplified, OF assms(1)]
  show "fraction (ewma l (Fin 0))" by (rule v(3))
  have "0 \<le> fval l" using assms(1) by (simp add: in_range_def)
  then have "rnd (3 * fval l / 4) \<le> 3 / 4 * b" using assms(2,3) by (intro rnd_le) simp_all
  moreover have "0 \<le> rnd (3 * fval l / 4)" using \<open>0 \<le> fval l\<close> by (intro rnd_nonneg) simp
  ultimately show "fval (ewma l (Fin 0)) \<le> 3 / 4 * b" unfolding v(2)
    using rnd_le [of "rnd (3 * fval l / 4)" "3 / 4 * b"] assms(3) by simp
qed

lemma rnd_three_quarters: "n \<le> 6 \<Longrightarrow> rnd ((3 / 4) ^ n) = (3 / 4) ^ n"
proof -
  assume "n \<le> 6"
  then have "(3 :: int) ^ n \<le> 3 ^ 6" by (intro power_increasing) simp_all
  then have "rnd (of_int (3 ^ n) / 2 ^ (2 * n)) = of_int (3 ^ n) / 2 ^ (2 * n)"
    using \<open>n \<le> 6\<close> by (intro rnd_ratio) simp_all
  then show ?thesis by (simp add: power_divide power_mult)
qed

section \<open>What holds of every path\<close>

text \<open>The least positive number; a capacity starts above it and no average falls below it.\<close>

abbreviation tiny :: rat where
  "tiny \<equiv> 2 powi (- 1074)"

lemma floor_three_quarters: "\<lfloor>3 / 4 :: rat\<rfloor> = 0"
  by (simp add: floor_unique)

lemma rnd_tiny: "rnd tiny = tiny" "rnd (3 / 4 * tiny) = tiny"
proof -
  show "rnd tiny = tiny" by (rule rnd_pow2) simp
  define u where "u = tiny"
  have half: "u = 2 * 2 powi (- 1075)" using powi_Suc [of "- 1075"] by (simp add: u_def)
  have u: "0 < u" by (simp add: u_def)
  have "exponent_of (3 / 4 * u) = - 1075"
    by (rule exponent_of_eq) (use half u in \<open>simp_all add: u_def\<close>)
  then have "ulp_exponent binary64 (3 / 4 * u) = - 1074" by (simp add: ulp_exponent_def binary64_def)
  then have "2 powi ulp_exponent binary64 (3 / 4 * u) = u" by (simp only: u_def)
  moreover have "3 / 4 * u / u = 3 / 4" "round_half_even (3 / 4) = 1" using u floor_three_quarters
    by (simp_all add: round_half_even_def)
  ultimately show "rnd (3 / 4 * u) = u" using u by (simp only: round_magnitude_def Let_def) simp
qed

lemma capacity_positive:
  assumes "in_range (2 powi j) p" "in_range (2 powi j) q" "- 1000 \<le> j" "j \<le> 1000" "tiny \<le> fval p"
  shows "tiny \<le> fval (ewma p q)"
proof -
  have "3 / 4 * tiny \<le> 3 / 4 * fval p" using assms(5) by (intro mult_left_mono) simp_all
  then have "tiny \<le> rnd (3 / 4 * fval p)" using rnd_mono [of "3 / 4 * tiny"] by (simp only: rnd_tiny) simp
  moreover have "0 \<le> rnd (fval q / 4)" using assms(2) by (intro rnd_nonneg) (simp add: in_range_def)
  ultimately show ?thesis unfolding ewma_val(2) [OF assms(1-4)] by (intro rnd_ge) (simp_all only: rnd_tiny, simp_all)
qed

text \<open>Durations up to \<open>2 ^ 32\<close> seconds.\<close>

definition long :: nat where
  "long = 2 ^ 32"

lemma as_secs_f64_long:
  assumes "d \<le> from_secs long"
  shows "in_range (2 powi 32) (as_secs_f64 d)"
proof -
  define s where "s = d div 1000000000"
  define r where "r = d mod 1000000000"
  have d: "d = s * 1000000000 + r" "r < 1000000000" unfolding s_def r_def by simp_all
  have sl: "s \<le> 2 ^ 32" "s = 2 ^ 32 \<Longrightarrow> r = 0"
    using assms d by (auto simp: long_def from_secs_def)
  have S: "is_finite (f64_of_nat s)" "fval (f64_of_nat s) = of_nat s"
    using f64_of_nat_val [of s] f64_of_nat_exact [of s] sl(1) by simp_all
  have R: "is_finite (f64_of_nat r)" "fval (f64_of_nat r) = of_nat r"
    using f64_of_nat_val [of r] f64_of_nat_exact [of r] d(2) by simp_all
  have N: "is_finite (f64_of_nat 1000000000)" "fval (f64_of_nat 1000000000) = 1000000000"
    using f64_of_nat_val [of 1000000000] f64_of_nat_exact [of 1000000000] by simp_all
  have q: "(of_nat r :: rat) / 1000000000 \<le> 1" using d(2) by simp
  define M :: rat where "M = 2 powi 1023"
  have M: "2 powi 32 \<le> M" unfolding M_def by (simp only: powi_le)
  define f where "f = fdiv (f64_of_nat r) (f64_of_nat 1000000000)"
  have F: "is_finite f" "fval f = rnd (of_nat r / 1000000000)"
    using fdiv_val [of "f64_of_nat r" "f64_of_nat 1000000000", folded M_def f_def] R N q M by simp_all
  have F': "0 \<le> fval f" "fval f \<le> 1" "r = 0 \<Longrightarrow> fval f = 0"
    unfolding F(2) using rnd_nonneg rnd_le [OF _ q] rnd_1 by simp_all
  have sum: "of_nat s + fval f \<le> 2 powi 32"
  proof (cases "s = 2 ^ 32")
    case True
    then show ?thesis using sl(2) F'(3) by simp
  next
    case False
    then have "s + 1 \<le> 2 ^ 32" using sl(1) by simp
    then have "(of_nat (s + 1) :: rat) \<le> of_nat (2 ^ 32)" by (simp only: of_nat_le_iff)
    then show ?thesis using F'(2) by simp
  qed
  have "is_finite (as_secs_f64 d)" "fval (as_secs_f64 d) = rnd (of_nat s + fval f)"
    using fadd_val [of "f64_of_nat s" f, folded M_def] S F(1) F' sum M
    unfolding as_secs_f64_def s_def [symmetric] r_def [symmetric] f_def [symmetric] by simp_all
  then show ?thesis using rnd_le [OF _ sum] rnd_nonneg [of "of_nat s + fval f"] F'(1) rnd_pow2 [of 32]
    unfolding in_range_def by simp
qed

lemma from_secs_f64_long:
  assumes "in_range (2 powi 32) a"
  shows "\<exists>d. from_secs_f64 a = Some d \<and> d \<le> from_secs long"
proof -
  have a: "is_finite a" "0 \<le> fval a" "fval a \<le> 2 powi 32" using assms by (simp_all add: in_range_def)
  then have "\<not> 2 ^ 64 \<le> fval a" by simp
  then have s: "from_secs_f64 a = Some (nat (round_half_even (fval a * 1000000000)))"
    using a by (simp add: from_secs_f64_def)
  have "fval a * 1000000000 \<le> of_int (2 ^ 32 * 1000000000)" using a(3) by simp
  then have "round_half_even (fval a * 1000000000) \<le> 2 ^ 32 * 1000000000"
    using round_half_even_mono round_half_even_int by metis
  then show ?thesis unfolding s from_secs_def long_def by simp
qed

text \<open>What a delivery lets the path observe.\<close>

lemma in_range_2powi: "in_range b a \<Longrightarrow> b \<le> 2 powi j \<Longrightarrow> in_range (2 powi j) a"
  by (rule in_range_mono)

lemma millisecond_val: "is_finite (f64_lit (1 / 1000))" "2 powi (- 10) \<le> fval (f64_lit (1 / 1000))"
proof -
  define M :: rat where "M = 2 powi 1023"
  have "2 powi 0 \<le> M" unfolding M_def by (simp only: powi_le)
  then have f: "is_finite (f64_lit (1 / 1000))" "fval (f64_lit (1 / 1000)) = rnd (1 / 1000)"
    using float_of_finite [of "1 / 1000", folded M_def] by (simp_all add: f64_lit_def)
  have "rnd (2 powi (- 10)) \<le> rnd (1 / 1000)" by (rule rnd_mono) (simp_all add: power_int_minus)
  then show "2 powi (- 10) \<le> fval (f64_lit (1 / 1000))" using f(2) rnd_pow2 [of "- 10"] by simp
  show "is_finite (f64_lit (1 / 1000))" by (rule f(1))
qed

lemma observed_range:
  assumes "n < 2 ^ 64" and "d \<le> from_secs long"
  shows "in_range (2 powi 74) (fdiv (f64_of_nat n) (fmax (as_secs_f64 d) (f64_lit (1 / 1000))))"
proof -
  define x where "x = fmax (as_secs_f64 d) (f64_lit (1 / 1000))"
  have x: "is_finite x" "2 powi (- 10) \<le> fval x"
    using fmax_val [of "as_secs_f64 d" "f64_lit (1 / 1000)"] as_secs_f64_long [OF assms(2)] millisecond_val
    unfolding in_range_def x_def by auto
  define t :: rat where "t = 2 powi (- 10)"
  have t: "0 < t" "t \<le> fval x" using x(2) by (simp_all only: t_def powi_pos)
  have n: "is_finite (f64_of_nat n)" "0 \<le> fval (f64_of_nat n)" "fval (f64_of_nat n) \<le> 2 powi 64"
    using f64_of_nat_val(3) [of n] assms(1) by (simp_all add: in_range_def)
  have "fval (f64_of_nat n) / fval x \<le> 2 powi 64 / t" by (rule frac_le) (use n t in simp_all)
  also have "\<dots> = 2 powi 74" by (simp add: t_def power_int_minus)
  finally have q: "fval (f64_of_nat n) / fval x \<le> 2 powi 74" .
  have M: "fval (f64_of_nat n) / fval x \<le> 2 powi 1023" by (rule powi_1023 [OF q]) simp
  have x0: "0 < fval x" using t by linarith
  note v = fdiv_val [OF n(1) x(1) n(2) x0 M]
  have "0 \<le> fval (f64_of_nat n) / fval x" using n(2) x0 by simp
  then show ?thesis
    using v rnd_le [OF _ q] rnd_nonneg rnd_pow2 [of 74] unfolding in_range_def x_def [symmetric] by simp
qed

text \<open>The invariant of a path, kept by every operation when round trips stay below \<open>2 ^ 32\<close> seconds.\<close>

definition path_sane :: "path_health \<Rightarrow> bool" where
  "path_sane p \<longleftrightarrow>
     in_range (2 powi 74) (ph_capacity_bps p) \<and> tiny \<le> fval (ph_capacity_bps p) \<and>
     fraction (ph_loss_ewma p) \<and> (\<forall>d. ph_rtt p = Some d \<longrightarrow> d \<le> from_secs long)"

lemma tiny_le: "1 \<le> r \<Longrightarrow> tiny \<le> r"
proof -
  assume "1 \<le> r"
  moreover have "tiny \<le> 2 powi 0" by (simp only: powi_le)
  ultimately show ?thesis by simp
qed

lemma path_sane_new: "path_sane (path_new now name)"
  using tiny_le [of 262144] by (simp add: path_sane_def path_new_def INITIAL_CAPACITY_val in_range_def)

lemma path_sane_idle:
  "path_sane p \<Longrightarrow> path_sane (record_sent p)"
  "path_sane p \<Longrightarrow> path_sane (path_disable p)"
  "path_sane p \<Longrightarrow> path_sane (path_enable now p)"
  by (simp_all add: path_sane_def record_sent_def path_disable_def path_enable_def)

lemma half_range:
  assumes "in_range (2 powi 74) c"
  shows "in_range (2 powi 74) (fmul c (Fin (1 / 2)))"
proof -
  have c: "is_finite c" "0 \<le> fval c" "fval c \<le> 2 powi 74" using assms by (simp_all add: in_range_def)
  have h: "fval c * (1 / 2) \<le> 2 powi 74" using c(2,3) by simp
  have M: "fval c * fval (Fin (1 / 2)) \<le> 2 powi 1023" using powi_1023 [OF h] by simp
  note v = fmul_val [OF c(1) _ c(2) _ M]
  show ?thesis using v c(2) rnd_le [OF _ h] rnd_nonneg [of "fval c / 2"] rnd_pow2 [of 74] unfolding in_range_def by simp
qed

lemma path_sane_lost: "path_sane p \<Longrightarrow> path_sane (record_lost p)"
  using ewma_val(3) [of 74] half_range capacity_positive [of 74] loss_after_loss(1)
  by (simp add: path_sane_def record_lost_def)

lemma path_sane_delivered:
  assumes "path_sane p" and "n < 2 ^ 64" and "d \<le> from_secs long"
  shows "\<exists>q. record_delivered now n d p = Some q \<and> path_sane q \<and> ph_last_success q = now \<and>
    ph_disabled q = ph_disabled p \<and> ph_name q = ph_name p \<and> ph_loss_ewma q = ewma (ph_loss_ewma p) (Fin 0)"
proof -
  have p: "in_range (2 powi 74) (ph_capacity_bps p)" "tiny \<le> fval (ph_capacity_bps p)" "fraction (ph_loss_ewma p)"
    using assms(1) by (simp_all add: path_sane_def)
  note o = observed_range [OF assms(2,3)]
  note c = ewma_val(3) [OF p(1) o] capacity_positive [OF p(1) o _ _ p(2)]
  have l: "fraction (ewma (ph_loss_ewma p) (Fin 0))"
    by (rule ewma_val(3) [of 0, simplified]) (use p(3) in simp_all)
  show ?thesis
  proof (cases "ph_rtt p")
    case None
    then show ?thesis using c l assms(3) by (simp add: record_delivered_def path_sane_def)
  next
    case (Some prev)
    then have "prev \<le> from_secs long" using assms(1) by (simp add: path_sane_def)
    then have "in_range (2 powi 32) (ewma (as_secs_f64 prev) (as_secs_f64 d))"
      using as_secs_f64_long assms(3) by (intro ewma_val(3)) simp_all
    then obtain e where "from_secs_f64 (ewma (as_secs_f64 prev) (as_secs_f64 d)) = Some e" "e \<le> from_secs long"
      using from_secs_f64_long by blast
    then show ?thesis using Some c l by (simp add: record_delivered_def path_sane_def Let_def)
  qed
qed

section \<open>The score\<close>

lemma weights_val:
  "f64_lit (6 / 10) = Fin (5404319552844595 / 9007199254740992)"
  "f64_lit (4 / 10) = Fin (3602879701896397 / 9007199254740992)"
  using f64_lit_near [of 1 "6 / 10" 5404319552844595] f64_lit_near [of 2 "4 / 10" 7205759403792794] by simp_all

lemma weights_sum: "rnd (5404319552844595 / 9007199254740992 + 3602879701896397 / 9007199254740992) = 1"
  using rnd_1 by simp

lemma four_MiB: "fmul (fmul (f64_lit 4) (f64_lit 1024)) (f64_lit 1024) = Fin 4194304"
  using float_of_ratio [of 4096 0] float_of_ratio [of 4194304 0] by (simp add: f64_lit_numeral fmul_def)

lemma fmul_fraction:
  assumes "fraction a" and "0 \<le> w" and "w \<le> 1" and "rnd w = w"
  shows "in_range w (fmul (Fin w) a)"
proof -
  have a: "is_finite a" "0 \<le> fval a" "fval a \<le> 1" using assms(1) by (simp_all add: in_range_def)
  have h: "w * fval a \<le> w" using mult_left_mono [OF a(3) assms(2)] by simp
  have "w * fval a \<le> 2 powi 0" using h assms(3) by simp
  then have M: "fval (Fin w) * fval a \<le> 2 powi 1023" using powi_1023 [of "w * fval a" 0] by simp
  note v = fmul_val [OF _ a(1) _ a(2) M]
  show ?thesis using v assms(2) a(2) rnd_le [OF _ h assms(4)] rnd_nonneg [of "w * fval a"] by (simp add: in_range_def)
qed

lemma to_f32_fraction:
  assumes "fraction a"
  shows "fraction (to_f32 a)"
proof -
  have a: "is_finite a" "0 \<le> fval a" "fval a \<le> 1" using assms by (simp_all add: in_range_def)
  let ?r = "round_magnitude binary32"
  have e: "exponent_of 1 = 0" by (rule exponent_of_eq) simp_all
  have one: "?r 1 = 1"
    by (rule round_magnitude_exact [of 1 1 0]) (simp_all add: ulp_exponent_def binary32_def e)
  have "?r (fval a) \<le> ?r 1" by (rule round_magnitude_mono) (use a in \<open>simp_all add: binary32_def\<close>)
  then have r: "?r (fval a) \<le> 1" unfolding one .
  have "2 powi 0 < (2 :: rat) powi 128" by (rule power_int_strict_increasing) simp_all
  then have "\<not> 2 powi (ff_emax binary32 + 1) \<le> ?r (fval a)" using r by (simp add: binary32_def)
  then show ?thesis using a r round_magnitude_nonneg [OF a(2), of binary32]
    by (simp add: to_f32_def float_of_def in_range_def Let_def)
qed

lemma throughput_fraction:
  assumes "in_range (2 powi 74) c"
  shows "fraction (fmin (fdiv c (Fin 4194304)) (Fin 1))"
proof -
  have c: "is_finite c" "0 \<le> fval c" "fval c \<le> 2 powi 74" using assms by (simp_all add: in_range_def)
  have "fval c / 4194304 \<le> 2 powi 74" using c(2,3) by simp
  then have M: "fval c / fval (Fin 4194304) \<le> 2 powi 1023" using powi_1023 by simp
  note v = fdiv_val [OF c(1) _ c(2) _ M]
  show ?thesis using v fmin_val [of "fdiv c (Fin 4194304)" "Fin 1"] rnd_nonneg [of "fval c / 4194304"] c(2)
    by (auto simp: in_range_def)
qed

lemma latency_fraction:
  assumes "d \<le> from_secs long"
  shows "fraction (fclamp (Fin 0) (Fin 1) (fsub (Fin 1) (fdiv (as_secs_f64 d) (Fin (1 / 2)))))"
proof -
  define x where "x = as_secs_f64 d"
  have x: "is_finite x" "0 \<le> fval x" "fval x \<le> 2 powi 32"
    using as_secs_f64_long [OF assms] by (simp_all add: in_range_def x_def)
  then have h: "fval x / (1 / 2) \<le> 2 powi 33" by simp
  have M: "fval x / fval (Fin (1 / 2)) \<le> 2 powi 1023" using powi_1023 [OF h] by simp
  note v = fdiv_val [OF x(1) _ x(2) _ M]
  define y where "y = fdiv x (Fin (1 / 2))"
  have y: "is_finite y" "0 \<le> fval y" "fval y \<le> 2 powi 33"
    using v x(2) rnd_le [OF _ h] rnd_nonneg [of "fval x / (1 / 2)"] rnd_pow2 [of 33] by (simp_all add: y_def)
  have "\<bar>1 - fval y\<bar> \<le> 2 powi 33" using y(2,3) by (simp add: abs_le_iff)
  then have "\<bar>fval (Fin 1) - fval y\<bar> \<le> 2 powi 1023" using powi_1023 [of "\<bar>1 - fval y\<bar>" 33] by simp
  then have "is_finite (fsub (Fin 1) y)" using fsub_finite(1) [OF _ y(1)] by simp
  then show ?thesis using fclamp_val [of "fsub (Fin 1) y" "Fin 0" "Fin 1"]
    unfolding x_def [symmetric] y_def [symmetric] in_range_def by simp
qed

lemma path_score_fraction:
  assumes "path_sane p"
  shows "fraction (path_score now p)"
proof -
  define t where "t = fmin (fdiv (ph_capacity_bps p) (Fin 4194304)) (Fin 1)"
  define l where "l = (case ph_rtt p of
      Some rtt \<Rightarrow> fclamp (Fin 0) (Fin 1) (fsub (Fin 1) (fdiv (as_secs_f64 rtt) (Fin (1 / 2)))) | None \<Rightarrow> Fin (1 / 2))"
  define wt :: rat where "wt = 5404319552844595 / 9007199254740992"
  define wl :: rat where "wl = 3602879701896397 / 9007199254740992"
  have t: "fraction t" unfolding t_def using assms by (intro throughput_fraction) (simp add: path_sane_def)
  have l: "fraction l"
    using assms latency_fraction by (auto simp: l_def path_sane_def in_range_def split: option.split)
  have w: "rnd wt = wt" "rnd wl = wl"
    using rnd_exact [of 5404319552844595 "- 53"] rnd_exact [of 3602879701896397 "- 53"]
    by (simp_all add: wt_def wl_def power_int_minus)
  have pos: "0 \<le> wt" "wt \<le> 1" "0 \<le> wl" "wl \<le> 1" by (simp_all add: wt_def wl_def)
  have a: "in_range wt (fmul (Fin wt) t)" "in_range wl (fmul (Fin wl) l)"
    by (rule fmul_fraction [OF t pos(1,2) w(1)], rule fmul_fraction [OF l pos(3,4) w(2)])
  have sum: "fval (fmul (Fin wt) t) + fval (fmul (Fin wl) l) \<le> wt + wl" using a by (simp add: in_range_def)
  have "wt + wl \<le> 2 powi 0" by (simp add: wt_def wl_def)
  then have M: "fval (fmul (Fin wt) t) + fval (fmul (Fin wl) l) \<le> 2 powi 1023"
    using powi_1023 [of "fval (fmul (Fin wt) t) + fval (fmul (Fin wl) l)" 0] sum by simp
  have "rnd (fval (fmul (Fin wt) t) + fval (fmul (Fin wl) l)) \<le> rnd (wt + wl)"
    by (rule rnd_mono [OF _ sum]) (use a in \<open>simp add: in_range_def\<close>)
  then have "fraction (fadd (fmul (Fin wt) t) (fmul (Fin wl) l))"
    using fadd_val [OF _ _ _ _ M] a weights_sum rnd_nonneg by (simp add: in_range_def wt_def wl_def)
  then show ?thesis using to_f32_fraction
    unfolding path_score_def four_MiB weights_val wt_def wl_def t_def l_def f64_lit_0 f64_lit_1 f64_lit_half
    by (simp add: Let_def)
qed

section \<open>The life of a path\<close>

datatype path_event = Sent | Delivered instant nat duration | Lost | Disable | Enable instant

fun path_step :: "path_event \<Rightarrow> path_health \<Rightarrow> path_health option" where
  "path_step Sent p = Some (record_sent p)"
| "path_step (Delivered now n d) p = record_delivered now n d p"
| "path_step Lost p = Some (record_lost p)"
| "path_step Disable p = Some (path_disable p)"
| "path_step (Enable now) p = Some (path_enable now p)"

fun path_run :: "path_event list \<Rightarrow> path_health \<Rightarrow> path_health option" where
  "path_run [] p = Some p"
| "path_run (e # es) p = (case path_step e p of Some q \<Rightarrow> path_run es q | None \<Rightarrow> None)"

fun event_ok :: "path_event \<Rightarrow> bool" where
  "event_ok (Delivered now n d) \<longleftrightarrow> n < 2 ^ 64 \<and> d \<le> from_secs long"
| "event_ok _ = True"

lemma path_step_sane: "event_ok e \<Longrightarrow> path_sane p \<Longrightarrow> \<exists>q. path_step e p = Some q \<and> path_sane q"
  by (cases e) (auto simp: path_sane_idle path_sane_lost dest: path_sane_delivered)

lemma path_run_keeps: "list_all event_ok es \<Longrightarrow> path_sane p \<Longrightarrow> \<exists>q. path_run es p = Some q \<and> path_sane q"
proof (induction es arbitrary: p)
  case Nil
  then show ?case by simp
next
  case (Cons e es)
  then obtain q where "path_step e p = Some q" "path_sane q" using path_step_sane [of e p] by auto
  then show ?case using Cons by simp
qed

text \<open>C33. The measurements of a path stay meaningful whatever happens to it: after any sequence of sends,
  deliveries, losses and changes of service, as long as chunks are below \<open>2 ^ 64\<close> bytes and round trips
  below \<open>2 ^ 32\<close> seconds, no update has panicked, the capacity is positive and at most \<open>2 ^ 74\<close> bytes a
  second, the loss rate is between 0 and 1, and so is the score.\<close>

theorem path_measurements_sane:
  assumes "list_all event_ok es"
  shows "\<exists>p. path_run es (path_new now name) = Some p \<and>
    is_finite (ph_capacity_bps p) \<and> 0 < fval (ph_capacity_bps p) \<and> fval (ph_capacity_bps p) \<le> 2 ^ 74 \<and>
    is_finite (loss_rate p) \<and> 0 \<le> fval (loss_rate p) \<and> fval (loss_rate p) \<le> 1 \<and>
    is_finite (path_score t p) \<and> 0 \<le> fval (path_score t p) \<and> fval (path_score t p) \<le> 1"
proof -
  obtain p where p: "path_run es (path_new now name) = Some p" "path_sane p"
    using path_run_keeps [OF assms path_sane_new] by blast
  have "0 < tiny" by (rule powi_pos)
  moreover have "tiny \<le> fval (ph_capacity_bps p)" using p(2) by (simp only: path_sane_def)
  ultimately have "0 < fval (ph_capacity_bps p)" by (rule order_less_le_trans)
  then show ?thesis using p path_score_fraction [OF p(2), of t] by (simp add: path_sane_def in_range_def)
qed

theorem path_measurements_sane_witness:
  "\<exists>p. path_run [Sent, Delivered 5 1000 20000000, Lost, Delivered 9 1 0, Disable] (path_new 0 ''tls'') = Some p \<and>
    is_finite (path_score 7 p)"
  using path_measurements_sane [of "[Sent, Delivered 5 1000 20000000, Lost, Delivered 9 1 0, Disable]" 0 "''tls''" 7]
  by (auto simp: long_def from_secs_def)

text \<open>Deliveries one after another.\<close>

lemma deliveries_lower_loss:
  assumes "list_all (\<lambda>(now, n, d). n < 2 ^ 64 \<and> d \<le> from_secs long) ds" and "path_sane p"
    and "fval (loss_rate p) \<le> (3 / 4) ^ m" and "m + length ds \<le> 6"
  shows "\<exists>q. path_run (map (\<lambda>(now, n, d). Delivered now n d) ds) p = Some q \<and> path_sane q \<and>
    ph_disabled q = ph_disabled p \<and> (ds \<noteq> [] \<longrightarrow> ph_last_success q = fst (last ds)) \<and>
    fval (loss_rate q) \<le> (3 / 4) ^ (m + length ds)"
  using assms
proof (induction ds arbitrary: p m)
  case Nil
  then show ?case by simp
next
  case (Cons e ds)
  obtain now n d where e: "e = (now, n, d)" by (cases e)
  obtain q where q: "record_delivered now n d p = Some q" "path_sane q" "ph_last_success q = now"
    "ph_disabled q = ph_disabled p" "loss_rate q = ewma (loss_rate p) (Fin 0)"
    using path_sane_delivered [OF Cons.prems(2), of n d now] Cons.prems(1) e by auto
  have "fval (loss_rate q) \<le> 3 / 4 * (3 / 4) ^ m"
    unfolding q(5) using Cons.prems rnd_three_quarters [of "Suc m"]
    by (intro loss_after_delivery(2)) (simp_all add: path_sane_def)
  then show ?case using Cons.IH [of q "Suc m"] Cons.prems q e by (cases ds) auto
qed

lemma lossy_unhealthy: "fraction (loss_rate p) \<Longrightarrow> 1 / 4 \<le> fval (loss_rate p) \<Longrightarrow> \<not> is_healthy now p"
  by (simp add: is_healthy_def UNHEALTHY_LOSS_val flt_finite in_range_def)

lemma lossless_healthy:
  assumes "fraction (loss_rate p)" and "fval (loss_rate p) \<le> (3 / 4) ^ 6" and "\<not> ph_disabled p"
    and "elapsed now (ph_last_success p) \<le> STALE_AFTER"
  shows "is_healthy now p"
proof -
  have "(3 / 4 :: rat) ^ 6 \<le> 3602879701896397 / 18014398509481984" by (simp add: power_divide)
  then have "fval (loss_rate p) \<le> 3602879701896397 / 18014398509481984" using assms(2) by (rule order_trans [rotated])
  then show ?thesis using assms by (simp add: is_healthy_def UNHEALTHY_LOSS_val flt_finite in_range_def Let_def)
qed

text \<open>C34. One lost chunk takes a path out of the rotation, whatever it delivered before; six deliveries in a
  row bring an enabled path back, whatever it lost before, until five seconds after the last of them.\<close>

theorem loss_disqualifies:
  assumes "path_sane p" and "\<not> ph_disabled p"
    and "list_all (\<lambda>(now, n, d). n < 2 ^ 64 \<and> d \<le> from_secs long) ds" and "length ds = 6"
    and "elapsed t (fst (last ds)) \<le> STALE_AFTER"
  shows "\<not> is_healthy t (record_lost p) \<and>
    (\<exists>q. path_run (map (\<lambda>(now, n, d). Delivered now n d) ds) (record_lost p) = Some q \<and> is_healthy t q)"
proof -
  have s: "path_sane (record_lost p)" by (rule path_sane_lost [OF assms(1)])
  have l: "loss_rate (record_lost p) = ewma (loss_rate p) (Fin 1)" by (simp add: record_lost_def)
  have f: "fraction (loss_rate p)" using assms(1) by (simp add: path_sane_def)
  have "\<not> is_healthy t (record_lost p)"
    using loss_after_loss [OF f] by (intro lossy_unhealthy) (simp_all add: l)
  moreover have "fval (loss_rate (record_lost p)) \<le> (3 / 4) ^ 0" using s by (simp add: path_sane_def in_range_def)
  then obtain q where "path_run (map (\<lambda>(now, n, d). Delivered now n d) ds) (record_lost p) = Some q" "path_sane q"
    "\<not> ph_disabled q" "ph_last_success q = fst (last ds)" "fval (loss_rate q) \<le> (3 / 4) ^ 6"
    using deliveries_lower_loss [OF assms(3) s, of 0] assms(2,4) by (auto simp: record_lost_def)
  ultimately show ?thesis using lossless_healthy [of q t] assms(5) by (simp add: path_sane_def)
qed

theorem loss_disqualifies_witness:
  "\<not> is_healthy 0 (record_lost (path_new 0 ''quic'')) \<and>
   (\<exists>q. path_run (map (\<lambda>(now, n, d). Delivered now n d) (replicate 6 (0, 1000, 1000000))) (record_lost (path_new 0 ''quic'')) =
      Some q \<and> is_healthy 0 q)"
proof (rule loss_disqualifies [OF path_sane_new])
  show "list_all (\<lambda>(now, n :: nat, d). n < 2 ^ 64 \<and> d \<le> from_secs long) (replicate 6 (0, 1000, 1000000))"
    by (simp add: list_all_iff long_def from_secs_def)
qed (simp_all add: path_new_def elapsed_def)

section \<open>Assigning chunks to paths\<close>

definition scheduler_wf :: "scheduler \<Rightarrow> bool" where
  "scheduler_wf s \<longleftrightarrow> length (sd_credits s) = length (sd_paths s) \<and> distinct (map ph_name (sd_paths s))"

interpretation credit: preference "\<lambda>a b. total_le (c ! a) (c ! b)" for c :: "float64 list"
  by unfold_locales (use total_le_total total_le_trans in blast)+

interpretation rtt: preference "\<lambda>a b. rtt_or_max (ps ! a) \<le> rtt_or_max (ps ! b)" for ps :: "path_health list"
  by unfold_locales auto

lemma healthy_indices_set: "set (healthy_indices now ps) = {i. i < length ps \<and> is_healthy now (ps ! i)}"
  by (auto simp: healthy_indices_def)

lemma healthy_indices_length: "length (healthy_indices now (sd_paths s)) = healthy_count now s"
proof -
  have "filter P ps = map ((!) ps) (filter (\<lambda>i. P (ps ! i)) [0..<length ps])" for P and ps :: "path_health list"
    by (subst (1) map_nth [of ps, symmetric]) (simp only: filter_map comp_def)
  then show ?thesis by (simp add: healthy_count_def healthy_indices_def)
qed

lemma length_top_up [simp]: "length (top_up ps is cs) = length cs"
proof -
  have "length (foldl (\<lambda>cs i. cs[i := f cs i]) cs js) = length cs" for f js
    by (induction js arbitrary: cs) simp_all
  then show ?thesis by (simp add: top_up_def)
qed

lemma path_position_Some: "path_position name ps = Some i \<Longrightarrow> i < length ps \<and> ph_name (ps ! i) = name"
  by (induction ps arbitrary: i) (auto split: if_splits)

lemma path_position_None: "path_position name ps = None \<longleftrightarrow> name \<notin> ph_name ` set ps"
  by (induction ps) auto

lemma length_remove_at: "i < length xs \<Longrightarrow> length (remove_at i xs) = length xs - 1"
  by (induction i xs rule: remove_at.induct) auto

lemma map_remove_at: "map f (remove_at i xs) = remove_at i (map f xs)"
  by (induction i xs rule: remove_at.induct) auto

lemma set_remove_at: "set (remove_at i xs) \<subseteq> set xs"
  by (induction i xs rule: remove_at.induct) auto

lemma distinct_remove_at: "distinct xs \<Longrightarrow> distinct (remove_at i xs)"
  by (induction i xs rule: remove_at.induct) (use set_remove_at in fastforce)+

lemma names_update: "ph_name p = ph_name (ps ! i) \<Longrightarrow> map ph_name (ps[i := p]) = map ph_name ps"
  by (cases "i < length ps") (simp_all add: map_update list_update_same_conv list_update_beyond)

lemma record_sent_name [simp]: "ph_name (record_sent p) = ph_name p"
  by (simp add: record_sent_def)

text \<open>The path an assignment chooses.\<close>

abbreviation topped :: "instant \<Rightarrow> scheduler \<Rightarrow> float64 list" where
  "topped now s \<equiv> top_up (sd_paths s) (healthy_indices now (sd_paths s)) (sd_credits s)"

lemma assign_chosen:
  assumes "healthy_indices now (sd_paths s) \<noteq> []"
  obtains c where "c \<in> set (healthy_indices now (sd_paths s))"
    and "\<forall>i\<in>set (healthy_indices now (sd_paths s)). total_le (topped now s ! i) (topped now s ! c)"
    and "\<And>critical. assign now critical s = assign_to critical s (healthy_indices now (sd_paths s)) (topped now s) c"
proof -
  let ?H = "healthy_indices now (sd_paths s)"
  obtain c where c: "max_by (\<lambda>a b. total_le (topped now s ! a) (topped now s ! b)) ?H = Some c"
    using assms max_by_None [of "\<lambda>a b. total_le (topped now s ! a) (topped now s ! b)" ?H] by (metis option.exhaust)
  show ?thesis
  proof (rule that [of c])
    show "assign now critical s = assign_to critical s ?H (topped now s) c" for critical
      using assms by (simp only: assign_def Let_def c option.sel if_False)
  qed (use credit.max_by_greatest [OF c] in simp_all)
qed

lemma mark_sent_simps [simp]:
  "length (mark_sent i ps) = length ps"
  "map ph_name (mark_sent i ps) = map ph_name ps"
  "ph_name (mark_sent i ps ! j) = ph_name (ps ! j)"
  "rtt_or_max (mark_sent i ps ! j) = rtt_or_max (ps ! j)"
  by (simp_all add: mark_sent_def names_update)
    (cases "i = j"; cases "i < length ps"; simp add: rtt_or_max_def record_sent_def list_update_beyond)+

text \<open>The state after an assignment and what it says.\<close>

lemma assign_to_result:
  assumes "assign_to critical s is cr c = (r, s')"
  shows "sd_credits s' = cr[c := fsub (cr ! c) (f64_lit 1)]"
    and "length (sd_paths s') = length (sd_paths s)" and "map ph_name (sd_paths s') = map ph_name (sd_paths s)"
    and "sd_hedging s' = sd_hedging s"
    and "r = Some \<lparr>as_primary = ph_name (sd_paths s ! c), as_hedge = map_option (\<lambda>i. ph_name (sd_paths s ! i))
      (if critical \<and> sd_hedging s then choose_hedge (mark_sent c (sd_paths s)) c is else None)\<rparr>"
  using assms by (auto simp: assign_to_def hedge_for_def Let_def split: option.splits if_splits)

lemma choose_hedge_best:
  assumes "choose_hedge ps c is = Some h"
  shows "h \<in> set is \<and> h \<noteq> c \<and> (\<forall>i\<in>set is. i \<noteq> c \<longrightarrow> rtt_or_max (ps ! h) \<le> rtt_or_max (ps ! i))"
  using rtt.min_by_least [OF assms [unfolded choose_hedge_def]] by auto

lemma choose_hedge_None: "choose_hedge ps c is = None \<longleftrightarrow> set is \<subseteq> {c}"
  by (auto simp: choose_hedge_def filter_empty_conv)

text \<open>The state of a scheduler stays well formed.\<close>

lemma scheduler_wf_new: "scheduler_wf scheduler_new"
  by (simp add: scheduler_wf_def scheduler_new_def)

lemma scheduler_wf_add: "scheduler_wf s \<Longrightarrow> scheduler_wf (add_path now name s)"
  by (auto simp: scheduler_wf_def add_path_def list_ex_iff path_new_def)

lemma scheduler_wf_remove: "scheduler_wf s \<Longrightarrow> scheduler_wf (remove_path name s)"
  by (auto simp: scheduler_wf_def remove_path_def length_remove_at map_remove_at distinct_remove_at
      dest: path_position_Some split: option.split)

lemma scheduler_wf_path_mut: "scheduler_wf s \<Longrightarrow> (\<And>p. ph_name (f p) = ph_name p) \<Longrightarrow> scheduler_wf (path_mut name f s)"
  by (auto simp: scheduler_wf_def path_mut_def names_update split: option.split)

lemma remove_path_gone: "scheduler_wf s \<Longrightarrow> name \<notin> ph_name ` set (sd_paths (remove_path name s))"
proof -
  assume "scheduler_wf s"
  have "path_position name ps = Some i \<Longrightarrow> distinct (map ph_name ps) \<Longrightarrow> name \<notin> ph_name ` set (remove_at i ps)" for ps i
    by (induction ps arbitrary: i) (auto split: if_splits)
  then show ?thesis using \<open>scheduler_wf s\<close>
    by (auto simp: remove_path_def scheduler_wf_def path_position_None split: option.split)
qed

text \<open>C32. An assignment exists exactly when a path is healthy, and otherwise changes nothing. It goes to a
  healthy path with the highest credit. A second copy is made exactly for a latency-critical chunk when
  hedging is on and another path is healthy, and goes to the one with the shortest round trip among the
  others, never to the path that has the first copy. Paths and credits stay aligned.\<close>

theorem assign_choice:
  assumes "scheduler_wf s" and "assign now critical s = (r, s')"
  shows "(r = None \<longleftrightarrow> healthy_count now s = 0) \<and> (r = None \<longrightarrow> s' = s) \<and>
    scheduler_wf s' \<and> map ph_name (sd_paths s') = map ph_name (sd_paths s) \<and>
    (\<forall>a. r = Some a \<longrightarrow>
      (let H = set (healthy_indices now (sd_paths s));
           cr = top_up (sd_paths s) (healthy_indices now (sd_paths s)) (sd_credits s)
       in \<exists>c\<in>H. as_primary a = ph_name (sd_paths s ! c) \<and> (\<forall>i\<in>H. total_le (cr ! i) (cr ! c)) \<and>
         (as_hedge a \<noteq> None \<longleftrightarrow> critical \<and> sd_hedging s \<and> H \<noteq> {c}) \<and>
         (\<forall>n. as_hedge a = Some n \<longrightarrow>
           (\<exists>h\<in>H - {c}. n = ph_name (sd_paths s ! h) \<and> n \<noteq> as_primary a \<and>
             (\<forall>i\<in>H - {c}. rtt_or_max (sd_paths s ! h) \<le> rtt_or_max (sd_paths s ! i))))))"
proof (cases "healthy_indices now (sd_paths s) = []")
  case True
  then have "healthy_count now s = 0" using healthy_indices_length [of now s] by simp
  then show ?thesis using True assms by (auto simp: assign_def)
next
  case False
  let ?H = "healthy_indices now (sd_paths s)"
  obtain c where c: "c \<in> set ?H" and best: "\<forall>i\<in>set ?H. total_le (topped now s ! i) (topped now s ! c)"
    and a: "assign now critical s = assign_to critical s ?H (topped now s) c"
    using assign_chosen [OF False] by metis
  note r = assign_to_result [OF trans [OF a [symmetric] assms(2)]]
  define hedge where "hedge = (if critical \<and> sd_hedging s then choose_hedge (mark_sent c (sd_paths s)) c ?H else None)"
  have "set ?H \<subseteq> {c} \<longleftrightarrow> set ?H = {c}" using c by blast
  then have some: "hedge \<noteq> None \<longleftrightarrow> critical \<and> sd_hedging s \<and> set ?H \<noteq> {c}"
    by (cases "critical \<and> sd_hedging s") (auto simp: hedge_def choose_hedge_None simp del: not_None_eq)
  have hd: "h \<in> set ?H - {c} \<and> (\<forall>i\<in>set ?H - {c}. rtt_or_max (sd_paths s ! h) \<le> rtt_or_max (sd_paths s ! i))"
    if "hedge = Some h" for h
    using that choose_hedge_best [of "mark_sent c (sd_paths s)" c ?H h] by (auto simp: hedge_def split: if_splits)
  have len: "i < length (sd_paths s)" if "i \<in> set ?H" for i using that by (simp add: healthy_indices_set)
  then have other: "ph_name (sd_paths s ! h) \<noteq> ph_name (sd_paths s ! c)" if "h \<in> set ?H - {c}" for h
    using that c assms(1) by (auto simp: scheduler_wf_def distinct_conv_nth)
  have copy: "\<forall>n. map_option (\<lambda>i. ph_name (sd_paths s ! i)) hedge = Some n \<longrightarrow>
      (\<exists>h\<in>set ?H - {c}. n = ph_name (sd_paths s ! h) \<and> n \<noteq> ph_name (sd_paths s ! c) \<and>
        (\<forall>i\<in>set ?H - {c}. rtt_or_max (sd_paths s ! h) \<le> rtt_or_max (sd_paths s ! i)))"
    using hd other by (cases hedge) (simp, metis option.map(2) option.inject)
  have some': "map_option (\<lambda>i. ph_name (sd_paths s ! i)) hedge \<noteq> None \<longleftrightarrow> critical \<and> sd_hedging s \<and> set ?H \<noteq> {c}"
    using some by simp
  have a: "as_primary a = ph_name (sd_paths s ! c)" "as_hedge a = map_option (\<lambda>i. ph_name (sd_paths s ! i)) hedge"
    if "r = Some a" for a
    using that r(5) by (auto simp: hedge_def)
  have "scheduler_wf s'" using assms(1) r(1,2,3) by (simp add: scheduler_wf_def)
  moreover have "healthy_count now s \<noteq> 0" using False healthy_indices_length [of now s] by (metis length_0_conv)
  moreover have "r \<noteq> None" using r(5) by simp
  ultimately show ?thesis using r(3) unfolding Let_def
    by (intro conjI allI impI) (blast, blast, blast, blast, unfold a, intro bexI [of _ c] conjI refl best some' copy c)
qed

theorem assign_choice_witness:
  "fst (assign 0 True (add_path 0 ''wss'' (add_path 0 ''tls'' scheduler_new))) \<noteq> None"
proof -
  let ?s = "add_path 0 ''wss'' (add_path 0 ''tls'' scheduler_new)"
  have wf: "scheduler_wf ?s" by (intro scheduler_wf_add scheduler_wf_new)
  have "is_healthy 0 (path_new 0 n)" for n
    using lossless_healthy [of "path_new 0 n" 0] by (simp add: path_new_def elapsed_def)
  then have "healthy_count 0 ?s \<noteq> 0"
    by (simp add: healthy_count_def add_path_def scheduler_new_def path_new_def)
  then show ?thesis
    using assign_choice [OF wf, of 0 True "fst (assign 0 True ?s)" "snd (assign 0 True ?s)"] by auto
qed

section \<open>Striping in proportion\<close>

text \<open>Assignments in sequence, without hedging; the names of the paths chosen.\<close>

fun assign_run :: "instant list \<Rightarrow> scheduler \<Rightarrow> string list \<times> scheduler" where
  "assign_run [] s = ([], s)"
| "assign_run (t # ts) s =
     (case assign t False s of
        (Some a, s') \<Rightarrow> (let (names, s'') = assign_run ts s' in (as_primary a # names, s''))
      | (None, s') \<Rightarrow> assign_run ts s')"

text \<open>Whether a path is in service, apart from staleness.\<close>

definition in_service :: "path_health \<Rightarrow> bool" where
  "in_service p \<longleftrightarrow> \<not> ph_disabled p \<and> \<not> flt UNHEALTHY_LOSS (loss_rate p)"

definition served :: "path_health list \<Rightarrow> nat list" where
  "served ps = filter (\<lambda>i. in_service (ps ! i)) [0..<length ps]"

definition fresh :: "instant \<Rightarrow> path_health list \<Rightarrow> bool" where
  "fresh t ps \<longleftrightarrow> (\<forall>p\<in>set ps. elapsed t (ph_last_success p) \<le> STALE_AFTER)"

lemma healthy_fresh: "fresh t ps \<Longrightarrow> healthy_indices t ps = served ps"
  unfolding healthy_indices_def served_def
  by (rule filter_cong) (auto simp: is_healthy_def in_service_def fresh_def Let_def linorder_not_le
      dest!: bspec [OF _ nth_mem])

text \<open>What an assignment leaves alone.\<close>

definition same_health :: "path_health list \<Rightarrow> path_health list \<Rightarrow> bool" where
  "same_health ps qs \<longleftrightarrow>
     length qs = length ps \<and> (\<forall>i<length ps. (qs ! i)\<lparr>ph_sent := 0\<rparr> = (ps ! i)\<lparr>ph_sent := 0\<rparr>)"

lemma same_health_mark: "same_health ps (mark_sent i ps)"
  by (cases "i < length ps") (auto simp: same_health_def mark_sent_def nth_list_update record_sent_def list_update_beyond)

lemma same_fields:
  assumes "q\<lparr>ph_sent := 0\<rparr> = p\<lparr>ph_sent := 0\<rparr>"
  shows "ph_capacity_bps q = ph_capacity_bps p" and "in_service q = in_service p"
    and "ph_last_success q = ph_last_success p" and "ph_name q = ph_name p"
  using assms by (cases p; cases q; simp add: in_service_def)+

lemma same_health_nth:
  assumes "same_health ps qs" and "i < length ps"
  shows "ph_capacity_bps (qs ! i) = ph_capacity_bps (ps ! i)" and "in_service (qs ! i) = in_service (ps ! i)"
    and "ph_last_success (qs ! i) = ph_last_success (ps ! i)" and "ph_name (qs ! i) = ph_name (ps ! i)"
  using same_fields [of "qs ! i" "ps ! i"] assms by (simp_all add: same_health_def)

lemma same_health_length: "same_health ps qs \<Longrightarrow> length qs = length ps"
  by (simp add: same_health_def)

lemma same_health_served: "same_health ps qs \<Longrightarrow> served qs = served ps"
  unfolding served_def by (auto intro!: filter_cong simp: same_health_length same_health_nth)

lemma same_health_fresh: "same_health ps qs \<Longrightarrow> fresh t qs = fresh t ps"
  unfolding fresh_def by (auto simp: all_set_conv_all_nth same_health_length same_health_nth)

lemma served_less: "i \<in> set (served ps) \<Longrightarrow> i < length ps"
  by (simp add: served_def)

lemma distinct_served [simp]: "distinct (served ps)"
  by (simp add: served_def)

text \<open>The share of a path in service: what is added to its credit at every assignment.\<close>

definition share :: "path_health list \<Rightarrow> nat \<Rightarrow> float64" where
  "share ps i = fdiv (ph_capacity_bps (ps ! i)) (total_capacity ps (served ps))"

lemma same_health_share:
  assumes "same_health ps qs" and "i \<in> set (served ps)"
  shows "share qs i = share ps i"
proof -
  have c: "ph_capacity_bps (qs ! i) = ph_capacity_bps (ps ! i)" if "i \<in> set (served ps)" for i
    by (rule same_health_nth(1) [OF assms(1) served_less [OF that]])
  then have "map (\<lambda>i. ph_capacity_bps (qs ! i)) (served ps) = map (\<lambda>i. ph_capacity_bps (ps ! i)) (served ps)" by simp
  then show ?thesis using c [OF assms(2)]
    unfolding share_def total_capacity_def same_health_served [OF assms(1)] by (simp only:)
qed

lemma top_up_nth:
  assumes "distinct js" and "i < length cs"
  shows "foldl (\<lambda>cs j. cs[j := fadd (cs ! j) (f j)]) cs js ! i = (if i \<in> set js then fadd (cs ! i) (f i) else cs ! i)"
  using assms
proof (induction js arbitrary: cs)
  case Nil
  then show ?case by simp
next
  case (Cons j js)
  then show ?case by (cases "i = j") simp_all
qed

lemma top_up_share:
  "i < length cs \<Longrightarrow> top_up ps (served ps) cs ! i = (if i \<in> set (served ps) then fadd (cs ! i) (share ps i) else cs ! i)"
  unfolding top_up_def share_def by (rule top_up_nth) simp_all

text \<open>Credits as multiples of \<open>2 powi (- 40)\<close>: they sum to 0 and none falls to \<open>- 1\<close>.\<close>

definition balanced :: "nat set \<Rightarrow> (nat \<Rightarrow> int) \<Rightarrow> bool" where
  "balanced I c \<longleftrightarrow> (\<Sum>i\<in>I. c i) = 0 \<and> (\<forall>i\<in>I. - (2 ^ 40) < c i)"

lemma balanced_cong: "balanced I c \<Longrightarrow> (\<And>i. i \<in> I \<Longrightarrow> d i = c i) \<Longrightarrow> balanced I d"
  by (simp add: balanced_def cong: sum.cong)

lemma balanced_le:
  assumes "balanced I c" and "finite I" and "i \<in> I"
  shows "c i \<le> int (card I) * 2 ^ 40"
proof -
  have "(\<Sum>j\<in>I - {i}. - (2 ^ 40)) \<le> (\<Sum>j\<in>I - {i}. c j)"
    using assms(1) by (intro sum_mono) (auto simp: balanced_def less_imp_le)
  moreover have "(\<Sum>j\<in>I. c j) = c i + (\<Sum>j\<in>I - {i}. c j)" using assms(2,3) by (rule sum.remove)
  moreover have "int (card (I - {i})) \<le> int (card I)" using assms(2) by (simp add: card_Diff1_le)
  ultimately show ?thesis using assms(1) by (simp add: balanced_def)
qed

lemma balanced_step:
  assumes b: "balanced I c" and I: "finite I" and k: "\<forall>i\<in>I. 0 \<le> k i" "(\<Sum>i\<in>I. k i) = 2 ^ 40"
    and ch: "ch \<in> I" "\<forall>i\<in>I. c i + k i \<le> c ch + k ch"
  shows "balanced I (\<lambda>i. c i + k i - (if i = ch then 2 ^ 40 else 0))"
proof -
  have sum: "(\<Sum>i\<in>I. c i + k i) = 2 ^ 40" using b k(2) by (simp add: balanced_def sum.distrib)
  have "0 < c ch + k ch"
  proof (rule ccontr)
    assume "\<not> 0 < c ch + k ch"
    then have "(\<Sum>i\<in>I. c i + k i) \<le> (\<Sum>i\<in>I. 0)" using ch(2) by (intro sum_mono) force
    then show False using sum by simp
  qed
  moreover have "- (2 ^ 40) < c i + k i" if "i \<in> I" for i
  proof -
    have "- (2 ^ 40) < c i" "0 \<le> k i" using b k(1) that by (simp_all add: balanced_def)
    then show ?thesis by linarith
  qed
  ultimately show ?thesis using b k I ch(1) sum by (auto simp: balanced_def sum_subtractf sum.distrib)
qed

text \<open>What the credits and shares are, as numerators over \<open>2 ^ 40\<close>.\<close>

definition credits_are :: "path_health list \<Rightarrow> (nat \<Rightarrow> int) \<Rightarrow> float64 list \<Rightarrow> bool" where
  "credits_are ps c cs \<longleftrightarrow> (\<forall>i\<in>set (served ps). is_finite (cs ! i) \<and> fval (cs ! i) = of_int (c i) / 2 ^ 40)"

definition shares_are :: "path_health list \<Rightarrow> (nat \<Rightarrow> int) \<Rightarrow> bool" where
  "shares_are ps k \<longleftrightarrow> (\<forall>i\<in>set (served ps). is_finite (share ps i) \<and> 0 \<le> k i \<and> fval (share ps i) = of_int (k i) / 2 ^ 40) \<and>
     (\<Sum>i\<in>set (served ps). k i) = 2 ^ 40 \<and> length (served ps) \<le> 2 ^ 12"

lemma shares_le: "shares_are ps k \<Longrightarrow> i \<in> set (served ps) \<Longrightarrow> k i \<le> 2 ^ 40"
  using member_le_sum [of i "set (served ps)" k] by (auto simp: shares_are_def)

lemma topped_credits:
  assumes "shares_are ps k" and "credits_are ps c cs" and "balanced (set (served ps)) c" and "length cs = length ps"
  shows "credits_are ps (\<lambda>i. c i + k i) (top_up ps (served ps) cs)"
  unfolding credits_are_def
proof
  fix i
  assume i: "i \<in> set (served ps)"
  have n: "card (set (served ps)) \<le> 2 ^ 12" using assms(1) by (simp add: distinct_card shares_are_def)
  have "c i \<le> int (card (set (served ps))) * 2 ^ 40" by (rule balanced_le [OF assms(3) _ i]) simp
  also have "\<dots> \<le> 2 ^ 12 * 2 ^ 40" using n by (intro mult_right_mono) simp_all
  finally have "c i \<le> 2 ^ 12 * 2 ^ 40" .
  moreover have "- (2 ^ 40) < c i" "0 \<le> k i" using assms(1,3) i by (simp_all add: balanced_def shares_are_def)
  ultimately have "\<bar>c i + k i\<bar> < 2 ^ 53" using shares_le [OF assms(1) i] by simp
  then show "is_finite (top_up ps (served ps) cs ! i) \<and> fval (top_up ps (served ps) cs ! i) = of_int (c i + k i) / 2 ^ 40"
    using assms i served_less [OF i] fadd_ratio [of "cs ! i" "share ps i" "c i" 40 "k i"]
    by (simp add: top_up_share credits_are_def shares_are_def)
qed

text \<open>One assignment.\<close>

lemma assign_striped:
  assumes wf: "scheduler_wf s" and fresh: "fresh t (sd_paths s)" and some: "served (sd_paths s) \<noteq> []"
    and k: "shares_are (sd_paths s) k" and c: "credits_are (sd_paths s) c (sd_credits s)"
    and b: "balanced (set (served (sd_paths s))) c"
  obtains ch a s' where "ch \<in> set (served (sd_paths s))" and "assign t False s = (Some a, s')"
    and "as_primary a = ph_name (sd_paths s ! ch)" and "same_health (sd_paths s) (sd_paths s')" and "scheduler_wf s'"
    and "credits_are (sd_paths s) (\<lambda>i. c i + k i - (if i = ch then 2 ^ 40 else 0)) (sd_credits s')"
    and "balanced (set (served (sd_paths s))) (\<lambda>i. c i + k i - (if i = ch then 2 ^ 40 else 0))"
proof -
  let ?ps = "sd_paths s"
  let ?cr = "top_up ?ps (served ?ps) (sd_credits s)"
  have H: "healthy_indices t ?ps = served ?ps" by (rule healthy_fresh [OF fresh])
  obtain ch where ch: "ch \<in> set (served ?ps)" and best: "\<forall>i\<in>set (served ?ps). total_le (?cr ! i) (?cr ! ch)"
    and a: "assign t False s = assign_to False s (served ?ps) ?cr ch"
    using assign_chosen [of t s] some unfolding H by metis
  have len: "length (sd_credits s) = length ?ps" using wf by (simp add: scheduler_wf_def)
  have cr: "is_finite (?cr ! i)" "fval (?cr ! i) = of_int (c i + k i) / 2 ^ 40" if "i \<in> set (served ?ps)" for i
    using topped_credits [OF k c b len] that by (simp_all add: credits_are_def)
  have "c i + k i \<le> c ch + k ch" if "i \<in> set (served ?ps)" for i
  proof -
    have "fval (?cr ! i) \<le> fval (?cr ! ch)" using best that cr(1) ch by (intro total_le_val) auto
    then show ?thesis using cr(2) that ch by (simp add: divide_right_mono flip: of_int_add)
  qed
  then have bal: "balanced (set (served ?ps)) (\<lambda>i. c i + k i - (if i = ch then 2 ^ 40 else 0))"
    using k ch by (intro balanced_step [OF b]) (simp_all add: shares_are_def)
  define s' where "s' = s\<lparr>sd_paths := mark_sent ch ?ps, sd_credits := ?cr[ch := fsub (?cr ! ch) (f64_lit 1)]\<rparr>"
  have r: "assign t False s = (Some \<lparr>as_primary = ph_name (?ps ! ch), as_hedge = None\<rparr>, s')"
    unfolding a by (simp add: assign_to_def hedge_for_def s'_def)
  have "- (2 ^ 40) < c ch + k ch - 2 ^ 40" using bal ch unfolding balanced_def by fastforce
  moreover have "int (card (set (served ?ps))) \<le> 2 ^ 12" using k by (simp add: shares_are_def distinct_card)
  ultimately have "\<bar>c ch + k ch - 2 ^ 40\<bar> < 2 ^ 53" using balanced_le [OF bal _ ch] by simp
  then have "is_finite (fsub (?cr ! ch) (Fin 1))" "fval (fsub (?cr ! ch) (Fin 1)) = of_int (c ch + k ch - 2 ^ 40) / 2 ^ 40"
    using fsub_ratio [of "?cr ! ch" "Fin 1" "c ch + k ch" 40 "2 ^ 40"] cr [OF ch] by simp_all
  then have "credits_are ?ps (\<lambda>i. c i + k i - (if i = ch then 2 ^ 40 else 0)) (sd_credits s')"
    using cr served_less len by (auto simp: credits_are_def s'_def nth_list_update)
  then show ?thesis
    using that [OF ch r] bal wf by (simp add: s'_def same_health_mark scheduler_wf_def)
qed

lemma names_inj: "scheduler_wf s \<Longrightarrow> i < length (sd_paths s) \<Longrightarrow> j < length (sd_paths s) \<Longrightarrow>
    ph_name (sd_paths s ! i) = ph_name (sd_paths s ! j) \<longleftrightarrow> i = j"
  by (auto simp: scheduler_wf_def distinct_conv_nth)

lemma credits_are_same: "same_health ps qs \<Longrightarrow> credits_are qs c cs = credits_are ps c cs"
  by (simp add: credits_are_def same_health_served)

lemma shares_are_same: "same_health ps qs \<Longrightarrow> shares_are qs k = shares_are ps k"
  by (simp add: shares_are_def same_health_served same_health_share)

text \<open>A window of assignments: the numerators of the credits count what each path got.\<close>

lemma assign_run_striped:
  assumes "scheduler_wf s" and "\<forall>t\<in>set ts. fresh t (sd_paths s)" and "served (sd_paths s) \<noteq> []"
    and "shares_are (sd_paths s) k" and "credits_are (sd_paths s) c (sd_credits s)"
    and "balanced (set (served (sd_paths s))) c"
  shows "balanced (set (served (sd_paths s))) (\<lambda>i. c i + int (length ts) * k i -
    int (count_list (fst (assign_run ts s)) (ph_name (sd_paths s ! i))) * 2 ^ 40)"
  using assms
proof (induction ts arbitrary: s c)
  case Nil
  then show ?case by simp
next
  case (Cons t ts)
  let ?I = "set (served (sd_paths s))"
  obtain ch a s' where ch: "ch \<in> ?I" and r: "assign t False s = (Some a, s')"
    and name: "as_primary a = ph_name (sd_paths s ! ch)" and same: "same_health (sd_paths s) (sd_paths s')"
    and wf: "scheduler_wf s'"
    and c: "credits_are (sd_paths s) (\<lambda>i. c i + k i - (if i = ch then 2 ^ 40 else 0)) (sd_credits s')"
    and b: "balanced ?I (\<lambda>i. c i + k i - (if i = ch then 2 ^ 40 else 0))"
    using assign_striped [of s t k c] Cons.prems by auto
  let ?n = "\<lambda>i. count_list (fst (assign_run ts s')) (ph_name (sd_paths s ! i))"
  have "balanced (set (served (sd_paths s'))) (\<lambda>i. (c i + k i - (if i = ch then 2 ^ 40 else 0)) +
      int (length ts) * k i - int (count_list (fst (assign_run ts s')) (ph_name (sd_paths s' ! i))) * 2 ^ 40)"
    using Cons.prems wf b c by (intro Cons.IH)
      (simp_all add: same_health_served [OF same] same_health_fresh [OF same] credits_are_same [OF same]
        shares_are_same [OF same])
  then have IH: "balanced ?I (\<lambda>i. (c i + k i - (if i = ch then 2 ^ 40 else 0)) + int (length ts) * k i - int (?n i) * 2 ^ 40)"
    unfolding same_health_served [OF same]
    by (rule balanced_cong) (simp add: same_health_nth(4) [OF same] served_less)
  have count: "count_list (fst (assign_run (t # ts) s)) (ph_name (sd_paths s ! i)) = ?n i + (if i = ch then 1 else 0)"
    if "i \<in> ?I" for i
    using names_inj [OF Cons.prems(1)] served_less that ch by (simp add: r name split: prod.split)
  show ?case by (rule balanced_cong [OF IH]) (simp add: count algebra_simps del: assign_run.simps)
qed

text \<open>C31. Striping is proportional: while the measurements stand, a window of assignments over at most 4096
  paths in service whose shares are multiples of \<open>2 powi (- 40)\<close>, started with no credit, gives each path its
  share of the chunks, never a whole chunk more, and at most as many chunks less as there are paths.\<close>

theorem assign_proportional:
  assumes "scheduler_wf s" and "\<forall>t\<in>set ts. fresh t (sd_paths s)" and "length (served (sd_paths s)) \<le> 2 ^ 12"
    and "\<forall>i\<in>set (served (sd_paths s)). sd_credits s ! i = Fin 0"
    and "\<forall>i\<in>set (served (sd_paths s)).
      is_finite (share (sd_paths s) i) \<and> 0 \<le> fval (share (sd_paths s) i) \<and> fval (share (sd_paths s) i) * 2 ^ 40 \<in> \<int>"
    and "(\<Sum>i\<in>set (served (sd_paths s)). fval (share (sd_paths s) i)) = 1"
    and "i \<in> set (served (sd_paths s))"
  shows "let n = of_nat (count_list (fst (assign_run ts s)) (ph_name (sd_paths s ! i)));
             due = of_nat (length ts) * fval (share (sd_paths s) i)
    in n < due + 1 \<and> due - of_nat (length (served (sd_paths s))) \<le> n"
proof -
  let ?I = "set (served (sd_paths s))"
  define k where "k i = \<lfloor>fval (share (sd_paths s) i) * 2 ^ 40\<rfloor>" for i
  have k: "of_int (k i) = fval (share (sd_paths s) i) * 2 ^ 40" if "i \<in> ?I" for i
    using assms(5) that by (simp add: k_def)
  have "(\<Sum>i\<in>?I. of_int (k i)) = (\<Sum>i\<in>?I. fval (share (sd_paths s) i)) * 2 ^ 40"
    unfolding sum_distrib_right by (rule sum.cong) (simp_all add: k)
  then have "of_int (\<Sum>i\<in>?I. k i) = (of_int (2 ^ 40) :: rat)" using assms(6) by simp
  then have sum: "(\<Sum>i\<in>?I. k i) = 2 ^ 40" by (simp only: of_int_eq_iff)
  then have some: "served (sd_paths s) \<noteq> []" by auto
  have shares: "shares_are (sd_paths s) k"
    unfolding shares_are_def using assms(3,5) sum k by (auto simp: k_def)
  define n where "n = count_list (fst (assign_run ts s)) (ph_name (sd_paths s ! i))"
  define c where "c = (\<lambda>i. int (length ts) * k i -
    int (count_list (fst (assign_run ts s)) (ph_name (sd_paths s ! i))) * 2 ^ 40)"
  have "balanced ?I c" unfolding c_def
    by (rule balanced_cong [OF assign_run_striped [OF assms(1,2) some shares, of "\<lambda>_. 0"]])
      (simp_all add: credits_are_def balanced_def assms(4))
  then have "- (2 ^ 40) < c i" "c i \<le> int (card ?I) * 2 ^ 40"
    using assms(7) balanced_le [of ?I c i] by (simp_all add: balanced_def)
  then have "(of_int (- (2 ^ 40)) :: rat) < of_int (c i)" "(of_int (c i) :: rat) \<le> of_int (int (card ?I) * 2 ^ 40)"
    by (simp_all only: of_int_less_iff of_int_le_iff)
  moreover have "of_int (c i) = (of_nat (length ts) * fval (share (sd_paths s) i) - of_nat n) * 2 ^ 40"
    using k [OF assms(7)] by (simp add: c_def n_def algebra_simps)
  ultimately show ?thesis unfolding n_def [symmetric] Let_def by (simp add: distinct_card algebra_simps)
qed

theorem assign_proportional_witness:
  "let s = add_path 0 ''wss'' (add_path 0 ''tls'' scheduler_new);
       n = of_nat (count_list (fst (assign_run (replicate 10 0) s)) ''tls'') :: rat
   in n < 6 \<and> 3 \<le> n"
proof -
  let ?s = "add_path 0 ''wss'' (add_path 0 ''tls'' scheduler_new)"
  have ps: "sd_paths ?s = [path_new 0 ''tls'', path_new 0 ''wss'']" "sd_credits ?s = [Fin 0, Fin 0]"
    by (simp_all add: add_path_def scheduler_new_def path_new_def)
  have "in_service (path_new 0 n)" for n
    by (simp add: in_service_def path_new_def UNHEALTHY_LOSS_val flt_finite)
  then have sv: "served (sd_paths ?s) = [0, 1]" by (simp add: served_def ps)
  have "fadd (fadd NegZero (Fin 262144)) (Fin 262144) = Fin 524288"
    using float_of_ratio [of 262144 0] float_of_ratio [of 524288 0] by (simp add: fadd_def)
  then have sh: "share (sd_paths ?s) i = Fin (1 / 2)" if "i \<in> {0, 1}" for i
    using that float_of_ratio [of 1 1]
    unfolding share_def sv by (auto simp: ps path_new_def total_capacity_def INITIAL_CAPACITY_val fdiv_def)
  have "\<forall>t\<in>set (replicate 10 0). fresh t (sd_paths ?s)" by (simp add: ps fresh_def path_new_def elapsed_def)
  moreover have "scheduler_wf ?s" by (intro scheduler_wf_add scheduler_wf_new)
  moreover have "ph_name (path_new 0 ''tls'') = ''tls''" by (simp add: path_new_def)
  ultimately show ?thesis
    using assign_proportional [of ?s "replicate 10 0" 0] sh [unfolded ps] sv [unfolded ps] unfolding ps
    by (simp add: Let_def)
qed

end
