(* ===== verification/Engine_Scores.thy ===== *)
theory Engine_Scores
  imports Transport Std_Float Std_Iter
begin

text \<open>
  How the client ranks its ways out: the history of probes (\<open>kanrin-engine/src/prober.rs\<close>), the board that
  combines local, collective and measured scores (\<open>scoreboard.rs\<close>), and the decision to switch
  (\<open>switcher.rs\<close>). Scores are \<open>f64\<close>. Clock readings are arguments.
\<close>

section \<open>Probe histories\<close>

record probe_history =
  hi_results :: "(probe_result \<times> instant) list"
  hi_avg_latency_ms :: float64
  hi_success_rate :: float64
  hi_last_checked :: instant
  hi_max_history :: nat

definition history_new :: "instant \<Rightarrow> nat \<Rightarrow> probe_history" where
  "history_new now max_history =
     \<lparr>hi_results = [], hi_avg_latency_ms = f64_lit 0, hi_success_rate = f64_lit 0, hi_last_checked = now,
      hi_max_history = max_history\<rparr>"

text \<open>The counters of \<open>recalculate\<close>: successes, total latency and the number of latencies, each 64 bits.\<close>

fun tally :: "(probe_result \<times> instant) list \<Rightarrow> u64 \<times> u64 \<times> u64 \<Rightarrow> u64 \<times> u64 \<times> u64" where
  "tally [] acc = acc"
| "tally ((Available latency_ms, _) # es) (successes, total_latency, latencies) =
     tally es (successes + 1, total_latency + ucast latency_ms, latencies + 1)"
| "tally ((ProbeBlocked _, _) # es) acc = tally es acc"
| "tally ((Unknown, _) # es) acc = tally es acc"

definition recalculate :: "probe_history \<Rightarrow> probe_history" where
  "recalculate h =
     (if hi_results h = [] then h\<lparr>hi_avg_latency_ms := f64_lit 0, hi_success_rate := f64_lit 0\<rparr>
      else
        let (successes, total_latency, latencies) = tally (hi_results h) (0, 0, 0) in
        h\<lparr>hi_success_rate := fdiv (f64_of_nat (unat successes)) (f64_of_nat (length (hi_results h))),
          hi_avg_latency_ms :=
            (if 0 < latencies then fdiv (f64_of_nat (unat total_latency)) (f64_of_nat (unat latencies))
             else f64_MAX)\<rparr>)"

definition history_record :: "instant \<Rightarrow> instant \<Rightarrow> probe_result \<Rightarrow> probe_history \<Rightarrow> probe_history" where
  "history_record now now' result h =
     (let results = hi_results h @ [(result, now)];
          h = h\<lparr>hi_results := (if hi_max_history h < length results then drop 1 results else results)\<rparr>
      in (recalculate h)\<lparr>hi_last_checked := now'\<rparr>)"

definition history_score :: "probe_history \<Rightarrow> float64" where
  "history_score h =
     (if feq (hi_success_rate h) (f64_lit 0) then f64_lit 0
      else
        let latency_factor = (if flt (f64_lit 0) (hi_avg_latency_ms h) then fdiv (f64_lit 1000) (hi_avg_latency_ms h)
                              else f64_lit 50)
        in fmul (hi_success_rate h) latency_factor)"

section \<open>The prober\<close>

record 'c prober =
  pr_endpoints :: "endpoint list"
  pr_transports :: "'c transport list"
  pr_results :: "(string, probe_history) hmap"
  pr_interval :: duration
  pr_max_history :: nat

definition prober_new :: "endpoint list \<Rightarrow> 'c transport list \<Rightarrow> duration \<Rightarrow> 'c prober" where
  "prober_new endpoints transports interval =
     \<lparr>pr_endpoints = endpoints, pr_transports = transports, pr_results = [], pr_interval = interval,
      pr_max_history = 10\<rparr>"

definition probe_key :: "'c transport \<Rightarrow> endpoint \<Rightarrow> string" where
  "probe_key t e = tr_name t @ '':'' @ ep_host e @ '':'' @ decimal (unat (ep_port e))"

text \<open>One probe; \<open>clock\<close> gives the three readings of the clock that recording it may take.\<close>

definition probe_one ::
  "instant \<times> instant \<times> instant \<Rightarrow> endpoint \<Rightarrow> 'c transport \<Rightarrow> 'c prober \<Rightarrow> 'c prober" where
  "probe_one clock e t p =
     (case clock of (t1, t2, t3) \<Rightarrow>
        let key = probe_key t e;
            history = (case hm_get (pr_results p) key of Some h \<Rightarrow> h | None \<Rightarrow> history_new t1 (pr_max_history p))
        in p\<lparr>pr_results := hm_insert key (history_record t2 t3 (tr_probe t e) history) (pr_results p)\<rparr>)"

definition prober_probe_all :: "(nat \<Rightarrow> instant \<times> instant \<times> instant) \<Rightarrow> 'c prober \<Rightarrow> 'c prober" where
  "prober_probe_all clock p =
     foldl (\<lambda>p (i, e, t). probe_one (clock i) e t p) p
       (enumerate 0 (List.product (pr_endpoints p) (pr_transports p)))"

text \<open>The background loop: a tick probes everything, the shutdown signal ends it.\<close>

datatype prober_event = Tick "nat \<Rightarrow> instant \<times> instant \<times> instant" | ShutdownChanged

fun prober_run :: "prober_event list \<Rightarrow> 'c prober \<Rightarrow> 'c prober" where
  "prober_run [] p = p"
| "prober_run (Tick clock # es) p = prober_run es (prober_probe_all clock p)"
| "prober_run (ShutdownChanged # es) p = p"

text \<open>\<open>partial_cmp\<close> with \<open>Equal\<close> for what cannot be compared: what is not greater.\<close>

definition prober_best :: "'c prober \<Rightarrow> (string \<times> float64) option" where
  "prober_best p =
     map_option (\<lambda>(k, h). (k, history_score h))
       (max_by (\<lambda>(_, a) (_, b). \<not> flt (history_score b) (history_score a)) (pr_results p))"

section \<open>The score board\<close>

record score_weights =
  wt_local :: float64
  wt_collective :: float64
  wt_measured :: float64

definition score_weights_default :: score_weights where
  "score_weights_default =
     \<lparr>wt_local = f64_lit (8 / 10), wt_collective = f64_lit (2 / 10), wt_measured = f64_lit (6 / 10)\<rparr>"

record endpoint_score =
  es_key :: string
  es_local_score :: float64
  es_collective_score :: float64
  es_measured_score :: "float64 option"
  es_combined_score :: float64

record score_board =
  bd_local_results :: "(string, probe_history) hmap"
  bd_collective_scores :: "(string, float64) hmap"
  bd_measured_scores :: "(string, float64) hmap"
  bd_weights :: score_weights

definition score_board_new :: "(string, probe_history) hmap \<Rightarrow> score_weights \<Rightarrow> score_board" where
  "score_board_new local_results weights =
     \<lparr>bd_local_results = local_results, bd_collective_scores = [], bd_measured_scores = [], bd_weights = weights\<rparr>"

definition update_measured :: "(string, float64) hmap \<Rightarrow> score_board \<Rightarrow> score_board" where
  "update_measured scores b = b\<lparr>bd_measured_scores := scores\<rparr>"

definition update_collective :: "(string, float64) hmap \<Rightarrow> score_board \<Rightarrow> score_board" where
  "update_collective scores b = b\<lparr>bd_collective_scores := scores\<rparr>"

definition blend :: "score_weights \<Rightarrow> float64 option \<Rightarrow> float64 \<Rightarrow> float64" where
  "blend weights measured_score estimated =
     (case measured_score of
        Some m \<Rightarrow>
          let w = fclamp (f64_lit 0) (f64_lit 1) (wt_measured weights)
          in fadd (fmul w m) (fmul (fsub (f64_lit 1) w) estimated)
      | None \<Rightarrow> estimated)"

definition endpoint_score_of :: "score_board \<Rightarrow> string \<times> probe_history \<Rightarrow> endpoint_score" where
  "endpoint_score_of b = (\<lambda>(key, history).
     let local_score = history_score history;
         collective_score = (case hm_get (bd_collective_scores b) key of Some c \<Rightarrow> c | None \<Rightarrow> f64_lit (1 / 2));
         estimated = fadd (fmul (wt_local (bd_weights b)) local_score)
                          (fmul (wt_collective (bd_weights b)) collective_score);
         measured_score = hm_get (bd_measured_scores b) key
     in \<lparr>es_key = key, es_local_score = local_score, es_collective_score = collective_score,
         es_measured_score = measured_score,
         es_combined_score = blend (bd_weights b) measured_score estimated\<rparr>)"

definition ranked_list :: "score_board \<Rightarrow> endpoint_score list" where
  "ranked_list b =
     sort_by (\<lambda>x y. \<not> flt (es_combined_score x) (es_combined_score y)) (map (endpoint_score_of b) (bd_local_results b))"

definition best_endpoint :: "score_board \<Rightarrow> endpoint_score option" where
  "best_endpoint b = (case ranked_list b of [] \<Rightarrow> None | e # _ \<Rightarrow> Some e)"

definition generate_report :: "score_board \<Rightarrow> (string \<times> float64) list" where
  "generate_report b = map (\<lambda>(key, history). (key, history_score history)) (bd_local_results b)"

section \<open>The switcher\<close>

text \<open>The last switch may lie before the clock's zero: \<open>new\<close> sets it a cooldown before now.\<close>

record switcher =
  sr_switch_threshold :: float64
  sr_cooldown :: duration
  sr_last_switch :: int
  sr_current_key :: "string option"

datatype switch_decision = Stay | SwitchTo string string string

definition switcher_new :: "instant \<Rightarrow> float64 \<Rightarrow> duration \<Rightarrow> switcher" where
  "switcher_new now threshold cooldown =
     \<lparr>sr_switch_threshold = threshold, sr_cooldown = cooldown, sr_last_switch = int now - int cooldown,
      sr_current_key = None\<rparr>"

definition set_current :: "string \<Rightarrow> switcher \<Rightarrow> switcher" where
  "set_current key w = w\<lparr>sr_current_key := Some key\<rparr>"

definition time_since_last_switch :: "instant \<Rightarrow> switcher \<Rightarrow> duration" where
  "time_since_last_switch now w = nat (int now - sr_last_switch w)"

definition current_score :: "string \<Rightarrow> endpoint_score list \<Rightarrow> float64" where
  "current_score current_key ranked =
     (case find (\<lambda>e. es_key e = current_key) ranked of Some e \<Rightarrow> es_combined_score e | None \<Rightarrow> f64_lit 0)"

text \<open>\<open>two_digits\<close> is the formatting of a number with two digits after the point.\<close>

definition switch_evaluate :: "(float64 \<Rightarrow> string) \<Rightarrow> instant \<Rightarrow> score_board \<Rightarrow> switcher \<Rightarrow> switch_decision" where
  "switch_evaluate two_digits now b w =
     (if time_since_last_switch now w < sr_cooldown w then Stay
      else case sr_current_key w of
        None \<Rightarrow> Stay
      | Some current_key \<Rightarrow>
          (case ranked_list b of
             [] \<Rightarrow> Stay
           | best # _ \<Rightarrow>
               let score = current_score current_key (ranked_list b)
               in if flt score (sr_switch_threshold w) \<and> es_key best \<noteq> current_key then
                    SwitchTo current_key (es_key best)
                      (''current score ('' @ two_digits score @ '') below threshold ('' @
                       two_digits (sr_switch_threshold w) @ ''), better option available ('' @
                       two_digits (es_combined_score best) @ '')'')
                  else if es_key best \<noteq> current_key \<and> flt (fmul score (f64_lit 2)) (es_combined_score best) then
                    SwitchTo current_key (es_key best)
                      (''much better option available: '' @ two_digits (es_combined_score best) @ '' vs current '' @
                       two_digits score)
                  else Stay))"

definition switcher_record_switch :: "instant \<Rightarrow> string \<Rightarrow> switcher \<Rightarrow> switcher" where
  "switcher_record_switch now new_key w = w\<lparr>sr_current_key := Some new_key, sr_last_switch := int now\<rparr>"

section \<open>Scores are sensible numbers\<close>

definition history_ok :: "probe_history \<Rightarrow> bool" where
  "history_ok h \<longleftrightarrow> length (hi_results h) \<le> hi_max_history h \<and> 0 < hi_max_history h \<and> hi_max_history h \<le> 2 ^ 50 \<and>
     in_range (2 powi 0) (hi_success_rate h) \<and> is_finite (hi_avg_latency_ms h) \<and>
     (fval (hi_avg_latency_ms h) = 0 \<or> 2 powi (- 60) \<le> fval (hi_avg_latency_ms h))"

lemma tally_bound:
  "tally es (s, t, l) = (s', t', l') \<Longrightarrow> unat s + length es < 2 ^ 64 \<Longrightarrow> unat s = unat l \<Longrightarrow>
    unat s' \<le> unat s + length es \<and> unat l' = unat s'"
proof (induction es "(s, t, l)" arbitrary: s t l rule: tally.induct)
  case (2 ms i es s t l)
  then have "s \<noteq> word_MAX" "l \<noteq> word_MAX" by (auto simp: unat_max)
  then have u: "unat (s + 1) = Suc (unat s)" "unat (l + 1) = Suc (unat l)" by (simp_all add: unat_Suc)
  then show ?case using 2 by auto
qed auto

lemma f64_MAX_ok: "is_finite f64_MAX" "2 powi (- 60) \<le> fval f64_MAX"
proof -
  show "is_finite f64_MAX" by (simp add: f64_MAX_def)
  have "(2 :: rat) powi (- 60) \<le> 2 powi 0" by (simp only: powi_le)
  also have "(2 :: rat) powi 0 \<le> 2 powi 1023" by (simp only: powi_le)
  also have "\<dots> \<le> (2 - 2 powi (- 52)) * 2 powi 1023" by (simp add: power_int_minus)
  finally show "2 powi (- 60) \<le> fval f64_MAX" by (simp only: f64_MAX_def fval.simps)
qed

lemma count_ratio:
  assumes "a < 2 ^ 64" and "0 < b" and "b \<le> 2 ^ 50"
  shows "is_finite (fdiv (f64_of_nat a) (f64_of_nat b))"
    and "fval (fdiv (f64_of_nat a) (f64_of_nat b)) = 0 \<or> 2 powi (- 60) \<le> fval (fdiv (f64_of_nat a) (f64_of_nat b))"
    and "a \<le> b \<Longrightarrow> in_range (2 powi 0) (fdiv (f64_of_nat a) (f64_of_nat b))"
proof -
  have A: "in_range (2 powi 64) (f64_of_nat a)" "fval (f64_of_nat a) = rnd (of_nat a)"
    using f64_of_nat_val [of a] assms(1) by simp_all
  have b53: "b < 2 ^ 53" using assms(3) by simp
  have B: "is_finite (f64_of_nat b)" "fval (f64_of_nat b) = of_nat b"
    using f64_of_nat_val(1) [of b] f64_of_nat_exact [OF b53] b53 by simp_all
  have b1: "1 \<le> fval (f64_of_nat b)" using assms(2) by (simp add: B)
  note d = in_range_fdiv [OF A(1) B(1) _ b1, of 64, simplified]
  show "is_finite (fdiv (f64_of_nat a) (f64_of_nat b))" using d(1) by (simp add: in_range_def)
  show "fval (fdiv (f64_of_nat a) (f64_of_nat b)) = 0 \<or> 2 powi (- 60) \<le> fval (fdiv (f64_of_nat a) (f64_of_nat b))"
  proof (cases "a = 0")
    case True
    then show ?thesis using d(2) A(2) by simp
  next
    case False
    then have "1 \<le> rnd (of_nat a)" by (intro rnd_ge) (simp_all add: rnd_1)
    moreover have "(of_nat b :: rat) \<le> of_nat (2 ^ 50)" using assms(3) by (simp only: of_nat_le_iff)
    ultimately have "1 / 2 ^ 50 \<le> rnd (of_nat a) / of_nat b" using assms(2) by (intro frac_le) simp_all
    moreover have "2 powi (- 60) \<le> (1 / 2 ^ 50 :: rat)" by (simp add: power_int_minus)
    ultimately have "2 powi (- 60) \<le> rnd (of_nat a) / of_nat b" by linarith
    then have "2 powi (- 60) \<le> fval (fdiv (f64_of_nat a) (f64_of_nat b))"
      unfolding d(2) A(2) B(2) by (intro rnd_ge) (simp_all only: rnd_pow2, simp_all)
    then show ?thesis ..
  qed
  show "in_range (2 powi 0) (fdiv (f64_of_nat a) (f64_of_nat b))" if "a \<le> b"
  proof -
    have "fval (f64_of_nat a) = of_nat a" using that b53 by (intro f64_of_nat_exact) simp
    then have "fval (fdiv (f64_of_nat a) (f64_of_nat b)) \<le> 1"
      unfolding d(2) B(2) using that assms(2) by (intro rnd_le) (simp_all add: rnd_1)
    then show ?thesis using d(1) by (simp add: in_range_def)
  qed
qed

lemma history_new_ok: "0 < n \<Longrightarrow> n \<le> 2 ^ 50 \<Longrightarrow> history_ok (history_new now n)"
  by (simp add: history_ok_def history_new_def in_range_def)

lemma recalculate_ok:
  assumes "length (hi_results h) \<le> hi_max_history h" and "0 < hi_max_history h" and "hi_max_history h \<le> 2 ^ 50"
  shows "history_ok (recalculate h)"
proof (cases "hi_results h = []")
  case True
  then show ?thesis using assms by (simp add: history_ok_def recalculate_def in_range_def)
next
  case False
  obtain s t l where t: "tally (hi_results h) (0, 0, 0) = (s, t, l)" by (cases "tally (hi_results h) (0, 0, 0)") auto
  have n: "length (hi_results h) \<le> 2 ^ 50" "0 < length (hi_results h)" using assms False by simp_all
  then have c: "unat s \<le> length (hi_results h)" "unat l = unat s" using tally_bound [OF t] by simp_all
  have l: "0 < unat l \<longleftrightarrow> 0 < l" by (simp add: word_less_nat_alt)
  have rate: "in_range (2 powi 0) (fdiv (f64_of_nat (unat s)) (f64_of_nat (length (hi_results h))))"
    by (rule count_ratio(3)) (use c n unat_lt [of s] in simp_all)
  have "is_finite (fdiv (f64_of_nat (unat t)) (f64_of_nat (unat l))) \<and>
      (fval (fdiv (f64_of_nat (unat t)) (f64_of_nat (unat l))) = 0 \<or>
       2 powi (- 60) \<le> fval (fdiv (f64_of_nat (unat t)) (f64_of_nat (unat l))))" if "0 < l"
    using count_ratio(1,2) [of "unat t" "unat l"] unat_lt [of t] that l c n by simp
  then show ?thesis using False assms t rate f64_MAX_ok
    by (auto simp: history_ok_def recalculate_def simp del: power_int_numeral power_int_minus)
qed

lemma history_record_ok: "history_ok h \<Longrightarrow> history_ok (history_record now now' r h)"
proof -
  assume h: "history_ok h"
  define g where "g = h\<lparr>hi_results := (if hi_max_history h < length (hi_results h @ [(r, now)])
    then drop 1 (hi_results h @ [(r, now)]) else hi_results h @ [(r, now)])\<rparr>"
  have "history_ok (recalculate g)"
    using h by (intro recalculate_ok) (auto simp: g_def history_ok_def)
  then have "history_ok ((recalculate g)\<lparr>hi_last_checked := now'\<rparr>)" by (simp add: history_ok_def)
  moreover have "history_record now now' r h = (recalculate g)\<lparr>hi_last_checked := now'\<rparr>"
    by (simp only: history_record_def Let_def g_def)
  ultimately show ?thesis by simp
qed

lemma history_score_range:
  assumes "history_ok h"
  shows "in_range (2 powi 70) (history_score h)"
proof -
  have r: "in_range (2 powi 0) (hi_success_rate h)" and a: "is_finite (hi_avg_latency_ms h)"
    "fval (hi_avg_latency_ms h) = 0 \<or> 2 powi (- 60) \<le> fval (hi_avg_latency_ms h)"
    using assms by (simp_all add: history_ok_def)
  define f where "f = (if flt (f64_lit 0) (hi_avg_latency_ms h) then fdiv (f64_lit 1000) (hi_avg_latency_ms h) else f64_lit 50)"
  have lits: "f64_lit 1000 = Fin 1000" "f64_lit 50 = Fin 50" by (simp_all add: f64_lit_numeral)
  have "in_range (2 powi 70) f"
  proof (cases "fval (hi_avg_latency_ms h) = 0")
    case True
    then show ?thesis using a by (simp add: f_def flt_finite lits in_range_def)
  next
    case False
    then have m: "2 powi (- 60) \<le> fval (hi_avg_latency_ms h)" using a(2) by blast
    have "(2 :: rat) powi (- 60) > 0" by (rule powi_pos)
    then have "flt (f64_lit 0) (hi_avg_latency_ms h)" using a(1) m by (simp only: flt_finite f64_lit_0 is_finite.simps) simp
    moreover have "in_range (2 powi 70) (fdiv (Fin 1000) (hi_avg_latency_ms h))"
      by (rule in_range_fdiv(1) [OF _ a(1) powi_pos m, of 1000]) (simp_all add: in_range_def power_int_minus)
    ultimately show ?thesis by (simp add: f_def lits)
  qed
  then have "in_range (2 powi 70) (fmul (hi_success_rate h) f)"
    by (rule in_range_fmul [OF r]) simp_all
  moreover have "history_score h = (if feq (hi_success_rate h) (f64_lit 0) then f64_lit 0 else fmul (hi_success_rate h) f)"
    by (simp only: history_score_def Let_def f_def)
  moreover have "in_range (2 powi 70) (f64_lit 0)" by (simp add: in_range_def)
  ultimately show ?thesis by (simp only: split: if_split) blast
qed

section \<open>What the prober collects\<close>

definition prober_ok :: "'c prober \<Rightarrow> bool" where
  "prober_ok p \<longleftrightarrow> pr_max_history p = 10 \<and> hm_wf (pr_results p) \<and>
     (\<forall>(k, h)\<in>set (pr_results p). history_ok h \<and> hi_max_history h = 10) \<and>
     fst ` set (pr_results p) \<subseteq> (\<lambda>(e, t). probe_key t e) ` set (List.product (pr_endpoints p) (pr_transports p))"

lemma prober_ok_new: "prober_ok (prober_new es ts i)"
  by (simp add: prober_ok_def prober_new_def)

lemma set_hm_insert: "hm_wf m \<Longrightarrow> set (hm_insert k v m) = insert (k, v) {(k', v'). (k', v') \<in> set m \<and> k' \<noteq> k}"
  by (induction m) (auto simp: hm_insert_def hm_wf_def image_iff)

lemma keys_hm_insert: "fst ` set (hm_insert k v m) = insert k (fst ` set m)"
  by (simp add: hm_insert_def dom_update)

lemma hm_get_in: "hm_get m k = Some v \<Longrightarrow> (k, v) \<in> set m"
  by (simp add: hm_get_def map_of_SomeD)

lemma recalculate_max [simp]: "hi_max_history (recalculate h) = hi_max_history h"
  by (simp add: recalculate_def split: prod.split)

lemma history_record_max [simp]: "hi_max_history (history_record now now' r h) = hi_max_history h"
  by (simp add: history_record_def Let_def)

lemma probe_one_static [simp]:
  "pr_endpoints (probe_one c e t p) = pr_endpoints p" "pr_transports (probe_one c e t p) = pr_transports p"
  by (simp_all add: probe_one_def Let_def split: prod.split)

lemma probe_one_keys: "fst ` set (pr_results (probe_one c e t p)) = insert (probe_key t e) (fst ` set (pr_results p))"
  by (simp add: probe_one_def keys_hm_insert Let_def split: prod.split)

lemma probe_one_ok:
  assumes p: "prober_ok p" and e: "e \<in> set (pr_endpoints p)" and t: "t \<in> set (pr_transports p)"
  shows "prober_ok (probe_one clock e t p)"
proof -
  obtain t1 t2 t3 where c: "clock = (t1, t2, t3)" by (cases clock)
  define h where "h = (case hm_get (pr_results p) (probe_key t e) of Some h \<Rightarrow> h | None \<Rightarrow> history_new t1 (pr_max_history p))"
  have "history_ok h \<and> hi_max_history h = 10"
    using p hm_get_in by (fastforce simp: h_def prober_ok_def history_new_def history_ok_def in_range_def split: option.split)
  then have new: "history_ok (history_record t2 t3 (tr_probe t e) h) \<and> hi_max_history (history_record t2 t3 (tr_probe t e) h) = 10"
    by (simp add: history_record_ok)
  have r: "pr_results (probe_one clock e t p) =
      hm_insert (probe_key t e) (history_record t2 t3 (tr_probe t e) h) (pr_results p)"
    "pr_max_history (probe_one clock e t p) = pr_max_history p"
    by (simp_all add: probe_one_def c h_def Let_def)
  have wf: "hm_wf (pr_results p)" using p by (simp add: prober_ok_def)
  have "hm_wf (pr_results (probe_one clock e t p))" unfolding r by (rule hmap.invar_insert [OF wf])
  moreover have "\<forall>(k, h)\<in>set (pr_results (probe_one clock e t p)). history_ok h \<and> hi_max_history h = 10"
    unfolding r set_hm_insert [OF wf] using p new by (auto simp: prober_ok_def)
  moreover have "fst ` set (pr_results (probe_one clock e t p)) \<subseteq>
      (\<lambda>(e, t). probe_key t e) ` set (List.product (pr_endpoints p) (pr_transports p))"
    unfolding probe_one_keys using p e t by (auto simp: prober_ok_def)
  ultimately show ?thesis using p r(2) by (simp add: prober_ok_def)
qed

lemma probe_fold:
  assumes "prober_ok p" and "\<forall>(i, e, t)\<in>set xs. e \<in> set (pr_endpoints p) \<and> t \<in> set (pr_transports p)"
  shows "let q = foldl (\<lambda>p (i, e, t). probe_one (clock i) e t p) p xs in
    prober_ok q \<and> pr_endpoints q = pr_endpoints p \<and> pr_transports q = pr_transports p \<and>
    fst ` set (pr_results q) = fst ` set (pr_results p) \<union> (\<lambda>(i, e, t). probe_key t e) ` set xs"
  using assms
proof (induction xs arbitrary: p)
  case Nil
  then show ?case by (simp add: Let_def)
next
  case (Cons x xs)
  obtain i e t where x: "x = (i, e, t)" by (cases x)
  have "prober_ok (probe_one (clock i) e t p)" using Cons.prems by (intro probe_one_ok) (auto simp: x)
  then show ?case using Cons.IH [of "probe_one (clock i) e t p"] Cons.prems
    by (auto simp: x Let_def probe_one_keys)
qed

abbreviation all_keys :: "'c prober \<Rightarrow> string set" where
  "all_keys p \<equiv> (\<lambda>(e, t). probe_key t e) ` (set (pr_endpoints p) \<times> set (pr_transports p))"

lemma probe_all_ok:
  assumes "prober_ok p"
  shows "prober_ok (prober_probe_all clock p)"
    and "pr_endpoints (prober_probe_all clock p) = pr_endpoints p"
    and "pr_transports (prober_probe_all clock p) = pr_transports p"
    and "fst ` set (pr_results (prober_probe_all clock p)) = all_keys p"
proof -
  let ?xs = "enumerate 0 (List.product (pr_endpoints p) (pr_transports p))"
  have sub: "snd ` set ?xs = set (pr_endpoints p) \<times> set (pr_transports p)" by (simp flip: set_map)
  then have "\<forall>(i, e, t)\<in>set ?xs. e \<in> set (pr_endpoints p) \<and> t \<in> set (pr_transports p)"
    by (metis (no_types, lifting) SigmaE2 case_prodI2 image_eqI snd_conv)
  note f = probe_fold [OF assms this, of clock, unfolded Let_def, folded prober_probe_all_def]
  show "prober_ok (prober_probe_all clock p)" "pr_endpoints (prober_probe_all clock p) = pr_endpoints p"
    "pr_transports (prober_probe_all clock p) = pr_transports p"
    using f by simp_all
  have "(\<lambda>(i, e, t). probe_key t e) ` set ?xs = (\<lambda>(e, t). probe_key t e) ` (snd ` set ?xs)"
    by (simp add: image_image case_prod_beta)
  then show "fst ` set (pr_results (prober_probe_all clock p)) = all_keys p"
    using f assms unfolding sub by (auto simp: prober_ok_def)
qed

text \<open>The background prober measures everything and its scores are sensible: once it has run, every
  endpoint has a history with every transport and nothing else has, each of at most ten results, with a
  success rate between 0 and 1 and a score that is a number from 0 to \<open>2 ^ 70\<close>; shutting down stops it.\<close>

lemma prober_histories:
  fixes endpoints :: "endpoint list" and transports :: "'c transport list"
  assumes "ticks \<noteq> []"
  shows "(let p = prober_run (map Tick ticks @ ShutdownChanged # later) (prober_new endpoints transports interval) in
    hm_wf (pr_results p) \<and>
    fst ` set (pr_results p) = (\<lambda>(e, t). probe_key t e) ` (set endpoints \<times> set transports) \<and>
    (\<forall>(k, h)\<in>set (pr_results p). length (hi_results h) \<le> 10 \<and>
      is_finite (hi_success_rate h) \<and> 0 \<le> fval (hi_success_rate h) \<and> fval (hi_success_rate h) \<le> 1 \<and>
      is_finite (history_score h) \<and> 0 \<le> fval (history_score h) \<and> fval (history_score h) \<le> 2 ^ 70))"
proof -
  define p0 where "p0 = prober_new endpoints transports interval"
  have run: "prober_ok p \<Longrightarrow> ticks \<noteq> [] \<Longrightarrow> prober_ok (prober_run (map Tick ticks @ ShutdownChanged # later) p) \<and>
      fst ` set (pr_results (prober_run (map Tick ticks @ ShutdownChanged # later) p)) = all_keys p" for p :: "'c prober"
  proof (induction ticks arbitrary: p)
    case (Cons c ticks)
    then show ?case using probe_all_ok [OF Cons.prems(1), of c] by (cases ticks) auto
  qed simp
  define p where "p = prober_run (map Tick ticks @ ShutdownChanged # later) p0"
  have p: "prober_ok p" "fst ` set (pr_results p) = (\<lambda>(e, t). probe_key t e) ` (set endpoints \<times> set transports)"
    using run [of p0] assms prober_ok_new [of endpoints transports interval]
    by (simp_all add: p_def p0_def prober_new_def)
  have "history_ok h \<and> hi_max_history h = 10" if "(k, h) \<in> set (pr_results p)" for k h
    using p(1) that by (auto simp: prober_ok_def)
  then have "length (hi_results h) \<le> 10 \<and> in_range (2 powi 0) (hi_success_rate h) \<and> in_range (2 powi 70) (history_score h)"
    if "(k, h) \<in> set (pr_results p)" for k h
    using that history_score_range unfolding history_ok_def by metis
  then show ?thesis using p unfolding p_def [symmetric] p0_def [symmetric] Let_def by (auto simp: prober_ok_def in_range_def)
qed

section \<open>What the ranking means\<close>

definition board_ok :: "score_board \<Rightarrow> bool" where
  "board_ok b \<longleftrightarrow> bd_weights b = score_weights_default \<and> (\<forall>(k, h)\<in>set (bd_local_results b). history_ok h) \<and>
     (\<forall>(k, c)\<in>set (bd_collective_scores b). in_range (2 powi 70) c) \<and>
     (\<forall>(k, m)\<in>set (bd_measured_scores b). in_range (2 powi 70) m)"

lemma default_weights:
  "wt_local score_weights_default = Fin (3602879701896397 / 4503599627370496)"
  "wt_collective score_weights_default = Fin (3602879701896397 / 18014398509481984)"
  "wt_measured score_weights_default = Fin (5404319552844595 / 9007199254740992)"
  using f64_lit_near [of 1 "8 / 10" 7205759403792794] f64_lit_near [of 3 "2 / 10" 7205759403792794]
    f64_lit_near [of 1 "6 / 10" 5404319552844595]
  by (simp_all add: score_weights_default_def)

lemma measured_weight: "fclamp (f64_lit 0) (f64_lit 1) (wt_measured score_weights_default) = wt_measured score_weights_default"
  by (simp add: default_weights fclamp_def flt_finite)

text \<open>\<open>1.0 - 0.6\<close>\<close>

lemma estimate_weight:
  "fsub (f64_lit 1) (wt_measured score_weights_default) = Fin (3602879701896397 / 9007199254740992)"
proof -
  have "rnd (3602879701896397 / 9007199254740992) = 3602879701896397 / 9007199254740992"
    using rnd_exact [of 3602879701896397 "- 53"] by (simp add: power_int_minus)
  moreover have "(3602879701896397 / 9007199254740992 :: rat) \<le> 2 powi 1023"
  proof -
    have "(3602879701896397 / 9007199254740992 :: rat) \<le> 2 powi 0" by simp
    also have "(2 :: rat) powi 0 \<le> 2 powi 1023" by (simp only: powi_le)
    finally show ?thesis .
  qed
  ultimately have "float_of binary64 False (3602879701896397 / 9007199254740992) = Fin (3602879701896397 / 9007199254740992)"
    by (intro float_of_rep) simp_all
  then show ?thesis by (simp add: default_weights fsub_def fneg_def fadd_def)
qed

lemma combined_range:
  assumes "board_ok b" and "(k, h) \<in> set (bd_local_results b)"
  shows "in_range (2 powi 72) (es_combined_score (endpoint_score_of b (k, h)))"
proof -
  have c: "in_range (2 powi 70) (case hm_get (bd_collective_scores b) k of Some c \<Rightarrow> c | None \<Rightarrow> f64_lit (1 / 2))"
    using assms(1) by (auto simp: board_ok_def hm_get_def in_range_def dest!: map_of_SomeD split: option.split)
  have l: "in_range (2 powi 70) (history_score h)"
    using assms by (intro history_score_range) (auto simp: board_ok_def)
  have w: "bd_weights b = score_weights_default" using assms(1) by (simp add: board_ok_def)
  define est where "est = fadd (fmul (wt_local (bd_weights b)) (history_score h))
    (fmul (wt_collective (bd_weights b)) (case hm_get (bd_collective_scores b) k of Some c \<Rightarrow> c | None \<Rightarrow> f64_lit (1 / 2)))"
  have "in_range 1 (wt_local (bd_weights b))" "in_range 1 (wt_collective (bd_weights b))" "in_range 1 (wt_measured (bd_weights b))"
    by (simp_all add: w default_weights in_range_def)
  note W = this
  have est: "in_range (2 powi 71) est" unfolding est_def
    by (rule in_range_fadd [OF in_range_fmul [OF W(1) l, of 70] in_range_fmul [OF W(2) c, of 70]]) simp_all
  have "in_range (2 powi 72) (blend (bd_weights b) ms est)" if "ms = None \<or> (\<exists>m. ms = Some m \<and> in_range (2 powi 70) m)" for ms
  proof (cases ms)
    case None
    then show ?thesis using in_range_mono [OF est, of "2 powi 72"] by (simp add: blend_def)
  next
    case (Some m)
    then have m: "in_range (2 powi 70) m" using that by simp
    have e1: "in_range 1 (fsub (f64_lit 1) (wt_measured (bd_weights b)))" unfolding w estimate_weight by (simp add: in_range_def)
    have "in_range (2 powi 72) (fadd (fmul (wt_measured (bd_weights b)) m) (fmul (fsub (f64_lit 1) (wt_measured (bd_weights b))) est))"
      by (rule in_range_fadd [OF in_range_fmul [OF W(3) m, of 70] in_range_fmul [OF e1 est, of 71]]) simp_all
    then show ?thesis unfolding Some blend_def by (simp only: option.case Let_def w measured_weight)
  qed
  moreover have "ms = None \<or> (\<exists>m. ms = Some m \<and> in_range (2 powi 70) m)" if "hm_get (bd_measured_scores b) k = ms" for ms
    using assms(1) that by (cases ms) (auto simp: board_ok_def dest!: hm_get_in)
  ultimately show ?thesis by (simp add: endpoint_score_of_def Let_def est_def)
qed

interpretation by_score: preference "\<lambda>x y. fval (es_combined_score y) \<le> fval (es_combined_score x)"
  by unfold_locales auto

text \<open>The ranking of sensible scores holds every known way out once, best first, and the best endpoint is
  the one no other beats.\<close>

lemma ranked_list_sorted:
  assumes "board_ok b"
  shows "mset (ranked_list b) = mset (map (endpoint_score_of b) (bd_local_results b)) \<and>
    sorted_wrt (\<lambda>x y. fval (es_combined_score y) \<le> fval (es_combined_score x)) (ranked_list b) \<and>
    (best_endpoint b = None \<longleftrightarrow> bd_local_results b = []) \<and>
    (\<forall>e. best_endpoint b = Some e \<longrightarrow> e \<in> set (ranked_list b) \<and>
      (\<forall>x\<in>set (ranked_list b). fval (es_combined_score x) \<le> fval (es_combined_score e)))"
proof -
  let ?scores = "map (endpoint_score_of b) (bd_local_results b)"
  have fin: "is_finite (es_combined_score x)" if "x \<in> set ?scores" for x
    using that combined_range [OF assms] by (auto simp: in_range_def)
  have r: "ranked_list b = sort_by (\<lambda>x y. fval (es_combined_score y) \<le> fval (es_combined_score x)) ?scores"
    unfolding ranked_list_def by (rule sort_by_cong) (use fin in \<open>simp add: flt_finite linorder_not_less\<close>)
  then have s: "sorted_wrt (\<lambda>x y. fval (es_combined_score y) \<le> fval (es_combined_score x)) (ranked_list b)"
    using by_score.sorted_sort_by by simp
  have m: "mset (ranked_list b) = mset ?scores" unfolding ranked_list_def by simp
  have "best_endpoint b = None \<longleftrightarrow> ranked_list b = []" by (simp add: best_endpoint_def split: list.split)
  also have "\<dots> \<longleftrightarrow> bd_local_results b = []" using m by (metis list.map_disc_iff mset_zero_iff)
  finally have none: "best_endpoint b = None \<longleftrightarrow> bd_local_results b = []" .
  have "e \<in> set (ranked_list b) \<and> (\<forall>x\<in>set (ranked_list b). fval (es_combined_score x) \<le> fval (es_combined_score e))"
    if "best_endpoint b = Some e" for e
    using that s by (cases "ranked_list b") (auto simp: best_endpoint_def)
  then show ?thesis using m s none by blast
qed

section \<open>Switching\<close>

lemma switch_evaluate_SwitchTo:
  assumes "switch_evaluate two_digits now b w = SwitchTo from to reason"
  shows "sr_cooldown w \<le> time_since_last_switch now w" and "sr_current_key w = Some from" and "to \<noteq> from"
    and "\<exists>best. best_endpoint b = Some best \<and> es_key best = to \<and>
      (flt (current_score from (ranked_list b)) (sr_switch_threshold w) \<or>
       flt (fmul (current_score from (ranked_list b)) (f64_lit 2)) (es_combined_score best))"
  using assms unfolding switch_evaluate_def best_endpoint_def Let_def
  by (simp_all only: switch_decision.distinct switch_decision.inject split: if_split_asm option.split_asm list.split_asm) auto

text \<open>The decisions acted on: every switch is recorded when it is decided.\<close>

fun switcher_run :: "(float64 \<Rightarrow> string) \<Rightarrow> (instant \<times> score_board) list \<Rightarrow> switcher \<Rightarrow> (instant \<times> string \<times> string) list" where
  "switcher_run two_digits [] w = []"
| "switcher_run two_digits ((now, b) # es) w =
     (case switch_evaluate two_digits now b w of
        Stay \<Rightarrow> switcher_run two_digits es w
      | SwitchTo from to _ \<Rightarrow> (now, from, to) # switcher_run two_digits es (switcher_record_switch now to w))"

lemma switcher_record_simps [simp]:
  "sr_cooldown (switcher_record_switch now k w) = sr_cooldown w" "sr_last_switch (switcher_record_switch now k w) = int now"
  "sr_current_key (switcher_record_switch now k w) = Some k"
  by (simp_all add: switcher_record_switch_def)

lemma switcher_run_spaced:
  assumes "0 < sr_cooldown w"
  shows "sorted_wrt (\<lambda>x y. fst x + sr_cooldown w \<le> fst y) (switcher_run two_digits es w) \<and>
    (\<forall>x\<in>set (switcher_run two_digits es w). sr_last_switch w + int (sr_cooldown w) \<le> int (fst x))"
  using assms
proof (induction es arbitrary: w)
  case Nil
  then show ?case by simp
next
  case (Cons e es)
  obtain now b where e: "e = (now, b)" by (cases e)
  show ?case
  proof (cases "switch_evaluate two_digits now b w")
    case Stay
    then show ?thesis using Cons e by simp
  next
    case (SwitchTo src dst reason)
    have "sr_cooldown w \<le> time_since_last_switch now w" by (rule switch_evaluate_SwitchTo(1) [OF SwitchTo])
    then have d: "sr_last_switch w + int (sr_cooldown w) \<le> int now"
      using Cons.prems by (simp add: time_since_last_switch_def)
    have IH: "sorted_wrt (\<lambda>x y. fst x + sr_cooldown w \<le> fst y) (switcher_run two_digits es (switcher_record_switch now dst w)) \<and>
      (\<forall>x\<in>set (switcher_run two_digits es (switcher_record_switch now dst w)). int now + int (sr_cooldown w) \<le> int (fst x))"
      using Cons.IH [of "switcher_record_switch now dst w"] Cons.prems by simp
    then have "\<forall>x\<in>set (switcher_run two_digits es (switcher_record_switch now dst w)).
        sr_last_switch w + int (sr_cooldown w) \<le> int (fst x) \<and> now + sr_cooldown w \<le> fst x"
      using d by fastforce
    then show ?thesis using IH d SwitchTo e by auto
  qed
qed

text \<open>Each switch leaves the way out chosen before, for another one.\<close>

fun linked :: "string \<Rightarrow> (instant \<times> string \<times> string) list \<Rightarrow> bool" where
  "linked k [] = True"
| "linked k ((_, from, to) # xs) \<longleftrightarrow> from = k \<and> to \<noteq> k \<and> linked to xs"

lemma switcher_run_linked: "sr_current_key w = Some k \<Longrightarrow> linked k (switcher_run two_digits es w)"
proof (induction es arbitrary: w k)
  case Nil
  then show ?case by simp
next
  case (Cons e es)
  obtain now b where e: "e = (now, b)" by (cases e)
  show ?case
  proof (cases "switch_evaluate two_digits now b w")
    case Stay
    then show ?thesis using Cons e by simp
  next
    case (SwitchTo src dst reason)
    then show ?thesis using switch_evaluate_SwitchTo(2,3) [OF SwitchTo] Cons e by simp
  qed
qed

text \<open>The switcher does not thrash: however the boards change, two switches lie at least the cooldown apart,
  each leaves the way out the previous one chose, and none goes to the way out in use.\<close>

lemma switcher_spaced:
  assumes "0 < sr_cooldown w" and "sr_current_key w = Some k"
  shows "sorted_wrt (\<lambda>x y. fst x + sr_cooldown w \<le> fst y) (switcher_run two_digits es w) \<and>
    linked k (switcher_run two_digits es w)"
  using switcher_run_spaced [OF assms(1)] switcher_run_linked [OF assms(2)] by blast

section \<open>Two surprises in the scale of the scores\<close>

lemma f64_of_nat_Fin: "n < 2 ^ 53 \<Longrightarrow> f64_of_nat n = Fin (of_nat n)"
  using float_of_ratio [of "int n" 0] by (simp add: f64_of_nat_def)

lemma one_probe_score:
  assumes "unat ms = n" and "n < 1000"
  shows "history_score (history_record t2 t3 (Available ms) (history_new t1 10)) =
    fmul (Fin 1) (if n = 0 then Fin 50 else fdiv (Fin 1000) (Fin (of_nat n)))"
proof -
  have u: "unat (ucast ms :: u64) = n" using assms by (simp add: unsigned_ucast_eq take_bit_nat_eq_self)
  have one: "fdiv (Fin 1) (Fin 1) = Fin 1" and n: "fdiv (Fin (of_nat n)) (Fin 1) = Fin (of_nat n)"
    using float_of_ratio [of 1 0] float_of_ratio [of "int n" 0] assms(2) by (simp_all add: fdiv_def)
  have lits: "f64_of_nat (Suc 0) = Fin 1" "f64_of_nat n = Fin (of_nat n)" "f64_lit 1000 = Fin 1000" "f64_lit 50 = Fin 50"
    using assms(2) by (simp_all add: f64_of_nat_Fin f64_lit_numeral)
  define h where "h = history_record t2 t3 (Available ms) (history_new t1 10)"
  have h: "hi_success_rate h = Fin 1" "hi_avg_latency_ms h = Fin (of_nat n)"
    using lits by (simp_all add: h_def history_record_def history_new_def recalculate_def u one n)
  show ?thesis unfolding h_def [symmetric] by (simp add: history_score_def h lits flt_finite feq_finite)
qed

text \<open>A way out that answers within the millisecond scores worse than one that takes longer: a probe of 0 ms
  scores 50, below any probe that took from 1 to 19 ms.\<close>

lemma zero_latency_scores_low:
  assumes "0 < ms" and "ms < 20"
  shows "flt (history_score (history_record t2 t3 (Available 0) (history_new t1 10)))
    (history_score (history_record t2 t3 (Available ms) (history_new t1 10)))"
proof -
  obtain n where n: "unat ms = n" "0 < n" "n < 20" using assms by (simp add: word_less_nat_alt)
  define q :: rat where "q = 1000 / of_nat n"
  have q: "52 \<le> q" using n(2,3) by (simp add: q_def pos_le_divide_eq)
  define f where "f = fdiv (Fin 1000) (Fin (of_nat n))"
  have f: "in_range (2 powi 10) f" "fval f = rnd q"
    using in_range_fdiv [of 1000 "Fin 1000" "Fin (of_nat n)" 1 10] n(2) by (simp_all add: in_range_def q_def f_def)
  have g: "in_range (2 powi 10) (fmul (Fin 1) f)"
    by (rule in_range_fmul [OF _ f(1), of 1]) (simp_all add: in_range_def)
  have "1 * fval f \<le> 2 powi 10" using f(1) by (simp add: in_range_def)
  also have "(2 :: rat) powi 10 \<le> 2 powi 1023" by (simp only: powi_le)
  finally have "fval (fmul (Fin 1) f) = rnd (fval f)"
    using fmul_val(2) [of "Fin 1" f] f(1) by (simp add: in_range_def)
  moreover have "52 \<le> rnd q" using q by (intro rnd_ge) (simp_all add: rnd_numeral)
  then have "52 \<le> rnd (rnd q)" by (rule rnd_ge [rotated]) (simp_all add: rnd_numeral)
  ultimately have "52 \<le> fval (fmul (Fin 1) f)" using f(2) by simp
  moreover have "fmul (Fin 1) (Fin 50) = Fin 50" using float_of_ratio [of 50 0] by (simp add: fmul_def)
  moreover have "history_score (history_record t2 t3 (Available ms) (history_new t1 10)) = fmul (Fin 1) f"
    using one_probe_score [OF n(1)] n(2,3) by (simp add: f_def)
  ultimately show ?thesis using g one_probe_score [of 0 0] by (simp add: flt_finite in_range_def)
qed

text \<open>The combined score with a measurement, bounded.\<close>

lemma weighted_measurement:
  assumes "in_range 1 m"
  shows "in_range (5404319552844595 / 9007199254740992) (fmul (Fin (5404319552844595 / 9007199254740992)) m)"
proof -
  let ?w = "5404319552844595 / 9007199254740992 :: rat"
  have le: "?w * fval m \<le> ?w" using assms by (simp add: in_range_def)
  then have "fval (Fin ?w) * fval m \<le> 2 powi 0" by simp
  moreover have "(2 :: rat) powi 0 \<le> 2 powi 1023" by (simp only: powi_le)
  ultimately have "fval (Fin ?w) * fval m \<le> 2 powi 1023" by (rule order_trans)
  note v = fmul_val [OF _ _ _ _ this]
  have "rnd ?w = ?w" using rnd_exact [of 5404319552844595 "- 53"] by (simp add: power_int_minus)
  then show ?thesis using v assms rnd_le [OF _ le] rnd_nonneg by (simp add: in_range_def)
qed

lemma weighted_estimate:
  assumes est: "in_range (2 powi 72) est" and big: "4 \<le> fval est"
  defines "v \<equiv> Fin (3602879701896397 / 9007199254740992)"
  shows "in_range (2 powi 72) (fmul v est)" and "1 \<le> fval (fmul v est)" and "fval (fmul v est) \<le> 41 / 100 * fval est"
proof -
  show "in_range (2 powi 72) (fmul v est)" by (rule in_range_fmul [OF _ est, of 1]) (simp_all add: in_range_def v_def)
  define M :: rat where "M = 2 powi 1023"
  have p: "2 powi 72 \<le> M" by (simp only: M_def powi_le)
  define r where "r = 3602879701896397 / 9007199254740992 * fval est"
  have e: "is_finite est" "fval est \<le> 2 powi 72" using est by (simp_all add: in_range_def)
  have "fval v * fval est \<le> M" using e(2) p big by (simp add: v_def)
  then have vr: "fval (fmul v est) = rnd r"
    using fmul_val(2) [of v est, folded M_def] e(1) big by (simp add: r_def v_def)
  have r: "1 \<le> r" "r \<le> 401 / 1000 * fval est" using big by (simp_all add: r_def)
  have "(2 :: rat) powi (- 1022) \<le> 2 powi 0" by (simp only: powi_le)
  then have "rnd r \<le> r + r / 2 ^ 52" using r(1) by (intro rnd_relative) simp
  then show "fval (fmul v est) \<le> 41 / 100 * fval est" unfolding vr using r by simp
  show "1 \<le> fval (fmul v est)" unfolding vr using r(1) by (intro rnd_ge) (simp_all add: rnd_1)
qed

lemma blend_measured_less:
  assumes m: "in_range 1 m" and est: "in_range (2 powi 72) est" and big: "4 \<le> fval est"
  shows "fval (blend score_weights_default (Some m) est) < fval est"
proof -
  let ?x = "fmul (Fin (5404319552844595 / 9007199254740992)) m"
  let ?y = "fmul (Fin (3602879701896397 / 9007199254740992)) est"
  have "blend score_weights_default (Some m) est = fadd (fmul (wt_measured score_weights_default) m)
      (fmul (fsub (f64_lit 1) (wt_measured score_weights_default)) est)"
    unfolding blend_def option.case Let_def measured_weight ..
  note b = this [unfolded estimate_weight, unfolded default_weights(3)]
  note x = weighted_measurement [OF m] and y = weighted_estimate [OF est big]
  define s where "s = fval ?x + fval ?y"
  have s: "1 \<le> s" "s \<le> 6 / 10 * fval est" using x y big by (simp_all add: s_def in_range_def)
  define M :: rat where "M = 2 powi 1023"
  have "2 powi 72 \<le> M" by (simp only: M_def powi_le)
  then have "s \<le> M" using s(2) est big by (simp add: in_range_def)
  then have "fval (fadd ?x ?y) = rnd s"
    using fadd_val(2) [of ?x ?y, folded M_def] x y(1) by (simp add: s_def in_range_def)
  also have "(2 :: rat) powi (- 1022) \<le> 2 powi 0" by (simp only: powi_le)
  then have "rnd s \<le> s + s / 2 ^ 52" using s(1) by (intro rnd_relative) simp
  also have "\<dots> < fval est" using s(2) big by simp
  finally show ?thesis unfolding b .
qed

text \<open>Being measured costs rank: measurements live between 0 and 1 and estimates do not, so even a perfect
  measurement lowers the combined score of every way out whose estimate is 4 or more.\<close>

lemma measurement_lowers_score:
  assumes "board_ok b" and "(k, h) \<in> set (bd_local_results b)"
    and "hm_get (bd_measured_scores b) k = Some m" and "fval m \<le> 1"
    and "4 \<le> fval (es_combined_score (endpoint_score_of (update_measured [] b) (k, h)))"
  shows "fval (es_combined_score (endpoint_score_of b (k, h)))
    < fval (es_combined_score (endpoint_score_of (update_measured [] b) (k, h)))"
proof -
  define est where "est = es_combined_score (endpoint_score_of (update_measured [] b) (k, h))"
  have ok: "board_ok (update_measured [] b)" using assms(1) by (simp add: board_ok_def update_measured_def)
  have "in_range (2 powi 72) est"
    unfolding est_def by (rule combined_range [OF ok]) (use assms(2) in \<open>simp add: update_measured_def\<close>)
  moreover have "in_range 1 m"
    using assms(1,4) hm_get_in [OF assms(3)] by (auto simp: board_ok_def in_range_def)
  moreover have "es_combined_score (endpoint_score_of b (k, h)) = blend score_weights_default (Some m) est"
    using assms(1,3) by (simp add: endpoint_score_of_def est_def update_measured_def board_ok_def blend_def [of _ None] Let_def)
  ultimately show ?thesis using blend_measured_less assms(5) by (simp add: est_def)
qed

end
