(* ===== verification/Plugin.thy ===== *)
theory Plugin
  imports Kanrin_Prelude Std_Text
begin

text \<open>
  The plugin runtime of \<open>kanrin-plugin\<close>: the interface types (\<open>api.rs\<close>) and how plugins are loaded and
  invoked (\<open>runtime.rs\<close>). The WebAssembly engine is the parameter \<open>wasm_ops\<close> over an abstract instance, JSON
  the parameter \<open>plugin_codec\<close>.
\<close>

section \<open>The interface\<close>

datatype plugin_hook = PreEncrypt | PostDecrypt | RouteDecision | OnConnect | OnDisconnect | OnTick

datatype plugin_permission = ReadPackets | ModifyPackets | RoutingPermission | NetworkInfo | Logging

record plugin_manifest =
  mf_name :: string
  mf_version :: string
  mf_author :: string
  mf_description :: string
  mf_hooks :: "plugin_hook list"
  mf_permissions :: "plugin_permission list"

datatype packet_direction = Outgoing | Incoming

datatype plugin_event =
    PacketEvent packet_direction bytes
  | RouteQuery "string option" string u16
  | ConnectionEvent string string bool
  | TickEvent u64 u64 u64

datatype plugin_response = Pass | Modified bytes | DropPacket | RouteResponse string

datatype plugin_error =
  LoadFailed string | ExecutionError string | InvalidManifest string | PermissionDenied string

fun display_plugin_error :: "plugin_error \<Rightarrow> string" where
  "display_plugin_error (LoadFailed s) = ''failed to load plugin: '' @ s"
| "display_plugin_error (ExecutionError s) = ''plugin execution error: '' @ s"
| "display_plugin_error (InvalidManifest s) = ''invalid manifest: '' @ s"
| "display_plugin_error (PermissionDenied s) = ''permission denied: '' @ s"

section \<open>The engine and the codec\<close>

text \<open>
  What the runtime asks of an instance \<open>'i\<close> (with its store): whether it exports a memory, writing to and
  reading from the start of that memory, whether it exports a function of the hooks' type, and calling
  it with the offset 0 and a length.
\<close>

record 'i wasm_ops =
  wo_has_memory :: "'i \<Rightarrow> bool"
  wo_write :: "bytes \<Rightarrow> 'i \<Rightarrow> (string + unit) \<times> 'i"
  wo_read :: "nat \<Rightarrow> 'i \<Rightarrow> string + bytes"
  wo_has_func :: "string \<Rightarrow> 'i \<Rightarrow> bool"
  wo_call :: "string \<Rightarrow> u32 \<Rightarrow> u32 \<Rightarrow> 'i \<Rightarrow> (string + u32) \<times> 'i"

record plugin_codec =
  pc_event :: "plugin_event \<Rightarrow> string + bytes"
  pc_response :: "bytes \<Rightarrow> string + plugin_response"

record 'i plugin =
  pg_manifest :: plugin_manifest
  pg_instance :: 'i

section \<open>Invoking a hook\<close>

fun hook_name :: "plugin_hook \<Rightarrow> string" where
  "hook_name PreEncrypt = ''on_pre_encrypt''"
| "hook_name PostDecrypt = ''on_post_decrypt''"
| "hook_name RouteDecision = ''on_route''"
| "hook_name OnConnect = ''on_connect''"
| "hook_name OnDisconnect = ''on_disconnect''"
| "hook_name OnTick = ''on_tick''"

text \<open>After the call: \<open>result_len\<close> is an \<open>i32\<close>.\<close>

definition read_response ::
  "'i wasm_ops \<Rightarrow> plugin_codec \<Rightarrow> u32 \<Rightarrow> 'i \<Rightarrow> plugin_error + plugin_response" where
  "read_response w c result_len i =
     (if sint result_len \<le> 0 then Ok Pass
      else case wo_read w (nat (sint result_len)) i of
        Inl e \<Rightarrow> Err (ExecutionError (''read response: '' @ e))
      | Inr buf \<Rightarrow>
          (case pc_response c buf of
             Inl e \<Rightarrow> Err (ExecutionError (''deserialize response: '' @ e))
           | Inr response \<Rightarrow> Ok response))"

definition call_hook ::
  "'i wasm_ops \<Rightarrow> plugin_codec \<Rightarrow> string \<Rightarrow> nat \<Rightarrow> 'i \<Rightarrow> (plugin_error + plugin_response) \<times> 'i" where
  "call_hook w c name event_len i =
     (if \<not> wo_has_func w name i then (Err (ExecutionError (''function '' @ [CHR 0x27] @ name @ [CHR 0x27] @ '' not found'')), i)
      else case wo_call w name 0 (word_of_nat event_len) i of
        (Inl e, i') \<Rightarrow> (Err (ExecutionError (''call '' @ name @ '': '' @ e)), i')
      | (Inr result_len, i') \<Rightarrow> (read_response w c result_len i', i'))"

definition plugin_invoke ::
  "'i wasm_ops \<Rightarrow> plugin_codec \<Rightarrow> plugin_hook \<Rightarrow> plugin_event \<Rightarrow> 'i plugin \<Rightarrow>
    (plugin_error + plugin_response) \<times> 'i plugin" where
  "plugin_invoke w c hook event p =
     (if hook \<notin> set (mf_hooks (pg_manifest p)) then (Ok Pass, p)
      else case pc_event c event of
        Inl e \<Rightarrow> (Err (ExecutionError (''serialize event: '' @ e)), p)
      | Inr event_json \<Rightarrow>
          if \<not> wo_has_memory w (pg_instance p) then (Err (ExecutionError ''no memory export''), p)
          else if 65536 < length event_json then (Err (ExecutionError ''event too large''), p)
          else case wo_write w event_json (pg_instance p) of
            (Inl e, i) \<Rightarrow> (Err (ExecutionError (''memory write: '' @ e)), p\<lparr>pg_instance := i\<rparr>)
          | (Inr _, i) \<Rightarrow>
              (case call_hook w c (hook_name hook) (length event_json) i of
                 (r, i') \<Rightarrow> (r, p\<lparr>pg_instance := i'\<rparr>)))"

section \<open>The runtime\<close>

text \<open>The function \<open>env.log\<close> a plugin can call, up to the message it logs. \<open>len as usize\<close> sign-extends; \<open>None\<close>
  is the panic of \<open>vec![0u8; n]\<close> for more than \<open>isize::MAX\<close> bytes. \<open>read\<close> is reading at an offset.\<close>

definition host_log ::
  "bool \<Rightarrow> (nat \<Rightarrow> nat \<Rightarrow> string + bytes) \<Rightarrow> (bytes \<Rightarrow> string option) \<Rightarrow> u32 \<Rightarrow> u32 \<Rightarrow> string option option" where
  "host_log has_memory read decode ptr len =
     (if \<not> has_memory then Some None
      else if 2 ^ 63 \<le> unat (scast len :: u64) then None
      else case read (unat (scast ptr :: u64)) (unat (scast len :: u64)) of
        Inl _ \<Rightarrow> Some None
      | Inr buf \<Rightarrow> Some (decode buf))"

record ('m, 'i) plugin_loader =
  pl_engine :: "string + unit"
  pl_compile :: "string \<Rightarrow> string + 'm"
  pl_link :: "string + unit"
  pl_instantiate :: "'m \<Rightarrow> string + 'i"

type_synonym 'i plugin_runtime = "'i plugin list"

definition runtime_new :: "('m, 'i) plugin_loader \<Rightarrow> plugin_error + 'i plugin_runtime" where
  "runtime_new l = (case pl_engine l of Inl e \<Rightarrow> Err (LoadFailed (''engine init: '' @ e)) | Inr _ \<Rightarrow> Ok [])"

definition load_plugin ::
  "('m, 'i) plugin_loader \<Rightarrow> string \<Rightarrow> plugin_manifest \<Rightarrow> 'i plugin_runtime \<Rightarrow>
    (plugin_error + unit) \<times> 'i plugin_runtime" where
  "load_plugin l wasm_path manifest plugins =
     (case pl_compile l wasm_path of
        Inl e \<Rightarrow> (Err (LoadFailed (''compile: '' @ e)), plugins)
      | Inr module \<Rightarrow>
          (case pl_link l of
             Inl e \<Rightarrow> (Err (LoadFailed (''linker: '' @ e)), plugins)
           | Inr _ \<Rightarrow>
               (case pl_instantiate l module of
                  Inl e \<Rightarrow> (Err (LoadFailed (''instantiate: '' @ e)), plugins)
                | Inr inst \<Rightarrow> (Ok (), plugins @ [\<lparr>pg_manifest = manifest, pg_instance = inst\<rparr>]))))"

fun invoke_each ::
  "'i wasm_ops \<Rightarrow> plugin_codec \<Rightarrow> plugin_hook \<Rightarrow> plugin_event \<Rightarrow> 'i plugin list \<Rightarrow>
    plugin_response list \<Rightarrow> plugin_response list \<times> 'i plugin list" where
  "invoke_each w c hook event [] responses = (responses, [])"
| "invoke_each w c hook event (p # ps) responses =
     (case plugin_invoke w c hook event p of
        (Inr response, p') \<Rightarrow>
          (case invoke_each w c hook event ps (responses @ [response]) of (rs, ps') \<Rightarrow> (rs, p' # ps'))
      | (Inl _, p') \<Rightarrow> (case invoke_each w c hook event ps responses of (rs, ps') \<Rightarrow> (rs, p' # ps')))"

definition invoke_all ::
  "'i wasm_ops \<Rightarrow> plugin_codec \<Rightarrow> plugin_hook \<Rightarrow> plugin_event \<Rightarrow> 'i plugin_runtime \<Rightarrow>
    plugin_response list \<times> 'i plugin_runtime" where
  "invoke_all w c hook event plugins = invoke_each w c hook event plugins []"

definition plugin_names :: "'i plugin_runtime \<Rightarrow> string list" where
  "plugin_names plugins = map (\<lambda>p. mf_name (pg_manifest p)) plugins"

section \<open>What plugins can do\<close>

lemma plugin_invoke_manifest: "pg_manifest (snd (plugin_invoke w c hook event p)) = pg_manifest p"
  by (auto simp: plugin_invoke_def split: sum.split prod.split)

text \<open>A plugin sees only the hooks its manifest lists.\<close>

lemma plugin_invoke_unlisted: "hook \<notin> set (mf_hooks (pg_manifest p)) \<Longrightarrow> plugin_invoke w c hook event p = (Ok Pass, p)"
  by (simp add: plugin_invoke_def)

text \<open>Plugins are isolated from one another: invoking a hook on all of them gives exactly the answers of
  those that do not fail, in order, and leaves each plugin as if it had been invoked alone; a plugin whose
  manifest does not list the hook is not run.\<close>

lemma invoke_all_isolated:
  "invoke_all w c hook event plugins =
     (List.map_filter (\<lambda>p. case fst (plugin_invoke w c hook event p) of Inr r \<Rightarrow> Some r | Inl _ \<Rightarrow> None) plugins,
      map (\<lambda>p. if hook \<in> set (mf_hooks (pg_manifest p)) then snd (plugin_invoke w c hook event p) else p) plugins)"
proof -
  have "invoke_each w c hook event plugins rs =
      (rs @ List.map_filter (\<lambda>p. case fst (plugin_invoke w c hook event p) of Inr r \<Rightarrow> Some r | Inl _ \<Rightarrow> None) plugins,
       map (\<lambda>p. snd (plugin_invoke w c hook event p)) plugins)" for rs
    by (induction plugins arbitrary: rs) (auto simp: map_filter_simps split: sum.split prod.split)
  moreover have "snd (plugin_invoke w c hook event p) =
      (if hook \<in> set (mf_hooks (pg_manifest p)) then snd (plugin_invoke w c hook event p) else p)" for p
    by (simp add: plugin_invoke_unlisted)
  ultimately show ?thesis by (simp add: invoke_all_def)
qed

text \<open>The permissions a manifest asks for have no effect: a plugin that was granted none is given the same
  events, packets included, and its answers count the same as those of one that was granted all.\<close>

lemma permissions_unused:
  "let (r, p') = plugin_invoke w c hook event p;
       (r', q') = plugin_invoke w c hook event (p\<lparr>pg_manifest := (pg_manifest p)\<lparr>mf_permissions := perms\<rparr>\<rparr>)
   in r' = r \<and> pg_instance q' = pg_instance p'"
  by (auto simp: plugin_invoke_def Let_def split: sum.split prod.split)

text \<open>A plugin can stop the client: calling the host's \<open>log\<close> function with a negative length panics.\<close>

lemma host_log_negative_panics:
  "host_log True read decode ptr len = None \<longleftrightarrow> sint len < 0"
proof -
  have r: "- (2 ^ 31) \<le> sint len" "sint len < 2 ^ 31" using sint_greater_eq [of len] sint_less [of len] by simp_all
  have "uint (scast len :: u64) = sint len mod 2 ^ 64" unfolding scast_eq by (simp only: uint_word_of_int) simp
  moreover have "sint len mod 2 ^ 64 = (if sint len < 0 then sint len + 2 ^ 64 else sint len)"
  proof (cases "sint len < 0")
    case True
    have "(sint len + 2 ^ 64) mod 2 ^ 64 = sint len + 2 ^ 64" using r True by (intro mod_pos_pos_trivial) simp_all
    then show ?thesis using True by simp
  next
    case False
    then show ?thesis using r by (simp add: mod_pos_pos_trivial)
  qed
  ultimately have "2 ^ 63 \<le> uint (scast len :: u64) \<longleftrightarrow> sint len < 0" using r by simp
  moreover have "2 ^ 63 \<le> unat w \<longleftrightarrow> 2 ^ 63 \<le> uint w" for w :: u64
  proof -
    have "int (2 ^ 63) \<le> int (unat w) \<longleftrightarrow> 2 ^ 63 \<le> unat w" by (simp only: of_nat_le_iff)
    then show ?thesis by simp
  qed
  ultimately have "2 ^ 63 \<le> unat (scast len :: u64) \<longleftrightarrow> sint len < 0" by blast
  then show ?thesis unfolding host_log_def by (simp split: sum.split del: of_nat_unat)
qed

end
