(* ===== verification/Server_Main.thy ===== *)
theory Server_Main
  imports Server_Lifecycle Server_Frontdoor Server_Origin Tun_Device
begin

text \<open>
  The server program around its connections: the TLS listener (\<open>kanrin-server/src/listener.rs\<close>), the order
  in which \<open>main.rs\<close> brings the server up, its accept loop, and the commands that write a configuration or
  a certificate. Files, the PEM parser, rustls, rcgen and sockets are parameters; a TLS handshake may also
  never end.
\<close>

section \<open>The listener\<close>

text \<open>\<open>'c\<close> is a certificate, \<open>'k\<close> a private key, \<open>'t\<close> rustls's configuration.\<close>

record ('c, 'k, 't) listen_env =
  le_open :: "path \<Rightarrow> string + bytes"
  le_certs :: "bytes \<Rightarrow> string + 'c list"
  le_private_key :: "bytes \<Rightarrow> string + 'k option"
  le_single_cert :: "'c list \<Rightarrow> 'k \<Rightarrow> string + 't"
  le_bind :: "string \<Rightarrow> string + unit"
  le_display :: "path \<Rightarrow> string"

record 't listener =
  ls_tls :: 't
  ls_alpn :: "string list"
  ls_addr :: string

definition load_certs :: "('c, 'k, 't) listen_env \<Rightarrow> path \<Rightarrow> string + 'c list" where
  "load_certs env path =
     and_then (le_open env path) (\<lambda>file.
     and_then (le_certs env file) (\<lambda>certs.
       if certs = [] then Err (''no certificates found in '' @ le_display env path) else Ok certs))"

definition load_key :: "('c, 'k, 't) listen_env \<Rightarrow> path \<Rightarrow> string + 'k" where
  "load_key env path =
     and_then (le_open env path) (\<lambda>file.
     and_then (le_private_key env file) (\<lambda>key.
       case key of Some k \<Rightarrow> Ok k | None \<Rightarrow> Err (''no private key found in '' @ le_display env path)))"

definition listener_bind :: "('c, 'k, 't) listen_env \<Rightarrow> server_config \<Rightarrow> string + 't listener" where
  "listener_bind env config =
     and_then (load_certs env (sc_tls_cert config)) (\<lambda>certs.
     and_then (load_key env (sc_tls_key config)) (\<lambda>key.
     and_then (le_single_cert env certs key) (\<lambda>tls.
     and_then (le_bind env (sc_listen config)) (\<lambda>_.
       Ok \<lparr>ls_tls = tls, ls_alpn = [''h2'', ''http/1.1''], ls_addr = sc_listen config\<rparr>))))"

text \<open>What the sockets deliver, in order: a failed \<open>accept\<close>, or a TCP connection with the outcome of its TLS
  handshake. The handshake of a peer that stays silent has no outcome: nothing bounds it in time.\<close>

datatype 's handshake_end = HandshakeDone 's | HandshakeFailed string | HandshakeStalled

datatype 's arrival = TcpError string | TcpConnection string "'s handshake_end"

datatype 's accepted = AcceptedStream 's string | AcceptError string | Waiting

fun listener_accept :: "'s arrival list \<Rightarrow> 's accepted \<times> 's arrival list" where
  "listener_accept [] = (Waiting, [])"
| "listener_accept (TcpError e # rest) = (AcceptError e, rest)"
| "listener_accept (TcpConnection peer (HandshakeDone s) # rest) = (AcceptedStream s peer, rest)"
| "listener_accept (TcpConnection peer (HandshakeFailed e) # rest) = listener_accept rest"
| "listener_accept (TcpConnection peer HandshakeStalled # rest) = (Waiting, TcpConnection peer HandshakeStalled # rest)"

lemma listener_accept_smaller: "AcceptedStream s peer = fst (listener_accept as) \<Longrightarrow> length (snd (listener_accept as)) < length as"
  by (induction as rule: listener_accept.induct) auto

text \<open>The accept loop of \<open>main\<close>. A stream is dropped when the server has its maximum of clients or no
  address is left, and otherwise served under the address reserved for it; an accept error leaves the
  program (\<open>?\<close>). The other tasks of the server run on while the loop waits for a connection: \<open>others i\<close> is
  what they do to the server before its \<open>i\<close>-th stream is handled. The result lists the streams with what became of each.\<close>

datatype loop_end = LoopFailed string | LoopWaiting

datatype stream_end = Served ipv4 | MaxClients | PoolExhausted

definition stream_handled :: "server \<Rightarrow> stream_end" where
  "stream_handled s =
     (if sv_active s \<ge> sv_max_clients s then MaxClients
      else case fst (allocate (sv_alloc s)) of
        None \<Rightarrow> PoolExhausted
      | Some assigned_ip \<Rightarrow> Served assigned_ip)"

function accept_loop ::
  "(nat \<Rightarrow> server \<Rightarrow> server) \<Rightarrow> nat \<Rightarrow> 's arrival list \<Rightarrow> server \<Rightarrow> ('s \<times> stream_end) list \<times> server \<times> loop_end" where
  "accept_loop others i as s =
     (case listener_accept as of
        (Waiting, _) \<Rightarrow> ([], s, LoopWaiting)
      | (AcceptError e, _) \<Rightarrow> ([], s, LoopFailed e)
      | (AcceptedStream st peer, rest) \<Rightarrow>
          let before = others i s in
          (case accept_loop others (Suc i) rest (accept_connection before) of
             (streams, s', r) \<Rightarrow> ((st, stream_handled before) # streams, s', r)))"
  by pat_completeness auto

termination
  by (relation "measure (\<lambda>(others, i, as, s). length as)") (auto dest: listener_accept_smaller simp: prod_eq_iff)

declare accept_loop.simps [simp del]

section \<open>Bringing the server up\<close>

definition server_tun_config :: tun_config where
  "server_tun_config =
     \<lparr>tc_name = ''kanrin0'', tc_address = IPv4 0x0A0A0001, tc_netmask = IPv4 0xFFFFFF00,
      tc_gateway = IPv4 0x0A0A0001, tc_dns = [], tc_mtu = 1400\<rparr>"

text \<open>The TUN device comes first, then the listener; an error in either leaves the program.\<close>

definition server_start ::
  "crypto_ops \<Rightarrow> platform \<Rightarrow> tun_env \<Rightarrow> ('c, 'k, 't) listen_env \<Rightarrow> server_config \<Rightarrow> sys_log \<Rightarrow>
    (string + tun_device \<times> 't listener \<times> admitter \<times> server) \<times> sys_log" where
  "server_start C target tenv lenv config log =
     (case tun_create target tenv server_tun_config log of
        (Inl e, log') \<Rightarrow> (Err (display_tun_error e), log')
      | (Inr tun, log') \<Rightarrow>
          (case listener_bind lenv config of
             Inl e \<Rightarrow> (Err e, log')
           | Inr l \<Rightarrow> (Ok (tun, l, admitter_new C (sc_password config), server_init (sc_max_clients config)), log')))"

section \<open>The commands that write files\<close>

definition quoted :: "string \<Rightarrow> string" where
  "quoted s = [CHR 0x22] @ s @ [CHR 0x22]"

definition em_dash :: string where
  "em_dash = [CHR 0xE2, CHR 0x80, CHR 0x94]"

definition server_template :: "string list" where
  "server_template = [
      ''# Kanrin Server Configuration'',
      ''# Harbor '' @ em_dash @ '' exit node'',
      [],
      ''# Listen address'',
      ''listen: '' @ quoted ''0.0.0.0:443'',
      [],
      ''# Shared secret (change this!)'',
      ''password: '' @ quoted ''change-me-to-a-strong-password'',
      [],
      ''# TLS certificate and key (PEM format)'',
      ''# Generate with: kanrin-server --gen-cert'',
      ''tls_cert: '' @ quoted ''cert.pem'',
      ''tls_key: '' @ quoted ''key.pem'',
      [],
      ''# Maximum concurrent clients'',
      ''max_clients: 256'',
      [],
      ''# Log level: trace, debug, info, warn, error'',
      ''log_level: '' @ quoted ''info'',
      [],
      ''# DNS servers for forwarding'',
      ''dns:'',
      ''  - '' @ quoted ''1.1.1.1'',
      ''  - '' @ quoted ''8.8.8.8'']"

definition text_of_lines :: "string list \<Rightarrow> bytes" where
  "text_of_lines ls = as_bytes (concat (map (\<lambda>l. l @ [CHR 0x0A]) ls))"

text \<open>\<open>debug_path\<close> is the \<open>Debug\<close> format of a path. The outcome is that of the program: an error ends it with
  a message. What the two commands print is left out.\<close>

definition server_cmd_init ::
  "sys_env \<Rightarrow> (string \<Rightarrow> bool) \<Rightarrow> (string \<Rightarrow> string) \<Rightarrow> string \<Rightarrow> sys_log \<Rightarrow> (string + unit) \<times> sys_log" where
  "server_cmd_init env exists debug_path config_path log =
     (if exists config_path then (Err (''file already exists: '' @ debug_path config_path), log)
      else write_file env config_path (text_of_lines server_template) log)"

text \<open>\<open>generate\<close> is what rcgen makes of the names: the certificate and its key, in PEM.\<close>

definition server_cmd_gen_cert ::
  "sys_env \<Rightarrow> (string list \<Rightarrow> string + string \<times> string) \<Rightarrow> sys_log \<Rightarrow> (string + unit) \<times> sys_log" where
  "server_cmd_gen_cert env generate log =
     (case generate [''kanrin-server''] of
        Inl e \<Rightarrow> (Err e, log)
      | Inr (cert_pem, key_pem) \<Rightarrow>
          (case write_file env ''cert.pem'' (as_bytes cert_pem) log of
             (Inl e, log') \<Rightarrow> (Err e, log')
           | (Inr _, log') \<Rightarrow> write_file env ''key.pem'' (as_bytes key_pem) log'))"

record server_cli =
  cli_config :: string
  cli_gen_cert :: bool
  cli_init :: bool

datatype server_command = InitConfig | GenCert | Serve

definition server_command_of :: "server_cli \<Rightarrow> server_command" where
  "server_command_of cli = (if cli_init cli then InitConfig else if cli_gen_cert cli then GenCert else Serve)"

section \<open>Properties\<close>

text \<open>An existing configuration is never overwritten.\<close>

lemma server_cmd_init_keeps: "exists p \<Longrightarrow> snd (server_cmd_init env exists debug_path p log) = log"
  by (simp add: server_cmd_init_def)

text \<open>What does not hold the listener up, and what it hands on.\<close>

fun settled :: "'s arrival \<Rightarrow> bool" where
  "settled (TcpError e) = False"
| "settled (TcpConnection peer HandshakeStalled) = False"
| "settled (TcpConnection peer _) = True"

fun completed :: "'s arrival list \<Rightarrow> 's list" where
  "completed [] = []"
| "completed (TcpConnection peer (HandshakeDone s) # rest) = s # completed rest"
| "completed (_ # rest) = completed rest"

lemma accept_loop_simps [simp]:
  "accept_loop others i [] s = ([], s, LoopWaiting)"
  "accept_loop others i (TcpError e # rest) s = ([], s, LoopFailed e)"
  "accept_loop others i (TcpConnection peer HandshakeStalled # rest) s = ([], s, LoopWaiting)"
  "accept_loop others i (TcpConnection peer (HandshakeFailed e) # rest) s = accept_loop others i rest s"
  by (simp_all add: accept_loop.simps [of _ _ "_ # _"] accept_loop.simps [of _ _ "[]"] accept_loop.simps [of _ _ rest])

lemma accept_loop_Done:
  "accept_loop others i (TcpConnection peer (HandshakeDone st) # rest) s =
     (case accept_loop others (Suc i) rest (accept_connection (others i s)) of
        (streams, s', r) \<Rightarrow> ((st, stream_handled (others i s)) # streams, s', r))"
  by (subst accept_loop.simps) (simp add: Let_def)

text \<open>What one turn of the loop does with a stream, before it and after it.\<close>

definition stream_step :: "server \<Rightarrow> stream_end \<Rightarrow> server \<Rightarrow> bool" where
  "stream_step before what after \<longleftrightarrow>
     (if sv_max_clients before \<le> sv_active before then what = MaxClients \<and> after = before
      else if al_freed (sv_alloc before) = [] \<and> 254 \<le> al_next (sv_alloc before) then what = PoolExhausted \<and> after = before
      else \<exists>ip al. allocate (sv_alloc before) = (Some ip, al) \<and> what = Served ip \<and>
        after = before\<lparr>sv_alloc := al, sv_conns := sv_conns before @ [Reserved ip], sv_active := sv_active before + 1\<rparr>)"

lemma stream_step_accept: "stream_step s (stream_handled s) (accept_connection s)"
  by (simp add: stream_step_def stream_handled_def accept_connection_def allocate_def)

text \<open>The states between the turns.\<close>

lemma accept_loop_states:
  assumes "accept_loop others i as s = (streams, s', r)"
  shows "\<exists>ss. length ss = Suc (length streams) \<and> ss ! 0 = s \<and> last ss = s' \<and>
    (\<forall>k < length streams. stream_step (others (i + k) (ss ! k)) (snd (streams ! k)) (ss ! Suc k))"
  using assms
proof (induction as arbitrary: i s streams)
  case Nil
  then show ?case by (intro exI [of _ "[s]"]) simp
next
  case (Cons a as)
  have none: ?case if "streams = []" "s' = s" using that by (intro exI [of _ "[s]"]) simp
  show ?case
  proof (cases a)
    case (TcpError e)
    then show ?thesis using Cons.prems none by simp
  next
    case (TcpConnection peer h)
    show ?thesis
    proof (cases h)
      case (HandshakeDone st)
      let ?b = "others i s"
      obtain rest where rest: "accept_loop others (Suc i) as (accept_connection ?b) = (rest, s', r)"
        "streams = (st, stream_handled ?b) # rest"
        using Cons.prems TcpConnection HandshakeDone by (auto simp: accept_loop_Done split: prod.splits)
      obtain ss where ss: "length ss = Suc (length rest)" "ss ! 0 = accept_connection ?b" "last ss = s'"
        "\<forall>k < length rest. stream_step (others (Suc i + k) (ss ! k)) (snd (rest ! k)) (ss ! Suc k)"
        using Cons.IH [OF rest(1)] by blast
      have "stream_step (others (i + k) ((s # ss) ! k)) (snd (streams ! k)) ((s # ss) ! Suc k)" if "k < length streams" for k
        using that ss rest(2) stream_step_accept [of ?b] by (cases k) auto
      then show ?thesis using ss rest(2) by (intro exI [of _ "s # ss"]) auto
    next
      case (HandshakeFailed e)
      then show ?thesis using Cons.prems TcpConnection Cons.IH by simp
    next
      case HandshakeStalled
      then show ?thesis using Cons.prems TcpConnection none by simp
    qed
  qed
qed

lemma accept_loop_streams:
  "map fst (fst (accept_loop others i as s)) = completed (takeWhile settled as) \<and>
   snd (snd (accept_loop others i as s)) =
     (case dropWhile settled as of TcpError e # _ \<Rightarrow> LoopFailed e | _ \<Rightarrow> LoopWaiting)"
proof (induction as arbitrary: i s)
  case (Cons a as)
  show ?case
  proof (cases a)
    case (TcpConnection peer h)
    then show ?thesis using Cons by (cases h) (simp_all add: accept_loop_Done case_prod_beta)
  qed simp
qed simp

text \<open>C35. The streams the server handles are exactly those that finish their TLS handshake before anything goes
  wrong at the listener, in order: one peer that connects and then stays silent keeps every later one
  out, and one failed \<open>accept\<close> ends the server. Whatever the other tasks do to the server in between, the
  stream handled in a state \<open>before\<close> is served exactly if there are fewer clients than the maximum and an
  address was given back or one of the 252 was never used; then it gets the address the pool hands out, and the server counts one
  more client with that address reserved. Otherwise it is dropped and the server stays as it was.\<close>

theorem accept_loop_serves:
  assumes "accept_loop others 0 as s = (streams, s', r)"
  shows "map fst streams = completed (takeWhile settled as) \<and>
   r = (case dropWhile settled as of TcpError e # _ \<Rightarrow> LoopFailed e | _ \<Rightarrow> LoopWaiting) \<and>
   (\<exists>ss. length ss = Suc (length streams) \<and> ss ! 0 = s \<and> last ss = s' \<and>
     (\<forall>k < length streams. let before = others k (ss ! k); what = snd (streams ! k); after = ss ! Suc k in
        if sv_max_clients before \<le> sv_active before then what = MaxClients \<and> after = before
        else if al_freed (sv_alloc before) = [] \<and> 254 \<le> al_next (sv_alloc before) then what = PoolExhausted \<and> after = before
        else \<exists>ip al. allocate (sv_alloc before) = (Some ip, al) \<and> what = Served ip \<and>
          after = before\<lparr>sv_alloc := al, sv_conns := sv_conns before @ [Reserved ip], sv_active := sv_active before + 1\<rparr>))"
  using accept_loop_streams [of others 0 as s] accept_loop_states [OF assms] assms
  by (simp add: stream_step_def Let_def)

text \<open>A server for one client: the second stream finds it full, the third comes after the first has left.\<close>

definition demo_others :: "nat \<Rightarrow> server \<Rightarrow> server" where
  "demo_others i s = (if i = 2 then (connection_finished 0x0A0A0002 (Inr AddressUnused) s)\<lparr>sv_conns := []\<rparr> else s)"

definition demo_arrivals :: "nat arrival list" where
  "demo_arrivals = [TcpConnection ''a'' (HandshakeDone 1), TcpConnection ''b'' (HandshakeFailed ''x''),
     TcpConnection ''c'' (HandshakeDone 2), TcpConnection ''d'' (HandshakeDone 3), TcpError ''e'', TcpConnection ''f'' (HandshakeDone 4)]"

theorem accept_loop_serves_witness:
  "\<exists>streams s'. accept_loop demo_others 0 demo_arrivals (server_init 1) = (streams, s', LoopFailed ''e'') \<and>
     map fst streams = [1, 2, 3] \<and> map snd streams = [Served 0x0A0A0002, MaxClients, Served 0x0A0A0002]"
proof -
  obtain streams s' r where run: "accept_loop demo_others 0 demo_arrivals (server_init 1) = (streams, s', r)"
    by (metis prod_cases3)
  have "map snd (fst (accept_loop demo_others 0 demo_arrivals (server_init 1))) = [Served 0x0A0A0002, MaxClients, Served 0x0A0A0002]"
    by (simp add: demo_arrivals_def accept_loop_Done case_prod_beta stream_handled_def demo_others_def accept_connection_def
        server_init_def allocate_def allocator_new_def connection_finished_def release_ip_def word_le_nat_alt word_less_nat_alt Let_def)
  with accept_loop_serves [OF run] run show ?thesis by (simp add: demo_arrivals_def)
qed

end
