(* ===== verification/Cli.thy ===== *)
theory Cli
  imports Client_Lifecycle Engine_Discovery Server_Main
begin

text \<open>
  The command line of the client, \<open>kanrin-cli/src/main.rs\<close>: what each command prints, and how it ends.
  Parsing arguments is the work of clap, reading YAML that of serde; the \<open>Debug\<close> format of strings and
  paths is a parameter.
\<close>

datatype cli_command = Connect | Detect | Validate | InitTemplate

record cli =
  ci_config :: string
  ci_log_level :: string
  ci_command :: cli_command

datatype output_line = Out string | Eprint string

text \<open>How the process ends: \<open>main\<close> returns, with an error or without, or \<open>std::process::exit\<close>.\<close>

datatype cli_exit = Returned "string + unit" | Exited nat

section \<open>Connecting\<close>

definition debug_list :: "(string \<Rightarrow> string) \<Rightarrow> string list \<Rightarrow> string" where
  "debug_list dbg xs = ''['' @ join '', '' (map dbg xs) @ '']''"

text \<open>One event of the client.\<close>

fun print_event :: "(string \<Rightarrow> string) \<Rightarrow> kanrin_event \<Rightarrow> output_line list" where
  "print_event dbg (StateChanged st) = [Out (''[*] State: '' @ debug_client_state st)]"
| "print_event dbg (ConnectedEvent name ep ms) =
     [Out (''[+] Connected via '' @ name @ '' to '' @ ep @ '' ('' @ decimal (unat ms) @ ''ms)'')]"
| "print_event dbg (TransportSwitched src dst why) =
     [Out (''[~] Transport switched: '' @ src @ '' -> '' @ dst @ '' ('' @ why @ '')'')]"
| "print_event dbg (CensorshipDetectedEvent st suggested) =
     [Out (''[!] Censorship: '' @ st @ '' '' @ em_dash @ '' suggested: '' @ debug_list dbg suggested)]"
| "print_event dbg (StatsUpdate tx rx uptime ms) =
     [Out (''    TX: '' @ decimal (unat (tx div 1024)) @ '' KB | RX: '' @ decimal (unat (rx div 1024)) @
       '' KB | Uptime: '' @ decimal (unat uptime) @ ''s'')]"
| "print_event dbg (ErrorEvent e) = [Eprint (''[!] Error: '' @ e)]"
| "print_event dbg _ = []"

text \<open>What the loop waits for. The channel of events never closes while the client lives.\<close>

datatype cli_input = Event kanrin_event | CtrlC

fun connect_loop :: "(string \<Rightarrow> string) \<Rightarrow> cli_input list \<Rightarrow> output_line list \<times> bool" where
  "connect_loop dbg [] = ([], False)"
| "connect_loop dbg (Event e # rest) = (case connect_loop dbg rest of (ls, ended) \<Rightarrow> (print_event dbg e @ ls, ended))"
| "connect_loop dbg (CtrlC # rest) = ([Out [], Out ''[*] Disconnecting...''], True)"

definition connect_greeting :: "kanrin_config \<Rightarrow> output_line" where
  "connect_greeting config =
     Out (''[*] Kanrin '' @ em_dash @ '' connecting to '' @ cs_address (kc_server config) @ '':'' @
       decimal (unat (cs_port (kc_server config))))"

text \<open>\<open>None\<close> for the outcome: the loop still waits. \<open>running\<close> is what the pipeline does to the client until the
  loop ends, \<open>joined\<close> the outcome of joining the blocking thread that stops the client.\<close>

definition cmd_connect ::
  "(string \<Rightarrow> string) \<Rightarrow> string + kanrin_config \<Rightarrow> string + unit \<Rightarrow> cli_input list \<Rightarrow> (kanrin_client \<Rightarrow> kanrin_client) \<Rightarrow>
    (kanrin_client \<Rightarrow> kanrin_client) \<Rightarrow> bool \<Rightarrow> string + unit \<Rightarrow> output_line list \<times> cli_exit option \<times> kanrin_client option" where
  "cmd_connect dbg from_file built inputs running task yielded joined =
     (case from_file of
        Inl e \<Rightarrow> ([], Some (Returned (Err (''config error: '' @ e))), None)
      | Inr config \<Rightarrow>
          let hello = connect_greeting config;
              client = snd (take_events (client_new config))
          in (case start built client of
                (Inl e, c) \<Rightarrow> ([hello], Some (Returned (Err (display_client_error e))), Some c)
              | (Inr _, c) \<Rightarrow>
                  (case connect_loop dbg inputs of
                     (ls, False) \<Rightarrow> (hello # ls, None, Some (running c))
                   | (ls, True) \<Rightarrow>
                       (case joined of
                          Inl e \<Rightarrow> (hello # ls, Some (Returned (Err (''join: '' @ e))), Some (running c))
                        | Inr _ \<Rightarrow>
                            (case stop task yielded (running c) of
                               (Inl e, c') \<Rightarrow> (hello # ls, Some (Returned (Err (display_client_error e))), Some c')
                             | (Inr _, c') \<Rightarrow>
                                 (hello # ls @ [Out ''[*] Disconnected.''], Some (Returned (Ok ())), Some c'))))))"

section \<open>The other commands\<close>

definition cmd_detect :: "(string \<Rightarrow> string) \<Rightarrow> probe_net \<Rightarrow> network_detector \<Rightarrow> output_line list" where
  "cmd_detect dbg net d =
     (let r = detect net d in
      [Out ''[*] Running network detection...'',
       Out ''[*] Results:'',
       Out (''    State: '' @ debug_censorship (dr_state r)),
       Out (''    UDP:   '' @ (if dr_udp_available r then ''available'' else ''BLOCKED'')),
       Out (''    TCP:   '' @ (if dr_tcp_available r then ''available'' else ''BLOCKED'')),
       Out (''    DNS:   '' @ (if dr_dns_clean r then ''clean'' else ''POISONED'')),
       Out (''    Suggested transports: '' @ debug_list dbg (suggest_transport (dr_state r)))])"

definition display_bool :: "bool \<Rightarrow> string" where
  "display_bool b = (if b then ''true'' else ''false'')"

definition cmd_validate :: "string + kanrin_config \<Rightarrow> output_line list \<times> cli_exit" where
  "cmd_validate from_file =
     (case from_file of
        Inr config \<Rightarrow>
          ([Out ''[+] Config is valid!'',
            Out (''    Server: '' @ cs_address (kc_server config) @ '':'' @ decimal (unat (cs_port (kc_server config)))),
            Out (''    Kill switch: '' @ display_bool (ts_kill_switch (kc_tun config))),
            Out (''    Iran preset: '' @ display_bool (rc_iran_preset (kc_routing config)))],
           Returned (Ok ()))
      | Inl e \<Rightarrow> ([Eprint (''[!] Config error: '' @ e)], Exited 1))"

definition client_template :: "string list" where
  "client_template = [
      ''# Kanrin Configuration'',
      ''# The ship that crossed the silence'',
      [],
      ''server:'',
      ''  address: '' @ quoted ''your-server.example.com'',
      ''  port: 443'',
      ''  password: '' @ quoted ''your-secret-password'',
      ''  # sni: '' @ quoted ''cover-domain.com'' @ ''  # Optional SNI override'',
      [],
      ''# All options below have sensible defaults '' @ em_dash @ '' you can omit them.'',
      [],
      ''# transport:'',
      ''#   preferred: ['' @ quoted ''quic'' @ '', '' @ quoted ''tls-tcp'' @ '', '' @ quoted ''websocket'' @ '']'',
      ''#   auto_switch: true'',
      [],
      ''# tun:'',
      ''#   kill_switch: true'',
      ''#   allow_lan: true'',
      [],
      ''# routing:'',
      ''#   iran_preset: true'',
      ''#   default_action: '' @ quoted ''proxy'',
      [],
      ''# stealth:'',
      ''#   traffic_pattern: '' @ quoted ''adaptive'',
      ''#   fragment: true'']"

definition cli_cmd_init ::
  "sys_env \<Rightarrow> (string \<Rightarrow> bool) \<Rightarrow> (string \<Rightarrow> string) \<Rightarrow> string \<Rightarrow> sys_log \<Rightarrow> (output_line list \<times> cli_exit) \<times> sys_log" where
  "cli_cmd_init env exists debug_path config_path log =
     (if exists config_path then (([Eprint (''[!] File already exists: '' @ debug_path config_path)], Exited 1), log)
      else case write_file env config_path (text_of_lines client_template) log of
        (Inl e, log') \<Rightarrow> (([], Returned (Err e)), log')
      | (Inr _, log') \<Rightarrow>
          (([Out (''[+] Config template created: '' @ debug_path config_path),
             Out ''    Edit the server section with your server details.''], Returned (Ok ())), log'))"

section \<open>Properties\<close>

lemma connect_loop_ends: "snd (connect_loop dbg inputs) \<longleftrightarrow> CtrlC \<in> set inputs"
  by (induction dbg inputs rule: connect_loop.induct) (auto split: prod.split)

text \<open>What is printed is what happened before the interrupt.\<close>

definition events_until_interrupt :: "cli_input list \<Rightarrow> kanrin_event list" where
  "events_until_interrupt inputs = map (\<lambda>i. case i of Event e \<Rightarrow> e) (takeWhile (\<lambda>i. i \<noteq> CtrlC) inputs)"

lemma connect_loop_prints:
  "fst (connect_loop dbg inputs) =
     concat (map (print_event dbg) (events_until_interrupt inputs)) @
     (if CtrlC \<in> set inputs then [Out [], Out ''[*] Disconnecting...''] else [])"
  by (induction dbg inputs rule: connect_loop.induct) (auto simp: events_until_interrupt_def split: prod.split)

text \<open>Once the client has started, the connect command ends only when it is interrupted: no event ends it, not
  even the error of a connection that failed for good, and after the interrupt it always reports success. Until
  then it has printed the client's events in order.\<close>

lemma connect_ends_on_interrupt:
  "case cmd_connect dbg (Ok config) (Ok ()) inputs running task yielded (Ok ()) of (ls, outcome, c) \<Rightarrow>
     (outcome = None \<longleftrightarrow> CtrlC \<notin> set inputs) \<and>
     (outcome \<noteq> None \<longleftrightarrow> outcome = Some (Returned (Ok ()))) \<and>
     (\<exists>farewell. ls = connect_greeting config # concat (map (print_event dbg) (events_until_interrupt inputs)) @ farewell)"
proof -
  obtain ls ended where l: "connect_loop dbg inputs = (ls, ended)" by (cases "connect_loop dbg inputs")
  have ended: "ended \<longleftrightarrow> CtrlC \<in> set inputs" using connect_loop_ends [of dbg inputs] l by simp
  have ls: "\<exists>farewell. ls = concat (map (print_event dbg) (events_until_interrupt inputs)) @ farewell"
    using connect_loop_prints [of dbg inputs] l by auto
  have "\<exists>c. start (Ok ()) (snd (take_events (client_new config))) = (Ok (), c)"
    by (simp add: start_def take_events_def client_new_def Let_def)
  then obtain c where start: "start (Ok ()) (snd (take_events (client_new config))) = (Ok (), c)" by blast
  obtain c' where stop: "stop task yielded (running c) = (Ok (), c')" by (cases "cl_state (running c) = Disconnected") (auto simp: stop_def)
  have r: "cmd_connect dbg (Ok config) (Ok ()) inputs running task yielded (Ok ()) =
      (if ended then (connect_greeting config # ls @ [Out ''[*] Disconnected.''], Some (Returned (Ok ())), Some c')
       else (connect_greeting config # ls, None, Some (running c)))"
    by (cases ended) (simp_all add: cmd_connect_def start l stop Let_def)
  show ?thesis unfolding r using ended ls by (cases ended) auto
qed

end
