(* ===== verification/Spec2Isabelle.thy ===== *)
theory Spec2Isabelle
  imports
    Continuity
    Wire_Proxy
    Server_Serve
    Client_Tunnel
    Server_Entry
    Routing
    Client_Run
    Stealth
    Multipath
    Engine_Scores
    Plugin
    Server_Main
    Cli
begin

text \<open>
  A verification development for the Kanrin core (\<open>kanrin-core/crates\<close>): a tunnel for IP packets
  that is to stay up while the transport, the server or the network path below it changes.

  \<^bold>\<open>The program.\<close> The client (\<open>kanrin-client\<close>, with the command line
  \<open>kanrin-cli\<close>) creates a TUN device, directs the machine's traffic into it
  (\<open>kanrin-tun\<close>), connects to the server over one of several transports
  (\<open>kanrin-transport\<close>), authenticates, and then carries packets as encrypted, numbered chunks
  (\<open>kanrin-protocol\<close>). The server (\<open>kanrin-server\<close>) answers every connection as an
  ordinary web site; a request with a valid, unused authenticator enters the tunnel and either starts a session
  or resumes one. A session outlives its connections: each side keeps what it sent until it is acknowledged and
  puts what it receives into order, so a client that has lost its transport prepares another, resumes the
  session on it and replays what is missing. Around this core are censorship detection and ranking of endpoints
  (\<open>kanrin-engine\<close>), routing rules (\<open>kanrin-routing\<close>), traffic shaping
  (\<open>kanrin-stealth\<close>), plugins (\<open>kanrin-plugin\<close>) and the multipath scheduler of the
  client.

  \<^bold>\<open>Conventions.\<close> Every definition that models code bears the source's name, with a prefix
  where names of several types would clash.

  \<^item> A struct is a \<open>record\<close>, an enum a \<open>datatype\<close>; a method that takes
    \<open>&mut self\<close> returns the new state beside its result.

  \<^item> \<open>Result<T, E>\<close> is \<open>'e + 'a\<close> with \<open>Err\<close> and \<open>Ok\<close>;
    \<open>?\<close> is \<open>and_then\<close> or a \<open>case\<close>. Where the code can panic, the result
    is an \<open>option\<close> with \<open>None\<close> for the panic.

  \<^item> Fixed-width integers are words, so that arithmetic wraps as in a release build; \<open>usize\<close>
    values that are lengths of vectors in memory are \<open>nat\<close>. A \<open>usize\<close> that comes from
    outside wraps too: a configured fragment size, and the \<open>Content-Length\<close> of an upstream
    (\<open>usize_add\<close>).

  \<^item> \<open>f64\<close> and \<open>f32\<close> are the type \<open>float64\<close> of
    \<^theory_text>\<open>Std_Float\<close>, whose operations round; settings that are only carried are bit
    patterns.

  \<^item> Strings are their UTF-8 bytes.

  \<^item> Clock readings, random bytes and the answers of the environment are arguments.

  \<^item> An asynchronous function is the sequence of its sections between await points, and tasks that run
    side by side are a step relation or a list of events in any order; a receive operation also has the form in
    which it is dropped before it is ready. A lock held within one section is the atomicity of that section.

  \<^bold>\<open>Foundations.\<close> \<^theory_text>\<open>Kanrin_Prelude\<close> (words, results, byte
  layouts, slices), \<^theory_text>\<open>Std_Text\<close>, \<^theory_text>\<open>Std_Strings\<close>,
  \<^theory_text>\<open>Std_Net\<close>, \<^theory_text>\<open>Std_Collections\<close>,
  \<^theory_text>\<open>Std_Iter\<close>, \<^theory_text>\<open>Std_Float\<close> and
  \<^theory_text>\<open>Std_Process\<close> are what the sources use of Rust's standard library: UTF-8 and
  formatting, string methods, addresses, \<open>BTreeMap\<close>, \<open>HashMap\<close> and sorting,
  \<open>max_by\<close> and \<open>min_by\<close>, IEEE 754 arithmetic, and commands and files.
  \<^theory_text>\<open>Codec\<close> has the contract of message formats.

  \<^bold>\<open>Protocol\<close> (\<open>kanrin-protocol\<close>). \<^theory_text>\<open>Protocol_Error\<close>
  is \<open>error.rs\<close>; \<^theory_text>\<open>Crypto_Prims\<close> is \<open>crypto.rs\<close>;
  \<^theory_text>\<open>Wire_Chunk\<close>, \<^theory_text>\<open>Wire_Control\<close> and
  \<^theory_text>\<open>Wire_Proxy\<close> are \<open>wire.rs\<close>: chunks and framing, control messages,
  proxy requests; \<^theory_text>\<open>Handshake_Msgs\<close> and \<^theory_text>\<open>Handshake\<close> are
  \<open>handshake.rs\<close>; \<^theory_text>\<open>Session\<close> is \<open>session.rs\<close>;
  \<^theory_text>\<open>Resumption\<close> is \<open>resume.rs\<close>;
  \<^theory_text>\<open>Continuity_Send\<close>, \<^theory_text>\<open>Continuity_Recv\<close> and
  \<^theory_text>\<open>Continuity_Replay\<close> are \<open>continuity.rs\<close>. The codecs are shown to be
  round trips and, the proxy requests apart, to accept nothing but encodings; sealing and opening a chunk are
  inverse, and what opens was sealed under that key, header and sequence; a session never seals two chunks with one
  key and nonce.
  The specification of the send buffer is \<open>release\<close> (drop the chunks a predicate names), that of
  the receive buffer the set of sequences received and the stream delivered (\<open>recv_set\<close>,
  \<open>recv_stream\<close>); each operation refines them. \<^theory_text>\<open>Continuity\<close> puts both
  halves together over a network that loses, repeats and reorders (\<open>pipe_step\<close>): what is delivered
  is a prefix of what was sent, nothing is released that the receiver lacks, and from every reachable state a
  replay completes the stream. This is what the library offers to a caller that sends only what the send buffer
  retained and numbers nothing but data. The two ends of the program do neither, as
  \<^theory_text>\<open>Client_Tunnel\<close> (\<open>gate_leaves_gap\<close>) and
  \<^theory_text>\<open>Server_Serve\<close> show.

  \<^bold>\<open>Transports\<close> (\<open>kanrin-transport\<close>). \<^theory_text>\<open>Transport\<close>
  is \<open>error.rs\<close> and \<open>traits.rs\<close> with the registry;
  \<^theory_text>\<open>Transport_Tls\<close>, \<^theory_text>\<open>Transport_WebSocket\<close> and
  \<^theory_text>\<open>Transport_Quic\<close> are the three implementations.
  \<^theory_text>\<open>Transport_Recv\<close> states what a receiver owes a caller that drops its future: TLS
  and WebSocket keep the promise, QUIC does not.

  \<^bold>\<open>Server\<close> (\<open>kanrin-server\<close>). \<^theory_text>\<open>Server_Alloc\<close> is
  \<open>IpAllocator\<close> of \<open>session.rs\<close>; \<^theory_text>\<open>Server_Registry\<close> is
  \<open>registry.rs\<close> and \<open>forwarder.rs\<close>; \<^theory_text>\<open>Server_Http\<close>,
  \<^theory_text>\<open>Server_Frontdoor\<close> and \<^theory_text>\<open>Server_Origin\<close> are
  \<open>http.rs\<close>, \<open>frontdoor.rs\<close>, and \<open>origin.rs\<close> with
  \<open>config.rs\<close>; \<^theory_text>\<open>Server_Session\<close> and
  \<^theory_text>\<open>Server_Serve\<close> are \<open>session.rs\<close> before and after a connection carries
  data; \<^theory_text>\<open>Server_Lifecycle\<close> and \<^theory_text>\<open>Server_Main\<close> are
  \<open>main.rs\<close> and \<open>listener.rs\<close>. Shown are the exclusive use of tunnel addresses in
  every interleaving of accepting, committing, ending and reaping; that an authenticator is admitted once; that
  files outside the served directory are out of reach; that the framing of an upstream response does not depend
  on how reads cut it; that a packet reaches its own client only; which of the accepted streams are served,
  whatever the other tasks do in between; and a refinement of \<open>run_tunnel\<close> by steps on addresses and sessions.

  \<^bold>\<open>Client\<close> (\<open>kanrin-client\<close>). \<^theory_text>\<open>Client_Config\<close>,
  \<^theory_text>\<open>Client_Lifecycle\<close> (\<open>lib.rs\<close>, \<open>events.rs\<close>,
  \<open>ffi.rs\<close>), \<^theory_text>\<open>Client_Posture\<close>,
  \<^theory_text>\<open>Client_Switch\<close> (\<open>switch.rs\<close>) and
  \<^theory_text>\<open>Multipath\<close> follow their files. \<open>pipeline.rs\<close> is divided over
  \<^theory_text>\<open>Client_Startup\<close> (detection to connection),
  \<^theory_text>\<open>Client_System\<close> (device, routes, kill switch) and
  \<^theory_text>\<open>Client_Pipeline\<close> (handshake and the branches of the main loop);
  \<^theory_text>\<open>Client_Tunnel\<close> has the loop's invariant, when acknowledgements leave
  (\<open>acks_in_time\<close>) and what a switch keeps and changes,
  and \<^theory_text>\<open>Client_Run\<close> composes the phases into \<open>run_pipeline\<close>: however it
  ends or is dropped, the machine's default route is as before, and what the client reports of its end.
  \<^theory_text>\<open>Cli\<close> is \<open>kanrin-cli/src/main.rs\<close>. For multipath, measurements stay
  sane under every sequence of events, and a window of assignments is within one chunk above and the number of
  paths below each path's share.

  \<^bold>\<open>Both sides together.\<close> \<^theory_text>\<open>Tunnel_Handshake\<close> and
  \<^theory_text>\<open>Tunnel_Resume\<close> run the client's and the server's definitions on each other's
  frames, the latter also with the reaper in between; \<^theory_text>\<open>Server_Entry\<close> joins the
  front door, the tunnel and what a client really writes to its TLS connection.

  \<^bold>\<open>The machine and the network.\<close> \<^theory_text>\<open>Tun_Packet\<close>
  (\<open>packet.rs\<close>, \<open>nat.rs\<close>), \<^theory_text>\<open>Tun_Dns\<close>,
  \<^theory_text>\<open>Tun_Device\<close>, \<^theory_text>\<open>Tun_Routes\<close> (\<open>routing.rs\<close>)
  and \<^theory_text>\<open>Tun_Killswitch\<close> are \<open>kanrin-tun\<close>;
  \<^theory_text>\<open>Routing\<close> is \<open>kanrin-routing\<close>;
  \<^theory_text>\<open>Engine_Discovery\<close> (\<open>bootstrap.rs\<close>, \<open>detection.rs\<close>) and
  \<^theory_text>\<open>Engine_Scores\<close> (\<open>prober.rs\<close>, \<open>scoreboard.rs\<close>,
  \<open>switcher.rs\<close>) are \<open>kanrin-engine\<close>; \<^theory_text>\<open>Stealth\<close> is
  \<open>kanrin-stealth\<close>; \<^theory_text>\<open>Plugin\<close> is \<open>kanrin-plugin\<close>.

  \<^bold>\<open>Interfaces.\<close>

  \<^item> \<open>prefix_codec\<close> and its extension \<open>exact_codec\<close>, interpreted on every
    message format.

  \<^item> \<open>keyed_store\<close>, the laws of a keyed container on which byte accounting and counting rest,
    on \<open>BTreeMap\<close> and \<open>HashMap\<close>.

  \<^item> \<open>address_pool\<close>, what the server's life cycle needs of the allocator.

  \<^item> \<open>priority_registry\<close>, on transports and routing rules.

  \<^item> \<open>cancel_safe\<close>, on the TLS and WebSocket receivers.

  \<^item> \<open>invertible\<close>, on the stealth modules.

  \<^item> \<open>preference\<close>, a total preorder by which \<open>max_by\<close>, \<open>min_by\<close> or
    a sort choose, on credits, round-trip times and scores.

  \<^bold>\<open>Parameters.\<close> Code outside the repository is an argument. \<open>crypto_ops\<close> has
  the primitives, with the hypotheses \<open>aead_lawful\<close>, \<open>aead_tight\<close>,
  \<open>hkdf_lawful\<close>, \<open>hmac_lawful\<close> and \<open>dh_lawful\<close> where a property needs
  them and \<open>demo_crypto\<close> as an instance on which they hold; \<open>tls_ops\<close>,
  \<open>ws_ops\<close>, \<open>quic_ops\<close>, \<open>wasm_ops\<close>, \<open>plugin_codec\<close>,
  \<open>tun_env\<close> and \<open>sys_env\<close> stand for rustls and TCP, tungstenite, quinn, the
  WebAssembly engine, JSON, the TUN drivers, and the commands of the operating system. An upstream web server,
  the file system, the resolver, rcgen and the PEM parser are functions.

  \<^bold>\<open>Bounds and loops.\<close> Loops over data recurse on it. The loop over frames of a connection
  recurses on what the peer sends, the replay on the chunks that remain, \<open>fragment\<close> is partial
  (with fragment sizes of at least one whose sum with the length stays within \<open>2 ^ 64\<close> it returns,
  with zero it does not, and a sum that overflows is a panic), the accept loop recurses on the
  events of the listener; no definition has an artificial bound. Where a property has numeric hypotheses they
  are far above what the code meets: fewer than \<open>2 ^ 64 - 2\<close> sequence numbers in a session (a
  session refuses to go further), chunks below \<open>2 ^ 64\<close> bytes and round trips below \<open>2 ^
  32\<close> seconds for the measurements of a path (whose capacity then stays at most \<open>2 ^ 74\<close>),
  and for the proportional assignment at most 4096 paths with shares that are multiples of \<open>1 / 2 ^
  40\<close>, for which every credit is a multiple of the same fraction below \<open>2 ^ 13\<close> and hence
  exact in \<open>f64\<close>.

  \<^bold>\<open>Not modelled.\<close> Logging. Parsing and printing YAML, JSON and command-line arguments,
  which serde and clap derive. The scheduling of tokio beyond the interleavings above, so nothing is said of
  fairness or of time spent. Pointers and memory in the C interface beyond null checks. The optional behaviour
  of sockets (buffers, keep-alive). What \<open>--init\<close> and \<open>--gen-cert\<close> print. Test code,
  documentation, and the deployment script.
\<close>

end
